(* ===== verification/Led_Data.thy ===== *)
theory Led_Data
  imports Prelude
begin

text \<open>
  The data of the LED pipeline, \<^verbatim>\<open>bmc-led/src/data.rs\<close>, \<^verbatim>\<open>bmc-led/src/config.rs\<close> and the
  LED part of \<^verbatim>\<open>bmc-widget-protocol/src/types.rs\<close>: colours, effects, scenes, commands to the
  strip, and the byte codes of effects and scopes on the widget wire.
  Brightness is a 32-bit float in the source and a real here; only its clamping is used.
\<close>

section \<open>Effects, scenes and commands\<close>

record rgb =
  rgb_r :: u8
  rgb_g :: u8
  rgb_b :: u8

definition rgb_new :: "u8 \<Rightarrow> u8 \<Rightarrow> u8 \<Rightarrow> rgb" where
  "rgb_new r g b = \<lparr>rgb_r = r, rgb_g = g, rgb_b = b\<rparr>"

datatype led_effect =
    NoEffect
  | Chase rgb
  | KnightRider rgb
  | Scan rgb
  | Snake rgb
  | Breathe rgb
  | Solid rgb

record led_scene =
  effect :: led_effect
  period :: "duration option"
  scene_duration :: "duration option"

datatype led_command =
    Disable
  | Enable
  | SetBrightness real
  | SetEffect led_scene

datatype led_event =
    DeviceInitializing | DeviceReady
  | WifiConnecting | WifiConnected | WifiNone | WifiError | WifiScan | WifiScanEnded
  | PriceUp | PriceUpEnded | PriceDown | PriceDownEnded
  | ClockAlarm | ClockAlarmEnded
  | DownloadOrUpgradeStarted | DownloadOrUpgradeSuccess
  | DownloadOrUpgradeError | DownloadOrUpgradeEnded

section \<open>Wire codes of effects and scopes\<close>

datatype led_effect_kind = KChase | KKnightRider | KScan | KSnake | KBreathe | KSolid

fun led_effect_kind_code :: "led_effect_kind \<Rightarrow> u8" where
  "led_effect_kind_code KChase = 0"
| "led_effect_kind_code KKnightRider = 1"
| "led_effect_kind_code KScan = 2"
| "led_effect_kind_code KSnake = 3"
| "led_effect_kind_code KBreathe = 4"
| "led_effect_kind_code KSolid = 5"

definition led_effect_kind_try_from :: "u8 \<Rightarrow> u8 + led_effect_kind" where
  "led_effect_kind_try_from v =
     (if v = 0 then Inr KChase
      else if v = 1 then Inr KKnightRider
      else if v = 2 then Inr KScan
      else if v = 3 then Inr KSnake
      else if v = 4 then Inr KBreathe
      else if v = 5 then Inr KSolid
      else Inl v)"

datatype led_scope = ScopeLocal | ScopeGlobal

fun led_scope_code :: "led_scope \<Rightarrow> u8" where
  "led_scope_code ScopeLocal = 0"
| "led_scope_code ScopeGlobal = 1"

definition led_scope_try_from :: "u8 \<Rightarrow> u8 + led_scope" where
  "led_scope_try_from v =
     (if v = 0 then Inr ScopeLocal else if v = 1 then Inr ScopeGlobal else Inl v)"

section \<open>Constants\<close>

definition rgb_violet60 :: rgb where "rgb_violet60 = rgb_new 107 80 255"
definition rgb_green :: rgb where "rgb_green = rgb_new 0 255 0"
definition rgb_red :: rgb where "rgb_red = rgb_new 255 0 0"
definition rgb_orange :: rgb where "rgb_orange = rgb_new 255 122 13"
definition rgb_white :: rgb where "rgb_white = rgb_new 255 255 255"

definition error_duration :: duration where "error_duration = from_secs 2"
definition success_duration :: duration where "success_duration = from_secs 2"
definition knight_rider_period :: duration where "knight_rider_period = from_secs 1"
definition breathe_period :: duration where "breathe_period = from_secs 4"

abbreviation none_scene :: led_scene where
  "none_scene \<equiv> \<lparr>effect = NoEffect, period = None, scene_duration = None\<rparr>"

section \<open>Lemmas\<close>

lemma led_effect_kind_roundtrip:
  "led_effect_kind_try_from v = Inr k \<longleftrightarrow> v = led_effect_kind_code k"
  by (cases k) (auto simp: led_effect_kind_try_from_def)

lemma led_scope_roundtrip: "led_scope_try_from v = Inr s \<longleftrightarrow> v = led_scope_code s"
  by (cases s) (auto simp: led_scope_try_from_def)

lemma led_effect_kind_all:
  "(\<forall>k. P k) \<longleftrightarrow> P KChase \<and> P KKnightRider \<and> P KScan \<and> P KSnake \<and> P KBreathe \<and> P KSolid"
  by (metis led_effect_kind.exhaust)

lemma led_scope_all: "(\<forall>s. P s) \<longleftrightarrow> P ScopeLocal \<and> P ScopeGlobal"
  by (metis led_scope.exhaust)

lemma led_effect_kind_error:
  "led_effect_kind_try_from v = Inl w \<longleftrightarrow> w = v \<and> (\<forall>k. v \<noteq> led_effect_kind_code k)"
  unfolding led_effect_kind_all by (auto simp: led_effect_kind_try_from_def)

lemma led_scope_error: "led_scope_try_from v = Inl w \<longleftrightarrow> w = v \<and> (\<forall>s. v \<noteq> led_scope_code s)"
  unfolding led_scope_all by (auto simp: led_scope_try_from_def)

end
