(* ===== verification/Led_Coordinator.thy ===== *)
theory Led_Coordinator
  imports Led_Data
begin

text \<open>
  The LED output arbiter of \<^verbatim>\<open>bmc/src/led_coordinator.rs\<close>: four prioritised layers, the pure
  core \<open>pick\<close> / \<open>next_command\<close> / \<open>on_sent\<close>, and the task of \<open>spawn_led_coordinator\<close> as a step
  relation in which the producers that publish through the \<open>watch\<close> channel interleave freely
  with the task. The channel keeps the latest desired state and an unseen mark, which
  \<open>send_modify\<close> sets and \<open>borrow_and_update\<close> clears. The state of the task records the commands
  handed to the strip worker, in order.
\<close>

section \<open>Layers and the coordinator\<close>

datatype layer = LSystem | LPreview | LLocalScene | LGlobalAmbient

fun layer_index :: "layer \<Rightarrow> nat" where
  "layer_index LSystem = 0"
| "layer_index LPreview = 1"
| "layer_index LLocalScene = 2"
| "layer_index LGlobalAmbient = 3"

definition layer_all :: "layer list" where
  "layer_all = [LSystem, LPreview, LLocalScene, LGlobalAmbient]"

record led_coordinator =
  lc_layers :: "led_scene option list"
  lc_enabled :: bool
  applied :: "(layer \<times> led_scene) option"
  output_enabled :: bool

record desired_state =
  desired_layers :: "led_scene option list"
  desired_enabled :: bool

definition desired_default :: desired_state where
  "desired_default =
     \<lparr>desired_layers = replicate (length layer_all) None, desired_enabled = True\<rparr>"

definition handle_publish :: "layer \<Rightarrow> led_scene option \<Rightarrow> desired_state \<Rightarrow> desired_state" where
  "handle_publish l scene d =
     d\<lparr>desired_layers := (desired_layers d)[layer_index l := scene]\<rparr>"

definition handle_set_enabled :: "bool \<Rightarrow> desired_state \<Rightarrow> desired_state" where
  "handle_set_enabled e d = d\<lparr>desired_enabled := e\<rparr>"

definition coordinator_new :: led_coordinator where
  "coordinator_new =
     \<lparr>lc_layers = replicate (length layer_all) None, lc_enabled = True, applied = None,
      output_enabled = True\<rparr>"

definition apply_desired :: "desired_state \<Rightarrow> led_coordinator \<Rightarrow> led_coordinator" where
  "apply_desired d c = c\<lparr>lc_layers := desired_layers d, lc_enabled := desired_enabled d\<rparr>"

definition pick_layers :: "led_scene option list \<Rightarrow> (layer \<times> led_scene) option" where
  "pick_layers ls = find_map (\<lambda>l. map_option (\<lambda>s. (l, s)) (ls ! layer_index l)) layer_all"

definition pick :: "led_coordinator \<Rightarrow> (layer \<times> led_scene) option" where
  "pick c = pick_layers (lc_layers c)"

definition next_command ::
  "led_coordinator \<Rightarrow> (led_command \<times> (layer \<times> led_scene) option) option" where
  "next_command c =
     (if \<not> lc_enabled c \<and> output_enabled c then Some (Disable, None)
      else if lc_enabled c \<and> \<not> output_enabled c then Some (Enable, None)
      else if \<not> lc_enabled c then None
      else
        let p = pick c in
        if p = applied c then None
        else case p of
               Some (_, scene) \<Rightarrow> Some (SetEffect scene, p)
             | None \<Rightarrow> if applied c \<noteq> None then Some (SetEffect none_scene, None) else None)"

fun on_sent ::
  "led_command \<Rightarrow> (layer \<times> led_scene) option \<Rightarrow> led_coordinator \<Rightarrow> led_coordinator" where
  "on_sent Disable p c = c\<lparr>output_enabled := False\<rparr>"
| "on_sent Enable p c = c\<lparr>output_enabled := True, applied := None\<rparr>"
| "on_sent (SetEffect scene) p c =
     c\<lparr>applied := (if effect scene = NoEffect then None else p)\<rparr>"
| "on_sent (SetBrightness b) p c = c"

lemmas coordinator_defs [led_defs] =
  coordinator_new_def apply_desired_def pick_def next_command_def
  handle_publish_def handle_set_enabled_def desired_default_def

section \<open>The task\<close>

datatype task_pc =
    PcOuter
  | PcInner
  | PcSending led_command "(layer \<times> led_scene) option"
  | PcWaiting
  | PcStopped

record led_task =
  coord :: led_coordinator
  desired :: desired_state
  unseen :: bool
  sent :: "led_command list"
  pc :: task_pc

definition led_task_init :: led_task where
  "led_task_init =
     \<lparr>coord = coordinator_new, desired = desired_default, unseen = False, sent = [],
      pc = PcOuter\<rparr>"

definition refresh :: "led_task \<Rightarrow> led_task" where
  "refresh t = t\<lparr>coord := apply_desired (desired t) (coord t), unseen := False\<rparr>"

inductive led_step :: "led_task \<Rightarrow> led_task \<Rightarrow> bool" where
  publish:
    "led_step t (t\<lparr>desired := handle_publish l scene (desired t), unseen := True\<rparr>)"
| set_enabled:
    "led_step t (t\<lparr>desired := handle_set_enabled e (desired t), unseen := True\<rparr>)"
| outer:
    "pc t = PcOuter \<Longrightarrow> led_step t ((refresh t)\<lparr>pc := PcInner\<rparr>)"
| coalesce:
    "pc t = PcInner \<Longrightarrow> next_command (coord t) = Some (c, p) \<Longrightarrow> unseen t \<Longrightarrow>
     led_step t (refresh t)"
| start_send:
    "pc t = PcInner \<Longrightarrow> next_command (coord t) = Some (c, p) \<Longrightarrow> \<not> unseen t \<Longrightarrow>
     led_step t (t\<lparr>pc := PcSending c p\<rparr>)"
| send_ok:
    "pc t = PcSending c p \<Longrightarrow>
     led_step t ((refresh (t\<lparr>sent := sent t @ [c], coord := on_sent c p (coord t)\<rparr>))
                   \<lparr>pc := PcInner\<rparr>)"
| send_err:
    "pc t = PcSending c p \<Longrightarrow> led_step t (t\<lparr>pc := PcStopped\<rparr>)"
| settle:
    "pc t = PcInner \<Longrightarrow> next_command (coord t) = None \<Longrightarrow> led_step t (t\<lparr>pc := PcWaiting\<rparr>)"
| wake:
    "pc t = PcWaiting \<Longrightarrow> unseen t \<Longrightarrow> led_step t (t\<lparr>unseen := False, pc := PcOuter\<rparr>)"
| closed:
    "pc t = PcWaiting \<Longrightarrow> \<not> unseen t \<Longrightarrow> led_step t (t\<lparr>pc := PcStopped\<rparr>)"

inductive led_reachable :: "led_task \<Rightarrow> bool" where
  init: "led_reachable led_task_init"
| step: "led_reachable s \<Longrightarrow> led_step s t \<Longrightarrow> led_reachable t"

section \<open>What the strip has been told\<close>

fun wire_enabled :: "led_command list \<Rightarrow> bool \<Rightarrow> bool" where
  "wire_enabled [] e = e"
| "wire_enabled (Enable # cs) e = wire_enabled cs True"
| "wire_enabled (Disable # cs) e = wire_enabled cs False"
| "wire_enabled (c # cs) e = wire_enabled cs e"

fun wire_scene :: "led_command list \<Rightarrow> led_scene \<Rightarrow> led_scene" where
  "wire_scene [] s = s"
| "wire_scene (SetEffect s' # cs) s = wire_scene cs s'"
| "wire_scene (c # cs) s = wire_scene cs s"

lemma wire_enabled_snoc:
  "wire_enabled (cs @ [c]) e =
     (case c of Enable \<Rightarrow> True | Disable \<Rightarrow> False | _ \<Rightarrow> wire_enabled cs e)"
  by (induction cs e rule: wire_enabled.induct) (auto split: led_command.splits)

lemma wire_scene_snoc:
  "wire_scene (cs @ [c]) s = (case c of SetEffect s' \<Rightarrow> s' | _ \<Rightarrow> wire_scene cs s)"
  by (induction cs s rule: wire_scene.induct) (auto split: led_command.splits)

lemmas wire_snoc [simp] = wire_enabled_snoc wire_scene_snoc

section \<open>The pure core\<close>

lemma layer_all_index: "i < length layer_all \<Longrightarrow> layer_index (layer_all ! i) = i"
  by (auto simp: layer_all_def less_Suc_eq numeral_eq_Suc)

lemma layer_all_complete: "l \<in> set layer_all"
  by (cases l) (simp_all add: layer_all_def)

lemma layer_index_less: "layer_index l < length layer_all"
  by (cases l) (simp_all add: layer_all_def)

lemma layer_index_inj: "layer_index l = layer_index l' \<longleftrightarrow> l = l'"
  by (cases l; cases l') simp_all

lemma pick_layers_None: "pick_layers ls = None \<longleftrightarrow> (\<forall>l. ls ! layer_index l = None)"
  by (simp add: pick_layers_def layer_all_complete) (meson layer_all_complete)

lemma pick_layers_SomeD: "pick_layers ls = Some (l, s) \<Longrightarrow> ls ! layer_index l = Some s"
  by (auto simp: pick_layers_def dest!: find_map_SomeD)

text \<open>The picked layer is the filled one of least index.\<close>

lemma pick_layers_topmost:
  "pick_layers ls = Some (l, s) \<longleftrightarrow>
     ls ! layer_index l = Some s \<and> (\<forall>l'. layer_index l' < layer_index l \<longrightarrow> ls ! layer_index l' = None)"
  (is "_ \<longleftrightarrow> ?R")
proof -
  have all: "(\<forall>l'. P l') \<longleftrightarrow> P LSystem \<and> P LPreview \<and> P LLocalScene \<and> P LGlobalAmbient" for P
    by (metis layer.exhaust)
  show ?thesis
    by (cases l; simp only: all)
      (auto simp: pick_layers_def layer_all_def split: option.splits)
qed

definition layers_visible :: "led_scene option list \<Rightarrow> bool" where
  "layers_visible ls \<longleftrightarrow>
     length ls = length layer_all \<and> (\<forall>s. Some s \<in> set ls \<longrightarrow> effect s \<noteq> NoEffect)"

lemma layers_visible_pick:
  assumes "layers_visible ls" and "pick_layers ls = Some (l, s)"
  shows "effect s \<noteq> NoEffect"
proof -
  from assms(2) have "ls ! layer_index l = Some s" by (rule pick_layers_SomeD)
  moreover have "layer_index l < length ls"
    using assms(1) layer_index_less by (simp add: layers_visible_def)
  ultimately have "Some s \<in> set ls" by (metis nth_mem)
  with assms(1) show ?thesis by (simp add: layers_visible_def)
qed

lemma layers_visible_default: "layers_visible (desired_layers desired_default)"
  by (simp add: layers_visible_def desired_default_def)

lemma handle_publish_visible:
  assumes "layers_visible (desired_layers d)" and "\<And>s. scene = Some s \<Longrightarrow> effect s \<noteq> NoEffect"
  shows "layers_visible (desired_layers (handle_publish l scene d))"
  using assms set_update_subset_insert
  by (fastforce simp: layers_visible_def handle_publish_def)

text \<open>One send of the inner loop with nothing published in between.\<close>

definition send_once :: "led_coordinator \<Rightarrow> led_coordinator" where
  "send_once c = (case next_command c of None \<Rightarrow> c | Some (cmd, p) \<Rightarrow> on_sent cmd p c)"

lemma send_once_layers [simp]:
  "lc_layers (send_once c) = lc_layers c" "lc_enabled (send_once c) = lc_enabled c"
  by (auto simp: send_once_def next_command_def Let_def split: option.splits)

lemma pick_send_once [simp]: "pick (send_once c) = pick c"
  by (simp add: pick_def)

lemma send_once_settled: "next_command c = None \<Longrightarrow> send_once c = c"
  by (simp add: send_once_def)

text \<open>With the output switched as desired, one send brings the strip to the topmost scene.\<close>

lemma send_once_in_step:
  assumes "lc_enabled c = output_enabled c" and "layers_visible (lc_layers c)"
  shows "next_command (send_once c) = None"
proof (cases "lc_enabled c \<and> pick c \<noteq> applied c")
  case False
  with assms show ?thesis
    by (auto simp: send_once_def next_command_def Let_def)
next
  case True
  with assms(1) have en: "lc_enabled c" "output_enabled c" "pick c \<noteq> applied c" by auto
  show ?thesis
  proof (cases "pick c")
    case None
    with en show ?thesis
      by (auto simp: send_once_def next_command_def Let_def pick_def)
  next
    case (Some ls)
    obtain l s where ls: "ls = (l, s)" by (cases ls)
    with Some assms(2) have "effect s \<noteq> NoEffect"
      by (auto simp: pick_def dest: layers_visible_pick)
    with Some ls en show ?thesis
      by (auto simp: send_once_def next_command_def Let_def pick_def)
  qed
qed

lemma send_once_switches:
  assumes "lc_enabled c \<noteq> output_enabled c"
  shows "lc_enabled (send_once c) = output_enabled (send_once c)"
  using assms by (auto simp: send_once_def next_command_def)

end
