(* ===== verification/Led_Indicators.thy ===== *)
theory Led_Indicators
  imports Led_Data
begin

text \<open>
  The priority stack of system indicators, \<open>LedIndicatorsState\<close> of
  \<^verbatim>\<open>bmc-led/src/led_driver.rs\<close>: one slot per producer (device, clock, Wi-Fi, upgrade, scan,
  price) and one temporary slot with its own deadline. The clock reading the source takes with
  \<open>Instant::now\<close> is the argument \<open>now\<close>. The event loop of \<^verbatim>\<open>bmc/src/led.rs\<close> feeds this
  stack and publishes the resolved scene to the system layer of the coordinator.
\<close>

section \<open>State and operations\<close>

record led_indicators_state =
  wifi_persist :: "led_command option"
  temp_slot :: "led_command option"
  temp_deadline :: "instant option"
  wifi_scan_persist :: "led_command option"
  price_persist :: "led_command option"
  clock_persist :: "led_command option"
  device_persist :: "led_command option"
  sys_persist :: "led_command option"

definition led_indicators_new :: led_indicators_state where
  "led_indicators_new =
     \<lparr>wifi_persist = None, temp_slot = None, temp_deadline = None, wifi_scan_persist = None,
      price_persist = None, clock_persist = None, device_persist = None, sys_persist = None\<rparr>"

definition set_temp :: "led_scene \<Rightarrow> instant \<Rightarrow> led_indicators_state \<Rightarrow> led_indicators_state" where
  "set_temp scene now st =
     st\<lparr>temp_deadline := map_option (\<lambda>d. now + d) (scene_duration scene),
        temp_slot := Some (SetEffect scene)\<rparr>"

definition clear_temp :: "led_indicators_state \<Rightarrow> led_indicators_state" where
  "clear_temp st = st\<lparr>temp_slot := None, temp_deadline := None\<rparr>"

definition knight_rider_scene :: "rgb \<Rightarrow> led_scene" where
  "knight_rider_scene c =
     \<lparr>effect = KnightRider c, period = Some knight_rider_period, scene_duration = None\<rparr>"

definition breathe_scene :: "rgb \<Rightarrow> led_scene" where
  "breathe_scene c =
     \<lparr>effect = Breathe c, period = Some breathe_period, scene_duration = None\<rparr>"

definition solid_temp_scene :: "rgb \<Rightarrow> duration \<Rightarrow> led_scene" where
  "solid_temp_scene c d = \<lparr>effect = Solid c, period = None, scene_duration = Some d\<rparr>"

fun apply_event :: "led_event \<Rightarrow> instant \<Rightarrow> led_indicators_state \<Rightarrow> led_indicators_state" where
  "apply_event DeviceInitializing now st =
     st\<lparr>device_persist := Some (SetEffect (knight_rider_scene rgb_violet60))\<rparr>"
| "apply_event DeviceReady now st = st\<lparr>device_persist := None\<rparr>"
| "apply_event WifiConnecting now st =
     clear_temp (st\<lparr>wifi_persist := Some (SetEffect (knight_rider_scene rgb_violet60))\<rparr>)"
| "apply_event WifiConnected now st =
     set_temp (solid_temp_scene rgb_green success_duration) now (st\<lparr>wifi_persist := None\<rparr>)"
| "apply_event WifiNone now st =
     clear_temp (st\<lparr>wifi_persist := Some (SetEffect none_scene)\<rparr>)"
| "apply_event WifiError now st =
     clear_temp (st\<lparr>wifi_persist := Some (SetEffect none_scene)\<rparr>)"
| "apply_event WifiScan now st =
     clear_temp (st\<lparr>wifi_scan_persist := Some (SetEffect (knight_rider_scene rgb_violet60))\<rparr>)"
| "apply_event WifiScanEnded now st = st\<lparr>wifi_scan_persist := None\<rparr>"
| "apply_event PriceUp now st =
     st\<lparr>price_persist := Some (SetEffect (breathe_scene rgb_green))\<rparr>"
| "apply_event PriceDown now st =
     st\<lparr>price_persist := Some (SetEffect (breathe_scene rgb_red))\<rparr>"
| "apply_event PriceUpEnded now st = st\<lparr>price_persist := None\<rparr>"
| "apply_event PriceDownEnded now st = st\<lparr>price_persist := None\<rparr>"
| "apply_event ClockAlarm now st =
     st\<lparr>clock_persist := Some (SetEffect (breathe_scene rgb_orange))\<rparr>"
| "apply_event ClockAlarmEnded now st = st\<lparr>clock_persist := None\<rparr>"
| "apply_event DownloadOrUpgradeStarted now st =
     st\<lparr>sys_persist := Some (SetEffect (knight_rider_scene rgb_orange))\<rparr>"
| "apply_event DownloadOrUpgradeSuccess now st =
     set_temp (solid_temp_scene rgb_green success_duration) now (st\<lparr>sys_persist := None\<rparr>)"
| "apply_event DownloadOrUpgradeError now st =
     set_temp (solid_temp_scene rgb_red error_duration) now (st\<lparr>sys_persist := None\<rparr>)"
| "apply_event DownloadOrUpgradeEnded now st = st\<lparr>sys_persist := None\<rparr>"

definition any_persist_active :: "led_indicators_state \<Rightarrow> bool" where
  "any_persist_active st \<longleftrightarrow>
     device_persist st \<noteq> None \<or> clock_persist st \<noteq> None \<or> wifi_persist st \<noteq> None \<or>
     sys_persist st \<noteq> None \<or> price_persist st \<noteq> None \<or> wifi_scan_persist st \<noteq> None"

definition or_opt :: "'a option \<Rightarrow> 'a option \<Rightarrow> 'a option" where
  "or_opt a b = (case a of Some x \<Rightarrow> Some x | None \<Rightarrow> b)"

definition select_persistent :: "bool \<Rightarrow> led_indicators_state \<Rightarrow> led_command option" where
  "select_persistent temp_present st =
     (if temp_present then
        or_opt (or_opt (device_persist st) (clock_persist st))
          (if any_persist_active st then None else Some (SetEffect none_scene))
      else
        or_opt (or_opt (or_opt (or_opt (or_opt (or_opt
          (device_persist st) (clock_persist st)) (wifi_persist st)) (sys_persist st))
          (wifi_scan_persist st)) (price_persist st)) (Some (SetEffect none_scene)))"

definition scene_of_command :: "led_command option \<Rightarrow> led_scene option" where
  "scene_of_command c = (case c of Some (SetEffect scene) \<Rightarrow> Some scene | _ \<Rightarrow> None)"

definition current_scene_at ::
  "instant \<Rightarrow> led_indicators_state \<Rightarrow> led_scene option \<times> led_indicators_state" where
  "current_scene_at now st =
     (let st = (case temp_deadline st of
                  Some deadline \<Rightarrow> if deadline \<le> now then clear_temp st else st
                | None \<Rightarrow> st);
          resolved = (case temp_slot st of
                        Some (SetEffect scene) \<Rightarrow> Some scene
                      | _ \<Rightarrow> scene_of_command (select_persistent False st))
      in (case resolved of
            Some s \<Rightarrow> if effect s = NoEffect then None else Some s
          | None \<Rightarrow> None, st))"

text \<open>
  One turn of the event loop of \<open>spawn_event_loop\<close>: an event or the temporary deadline
  re-resolves the stack, and the result is what \<open>publish (Layer::System, scene)\<close> carries.
\<close>

datatype loop_input = LoopEvent led_event | LoopExpiry

fun system_loop_turn ::
  "loop_input \<Rightarrow> instant \<Rightarrow> led_indicators_state \<Rightarrow> led_scene option \<times> led_indicators_state" where
  "system_loop_turn (LoopEvent e) now st = current_scene_at now (apply_event e now st)"
| "system_loop_turn LoopExpiry now st = current_scene_at now st"

definition idle_expiry :: duration where
  "idle_expiry = from_secs (8760 * 3600)"

definition next_wakeup :: "instant \<Rightarrow> led_indicators_state \<Rightarrow> instant" where
  "next_wakeup now st =
     (case temp_deadline st of Some deadline \<Rightarrow> deadline | None \<Rightarrow> now + idle_expiry)"

fun system_loop_run ::
  "(loop_input \<times> instant) list \<Rightarrow> led_indicators_state \<Rightarrow> led_indicators_state" where
  "system_loop_run [] st = st"
| "system_loop_run ((i, now) # is) st = system_loop_run is (snd (system_loop_turn i now st))"

section \<open>Invariant\<close>

text \<open>
  Every slot holds a \<open>SetEffect\<close>; the temporary slot and its deadline are set together, since
  each temporary scene of the stack carries a duration; and only the Wi-Fi slot ever holds a
  scene without effect.
\<close>

definition is_set_effect :: "led_command option \<Rightarrow> bool" where
  "is_set_effect c \<longleftrightarrow> (case c of Some (SetEffect s) \<Rightarrow> True | Some _ \<Rightarrow> False | None \<Rightarrow> True)"

definition indicators_inv :: "led_indicators_state \<Rightarrow> bool" where
  "indicators_inv st \<longleftrightarrow>
     (temp_slot st = None \<longleftrightarrow> temp_deadline st = None) \<and>
     list_all is_set_effect
       [wifi_persist st, temp_slot st, wifi_scan_persist st, price_persist st,
        clock_persist st, device_persist st, sys_persist st]"

lemma indicators_inv_new: "indicators_inv led_indicators_new"
  by (simp add: indicators_inv_def led_indicators_new_def is_set_effect_def)

lemmas indicator_op_defs =
  set_temp_def clear_temp_def solid_temp_scene_def is_set_effect_def indicators_inv_def

lemma apply_event_inv: "indicators_inv st \<Longrightarrow> indicators_inv (apply_event e now st)"
  by (cases e) (simp_all add: indicator_op_defs)

lemma current_scene_at_inv:
  "indicators_inv st \<Longrightarrow> indicators_inv (snd (current_scene_at now st))"
  by (auto simp: current_scene_at_def Let_def indicator_op_defs split: option.splits)

lemma system_loop_turn_inv:
  "indicators_inv st \<Longrightarrow> indicators_inv (snd (system_loop_turn i now st))"
  by (cases i) (simp_all add: current_scene_at_inv apply_event_inv)

lemma system_loop_run_inv: "indicators_inv st \<Longrightarrow> indicators_inv (system_loop_run is st)"
  by (induction "is" st rule: system_loop_run.induct) (simp_all add: system_loop_turn_inv)

section \<open>Behaviour\<close>

lemma current_scene_at_effect:
  "fst (current_scene_at now st) = Some s \<Longrightarrow> effect s \<noteq> NoEffect"
  by (auto simp: current_scene_at_def Let_def split: option.splits if_splits)

lemma system_loop_turn_effect:
  "fst (system_loop_turn i now st) = Some s \<Longrightarrow> effect s \<noteq> NoEffect"
  by (cases i) (auto dest: current_scene_at_effect)

lemma current_scene_at_temp:
  assumes "temp_slot st = Some (SetEffect s)" and "effect s \<noteq> NoEffect"
    and "\<And>d. temp_deadline st = Some d \<Longrightarrow> now < d"
  shows "current_scene_at now st = (Some s, st)"
  using assms by (auto simp: current_scene_at_def Let_def split: option.splits)

lemma current_scene_at_expired:
  assumes "temp_deadline st = Some d" and "d \<le> now"
  shows "snd (current_scene_at now st) = clear_temp st"
  using assms by (simp add: current_scene_at_def Let_def)

text \<open>A temporary scene set by an event is the one reported for its whole window, and is gone
  after it: the window is \<open>[now, now + d)\<close> for the duration \<open>d\<close> the event carries.\<close>

lemma temp_window:
  assumes "st' = set_temp (solid_temp_scene c d) now st" and "now \<le> t"
  shows "t < now + d \<Longrightarrow> fst (current_scene_at t st') = Some (solid_temp_scene c d)"
    and "now + d \<le> t \<Longrightarrow> temp_slot (snd (current_scene_at t st')) = None"
  using assms
  by (auto simp: set_temp_def solid_temp_scene_def current_scene_at_def clear_temp_def Let_def)

text \<open>Without a temporary scene the device slot wins, then the clock slot.\<close>

lemma device_slot_wins:
  assumes "temp_slot st = None" and "temp_deadline st = None"
    and "device_persist st = Some (SetEffect s)" and "effect s \<noteq> NoEffect"
  shows "fst (current_scene_at now st) = Some s"
  using assms
  by (simp add: current_scene_at_def select_persistent_def or_opt_def scene_of_command_def Let_def)

text \<open>\<open>next_wakeup\<close> is never later than the deadline of the temporary scene, so the loop wakes in
  time to drop it.\<close>

lemma next_wakeup_deadline: "temp_deadline st = Some d \<Longrightarrow> next_wakeup now st = d"
  by (simp add: next_wakeup_def)

end
