(* ===== verification/Led_Task.thy ===== *)
theory Led_Task
  imports Led_Coordinator Led_Indicators
begin

text \<open>
  Correctness of the coordinator task: the invariant of every reachable state, what a settled
  task has told the strip, how fast it settles, and where the arbitration fails. The interface
  between the coordinator and the producers that publish to it is the locale
  \<open>visible_producer\<close>: a producer whose published scenes always carry an effect. The system
  indicator loop is one instance here, the widget scene manager another in
  \<open>Led_Ledger\<close>.
\<close>

section \<open>The task on its own\<close>

text \<open>The next step of the task when nothing is published and the strip accepts the command.\<close>

definition task_step :: "led_task \<Rightarrow> led_task" where
  "task_step t =
     (case pc t of
        PcOuter \<Rightarrow> (refresh t)\<lparr>pc := PcInner\<rparr>
      | PcInner \<Rightarrow>
          (case next_command (coord t) of
             None \<Rightarrow> t\<lparr>pc := PcWaiting\<rparr>
           | Some (c, p) \<Rightarrow> if unseen t then refresh t else t\<lparr>pc := PcSending c p\<rparr>)
      | PcSending c p \<Rightarrow>
          (refresh (t\<lparr>sent := sent t @ [c], coord := on_sent c p (coord t)\<rparr>))\<lparr>pc := PcInner\<rparr>
      | PcWaiting \<Rightarrow> if unseen t then t\<lparr>unseen := False, pc := PcOuter\<rparr> else t
      | PcStopped \<Rightarrow> t)"

definition settled :: "led_task \<Rightarrow> bool" where
  "settled t \<longleftrightarrow> pc t = PcWaiting \<and> \<not> unseen t"

lemma task_step_led_step:
  "\<not> settled t \<Longrightarrow> pc t \<noteq> PcStopped \<Longrightarrow> led_step t (task_step t)"
  by (auto simp: task_step_def settled_def split: task_pc.splits option.splits
      intro: led_step.intros)

lemma task_step_settled: "settled t \<Longrightarrow> task_step t = t"
  by (simp add: task_step_def settled_def)

section \<open>Invariant of the reachable states\<close>

definition synced :: "led_task \<Rightarrow> bool" where
  "synced t \<longleftrightarrow> lc_layers (coord t) = desired_layers (desired t) \<and>
     lc_enabled (coord t) = desired_enabled (desired t)"

definition mirrors :: "led_coordinator \<Rightarrow> led_command list \<Rightarrow> bool" where
  "mirrors c cs \<longleftrightarrow> wire_enabled cs True = output_enabled c \<and>
     (\<forall>l s. applied c = Some (l, s) \<longrightarrow> wire_scene cs none_scene = s \<and> effect s \<noteq> NoEffect)"

fun pc_inv :: "task_pc \<Rightarrow> led_task \<Rightarrow> bool" where
  "pc_inv PcOuter t = True"
| "pc_inv PcInner t = (unseen t \<or> synced t)"
| "pc_inv (PcSending c p) t = ((unseen t \<or> synced t) \<and> next_command (coord t) = Some (c, p))"
| "pc_inv PcWaiting t = ((unseen t \<or> synced t) \<and> next_command (coord t) = None)"
| "pc_inv PcStopped t = True"

definition task_inv :: "led_task \<Rightarrow> bool" where
  "task_inv t \<longleftrightarrow> mirrors (coord t) (sent t) \<and> pc_inv (pc t) t"

lemma refresh_simps [simp]:
  "synced (refresh t)" "unseen (refresh t) = False" "desired (refresh t) = desired t"
  "sent (refresh t) = sent t" "pc (refresh t) = pc t"
  by (simp_all add: refresh_def synced_def apply_desired_def)

lemma mirrors_apply_desired [simp]: "mirrors (apply_desired d c) cs = mirrors c cs"
  by (simp add: mirrors_def apply_desired_def)

lemma mirrors_refresh [simp]: "mirrors (coord (refresh t)) cs = mirrors (coord t) cs"
  by (simp add: refresh_def)

lemma synced_update [simp]:
  "synced (t\<lparr>pc := p\<rparr>) = synced t" "synced (t\<lparr>sent := cs\<rparr>) = synced t"
  "synced (t\<lparr>unseen := b\<rparr>) = synced t"
  by (simp_all add: synced_def)

text \<open>Recording a sent command keeps the mirror: the command and its pick agree.\<close>

lemma mirrors_on_sent:
  assumes "mirrors c cs" and "next_command c = Some (cmd, p)"
  shows "mirrors (on_sent cmd p c) (cs @ [cmd])"
  using assms
  by (auto simp: mirrors_def next_command_def Let_def split: if_splits option.splits)

lemma task_inv_init: "task_inv led_task_init"
  by (simp add: task_inv_def mirrors_def led_task_init_def coordinator_new_def)

lemma led_step_inv: "led_step s t \<Longrightarrow> task_inv s \<Longrightarrow> task_inv t"
proof (induction rule: led_step.induct)
  case (publish t l scene)
  then show ?case by (cases "pc t") (auto simp: task_inv_def)
next
  case (set_enabled t e)
  then show ?case by (cases "pc t") (auto simp: task_inv_def)
next
  case (send_ok t c p)
  then show ?case
    by (auto simp: task_inv_def intro: mirrors_on_sent)
qed (auto simp: task_inv_def)

lemma led_reachable_inv: "led_reachable t \<Longrightarrow> task_inv t"
  by (induction rule: led_reachable.induct) (auto intro: task_inv_init led_step_inv)

lemma settled_mirrors:
  assumes "task_inv t" and "settled t"
  shows "mirrors (coord t) (sent t)" "synced t" "next_command (coord t) = None"
  using assms by (auto simp: task_inv_def settled_def)

text \<open>A settled task has told the strip what is desired.\<close>

definition told :: "led_task \<Rightarrow> bool" where
  "told t \<longleftrightarrow> wire_enabled (sent t) True = desired_enabled (desired t) \<and>
     (\<forall>l s. desired_enabled (desired t) \<longrightarrow> pick_layers (desired_layers (desired t)) = Some (l, s) \<longrightarrow>
        wire_scene (sent t) none_scene = s)"

lemma settled_told:
  assumes "task_inv t" and "settled t"
  shows "told t"
proof -
  note m = settled_mirrors [OF assms]
  from m(2,3) have en: "output_enabled (coord t) = desired_enabled (desired t)"
    by (auto simp: next_command_def synced_def split: if_splits)
  have "applied (coord t) = Some (l, s)"
    if "desired_enabled (desired t)" "pick_layers (desired_layers (desired t)) = Some (l, s)" for l s
    using m(2,3) en that
    by (auto simp: next_command_def synced_def pick_def Let_def split: if_splits)
  with m(1) en show ?thesis unfolding told_def mirrors_def by blast
qed

lemma task_step_stopped: "pc t = PcStopped \<Longrightarrow> task_step t = t"
  by (simp add: task_step_def)

lemma task_step_inv: "task_inv t \<Longrightarrow> task_inv (task_step t)"
  by (metis led_step_inv task_step_led_step task_step_settled task_step_stopped)

lemma task_steps_inv: "task_inv t \<Longrightarrow> task_inv ((task_step ^^ n) t)"
  by (induction n) (simp_all add: task_step_inv)

lemma task_step_desired [simp]: "desired (task_step t) = desired t"
  by (auto simp: task_step_def split: task_pc.splits option.splits)

lemma task_steps_desired [simp]: "desired ((task_step ^^ n) t) = desired t"
  by (induction n) simp_all

section \<open>Settling\<close>

definition settles :: "nat \<Rightarrow> led_task \<Rightarrow> bool" where
  "settles n t \<longleftrightarrow> settled ((task_step ^^ n) t)"

lemma settles_0 [simp]: "settles 0 t = settled t"
  by (simp add: settles_def)

lemma settles_Suc: "settles (Suc n) t = settles n (task_step t)"
  by (simp add: settles_def funpow_Suc_right del: funpow.simps)

lemma settled_settles: "settled t \<Longrightarrow> settles n t"
  by (induction n) (simp_all add: settles_Suc task_step_settled)

lemma settles_mono: "settles n t \<Longrightarrow> n \<le> m \<Longrightarrow> settles m t"
proof (induction n arbitrary: t m)
  case 0
  then show ?case by (simp add: settled_settles)
next
  case (Suc n)
  then obtain k where "m = Suc k" "n \<le> k" by (metis Suc_le_D Suc_le_mono)
  with Suc show ?case by (simp add: settles_Suc)
qed

text \<open>The inner loop, read through \<open>send_once\<close>: a pending command is two steps of the task.\<close>

lemma inner_idle:
  assumes "pc t = PcInner" and "\<not> unseen t" and "next_command (coord t) = None"
  shows "settles (Suc 0) t"
  using assms by (simp add: settles_Suc task_step_def settled_def)

lemma inner_send:
  assumes "pc t = PcInner" and "\<not> unseen t" and "synced t" and "next_command (coord t) = Some (c, p)"
  obtains t' where "task_step (task_step t) = t'" "pc t' = PcInner" "\<not> unseen t'" "synced t'"
    "coord t' = send_once (coord t)" "desired t' = desired t"
proof
  let ?t' = "task_step (task_step t)"
  have "synced t" by fact
  then have "apply_desired (desired t) (send_once (coord t)) = send_once (coord t)"
    by (simp add: apply_desired_def synced_def)
  with assms show "coord ?t' = send_once (coord t)"
    by (simp add: task_step_def refresh_def send_once_def)
qed (use assms in \<open>simp_all add: task_step_def\<close>)

lemma settles_in_step:
  assumes "pc t = PcInner" and "\<not> unseen t" and "synced t"
    and "lc_enabled (coord t) = output_enabled (coord t)"
    and "layers_visible (desired_layers (desired t))"
  shows "settles 3 t"
proof (cases "next_command (coord t)")
  case None
  with assms(1,2) show ?thesis by (auto intro: settles_mono dest: inner_idle)
next
  case (Some cp)
  obtain t' where t': "task_step (task_step t) = t'" "pc t' = PcInner" "\<not> unseen t'"
      "coord t' = send_once (coord t)"
    using assms(1-3) Some by (metis inner_send surj_pair)
  have "next_command (coord t') = None"
    using assms(3-5) t'(4) by (simp add: send_once_in_step synced_def)
  with t' have "settles (Suc 0) t'" by (auto intro: inner_idle)
  with t'(1) show ?thesis by (simp add: numeral_3_eq_3 settles_Suc)
qed

lemma settles_inner:
  assumes "pc t = PcInner" and "\<not> unseen t" and "synced t"
    and "layers_visible (desired_layers (desired t))"
  shows "settles 5 t"
proof (cases "lc_enabled (coord t) = output_enabled (coord t)")
  case True
  with assms show ?thesis by (auto intro: settles_mono dest: settles_in_step)
next
  case False
  then obtain c p where "next_command (coord t) = Some (c, p)"
    by (auto simp: next_command_def)
  then obtain t' where t': "task_step (task_step t) = t'" "pc t' = PcInner" "\<not> unseen t'"
      "synced t'" "coord t' = send_once (coord t)" "desired t' = desired t"
    using assms(1-3) by (metis inner_send)
  have "lc_enabled (coord t') = output_enabled (coord t')"
    using False t'(5) by (simp add: send_once_switches del: send_once_layers)
  with t' assms(4) have "settles 3 t'" by (auto intro: settles_in_step)
  with t'(1) show ?thesis by (simp add: numeral_eq_Suc settles_Suc)
qed

lemma settles_outer:
  assumes "pc t = PcOuter" and "layers_visible (desired_layers (desired t))"
  shows "settles 6 t"
proof -
  have "settles 5 (task_step t)"
    using assms by (auto intro: settles_inner simp: task_step_def)
  then show ?thesis by (simp add: numeral_eq_Suc settles_Suc)
qed

lemma settles_waiting:
  assumes "pc t = PcWaiting" and "layers_visible (desired_layers (desired t))"
  shows "settles 7 t"
proof (cases "unseen t")
  case True
  with assms have "settles 6 (task_step t)"
    by (auto intro: settles_outer simp: task_step_def)
  then show ?thesis by (simp add: numeral_eq_Suc settles_Suc)
next
  case False
  with assms show ?thesis by (auto intro: settled_settles simp: settled_def)
qed

lemma settles_any_inner:
  assumes "pc t = PcInner" and "unseen t \<or> synced t"
    and "layers_visible (desired_layers (desired t))"
  shows "settles 8 t"
proof (cases "unseen t")
  case False
  with assms show ?thesis by (auto intro: settles_mono dest: settles_inner)
next
  case True
  show ?thesis
  proof (cases "next_command (coord t)")
    case None
    with assms have "settles 7 (task_step t)"
      by (auto intro: settles_waiting simp: task_step_def)
    then show ?thesis by (simp add: numeral_eq_Suc settles_Suc)
  next
    case (Some cp)
    with True assms have "settles 5 (task_step t)"
      by (auto intro: settles_inner simp: task_step_def)
    then have "settles 6 t" by (simp add: numeral_eq_Suc settles_Suc)
    then show ?thesis by (rule settles_mono) simp
  qed
qed

lemma settles_inv:
  assumes "task_inv t" and "pc t \<noteq> PcStopped"
    and "layers_visible (desired_layers (desired t))"
  shows "settles 8 t"
proof (cases "pc t")
  case (PcSending c p)
  then have "settles 5 (task_step t)"
    using assms(3) by (auto intro: settles_inner simp: task_step_def)
  then have "settles 6 t" by (simp add: numeral_eq_Suc settles_Suc)
  then show ?thesis by (rule settles_mono) simp
qed (use assms in
      \<open>auto intro: settles_any_inner settles_mono dest: settles_outer settles_waiting
         simp: task_inv_def\<close>)

section \<open>The producers' side of the interface\<close>

locale visible_producer =
  fixes producer_inv :: "'s \<Rightarrow> bool"
    and turn :: "'i \<Rightarrow> 's \<Rightarrow> led_scene option \<times> 's"
  assumes turn_inv: "producer_inv s \<Longrightarrow> producer_inv (snd (turn i s))"
    and turn_visible: "producer_inv s \<Longrightarrow> fst (turn i s) = Some sc \<Longrightarrow> effect sc \<noteq> NoEffect"
begin

lemma publish_visible:
  assumes "producer_inv s" and "layers_visible (desired_layers d)"
  shows "layers_visible (desired_layers (handle_publish l (fst (turn i s)) d))"
  using assms by (auto intro: handle_publish_visible dest: turn_visible)

text \<open>A whole run of the producer, publishing every result to its layer.\<close>

lemma publish_run_visible:
  "producer_inv s \<Longrightarrow> layers_visible (desired_layers d) \<Longrightarrow>
   layers_visible (desired_layers (snd
     (fold (\<lambda>i (s, d). (snd (turn i s), handle_publish l (fst (turn i s)) d)) is (s, d))))"
proof (induction "is" arbitrary: s d)
  case (Cons i "is")
  then show ?case by (simp add: turn_inv publish_visible)
qed simp

end

interpretation system_loop: visible_producer indicators_inv "\<lambda>(i, now). system_loop_turn i now"
  by unfold_locales (auto intro: system_loop_turn_inv dest: system_loop_turn_effect)

end
