(* ===== verification/Led_Strip.thy ===== *)
theory Led_Strip
  imports Led_Task
begin

text \<open>
  The strip worker of \<^verbatim>\<open>bmc-led/src/apa102_spi/platform_led_driver.rs\<close>: the \<open>LedState\<close> that
  receives the coordinator's commands and decides which scene a frame shows. Clock readings are
  arguments. The product of two 32-bit floats in \<open>set_brightness\<close> is the argument \<open>f32_mul\<close>;
  the animation phase is kept as the pair of microseconds before the floating-point division,
  with \<open>None\<close> for the remainder by a period of zero microseconds, which panics in the source.
  A frame is what the effect routine is called with; pixels and SPI transfers are not modelled.
\<close>

section \<open>Active scenes\<close>

record active_scene =
  as_scene :: led_scene
  started :: instant

definition active_scene_new :: "led_scene \<Rightarrow> instant \<Rightarrow> active_scene" where
  "active_scene_new s now = \<lparr>as_scene = s, started = now\<rparr>"

definition expired :: "instant \<Rightarrow> active_scene \<Rightarrow> bool" where
  "expired now a =
     (case scene_duration (as_scene a) of
        Some d \<Rightarrow> d \<le> saturating_duration_since now (started a)
      | None \<Rightarrow> False)"

definition expiry :: "active_scene \<Rightarrow> instant option" where
  "expiry a = map_option (\<lambda>d. started a + d) (scene_duration (as_scene a))"

definition is_animated :: "active_scene \<Rightarrow> bool" where
  "is_animated a \<longleftrightarrow> period (as_scene a) \<noteq> None"

definition phase :: "instant \<Rightarrow> active_scene \<Rightarrow> (nat \<times> nat) option" where
  "phase now a =
     (case period (as_scene a) of
        None \<Rightarrow> Some (0, 1)
      | Some p \<Rightarrow>
          let period_us = p div 1000;
              elapsed_us = saturating_duration_since now (started a) div 1000
          in if period_us = 0 then None else Some (elapsed_us mod period_us, period_us))"

section \<open>The state of the worker\<close>

record strip_state =
  strip_enabled :: bool
  brightness :: u8
  frame_origin :: instant
  persistent :: active_scene
  temporary :: "active_scene option"

definition apa102_max_brightness :: u8 where
  "apa102_max_brightness = 31"

definition static_refresh_interval :: duration where
  "static_refresh_interval = from_secs 1"

definition strip_new :: "instant \<Rightarrow> strip_state" where
  "strip_new now =
     \<lparr>strip_enabled = True, brightness = apa102_max_brightness, frame_origin = now,
      persistent = active_scene_new none_scene now, temporary = None\<rparr>"

definition strip_active_scene :: "instant \<Rightarrow> strip_state \<Rightarrow> active_scene \<times> strip_state" where
  "strip_active_scene now st =
     (let st = (case temporary st of
                  Some a \<Rightarrow> if expired now a then st\<lparr>temporary := None\<rparr> else st
                | None \<Rightarrow> st)
      in (case temporary st of Some a \<Rightarrow> a | None \<Rightarrow> persistent st, st))"

definition f32_as_u8 :: "real \<Rightarrow> u8" where
  "f32_as_u8 x = word_of_nat (min 255 (nat \<lfloor>x\<rfloor>))"

definition set_brightness ::
  "(real \<Rightarrow> real \<Rightarrow> real) \<Rightarrow> real \<Rightarrow> strip_state \<Rightarrow> strip_state" where
  "set_brightness f32_mul b st =
     st\<lparr>brightness := f32_as_u8 (f32_mul (real (unat apa102_max_brightness)) (max 0 (min 1 b)))\<rparr>"

fun apply_command ::
  "(real \<Rightarrow> real \<Rightarrow> real) \<Rightarrow> led_command \<Rightarrow> instant \<Rightarrow> strip_state \<Rightarrow> strip_state" where
  "apply_command f32_mul (SetBrightness b) now st = set_brightness f32_mul b st"
| "apply_command f32_mul (SetEffect scene) now st =
     (if scene_duration scene \<noteq> None
      then st\<lparr>temporary := Some (active_scene_new scene now)\<rparr>
      else st\<lparr>persistent := active_scene_new scene now\<rparr>)\<lparr>frame_origin := now\<rparr>"
| "apply_command f32_mul Enable now st = st\<lparr>strip_enabled := True\<rparr>"
| "apply_command f32_mul Disable now st = st\<lparr>strip_enabled := False\<rparr>"

datatype frame = BlankFrame | EffectFrame led_effect u8 "nat \<times> nat"

definition render :: "instant \<Rightarrow> strip_state \<Rightarrow> frame option \<times> strip_state" where
  "render now st =
     (if \<not> strip_enabled st then (Some BlankFrame, st)
      else
        let (a, st) = strip_active_scene now st in
        (case phase now a of
           None \<Rightarrow> None
         | Some ph \<Rightarrow>
             Some (case effect (as_scene a) of
                     NoEffect \<Rightarrow> BlankFrame
                   | e \<Rightarrow> EffectFrame e (brightness st) ph), st))"

datatype wake = FrameTick | WakeAt instant

definition next_wake :: "instant \<Rightarrow> strip_state \<Rightarrow> wake \<times> strip_state" where
  "next_wake now st =
     (let ex = Option.bind (temporary st) expiry;
          (a, st) = strip_active_scene now st
      in (if strip_enabled st \<and> is_animated a then FrameTick
          else let refresh = now + static_refresh_interval in
               WakeAt (case ex of None \<Rightarrow> refresh | Some e \<Rightarrow> min e refresh), st))"

text \<open>A turn of \<open>led_worker\<close>: every queued command is applied before the next frame.\<close>

fun worker_commands ::
  "(real \<Rightarrow> real \<Rightarrow> real) \<Rightarrow> (led_command \<times> instant) list \<Rightarrow> strip_state \<Rightarrow> strip_state" where
  "worker_commands f32_mul [] st = st"
| "worker_commands f32_mul ((c, now) # cs) st =
     worker_commands f32_mul cs (apply_command f32_mul c now st)"

section \<open>Lemmas\<close>

lemma worker_commands_append:
  "worker_commands m (cs @ ds) st = worker_commands m ds (worker_commands m cs st)"
  by (induction cs arbitrary: st) (auto simp del: apply_command.simps)

lemma apply_command_switch:
  "strip_enabled (apply_command m c now st) = wire_enabled [c] (strip_enabled st)"
  by (cases c) (simp_all add: set_brightness_def)

lemma worker_commands_switch:
  "strip_enabled (worker_commands m cs st) = wire_enabled (map fst cs) (strip_enabled st)"
proof (induction cs arbitrary: st)
  case (Cons cn cs)
  obtain c now where "cn = (c, now)" by (cases cn)
  with Cons show ?case by (cases c) (simp_all add: set_brightness_def)
qed simp

text \<open>A scene with a duration is shown from the command on, until it expires.\<close>

lemma temporary_shown:
  assumes "scene_duration s = Some d" and "now \<le> t" and "t < now + d"
  shows "fst (strip_active_scene t (apply_command m (SetEffect s) now st)) = active_scene_new s now"
  using assms
  by (simp add: strip_active_scene_def active_scene_new_def expired_def
      saturating_duration_since_def Let_def less_diff_conv2 not_le)

text \<open>A scene without a duration is shown once no temporary scene is live.\<close>

lemma persistent_shown:
  assumes "scene_duration s = None"
    and "\<And>a. temporary st = Some a \<Longrightarrow> expired t a"
  shows "fst (strip_active_scene t (apply_command m (SetEffect s) now st)) = active_scene_new s now"
  using assms by (auto simp: strip_active_scene_def Let_def split: option.splits)

text \<open>Nor is it before: a live temporary scene keeps the strip whatever is sent without a
  duration.\<close>

lemma temporary_masks:
  assumes "scene_duration s = None" and "temporary st = Some a" and "\<not> expired t a"
  shows "fst (strip_active_scene t (apply_command m (SetEffect s) now st)) = a"
  using assms by (simp add: strip_active_scene_def Let_def)

lemma strip_active_scene_idem:
  "strip_active_scene now (snd (strip_active_scene now st)) = strip_active_scene now st"
  by (auto simp: strip_active_scene_def Let_def split: option.splits)

lemma phase_total:
  assumes "\<And>p. period (as_scene a) = Some p \<Longrightarrow> 1000 \<le> p"
  shows "\<exists>ph. phase now a = Some ph \<and> fst ph < snd ph"
  using assms by (auto simp: phase_def Let_def split: option.splits)

lemma render_active:
  assumes "strip_enabled st" and "fst (strip_active_scene now st) = a"
    and "phase now a = Some ph" and "effect (as_scene a) \<noteq> NoEffect"
  shows "fst (render now st) = Some (EffectFrame (effect (as_scene a)) (brightness st) ph)"
proof -
  have "brightness (snd (strip_active_scene now st)) = brightness st"
    by (auto simp: strip_active_scene_def Let_def split: option.splits)
  with assms show ?thesis
    by (auto simp: render_def split: led_effect.splits prod.splits)
qed

lemma next_wake_expiry:
  assumes "next_wake now st = (WakeAt w, st')" and "temporary st = Some a"
    and "scene_duration (as_scene a) = Some d"
  shows "w \<le> started a + d" "w \<le> now + static_refresh_interval"
  using assms
  by (auto simp: next_wake_def expiry_def Let_def split: prod.splits if_splits)

text \<open>Periods of at least a microsecond keep the phase defined in every state the worker can be
  brought to.\<close>

definition period_ok :: "led_scene \<Rightarrow> bool" where
  "period_ok s = (case period s of Some p \<Rightarrow> 1000 \<le> p | None \<Rightarrow> True)"

definition strip_ok :: "strip_state \<Rightarrow> bool" where
  "strip_ok st \<longleftrightarrow> period_ok (as_scene (persistent st)) \<and>
     (\<forall>a. temporary st = Some a \<longrightarrow> period_ok (as_scene a))"

lemma apply_command_ok:
  "strip_ok st \<Longrightarrow> (\<And>s. c = SetEffect s \<Longrightarrow> period_ok s) \<Longrightarrow> strip_ok (apply_command m c now st)"
  by (cases c) (auto simp: strip_ok_def active_scene_new_def set_brightness_def)

lemma worker_commands_ok:
  "strip_ok st \<Longrightarrow> (\<And>s now. (SetEffect s, now) \<in> set cs \<Longrightarrow> period_ok s) \<Longrightarrow>
   strip_ok (worker_commands m cs st)"
proof (induction cs arbitrary: st)
  case (Cons cn cs)
  obtain c now where cn: "cn = (c, now)" by (cases cn)
  from Cons.prems cn have "strip_ok (apply_command m c now st)"
    by (intro apply_command_ok) auto
  with Cons cn show ?case by auto
qed simp

lemma strip_new_ok: "strip_ok (strip_new now)"
  by (simp add: strip_ok_def strip_new_def active_scene_new_def period_ok_def)

lemma render_total:
  assumes "strip_ok st" shows "fst (render now st) \<noteq> None"
proof -
  let ?a = "fst (strip_active_scene now st)"
  have "period_ok (as_scene ?a)"
    using assms by (auto simp: strip_ok_def strip_active_scene_def Let_def split: option.splits)
  then have "phase now ?a \<noteq> None"
    by (auto simp: period_ok_def phase_def Let_def split: option.splits)
  then show ?thesis by (auto simp: render_def split: prod.splits option.splits)
qed

end
