(* ===== verification/Led_Scenes.thy ===== *)
theory Led_Scenes
  imports Led_Task "HOL-Library.AList" "HOL-Library.Multiset"
begin

text \<open>
  The widget side of the LED pipeline, \<open>LedSceneManager\<close> of \<^verbatim>\<open>bmc/src/widget/led_state.rs\<close>:
  per-scene and global tiers of LED requests (one endless slot, a queue of temporary requests,
  one running temporary request), request statuses reported back to widgets, and the winning
  scene of the active scene's tier and of the global tier published to the coordinator.

  The hash maps are association lists with distinct keys whose order stands for the map's
  iteration order; no property depends on it. The coordinator handle is the desired state it
  writes to, the status channel is the list of events sent so far (a closed receiver only drops
  them). \<open>now\<close> is the clock reading of the call. A scene id is the number of its UUID.
\<close>

section \<open>Requests and tiers\<close>

type_synonym scene_id = nat
type_synonym led_request_id = u32
type_synonym request = "instance_id \<times> led_request_id"

abbreviation led_request_id_all :: led_request_id where
  "led_request_id_all \<equiv> 0"

datatype led_request_status = Accepted | Rejected | Superseded | Expired

type_synonym status_event = "instance_id \<times> led_request_id \<times> led_request_status"

datatype proto_led_effect = PChase | PKnightRider | PScan | PSnake | PBreathe | PSolid

record rgb_color =
  color_r :: u8
  color_g :: u8
  color_b :: u8

record endless_entry =
  ee_instance :: instance_id
  ee_request :: led_request_id
  ee_scene :: led_scene

record temp_entry =
  te_instance :: instance_id
  te_request :: led_request_id
  te_scene :: led_scene
  te_duration :: duration

record running_temp =
  rt_entry :: temp_entry
  rt_until :: instant

record scene_effect_state =
  endless :: "endless_entry option"
  temp_queue :: "temp_entry list"
  active_temp :: "running_temp option"

definition tier_default :: scene_effect_state where
  "tier_default = \<lparr>endless = None, temp_queue = [], active_temp = None\<rparr>"

fun proto_to_hw_effect :: "proto_led_effect \<Rightarrow> rgb_color \<Rightarrow> led_effect" where
  "proto_to_hw_effect PChase c = Chase (rgb_new (color_r c) (color_g c) (color_b c))"
| "proto_to_hw_effect PKnightRider c = KnightRider (rgb_new (color_r c) (color_g c) (color_b c))"
| "proto_to_hw_effect PScan c = Scan (rgb_new (color_r c) (color_g c) (color_b c))"
| "proto_to_hw_effect PSnake c = Snake (rgb_new (color_r c) (color_g c) (color_b c))"
| "proto_to_hw_effect PBreathe c = Breathe (rgb_new (color_r c) (color_g c) (color_b c))"
| "proto_to_hw_effect PSolid c = Solid (rgb_new (color_r c) (color_g c) (color_b c))"

definition build_scene ::
  "proto_led_effect \<Rightarrow> rgb_color \<Rightarrow> u32 \<Rightarrow> nat option \<Rightarrow> led_scene" where
  "build_scene e c period_ms duration_ms =
     \<lparr>effect = proto_to_hw_effect e c,
      period = (if 0 < period_ms then Some (from_millis (unat period_ms)) else None),
      scene_duration = map_option (\<lambda>d. from_millis d) duration_ms\<rparr>"

section \<open>Operations on a tier\<close>

definition pick_winner_scene_for_layer ::
  "instant \<Rightarrow> scene_effect_state \<Rightarrow> led_scene option \<times> scene_effect_state" where
  "pick_winner_scene_for_layer now st =
     (let st = (if active_temp st = None
                then case temp_queue st of
                       [] \<Rightarrow> st
                     | e # q \<Rightarrow> st\<lparr>temp_queue := q,
                         active_temp := Some \<lparr>rt_entry = e, rt_until = now + te_duration e\<rparr>\<rparr>
                else st)
      in (case active_temp st of
            Some t \<Rightarrow> Some (te_scene (rt_entry t))
          | None \<Rightarrow> map_option ee_scene (endless st), st))"

definition state_widget_ids :: "scene_effect_state \<Rightarrow> instance_id list" where
  "state_widget_ids st =
     (case endless st of Some e \<Rightarrow> [ee_instance e] | None \<Rightarrow> []) @
     (case active_temp st of Some t \<Rightarrow> [te_instance (rt_entry t)] | None \<Rightarrow> []) @
     map te_instance (temp_queue st)"

definition sweep_state ::
  "(instance_id \<Rightarrow> led_request_id \<Rightarrow> bool) \<Rightarrow> scene_effect_state
     \<Rightarrow> request list \<times> scene_effect_state" where
  "sweep_state m st =
     (let m_temp = (\<lambda>e. m (te_instance e) (te_request e));
          (act, sup1) = (case active_temp st of
             Some t \<Rightarrow> if m_temp (rt_entry t)
                       then (None, [(te_instance (rt_entry t), te_request (rt_entry t))])
                       else (Some t, [])
           | None \<Rightarrow> (None, []));
          sup2 = map (\<lambda>e. (te_instance e, te_request e)) (filter m_temp (temp_queue st));
          kept = filter (\<lambda>e. \<not> m_temp e) (temp_queue st);
          (en, sup3) = (case endless st of
             Some e \<Rightarrow> if m (ee_instance e) (ee_request e)
                       then (None, [(ee_instance e, ee_request e)]) else (Some e, [])
           | None \<Rightarrow> (None, []))
      in (sup1 @ sup2 @ sup3, \<lparr>endless = en, temp_queue = kept, active_temp = act\<rparr>))"

definition apply_endless ::
  "endless_entry option \<Rightarrow> endless_entry \<Rightarrow> status_event list \<times> endless_entry option" where
  "apply_endless slot new =
     (case slot of Some prev \<Rightarrow> [(ee_instance prev, ee_request prev, Superseded)] | None \<Rightarrow> [],
      Some new)"

definition expire_state_if_due ::
  "instant \<Rightarrow> scene_effect_state \<Rightarrow> request list \<times> scene_effect_state" where
  "expire_state_if_due now st =
     (case active_temp st of
        None \<Rightarrow> ([], st)
      | Some t \<Rightarrow>
          if rt_until t \<le> now
          then ([(te_instance (rt_entry t), te_request (rt_entry t))], st\<lparr>active_temp := None\<rparr>)
          else ([], st))"

section \<open>The manager\<close>

record led_scene_manager =
  lm_handle :: desired_state
  lm_status :: "status_event list"
  widget_to_scene :: "(instance_id \<times> scene_id) list"
  lm_active :: "scene_id option"
  lm_scenes :: "(scene_id \<times> scene_effect_state) list"
  global_state :: scene_effect_state
  applied_local :: "led_scene option"
  applied_global :: "led_scene option"

definition manager_new :: "desired_state \<Rightarrow> led_scene_manager" where
  "manager_new h =
     \<lparr>lm_handle = h, lm_status = [], widget_to_scene = [], lm_active = None, lm_scenes = [],
      global_state = tier_default, applied_local = None, applied_global = None\<rparr>"

definition emit :: "status_event list \<Rightarrow> led_scene_manager \<Rightarrow> led_scene_manager" where
  "emit es m = m\<lparr>lm_status := lm_status m @ es\<rparr>"

text \<open>\<open>HashMap::entry(k).or_default()\<close> followed by a change of the entry, and \<open>get_mut\<close>.\<close>

definition entry_or_default ::
  "scene_id \<Rightarrow> (scene_effect_state \<Rightarrow> scene_effect_state) \<Rightarrow> (scene_id \<times> scene_effect_state) list
     \<Rightarrow> (scene_id \<times> scene_effect_state) list" where
  "entry_or_default k f xs =
     (if k \<in> fst ` set xs then map (\<lambda>(k', v). (k', if k' = k then f v else v)) xs
      else xs @ [(k, f tier_default)])"

definition modify_entry ::
  "scene_id \<Rightarrow> (scene_effect_state \<Rightarrow> scene_effect_state) \<Rightarrow> (scene_id \<times> scene_effect_state) list
     \<Rightarrow> (scene_id \<times> scene_effect_state) list" where
  "modify_entry k f xs = map (\<lambda>(k', v). (k', if k' = k then f v else v)) xs"

definition active_tier :: "led_scene_manager \<Rightarrow> scene_effect_state option" where
  "active_tier m = Option.bind (lm_active m) (map_of (lm_scenes m))"

definition set_active_tier :: "scene_effect_state \<Rightarrow> led_scene_manager \<Rightarrow> led_scene_manager" where
  "set_active_tier st m =
     (case lm_active m of
        Some k \<Rightarrow> m\<lparr>lm_scenes := modify_entry k (\<lambda>_. st) (lm_scenes m)\<rparr>
      | None \<Rightarrow> m)"

definition publish_local :: "led_scene option \<Rightarrow> led_scene_manager \<Rightarrow> led_scene_manager" where
  "publish_local w m =
     (if applied_local m \<noteq> w
      then m\<lparr>applied_local := w, lm_handle := handle_publish LLocalScene w (lm_handle m)\<rparr>
      else m)"

definition publish_global :: "led_scene option \<Rightarrow> led_scene_manager \<Rightarrow> led_scene_manager" where
  "publish_global w m =
     (if applied_global m \<noteq> w
      then m\<lparr>applied_global := w, lm_handle := handle_publish LGlobalAmbient w (lm_handle m)\<rparr>
      else m)"

definition refresh_active_scene_effect ::
  "instant \<Rightarrow> led_scene_manager \<Rightarrow> led_scene_manager" where
  "refresh_active_scene_effect now m =
     (let (local_winner, m) = (case active_tier m of
            Some st \<Rightarrow> let (w, st') = pick_winner_scene_for_layer now st
                       in (w, set_active_tier st' m)
          | None \<Rightarrow> (None, m));
          (global_winner, g) = pick_winner_scene_for_layer now (global_state m)
      in publish_global global_winner (publish_local local_winner (m\<lparr>global_state := g\<rparr>)))"

definition drop_active_scene_temp :: "led_scene_manager \<Rightarrow> led_scene_manager" where
  "drop_active_scene_temp m =
     (case active_tier m of
        Some st \<Rightarrow>
          (case active_temp st of
             Some t \<Rightarrow>
               emit [(te_instance (rt_entry t), te_request (rt_entry t), Expired)]
                 (set_active_tier (st\<lparr>active_temp := None\<rparr>) m)
           | None \<Rightarrow> m)
      | None \<Rightarrow> m)"

definition on_scene_changed :: "scene_id \<Rightarrow> instant \<Rightarrow> led_scene_manager \<Rightarrow> led_scene_manager" where
  "on_scene_changed k now m =
     (if lm_active m = Some k then m
      else
        let m = drop_active_scene_temp m;
            m = m\<lparr>lm_active := Some k, lm_scenes := entry_or_default k (\<lambda>st. st) (lm_scenes m)\<rparr>
        in refresh_active_scene_effect now m)"

definition on_active_scene_cleared :: "instant \<Rightarrow> led_scene_manager \<Rightarrow> led_scene_manager" where
  "on_active_scene_cleared now m =
     (if lm_active m = None then m
      else refresh_active_scene_effect now ((drop_active_scene_temp m)\<lparr>lm_active := None\<rparr>))"

definition sweep_scenes ::
  "(instance_id \<Rightarrow> led_request_id \<Rightarrow> bool) \<Rightarrow> (scene_id \<times> scene_effect_state) list
     \<Rightarrow> request list" where
  "sweep_scenes match xs = concat (map (\<lambda>(k, st). fst (sweep_state match st)) xs)"

definition on_stop ::
  "instance_id \<Rightarrow> led_request_id \<Rightarrow> instant \<Rightarrow> led_scene_manager \<Rightarrow> led_scene_manager" where
  "on_stop inst req now m =
     (let match = (\<lambda>i r. i = inst \<and> (req = led_request_id_all \<or> r = req));
          superseded = sweep_scenes match (lm_scenes m) @ fst (sweep_state match (global_state m));
          m = m\<lparr>lm_scenes := map (\<lambda>(k, st). (k, snd (sweep_state match st))) (lm_scenes m),
                global_state := snd (sweep_state match (global_state m))\<rparr>
      in refresh_active_scene_effect now
           (emit (map (\<lambda>(i, r). (i, r, Superseded)) superseded) m))"

definition evict_empty_scenes :: "led_scene_manager \<Rightarrow> led_scene_manager" where
  "evict_empty_scenes m =
     m\<lparr>lm_scenes := filter
        (\<lambda>(k, st). k \<in> snd ` set (widget_to_scene m) \<or> Some k = lm_active m \<or>
           endless st \<noteq> None \<or> temp_queue st \<noteq> [] \<or> active_temp st \<noteq> None)
        (lm_scenes m)\<rparr>"

fun remove_widgets :: "instance_id list \<Rightarrow> instant \<Rightarrow> led_scene_manager \<Rightarrow> led_scene_manager" where
  "remove_widgets [] now m = m"
| "remove_widgets (i # is) now m =
     remove_widgets is now
       (on_stop i led_request_id_all now (m\<lparr>widget_to_scene := AList.delete i (widget_to_scene m)\<rparr>))"

fun add_widgets ::
  "(instance_id \<times> scene_id) list \<Rightarrow> led_scene_manager \<Rightarrow> led_scene_manager" where
  "add_widgets [] m = m"
| "add_widgets ((i, k) # ps) m =
     add_widgets ps
       (m\<lparr>widget_to_scene := AList.update i k (widget_to_scene m),
          lm_scenes := entry_or_default k (\<lambda>st. st) (lm_scenes m)\<rparr>)"

definition on_config_snapshot ::
  "(instance_id \<times> scene_id) list \<Rightarrow> instant \<Rightarrow> led_scene_manager \<Rightarrow> led_scene_manager" where
  "on_config_snapshot snapshot now m =
     (let removed = filter (\<lambda>i. i \<notin> fst ` set snapshot) (map fst (widget_to_scene m));
          m = add_widgets snapshot (remove_widgets removed now m)
      in refresh_active_scene_effect now (evict_empty_scenes m))"

definition on_temporary ::
  "instance_id \<Rightarrow> led_request_id \<Rightarrow> proto_led_effect \<Rightarrow> rgb_color \<Rightarrow> u32 \<Rightarrow> u32 \<Rightarrow> led_scope
     \<Rightarrow> instant \<Rightarrow> led_scene_manager \<Rightarrow> led_scene_manager" where
  "on_temporary inst req e c period_ms duration_ms scope now m =
     (if req = led_request_id_all then m
      else
        let entry = \<lparr>te_instance = inst, te_request = req,
              te_scene = build_scene e c period_ms (Some (unat duration_ms)),
              te_duration = from_millis (unat duration_ms)\<rparr>;
            push = (\<lambda>st. st\<lparr>temp_queue := temp_queue st @ [entry]\<rparr>);
            accept = (\<lambda>m. refresh_active_scene_effect now (emit [(inst, req, Accepted)] m))
        in case scope of
             ScopeLocal \<Rightarrow>
               (case map_of (widget_to_scene m) inst of
                  Some k \<Rightarrow> accept (m\<lparr>lm_scenes := entry_or_default k push (lm_scenes m)\<rparr>)
                | None \<Rightarrow> emit [(inst, req, Superseded)] m)
           | ScopeGlobal \<Rightarrow> accept (m\<lparr>global_state := push (global_state m)\<rparr>))"

definition on_endless ::
  "instance_id \<Rightarrow> led_request_id \<Rightarrow> proto_led_effect \<Rightarrow> rgb_color \<Rightarrow> u32 \<Rightarrow> led_scope
     \<Rightarrow> instant \<Rightarrow> led_scene_manager \<Rightarrow> led_scene_manager" where
  "on_endless inst req e c period_ms scope now m =
     (if req = led_request_id_all then m
      else
        let new = \<lparr>ee_instance = inst, ee_request = req, ee_scene = build_scene e c period_ms None\<rparr>;
            put = (\<lambda>st. st\<lparr>endless := snd (apply_endless (endless st) new)\<rparr>);
            finish = (\<lambda>es m. refresh_active_scene_effect now
                               (emit [(inst, req, Accepted)] (emit es m)))
        in case scope of
             ScopeLocal \<Rightarrow>
               (case map_of (widget_to_scene m) inst of
                  Some k \<Rightarrow>
                    (let st = (case map_of (lm_scenes m) k of Some st \<Rightarrow> st | None \<Rightarrow> tier_default)
                     in finish (fst (apply_endless (endless st) new))
                          (m\<lparr>lm_scenes := entry_or_default k put (lm_scenes m)\<rparr>))
                | None \<Rightarrow> emit [(inst, req, Superseded)] m)
           | ScopeGlobal \<Rightarrow>
               finish (fst (apply_endless (endless (global_state m)) new))
                 (m\<lparr>global_state := put (global_state m)\<rparr>))"

definition stale_widgets :: "instance_id set \<Rightarrow> led_scene_manager \<Rightarrow> instance_id list" where
  "stale_widgets conn m =
     remdups (filter (\<lambda>w. w \<notin> conn)
       (concat (map (\<lambda>(k, st). state_widget_ids st) (lm_scenes m)) @
        state_widget_ids (global_state m)))"

fun stop_all :: "instance_id list \<Rightarrow> instant \<Rightarrow> led_scene_manager \<Rightarrow> led_scene_manager" where
  "stop_all [] now m = m"
| "stop_all (w # ws) now m = stop_all ws now (on_stop w led_request_id_all now m)"

definition reconcile_connected ::
  "instance_id set \<Rightarrow> instant \<Rightarrow> led_scene_manager \<Rightarrow> led_scene_manager" where
  "reconcile_connected conn now m = stop_all (stale_widgets conn m) now m"

definition on_active_expiry :: "instant \<Rightarrow> led_scene_manager \<Rightarrow> led_scene_manager" where
  "on_active_expiry now m =
     (let (exp1, m) = (case active_tier m of
            Some st \<Rightarrow> let (es, st') = expire_state_if_due now st in (es, set_active_tier st' m)
          | None \<Rightarrow> ([], m));
          (exp2, g) = expire_state_if_due now (global_state m);
          m = m\<lparr>global_state := g\<rparr>;
          done = exp1 @ exp2
      in if done = [] then m
         else refresh_active_scene_effect now (emit (map (\<lambda>(i, r). (i, r, Expired)) done) m))"

definition min_opt :: "instant option \<Rightarrow> instant option \<Rightarrow> instant option" where
  "min_opt a b =
     (case a of None \<Rightarrow> b | Some x \<Rightarrow> (case b of None \<Rightarrow> Some x | Some y \<Rightarrow> Some (min x y)))"

definition active_deadline :: "led_scene_manager \<Rightarrow> instant option" where
  "active_deadline m =
     min_opt (map_option rt_until (Option.bind (active_tier m) active_temp))
       (map_option rt_until (active_temp (global_state m)))"

end
