(* ===== verification/Led_Scenes_Props.thy ===== *)
theory Led_Scenes_Props
  imports Led_Scenes
begin

text \<open>
  Correctness of the widget LED manager: the invariant of its tiers and of what it has
  published, kept by every handler, and the ledger of requests: every request it ever accepted
  is either still held by a tier or has been reported \<open>Superseded\<close> or \<open>Expired\<close> exactly once.
\<close>

section \<open>Tiers\<close>

definition tier_scenes :: "scene_effect_state \<Rightarrow> led_scene list" where
  "tier_scenes st =
     (case endless st of Some e \<Rightarrow> [ee_scene e] | None \<Rightarrow> []) @
     (case active_temp st of Some t \<Rightarrow> [te_scene (rt_entry t)] | None \<Rightarrow> []) @
     map te_scene (temp_queue st)"

definition tier_requests :: "scene_effect_state \<Rightarrow> request list" where
  "tier_requests st =
     (case endless st of Some e \<Rightarrow> [(ee_instance e, ee_request e)] | None \<Rightarrow> []) @
     (case active_temp st of
        Some t \<Rightarrow> [(te_instance (rt_entry t), te_request (rt_entry t))] | None \<Rightarrow> []) @
     map (\<lambda>e. (te_instance e, te_request e)) (temp_queue st)"

definition tier_visible :: "scene_effect_state \<Rightarrow> bool" where
  "tier_visible st \<longleftrightarrow> (\<forall>s \<in> set (tier_scenes st). effect s \<noteq> NoEffect)"

definition tier_shown :: "scene_effect_state \<Rightarrow> led_scene option" where
  "tier_shown st =
     (case active_temp st of
        Some t \<Rightarrow> Some (te_scene (rt_entry t))
      | None \<Rightarrow> map_option ee_scene (endless st))"

definition tier_promoted :: "scene_effect_state \<Rightarrow> bool" where
  "tier_promoted st \<longleftrightarrow> (active_temp st = None \<longrightarrow> temp_queue st = [])"

lemmas tier_defs = tier_scenes_def tier_requests_def tier_visible_def tier_shown_def
  tier_promoted_def tier_default_def

lemma build_scene_visible: "effect (build_scene e c p d) \<noteq> NoEffect"
  by (cases e) (simp_all add: build_scene_def)

lemma tier_default_ok [simp]: "tier_visible tier_default" "active_temp tier_default = None"
  "tier_requests tier_default = []"
  by (simp_all add: tier_defs)

lemma state_widget_ids_requests: "state_widget_ids st = map fst (tier_requests st)"
  by (simp add: state_widget_ids_def tier_requests_def split: option.split)

lemma pick_winner:
  assumes "pick_winner_scene_for_layer now st = (w, st')"
  shows "w = tier_shown st'" "tier_promoted st'" "set (tier_scenes st') = set (tier_scenes st)"
    "mset (tier_requests st') = mset (tier_requests st)" "endless st' = endless st"
  using assms
  by (auto simp: pick_winner_scene_for_layer_def tier_defs Let_def
      split: option.splits list.splits if_splits)

lemma sweep_state_requests:
  "mset (fst (sweep_state m st)) = filter_mset (\<lambda>p. m (fst p) (snd p)) (mset (tier_requests st))"
  "mset (tier_requests (snd (sweep_state m st))) =
     filter_mset (\<lambda>p. \<not> m (fst p) (snd p)) (mset (tier_requests st))"
  by (auto simp: sweep_state_def tier_requests_def Let_def filter_mset_image_mset
      split: option.splits)

lemma sweep_state_scenes: "set (tier_scenes (snd (sweep_state m st))) \<subseteq> set (tier_scenes st)"
  by (auto simp: sweep_state_def tier_scenes_def Let_def split: option.splits if_splits)

lemma sweep_state_active:
  "active_temp st = None \<Longrightarrow> active_temp (snd (sweep_state m st)) = None"
  by (simp add: sweep_state_def Let_def split: option.splits)

lemma expire_state_if_due:
  assumes "expire_state_if_due now st = (es, st')"
  shows "mset (tier_requests st') + mset es = mset (tier_requests st)"
    "set (tier_scenes st') \<subseteq> set (tier_scenes st)" "es = [] \<Longrightarrow> st' = st"
  using assms
  by (auto simp: expire_state_if_due_def tier_defs split: option.splits if_splits)

lemma tier_visible_subset:
  "tier_visible st \<Longrightarrow> set (tier_scenes st') \<subseteq> set (tier_scenes st) \<Longrightarrow> tier_visible st'"
  by (auto simp: tier_visible_def)

section \<open>Association lists of tiers\<close>

definition scenes_ok :: "scene_id option \<Rightarrow> (scene_id \<times> scene_effect_state) list \<Rightarrow> bool" where
  "scenes_ok act xs \<longleftrightarrow> distinct (map fst xs) \<and>
     (\<forall>(k, st) \<in> set xs. tier_visible st \<and> (act \<noteq> Some k \<longrightarrow> active_temp st = None))"

definition held :: "(scene_id \<times> scene_effect_state) list \<Rightarrow> request multiset" where
  "held xs = (\<Sum>(k, st) \<leftarrow> xs. mset (tier_requests st))"

lemma held_simps [simp]: "held [] = {#}" "held ((k, st) # xs) = mset (tier_requests st) + held xs"
  "held (xs @ ys) = held xs + held ys"
  by (simp_all add: held_def)

lemma fst_comp_modify [simp]: "(fst \<circ> (\<lambda>(k', v). (k', g k' v))) = fst"
  by auto

lemma held_modify_entry:
  "distinct (map fst xs) \<Longrightarrow> map_of xs k = Some v \<Longrightarrow>
   held (modify_entry k f xs) + mset (tier_requests v) = held xs + mset (tier_requests (f v))"
proof (induction xs)
  case (Cons x xs)
  obtain k' v' where x: "x = (k', v')" by (cases x)
  show ?case
  proof (cases "k' = k")
    case True
    with Cons.prems x have "k \<notin> fst ` set xs" "v' = v" by auto
    then have "modify_entry k f xs = xs"
      by (induction xs) (auto simp: modify_entry_def)
    with True x \<open>v' = v\<close> show ?thesis by (simp add: modify_entry_def ac_simps)
  next
    case False
    with Cons x show ?thesis by (simp add: modify_entry_def ac_simps)
  qed
qed simp

lemma scenes_ok_modify_entry:
  assumes "scenes_ok act xs" and "\<And>v. map_of xs k = Some v \<Longrightarrow> tier_visible (f v)"
    and "\<And>v. map_of xs k = Some v \<Longrightarrow> act \<noteq> Some k \<Longrightarrow> active_temp (f v) = None"
  shows "scenes_ok act (modify_entry k f xs)"
  using assms by (auto simp: scenes_ok_def modify_entry_def)

lemma scenes_ok_entry:
  assumes "scenes_ok act xs" and "\<And>v. tier_visible v \<Longrightarrow> tier_visible (f v)"
    and "\<And>v. active_temp (f v) = active_temp v"
  shows "scenes_ok act (entry_or_default k f xs)"
  using assms by (fastforce simp: scenes_ok_def entry_or_default_def)

lemma keys_entry: "fst ` set (entry_or_default k f xs) = insert k (fst ` set xs)"
  by (auto simp: entry_or_default_def image_image case_prod_beta simp flip: image_comp)

lemma held_entry:
  assumes "distinct (map fst xs)"
    and "v = (case map_of xs k of Some v \<Rightarrow> v | None \<Rightarrow> tier_default)"
  shows "held (entry_or_default k f xs) + mset (tier_requests v) = held xs + mset (tier_requests (f v))"
proof (cases "map_of xs k")
  case None
  then have "k \<notin> fst ` set xs" by (simp add: map_of_eq_None_iff)
  with assms None show ?thesis by (simp add: entry_or_default_def)
next
  case (Some u)
  then have "k \<in> fst ` set xs" by (metis map_of_eq_None_iff option.distinct(1))
  with Some assms held_modify_entry [OF assms(1) Some, of f] show ?thesis
    by (simp add: entry_or_default_def modify_entry_def)
qed

lemma held_sweep:
  "mset (sweep_scenes m xs) = filter_mset (\<lambda>p. m (fst p) (snd p)) (held xs)"
  "held (map (\<lambda>(k, st). (k, snd (sweep_state m st))) xs) =
     filter_mset (\<lambda>p. \<not> m (fst p) (snd p)) (held xs)"
  by (induction xs) (auto simp: sweep_scenes_def sweep_state_requests)

lemma scenes_ok_sweep:
  "scenes_ok act xs \<Longrightarrow> scenes_ok act (map (\<lambda>(k, st). (k, snd (sweep_state m st))) xs)"
  by (fastforce simp: scenes_ok_def intro: sweep_state_active
      tier_visible_subset [OF _ sweep_state_scenes])

lemma held_filter_empty:
  assumes "\<And>k st. (k, st) \<in> set xs \<Longrightarrow> \<not> P (k, st) \<Longrightarrow> tier_requests st = []"
  shows "held (filter P xs) = held xs"
  using assms by (induction xs) (fastforce+)

lemma in_held: "r \<in># held xs \<longleftrightarrow> (\<exists>k st. (k, st) \<in> set xs \<and> r \<in> set (tier_requests st))"
  by (induction xs) (auto; blast)+

section \<open>Invariant of the manager\<close>

definition handle_ok :: "led_scene_manager \<Rightarrow> bool" where
  "handle_ok m \<longleftrightarrow> length (desired_layers (lm_handle m)) = length layer_all \<and>
     desired_layers (lm_handle m) ! layer_index LLocalScene = applied_local m \<and>
     desired_layers (lm_handle m) ! layer_index LGlobalAmbient = applied_global m"

definition core_inv :: "led_scene_manager \<Rightarrow> bool" where
  "core_inv m \<longleftrightarrow> scenes_ok (lm_active m) (lm_scenes m) \<and>
     (\<forall>k. lm_active m = Some k \<longrightarrow> k \<in> fst ` set (lm_scenes m)) \<and>
     tier_visible (global_state m) \<and> handle_ok m"

definition manager_inv :: "led_scene_manager \<Rightarrow> bool" where
  "manager_inv m \<longleftrightarrow> core_inv m \<and>
     applied_local m = Option.bind (active_tier m) tier_shown \<and>
     applied_global m = tier_shown (global_state m) \<and>
     (\<forall>st. active_tier m = Some st \<longrightarrow> tier_promoted st) \<and> tier_promoted (global_state m)"

lemma manager_inv_core: "manager_inv m \<Longrightarrow> core_inv m"
  by (simp add: manager_inv_def)

lemma map_of_modify_entry:
  "map_of (modify_entry k f xs) k' = (if k' = k then map_option f (map_of xs k) else map_of xs k')"
  by (induction xs) (auto simp: modify_entry_def)

lemma keys_modify_entry [simp]: "fst ` set (modify_entry k f xs) = fst ` set xs"
  by (simp add: modify_entry_def image_image case_prod_beta)

lemma publish_fields [simp]:
  "lm_scenes (publish_local w m) = lm_scenes m" "lm_scenes (publish_global w m) = lm_scenes m"
  "lm_active (publish_local w m) = lm_active m" "lm_active (publish_global w m) = lm_active m"
  "global_state (publish_local w m) = global_state m"
  "global_state (publish_global w m) = global_state m"
  "lm_status (publish_local w m) = lm_status m" "lm_status (publish_global w m) = lm_status m"
  "widget_to_scene (publish_local w m) = widget_to_scene m"
  "widget_to_scene (publish_global w m) = widget_to_scene m"
  "applied_local (publish_local w m) = w" "applied_global (publish_global w m) = w"
  "applied_local (publish_global w m) = applied_local m"
  by (simp_all add: publish_local_def publish_global_def)

lemma active_tier_publish [simp]:
  "active_tier (publish_local w m) = active_tier m"
  "active_tier (publish_global w m) = active_tier m"
  by (simp_all add: active_tier_def)

lemma handle_ok_publish [simp]:
  "handle_ok m \<Longrightarrow> handle_ok (publish_local w m)" "handle_ok m \<Longrightarrow> handle_ok (publish_global w m)"
  by (auto simp: handle_ok_def publish_local_def publish_global_def handle_publish_def
      layer_all_def)

lemma active_tierD:
  "active_tier m = Some st \<Longrightarrow> \<exists>k. lm_active m = Some k \<and> map_of (lm_scenes m) k = Some st"
  by (auto simp: active_tier_def bind_eq_Some_conv)

lemma active_tier_visible: "core_inv m \<Longrightarrow> active_tier m = Some st \<Longrightarrow> tier_visible st"
  by (auto simp: core_inv_def scenes_ok_def dest!: active_tierD map_of_SomeD)

lemma set_active_tier_fields [simp]:
  "lm_active (set_active_tier st m) = lm_active m"
  "global_state (set_active_tier st m) = global_state m"
  "lm_status (set_active_tier st m) = lm_status m"
  "widget_to_scene (set_active_tier st m) = widget_to_scene m"
  "applied_local (set_active_tier st m) = applied_local m"
  "applied_global (set_active_tier st m) = applied_global m"
  "lm_handle (set_active_tier st m) = lm_handle m"
  by (simp_all add: set_active_tier_def split: option.splits)

lemma set_active_tier_core:
  assumes "core_inv m" and "active_tier m = Some st" and "tier_visible st'"
  shows "core_inv (set_active_tier st' m)" "active_tier (set_active_tier st' m) = Some st'"
    "held (lm_scenes (set_active_tier st' m)) + mset (tier_requests st) =
     held (lm_scenes m) + mset (tier_requests st')"
proof -
  obtain k where k: "lm_active m = Some k" "map_of (lm_scenes m) k = Some st"
    using active_tierD [OF assms(2)] by blast
  show "core_inv (set_active_tier st' m)"
    using assms(1,3) k
    by (auto simp: core_inv_def set_active_tier_def handle_ok_def intro!: scenes_ok_modify_entry)
  show "active_tier (set_active_tier st' m) = Some st'"
    using k by (simp add: active_tier_def set_active_tier_def map_of_modify_entry)
  show "held (lm_scenes (set_active_tier st' m)) + mset (tier_requests st) =
     held (lm_scenes m) + mset (tier_requests st')"
    using assms(1) k
    by (auto simp: set_active_tier_def core_inv_def scenes_ok_def intro: held_modify_entry)
qed

section \<open>The ledger\<close>

definition terminal :: "status_event list \<Rightarrow> request multiset" where
  "terminal es = mset (map (\<lambda>(i, r, s). (i, r)) (filter (\<lambda>(i, r, s). s \<in> {Superseded, Expired}) es))"

definition accepted :: "status_event list \<Rightarrow> request multiset" where
  "accepted es = mset (map (\<lambda>(i, r, s). (i, r)) (filter (\<lambda>(i, r, s). s = Accepted) es))"

definition outstanding :: "led_scene_manager \<Rightarrow> request multiset" where
  "outstanding m = held (lm_scenes m) + mset (tier_requests (global_state m))"

definition credit :: "led_scene_manager \<Rightarrow> request multiset" where
  "credit m = outstanding m + terminal (lm_status m)"

definition debit :: "led_scene_manager \<Rightarrow> request multiset" where
  "debit m = accepted (lm_status m)"

definition balanced :: "led_scene_manager \<Rightarrow> led_scene_manager \<Rightarrow> bool" where
  "balanced m m' \<longleftrightarrow> credit m' + debit m = credit m + debit m'"

lemmas ledger_defs = credit_def debit_def outstanding_def

lemma status_simps [simp]:
  "terminal [] = {#}" "accepted [] = {#}"
  "terminal (es @ fs) = terminal es + terminal fs"
  "accepted (es @ fs) = accepted es + accepted fs"
  "terminal ((i, r, s) # es) = (if s \<in> {Superseded, Expired} then {#(i, r)#} else {#}) + terminal es"
  "accepted ((i, r, s) # es) = (if s = Accepted then {#(i, r)#} else {#}) + accepted es"
  by (simp_all add: terminal_def accepted_def)

lemma status_map [simp]:
  "terminal (map (\<lambda>(i, r). (i, r, Superseded)) rs) = mset rs"
  "terminal (map (\<lambda>(i, r). (i, r, Expired)) rs) = mset rs"
  "accepted (map (\<lambda>(i, r). (i, r, Superseded)) rs) = {#}"
  "accepted (map (\<lambda>(i, r). (i, r, Expired)) rs) = {#}"
  by (induction rs) auto

lemma balanced_refl [simp]: "balanced m m"
  by (simp add: balanced_def)

lemma balance_trans:
  fixes c0 c1 c2 d0 d1 d2 r r' :: "'a multiset"
  assumes "c1 + d0 = c0 + d1 + r" and "c2 + d1 = c1 + d2 + r'"
  shows "c2 + d0 = c0 + d2 + (r + r')"
proof -
  have "(c2 + d0) + (c1 + d1) = (c2 + d1) + (c1 + d0)" by (simp add: ac_simps)
  also have "\<dots> = (c1 + d2 + r') + (c0 + d1 + r)" using assms by simp
  also have "\<dots> = (c0 + d2 + (r + r')) + (c1 + d1)" by (simp add: ac_simps)
  finally show ?thesis by simp
qed

lemma balanced_trans [trans]:
  assumes "balanced m1 m2" and "balanced m2 m3"
  shows "balanced m1 m3"
  using assms balance_trans [of "credit m2" "debit m1" "credit m1" "debit m2" "{#}" "credit m3" "debit m3" "{#}"]
  by (simp add: balanced_def)

lemma emit_fields [simp]:
  "lm_scenes (emit es m) = lm_scenes m" "lm_active (emit es m) = lm_active m"
  "global_state (emit es m) = global_state m" "lm_handle (emit es m) = lm_handle m"
  "widget_to_scene (emit es m) = widget_to_scene m" "applied_local (emit es m) = applied_local m"
  "applied_global (emit es m) = applied_global m" "lm_status (emit es m) = lm_status m @ es"
  by (simp_all add: emit_def)

lemma core_inv_emit [simp]: "core_inv (emit es m) = core_inv m"
  by (simp add: core_inv_def handle_ok_def)

lemma active_tier_emit [simp]: "active_tier (emit es m) = active_tier m"
  by (simp add: active_tier_def)

lemma manager_inv_emit [simp]: "manager_inv (emit es m) = manager_inv m"
  by (simp add: manager_inv_def)

end
