(* ===== verification/Led_Ledger.thy ===== *)
theory Led_Ledger
  imports Led_Scenes_Props
begin

text \<open>
  Every handler of the LED manager keeps the invariant and balances the ledger. The handlers are
  gathered as the operations \<open>led_op\<close>; the locale \<open>request_ledger\<close> states what a
  request-accounting component promises and proves it for whole runs once.
\<close>

section \<open>Publishing the winners\<close>

lemma refresh_None:
  "active_tier m = None \<Longrightarrow> pick_winner_scene_for_layer now (global_state m) = (gw, g) \<Longrightarrow>
   refresh_active_scene_effect now m =
     publish_global gw (publish_local None (m\<lparr>global_state := g\<rparr>))"
  by (simp add: refresh_active_scene_effect_def)

lemma refresh_Some:
  "active_tier m = Some st \<Longrightarrow> pick_winner_scene_for_layer now st = (lw, st') \<Longrightarrow>
   pick_winner_scene_for_layer now (global_state m) = (gw, g) \<Longrightarrow>
   refresh_active_scene_effect now m =
     publish_global gw (publish_local lw ((set_active_tier st' m)\<lparr>global_state := g\<rparr>))"
  by (simp add: refresh_active_scene_effect_def)

lemma core_inv_global:
  "core_inv m \<Longrightarrow> tier_visible g \<Longrightarrow> core_inv (m\<lparr>global_state := g\<rparr>)"
  by (simp add: core_inv_def handle_ok_def)

lemma active_tier_global [simp]: "active_tier (m\<lparr>global_state := g\<rparr>) = active_tier m"
  by (simp add: active_tier_def)

lemma core_inv_publish:
  "core_inv m \<Longrightarrow> core_inv (publish_global gw (publish_local lw m))"
  by (simp add: core_inv_def)

lemma refresh_manager_inv_aux:
  assumes "core_inv m" and "pick_winner_scene_for_layer now (global_state m) = (gw, g)"
    and "lw = Option.bind (active_tier m) tier_shown"
    and "\<And>st. active_tier m = Some st \<Longrightarrow> tier_promoted st"
  shows "manager_inv (publish_global gw (publish_local lw (m\<lparr>global_state := g\<rparr>)))"
proof -
  note g = pick_winner [OF assms(2)]
  have "tier_visible g"
    using assms(1) g(3) by (auto simp: core_inv_def tier_visible_def)
  then have "core_inv (publish_global gw (publish_local lw (m\<lparr>global_state := g\<rparr>)))"
    using assms(1) by (intro core_inv_publish core_inv_global)
  then show ?thesis
    using assms(3,4) g(1,2) by (simp add: manager_inv_def)
qed

lemma refresh_manager_inv:
  assumes "core_inv m"
  shows "manager_inv (refresh_active_scene_effect now m)"
proof -
  obtain gw g where g: "pick_winner_scene_for_layer now (global_state m) = (gw, g)"
    by fastforce
  show ?thesis
  proof (cases "active_tier m")
    case None
    with refresh_manager_inv_aux [OF assms g, of None] g show ?thesis
      by (simp add: refresh_None)
  next
    case (Some st)
    obtain lw st' where st': "pick_winner_scene_for_layer now st = (lw, st')" by fastforce
    note w = pick_winner [OF st']
    have "tier_visible st'"
      using active_tier_visible [OF assms Some] w(3) by (auto simp: tier_visible_def)
    note core = set_active_tier_core [OF assms Some this]
    show ?thesis
      using refresh_manager_inv_aux [OF core(1), of now gw g lw] core(2) g w(1,2)
      by (simp add: refresh_Some [OF Some st' g])
  qed
qed

lemma refresh_fields [simp]:
  "lm_status (refresh_active_scene_effect now m) = lm_status m"
  "lm_active (refresh_active_scene_effect now m) = lm_active m"
  "widget_to_scene (refresh_active_scene_effect now m) = widget_to_scene m"
  by (auto simp: refresh_active_scene_effect_def Let_def split: option.splits prod.splits)

lemma refresh_outstanding:
  assumes "core_inv m"
  shows "outstanding (refresh_active_scene_effect now m) = outstanding m"
proof -
  obtain gw g where g: "pick_winner_scene_for_layer now (global_state m) = (gw, g)"
    by fastforce
  show ?thesis
  proof (cases "active_tier m")
    case None
    with g pick_winner(4) [OF g] show ?thesis by (simp add: refresh_None outstanding_def)
  next
    case (Some st)
    obtain lw st' where st': "pick_winner_scene_for_layer now st = (lw, st')" by fastforce
    note w = pick_winner [OF st']
    have "tier_visible st'"
      using active_tier_visible [OF assms Some] w(3) by (auto simp: tier_visible_def)
    note set_active_tier_core(3) [OF assms Some this]
    then have "held (lm_scenes (set_active_tier st' m)) = held (lm_scenes m)"
      using w(4) by simp
    with pick_winner(4) [OF g] show ?thesis
      by (simp add: refresh_Some [OF Some st' g] outstanding_def)
  qed
qed

lemma refresh_balanced: "core_inv m \<Longrightarrow> balanced m (refresh_active_scene_effect now m)"
  by (simp add: balanced_def ledger_defs refresh_outstanding [unfolded outstanding_def])

section \<open>The handlers\<close>

text \<open>A handler is good when it keeps the invariant and balances the ledger.\<close>

definition good :: "led_scene_manager \<Rightarrow> led_scene_manager \<Rightarrow> bool" where
  "good m m' \<longleftrightarrow> manager_inv m' \<and> balanced m m'"

lemma good_refresh:
  assumes "core_inv m'" and "balanced m m'"
  shows "good m (refresh_active_scene_effect now m')"
  using assms by (auto simp: good_def refresh_manager_inv intro: balanced_trans refresh_balanced)

lemma good_trans: "good m m' \<Longrightarrow> good m' m'' \<Longrightarrow> good m m''"
  by (auto simp: good_def intro: balanced_trans)

lemma drop_active_scene_temp:
  assumes "core_inv m"
  shows "core_inv (drop_active_scene_temp m)" "balanced m (drop_active_scene_temp m)"
    "lm_active (drop_active_scene_temp m) = lm_active m"
    "\<forall>(k, st) \<in> set (lm_scenes (drop_active_scene_temp m)). active_temp st = None"
proof -
  have clear: "\<forall>(k, st) \<in> set (lm_scenes m). active_temp st = None"
    if "\<And>st. active_tier m = Some st \<Longrightarrow> active_temp st = None"
  proof safe
    fix k st
    assume kst: "(k, st) \<in> set (lm_scenes m)"
    then show "active_temp st = None"
      using assms that by (fastforce simp: core_inv_def scenes_ok_def active_tier_def)
  qed
  have "core_inv (drop_active_scene_temp m) \<and> balanced m (drop_active_scene_temp m) \<and>
    lm_active (drop_active_scene_temp m) = lm_active m \<and>
    (\<forall>(k, st) \<in> set (lm_scenes (drop_active_scene_temp m)). active_temp st = None)"
  proof (cases "active_tier m")
    case None
    with assms clear show ?thesis by (simp add: drop_active_scene_temp_def)
  next
    case (Some st)
    show ?thesis
    proof (cases "active_temp st")
      case None
      with Some assms clear show ?thesis by (simp add: drop_active_scene_temp_def)
    next
      case (Some t)
      let ?st = "st\<lparr>active_temp := None\<rparr>"
      have vis: "tier_visible ?st"
        using active_tier_visible [OF assms \<open>active_tier m = Some st\<close>]
        by (auto intro: tier_visible_subset simp: tier_scenes_def)
      note core = set_active_tier_core [OF assms \<open>active_tier m = Some st\<close> vis]
      have "mset (tier_requests st) =
          {#(te_instance (rt_entry t), te_request (rt_entry t))#} + mset (tier_requests ?st)"
        using Some by (simp add: tier_requests_def)
      then have "balanced m (drop_active_scene_temp m)"
        using core(3) \<open>active_tier m = Some st\<close> Some
        by (simp add: drop_active_scene_temp_def balanced_def ledger_defs)
      moreover obtain k where "lm_active m = Some k" "map_of (lm_scenes m) k = Some st"
        using active_tierD [OF \<open>active_tier m = Some st\<close>] by blast
      then have "\<forall>(k, st) \<in> set (lm_scenes (set_active_tier ?st m)). active_temp st = None"
        using assms
        by (fastforce simp: set_active_tier_def modify_entry_def core_inv_def scenes_ok_def)
      ultimately show ?thesis
        using core(1) \<open>active_tier m = Some st\<close> Some by (simp add: drop_active_scene_temp_def)
    qed
  qed
  then show "core_inv (drop_active_scene_temp m)" "balanced m (drop_active_scene_temp m)"
    "lm_active (drop_active_scene_temp m) = lm_active m"
    "\<forall>(k, st) \<in> set (lm_scenes (drop_active_scene_temp m)). active_temp st = None"
    by blast+
qed

lemma held_entry_id:
  "distinct (map fst xs) \<Longrightarrow> held (entry_or_default k (\<lambda>st. st) xs) = held xs"
  using held_entry [of xs _ k "\<lambda>st. st"] by simp

lemma core_inv_scenes_ok: "core_inv m \<Longrightarrow> scenes_ok (lm_active m) (lm_scenes m)"
  "core_inv m \<Longrightarrow> distinct (map fst (lm_scenes m))"
  by (simp_all add: core_inv_def scenes_ok_def)

lemma balanced_scenes:
  "held xs = held (lm_scenes m) \<Longrightarrow> balanced m (m\<lparr>lm_active := a, lm_scenes := xs\<rparr>)"
  by (simp add: balanced_def ledger_defs)

lemma on_scene_changed_good:
  assumes "manager_inv m"
  shows "good m (on_scene_changed k now m)"
proof (cases "lm_active m = Some k")
  case True
  with assms show ?thesis by (simp add: on_scene_changed_def good_def)
next
  case False
  let ?m = "drop_active_scene_temp m"
  let ?m' = "?m\<lparr>lm_active := Some k, lm_scenes := entry_or_default k (\<lambda>st. st) (lm_scenes ?m)\<rparr>"
  note drop = drop_active_scene_temp [OF manager_inv_core [OF assms]]
  have "scenes_ok (Some k) (lm_scenes ?m)"
    using drop(1,4) by (auto simp: core_inv_def scenes_ok_def)
  then have "scenes_ok (Some k) (entry_or_default k (\<lambda>st. st) (lm_scenes ?m))"
    by (rule scenes_ok_entry) simp_all
  then have "core_inv ?m'"
    using drop(1) by (simp add: core_inv_def handle_ok_def keys_entry)
  moreover have "balanced m ?m'"
    using drop(2) balanced_scenes held_entry_id core_inv_scenes_ok(2) [OF drop(1)]
    by (metis balanced_trans)
  ultimately show ?thesis
    using False by (simp add: on_scene_changed_def Let_def good_refresh)
qed

lemma on_active_scene_cleared_good:
  assumes "manager_inv m"
  shows "good m (on_active_scene_cleared now m)"
proof (cases "lm_active m = None")
  case True
  with assms show ?thesis by (simp add: on_active_scene_cleared_def good_def)
next
  case False
  let ?m = "(drop_active_scene_temp m)\<lparr>lm_active := None\<rparr>"
  note drop = drop_active_scene_temp [OF manager_inv_core [OF assms]]
  have "core_inv ?m"
    using drop(1,4) by (auto simp: core_inv_def handle_ok_def scenes_ok_def)
  moreover have "balanced (drop_active_scene_temp m) ?m"
    by (simp add: balanced_def ledger_defs)
  then have "balanced m ?m" using drop(2) by (rule balanced_trans [rotated])
  ultimately show ?thesis
    using False by (auto simp: on_active_scene_cleared_def intro: good_refresh)
qed

text \<open>\<open>on_stop\<close> removes exactly the matching requests and reports each of them.\<close>

definition stop_match :: "instance_id \<Rightarrow> led_request_id \<Rightarrow> request \<Rightarrow> bool" where
  "stop_match inst req p \<longleftrightarrow> fst p = inst \<and> (req = led_request_id_all \<or> snd p = req)"

definition swept :: "(instance_id \<Rightarrow> led_request_id \<Rightarrow> bool) \<Rightarrow> led_scene_manager \<Rightarrow> led_scene_manager" where
  "swept match m =
     emit (map (\<lambda>(i, r). (i, r, Superseded))
        (sweep_scenes match (lm_scenes m) @ fst (sweep_state match (global_state m))))
     (m\<lparr>lm_scenes := map (\<lambda>(k, st). (k, snd (sweep_state match st))) (lm_scenes m),
        global_state := snd (sweep_state match (global_state m))\<rparr>)"

lemma on_stop_swept:
  "on_stop inst req now m =
     refresh_active_scene_effect now (swept (\<lambda>i r. stop_match inst req (i, r)) m)"
  by (simp add: on_stop_def swept_def stop_match_def Let_def)

lemma core_inv_swept: "core_inv m \<Longrightarrow> core_inv (swept match m)"
  using scenes_ok_sweep tier_visible_subset [OF _ sweep_state_scenes]
  by (auto simp: swept_def core_inv_def handle_ok_def image_image case_prod_beta)

lemma outstanding_swept:
  "outstanding (swept match m) = filter_mset (\<lambda>p. \<not> match (fst p) (snd p)) (outstanding m)"
  by (simp add: swept_def outstanding_def held_sweep sweep_state_requests)

lemma balanced_swept: "balanced m (swept match m)"
proof -
  have "mset (sweep_scenes match (lm_scenes m) @ fst (sweep_state match (global_state m))) =
      filter_mset (\<lambda>p. match (fst p) (snd p)) (outstanding m)" (is "mset ?sup = _")
    by (simp add: outstanding_def held_sweep sweep_state_requests)
  moreover have "lm_status (swept match m) = lm_status m @ map (\<lambda>(i, r). (i, r, Superseded)) ?sup"
    by (simp add: swept_def)
  moreover have "outstanding m = outstanding (swept match m) +
      filter_mset (\<lambda>p. match (fst p) (snd p)) (outstanding m)"
    by (simp add: outstanding_swept multiset_partition [symmetric] add.commute)
  ultimately show ?thesis
    unfolding balanced_def credit_def debit_def
    by (simp del: map_append mset_append add: ac_simps)
qed

lemma on_stop_outstanding:
  "core_inv m \<Longrightarrow> outstanding (on_stop inst req now m) =
    filter_mset (\<lambda>p. \<not> stop_match inst req p) (outstanding m)"
  by (simp add: on_stop_swept refresh_outstanding core_inv_swept outstanding_swept)

lemma on_stop_good: "core_inv m \<Longrightarrow> good m (on_stop inst req now m)"
  by (simp add: on_stop_swept good_refresh core_inv_swept balanced_swept)

lemma goodD: "good m m' \<Longrightarrow> core_inv m'" "good m m' \<Longrightarrow> manager_inv m'" "good m m' \<Longrightarrow> balanced m m'"
  by (simp_all add: good_def manager_inv_core)

lemma remove_widgets_core:
  "core_inv m \<Longrightarrow> core_inv (remove_widgets is now m) \<and> balanced m (remove_widgets is now m)"
proof (induction "is" arbitrary: m)
  case (Cons i "is")
  let ?m = "m\<lparr>widget_to_scene := AList.delete i (widget_to_scene m)\<rparr>"
  have "core_inv ?m" using Cons.prems by (simp add: core_inv_def handle_ok_def)
  note stop = on_stop_good [OF this, of i led_request_id_all now]
  have "balanced m ?m" by (simp add: balanced_def ledger_defs)
  with Cons.IH [OF goodD(1) [OF stop]] goodD(3) [OF stop] show ?case
    by (auto intro: balanced_trans)
qed simp

lemma add_widgets_core:
  "core_inv m \<Longrightarrow> core_inv (add_widgets ps m) \<and> balanced m (add_widgets ps m)"
proof (induction ps m rule: add_widgets.induct)
  case (2 i k ps m)
  let ?m = "m\<lparr>widget_to_scene := AList.update i k (widget_to_scene m),
              lm_scenes := entry_or_default k (\<lambda>st. st) (lm_scenes m)\<rparr>"
  have "core_inv ?m"
    using "2.prems" scenes_ok_entry [of "lm_active m" "lm_scenes m" "\<lambda>st. st" k]
    by (auto simp: core_inv_def handle_ok_def keys_entry)
  moreover have "balanced m ?m"
    using core_inv_scenes_ok(2) [OF "2.prems"] by (simp add: balanced_def ledger_defs held_entry_id)
  ultimately show ?case using "2.IH" by (auto intro: balanced_trans)
qed simp

lemma evict_empty_scenes_core:
  assumes "core_inv m"
  shows "core_inv (evict_empty_scenes m)" "balanced m (evict_empty_scenes m)"
proof -
  let ?P = "\<lambda>(k, st). k \<in> snd ` set (widget_to_scene m) \<or> Some k = lm_active m \<or>
           endless st \<noteq> None \<or> temp_queue st \<noteq> [] \<or> active_temp st \<noteq> None"
  have "held (filter ?P (lm_scenes m)) = held (lm_scenes m)"
    by (rule held_filter_empty) (auto simp: tier_requests_def)
  then show "balanced m (evict_empty_scenes m)"
    by (simp add: evict_empty_scenes_def balanced_def ledger_defs)
  show "core_inv (evict_empty_scenes m)"
    using assms distinct_map_filter
    by (fastforce simp: evict_empty_scenes_def core_inv_def handle_ok_def scenes_ok_def)
qed

lemma on_config_snapshot_good:
  assumes "core_inv m"
  shows "good m (on_config_snapshot snapshot now m)"
proof -
  define removed where
    "removed = filter (\<lambda>i. i \<notin> fst ` set snapshot) (map fst (widget_to_scene m))"
  note r = remove_widgets_core [OF assms, of removed now]
  note a = add_widgets_core [OF conjunct1 [OF r], of snapshot]
  note e = evict_empty_scenes_core [OF conjunct1 [OF a]]
  from r a e(2) have "balanced m (evict_empty_scenes (add_widgets snapshot (remove_widgets removed now m)))"
    by (auto intro: balanced_trans)
  with e(1) show ?thesis
    by (simp add: on_config_snapshot_def removed_def Let_def good_refresh)
qed

text \<open>What a start request adds to a tier.\<close>

lemma tier_push:
  "mset (tier_requests (st\<lparr>temp_queue := temp_queue st @ [e]\<rparr>)) =
     {#(te_instance e, te_request e)#} + mset (tier_requests st)"
  "effect (te_scene e) \<noteq> NoEffect \<Longrightarrow> tier_visible st \<Longrightarrow>
     tier_visible (st\<lparr>temp_queue := temp_queue st @ [e]\<rparr>)"
  by (auto simp: tier_requests_def tier_visible_def tier_scenes_def split: option.splits)

lemma tier_put:
  "mset (tier_requests (st\<lparr>endless := snd (apply_endless (endless st) e)\<rparr>)) +
     terminal (fst (apply_endless (endless st) e)) =
     {#(ee_instance e, ee_request e)#} + mset (tier_requests st)"
  "accepted (fst (apply_endless (endless st) e)) = {#}"
  "effect (ee_scene e) \<noteq> NoEffect \<Longrightarrow> tier_visible st \<Longrightarrow>
     tier_visible (st\<lparr>endless := snd (apply_endless (endless st) e)\<rparr>)"
  by (auto simp: tier_requests_def tier_visible_def tier_scenes_def apply_endless_def
      split: option.splits)

text \<open>A start request changes one tier: the widget's scene or the global one.\<close>

lemma start_local:
  assumes "core_inv m" and "v = (case map_of (lm_scenes m) k of Some v \<Rightarrow> v | None \<Rightarrow> tier_default)"
    and "mset (tier_requests (f v)) + terminal es = {#p#} + mset (tier_requests v)"
    and "accepted es = {#}"
    and "\<And>st. tier_visible st \<Longrightarrow> tier_visible (f st)"
    and "\<And>st. active_temp (f st) = active_temp st"
  shows "good m (refresh_active_scene_effect now
    (emit [(fst p, snd p, Accepted)] (emit es (m\<lparr>lm_scenes := entry_or_default k f (lm_scenes m)\<rparr>))))"
    (is "good m (refresh_active_scene_effect now ?m)")
proof (rule good_refresh)
  show "core_inv ?m"
    using assms(1,5,6) scenes_ok_entry [of "lm_active m" "lm_scenes m" f k]
    by (auto simp: core_inv_def handle_ok_def keys_entry)
  let ?h = "held (entry_or_default k f (lm_scenes m))"
  note entry = held_entry [OF core_inv_scenes_ok(2) [OF assms(1)] assms(2), of f]
  have "?h + terminal es + mset (tier_requests v) = (?h + mset (tier_requests v)) + terminal es"
    by (simp only: ac_simps)
  also have "\<dots> = held (lm_scenes m) + (mset (tier_requests (f v)) + terminal es)"
    unfolding entry by (rule add.assoc)
  also have "\<dots> = held (lm_scenes m) + {#p#} + mset (tier_requests v)"
    unfolding assms(3) by (simp only: add.assoc)
  finally have "held (entry_or_default k f (lm_scenes m)) + terminal es = held (lm_scenes m) + {#p#}"
    by simp
  with assms(4) show "balanced m ?m"
    by (simp add: balanced_def ledger_defs)
qed

lemma start_global:
  assumes "core_inv m"
    and "mset (tier_requests (f (global_state m))) + terminal es =
         {#p#} + mset (tier_requests (global_state m))"
    and "accepted es = {#}"
    and "\<And>st. tier_visible st \<Longrightarrow> tier_visible (f st)"
  shows "good m (refresh_active_scene_effect now
    (emit [(fst p, snd p, Accepted)] (emit es (m\<lparr>global_state := f (global_state m)\<rparr>))))"
    (is "good m (refresh_active_scene_effect now ?m)")
proof (rule good_refresh)
  show "core_inv ?m"
    using assms(1,4) by (simp add: core_inv_def handle_ok_def)
  show "balanced m ?m"
    using assms(2,3) by (simp add: balanced_def ledger_defs ac_simps)
qed

text \<open>The requests a start handler refuses: local requests of a widget no configured scene
  holds. They are reported \<open>Superseded\<close> without having been accepted.\<close>

definition refused_start ::
  "instance_id \<Rightarrow> led_request_id \<Rightarrow> led_scope \<Rightarrow> led_scene_manager \<Rightarrow> request multiset" where
  "refused_start inst req scope m =
     (if req \<noteq> led_request_id_all \<and> scope = ScopeLocal \<and> map_of (widget_to_scene m) inst = None
      then {#(inst, req)#} else {#})"

definition good_upto ::
  "request multiset \<Rightarrow> led_scene_manager \<Rightarrow> led_scene_manager \<Rightarrow> bool" where
  "good_upto ref m m' \<longleftrightarrow> manager_inv m' \<and> credit m' + debit m = credit m + debit m' + ref"

lemma good_upto_good: "good m m' \<Longrightarrow> good_upto {#} m m'"
  by (simp add: good_def good_upto_def balanced_def)

lemma refused_good:
  "manager_inv m \<Longrightarrow> good_upto {#(inst, req)#} m (emit [(inst, req, Superseded)] m)"
  by (simp add: good_upto_def ledger_defs)

lemma on_temporary_good:
  assumes "manager_inv m"
  shows "good_upto (refused_start inst req scope m) m
    (on_temporary inst req e c period_ms duration_ms scope now m)"
proof (cases "req = led_request_id_all")
  case True
  with assms show ?thesis
    by (simp add: on_temporary_def refused_start_def good_upto_def)
next
  case False
  define entry where "entry = \<lparr>te_instance = inst, te_request = req,
      te_scene = build_scene e c period_ms (Some (unat duration_ms)),
      te_duration = from_millis (unat duration_ms)\<rparr>"
  let ?push = "\<lambda>st. st\<lparr>temp_queue := temp_queue st @ [entry]\<rparr>"
  have vis: "tier_visible st \<Longrightarrow> tier_visible (?push st)" for st
    by (rule tier_push(2)) (simp_all add: entry_def build_scene_visible)
  have req: "mset (tier_requests (?push st)) + terminal [] = {#(inst, req)#} + mset (tier_requests st)" for st
    using tier_push(1) [of st entry] by (simp add: entry_def)
  note core = manager_inv_core [OF assms]
  show ?thesis
  proof (cases scope)
    case ScopeGlobal
    have "good m (refresh_active_scene_effect now
        (emit [(inst, req, Accepted)] (m\<lparr>global_state := ?push (global_state m)\<rparr>)))"
      using start_global [OF core, of ?push "[]" "(inst, req)" now, OF req _ vis]
      by (simp add: emit_def)
    then show ?thesis
      using False ScopeGlobal
      by (simp add: on_temporary_def Let_def refused_start_def entry_def good_upto_good)
  next
    case ScopeLocal
    show ?thesis
    proof (cases "map_of (widget_to_scene m) inst")
      case None
      with False ScopeLocal show ?thesis
        by (simp add: on_temporary_def Let_def refused_start_def refused_good [OF assms])
    next
      case (Some k)
      have "good m (refresh_active_scene_effect now (emit [(inst, req, Accepted)]
          (m\<lparr>lm_scenes := entry_or_default k ?push (lm_scenes m)\<rparr>)))"
        using start_local [OF core refl, of ?push k "[]" "(inst, req)" now, OF req _ vis]
        by (simp add: emit_def)
      then show ?thesis
        using False ScopeLocal Some
        by (simp add: on_temporary_def Let_def refused_start_def entry_def good_upto_good)
    qed
  qed
qed

lemma on_endless_good:
  assumes "manager_inv m"
  shows "good_upto (refused_start inst req scope m) m
    (on_endless inst req e c period_ms scope now m)"
proof (cases "req = led_request_id_all")
  case True
  with assms show ?thesis
    by (simp add: on_endless_def refused_start_def good_upto_def)
next
  case False
  define new where "new = \<lparr>ee_instance = inst, ee_request = req,
      ee_scene = build_scene e c period_ms None\<rparr>"
  let ?put = "\<lambda>st. st\<lparr>endless := snd (apply_endless (endless st) new)\<rparr>"
  have vis: "tier_visible st \<Longrightarrow> tier_visible (?put st)" for st
    by (rule tier_put(3)) (simp_all add: new_def build_scene_visible)
  have req: "mset (tier_requests (?put st)) + terminal (fst (apply_endless (endless st) new)) =
      {#(inst, req)#} + mset (tier_requests st)" for st
    using tier_put(1) [of st new] by (simp add: new_def)
  note core = manager_inv_core [OF assms]
  show ?thesis
  proof (cases scope)
    case ScopeGlobal
    then show ?thesis
      using False start_global [OF core, of ?put _ "(inst, req)" now, OF req tier_put(2) vis]
      by (simp add: on_endless_def Let_def refused_start_def good_upto_good flip: new_def)
  next
    case ScopeLocal
    show ?thesis
    proof (cases "map_of (widget_to_scene m) inst")
      case None
      with False ScopeLocal show ?thesis
        by (simp add: on_endless_def Let_def refused_start_def refused_good [OF assms])
    next
      case (Some k)
      then show ?thesis
        using False ScopeLocal
          start_local [OF core refl, of ?put k _ "(inst, req)" now, OF req tier_put(2) vis]
        by (simp add: on_endless_def Let_def refused_start_def good_upto_good flip: new_def)
    qed
  qed
qed

lemma stop_all_good: "manager_inv m \<Longrightarrow> good m (stop_all ws now m)"
proof (induction ws arbitrary: m)
  case Nil
  then show ?case by (simp add: good_def)
next
  case (Cons w ws)
  note stop = on_stop_good [OF manager_inv_core [OF Cons.prems], of w led_request_id_all now]
  with Cons.IH [OF goodD(2) [OF stop]] show ?case by (auto intro: good_trans)
qed

lemma reconcile_connected_good: "manager_inv m \<Longrightarrow> good m (reconcile_connected conn now m)"
  by (simp add: reconcile_connected_def stop_all_good)

lemma stop_all_outstanding:
  "manager_inv m \<Longrightarrow>
   outstanding (stop_all ws now m) = filter_mset (\<lambda>p. fst p \<notin> set ws) (outstanding m)"
proof (induction ws arbitrary: m)
  case (Cons w ws)
  note core = manager_inv_core [OF Cons.prems]
  have "filter_mset (\<lambda>p. fst p \<notin> set ws) (filter_mset (\<lambda>p. \<not> stop_match w 0 p) (outstanding m)) =
      filter_mset (\<lambda>p. fst p \<notin> set (w # ws)) (outstanding m)"
    by (simp add: filter_filter_mset stop_match_def)
  with Cons.IH [OF goodD(2) [OF on_stop_good [OF core]]] show ?case
    by (simp add: on_stop_outstanding [OF core])
qed simp

lemma in_outstanding:
  "p \<in># outstanding m \<longleftrightarrow>
     (\<exists>k st. (k, st) \<in> set (lm_scenes m) \<and> p \<in> set (tier_requests st)) \<or>
     p \<in> set (tier_requests (global_state m))"
  by (simp add: outstanding_def in_held)

lemma stale_widgets_iff:
  "w \<in> set (stale_widgets conn m) \<longleftrightarrow> w \<notin> conn \<and> (\<exists>r. (w, r) \<in># outstanding m)"
  by (auto simp: stale_widgets_def in_outstanding state_widget_ids_requests image_iff) force+

lemma reconcile_outstanding:
  assumes "manager_inv m"
  shows "outstanding (reconcile_connected conn now m) =
    filter_mset (\<lambda>p. fst p \<in> conn) (outstanding m)"
proof -
  have "filter_mset (\<lambda>p. fst p \<notin> set (stale_widgets conn m)) (outstanding m) =
      filter_mset (\<lambda>p. fst p \<in> conn) (outstanding m)"
    by (rule filter_mset_cong) (auto simp: stale_widgets_iff)
  then show ?thesis by (simp add: reconcile_connected_def stop_all_outstanding [OF assms])
qed

lemma expire_active:
  assumes "core_inv m"
    and "(es, m') = (case active_tier m of
            Some st \<Rightarrow> let (es, st') = expire_state_if_due now st in (es, set_active_tier st' m)
          | None \<Rightarrow> ([], m))"
  shows "core_inv m'" "outstanding m' + mset es = outstanding m" "lm_status m' = lm_status m"
    "global_state m' = global_state m"
proof -
  have "core_inv m' \<and> outstanding m' + mset es = outstanding m \<and> lm_status m' = lm_status m \<and>
      global_state m' = global_state m"
  proof (cases "active_tier m")
    case None
    with assms show ?thesis by simp
  next
    case (Some st)
    obtain st' where st': "expire_state_if_due now st = (es, st')" "m' = set_active_tier st' m"
      using assms(2) Some by (auto simp: Let_def split: prod.splits)
    note ex = expire_state_if_due [OF st'(1)]
    have "tier_visible st'"
      using active_tier_visible [OF assms(1) Some] ex(2) by (rule tier_visible_subset)
    note core = set_active_tier_core [OF assms(1) Some this]
    from core(3) have "held (lm_scenes m') + mset es = held (lm_scenes m)"
      unfolding ex(1) [symmetric] st'(2) by (simp add: ac_simps)
    with core(1) st'(2) show ?thesis by (simp add: outstanding_def ac_simps)
  qed
  then show "core_inv m'" "outstanding m' + mset es = outstanding m" "lm_status m' = lm_status m"
    "global_state m' = global_state m" by simp_all
qed

lemma expire_none:
  assumes "expire_state_if_due now st = ([], st')" shows "st' = st"
  using assms by (auto simp: expire_state_if_due_def split: option.splits if_splits)

lemma set_active_tier_same: "core_inv m \<Longrightarrow> active_tier m = Some st \<Longrightarrow> set_active_tier st m = m"
proof -
  assume "core_inv m" and "active_tier m = Some st"
  then obtain k where k: "lm_active m = Some k" "map_of (lm_scenes m) k = Some st"
    using active_tierD by blast
  have "distinct (map fst (lm_scenes m))" using \<open>core_inv m\<close> by (rule core_inv_scenes_ok)
  then have "modify_entry k (\<lambda>_. st) (lm_scenes m) = lm_scenes m"
    using k(2) by (auto simp: modify_entry_def intro!: map_idI
        dest: eq_key_imp_eq_value)
  with k(1) show ?thesis by (simp add: set_active_tier_def)
qed

lemma on_active_expiry_good:
  assumes "manager_inv m"
  shows "good m (on_active_expiry now m)"
proof -
  note core = manager_inv_core [OF assms]
  obtain es m1 where m1: "(es, m1) = (case active_tier m of
            Some st \<Rightarrow> let (es, st') = expire_state_if_due now st in (es, set_active_tier st' m)
          | None \<Rightarrow> ([], m))"
    by (metis surj_pair)
  note a = expire_active [OF core m1]
  obtain fs g where g: "expire_state_if_due now (global_state m1) = (fs, g)" by fastforce
  note ex = expire_state_if_due [OF g]
  let ?m = "m1\<lparr>global_state := g\<rparr>"
  have eq: "on_active_expiry now m = (if es @ fs = [] then ?m
      else refresh_active_scene_effect now (emit (map (\<lambda>(i, r). (i, r, Expired)) (es @ fs)) ?m))"
    using g m1 [symmetric] by (simp add: on_active_expiry_def Let_def)
  show ?thesis
  proof (cases "es @ fs = []")
    case True
    then have "m1 = m"
      using m1 core by (auto simp: Let_def set_active_tier_same dest: expire_none
          split: option.splits prod.splits)
    with True eq assms ex(3) show ?thesis by (simp add: good_def a(4))
  next
    case False
    have "tier_visible g"
      using a(1) ex(2) by (auto simp: core_inv_def intro: tier_visible_subset)
    then have "core_inv (emit (map (\<lambda>(i, r). (i, r, Expired)) (es @ fs)) ?m)"
      using core_inv_global [OF a(1)] by simp
    moreover have "outstanding ?m + mset (es @ fs) = outstanding m"
      using a(2) ex(1) by (auto simp: outstanding_def ac_simps)
    then have "balanced m (emit (map (\<lambda>(i, r). (i, r, Expired)) (es @ fs)) ?m)"
      using a(3) unfolding balanced_def credit_def debit_def outstanding_def
      by (simp del: map_append mset_append add: ac_simps)
    ultimately show ?thesis unfolding eq if_not_P [OF False] by (rule good_refresh)
  qed
qed

section \<open>Whole runs\<close>

datatype led_op =
    OpSceneChanged scene_id
  | OpSceneCleared
  | OpConfigSnapshot "(instance_id \<times> scene_id) list"
  | OpTemporary instance_id led_request_id proto_led_effect rgb_color u32 u32 led_scope
  | OpEndless instance_id led_request_id proto_led_effect rgb_color u32 led_scope
  | OpStop instance_id led_request_id
  | OpReconcile "instance_id set"
  | OpExpiry

fun led_exec :: "led_op \<times> instant \<Rightarrow> led_scene_manager \<Rightarrow> led_scene_manager" where
  "led_exec (OpSceneChanged k, now) m = on_scene_changed k now m"
| "led_exec (OpSceneCleared, now) m = on_active_scene_cleared now m"
| "led_exec (OpConfigSnapshot ps, now) m = on_config_snapshot ps now m"
| "led_exec (OpTemporary i r e c p d s, now) m = on_temporary i r e c p d s now m"
| "led_exec (OpEndless i r e c p s, now) m = on_endless i r e c p s now m"
| "led_exec (OpStop i r, now) m = on_stop i r now m"
| "led_exec (OpReconcile conn, now) m = reconcile_connected conn now m"
| "led_exec (OpExpiry, now) m = on_active_expiry now m"

fun led_refused :: "led_op \<times> instant \<Rightarrow> led_scene_manager \<Rightarrow> request multiset" where
  "led_refused (OpTemporary i r e c p d s, now) m = refused_start i r s m"
| "led_refused (OpEndless i r e c p s, now) m = refused_start i r s m"
| "led_refused _ m = {#}"

lemma led_exec_good: "manager_inv m \<Longrightarrow> good_upto (led_refused op m) m (led_exec op m)"
  by (cases op; cases "fst op")
    (simp_all add: on_temporary_good on_endless_good good_upto_good on_scene_changed_good
      on_active_scene_cleared_good on_config_snapshot_good on_stop_good reconcile_connected_good
      on_active_expiry_good manager_inv_core)

text \<open>What a component that accounts for requests promises, and what follows for any run of it:
  the invariant, and that accepted requests, the ones still held and the ones reported back
  always add up.\<close>

primrec run_refused ::
  "('op \<Rightarrow> 's \<Rightarrow> 's) \<Rightarrow> ('op \<Rightarrow> 's \<Rightarrow> 'r multiset) \<Rightarrow> 'op list \<Rightarrow> 's \<Rightarrow> 'r multiset" where
  "run_refused exec refused [] s = {#}"
| "run_refused exec refused (op # ops) s = refused op s + run_refused exec refused ops (exec op s)"

locale request_ledger =
  fixes inv :: "'s \<Rightarrow> bool"
    and exec :: "'op \<Rightarrow> 's \<Rightarrow> 's"
    and refused :: "'op \<Rightarrow> 's \<Rightarrow> 'r multiset"
    and credits :: "'s \<Rightarrow> 'r multiset"
    and debits :: "'s \<Rightarrow> 'r multiset"
  assumes exec_inv: "inv s \<Longrightarrow> inv (exec op s)"
    and exec_balance:
      "inv s \<Longrightarrow> credits (exec op s) + debits s = credits s + debits (exec op s) + refused op s"
begin

lemma run_inv: "inv s \<Longrightarrow> inv (fold exec ops s)"
  by (induction ops arbitrary: s) (simp_all add: exec_inv)

lemma run_balance:
  assumes "inv s"
  shows "credits (fold exec ops s) + debits s =
    credits s + debits (fold exec ops s) + run_refused exec refused ops s"
  using assms
proof (induction ops arbitrary: s)
  case Nil
  then show ?case by simp
next
  case (Cons op ops)
  show ?case unfolding fold_simps run_refused.simps
    by (rule balance_trans [OF exec_balance [OF Cons.prems] Cons.IH [OF exec_inv [OF Cons.prems]]])
qed

end

interpretation led_ledger: request_ledger manager_inv led_exec led_refused credit debit
  by unfold_locales (auto dest: led_exec_good simp: good_upto_def)

lemma manager_inv_new:
  "desired_layers h = replicate (length layer_all) None \<Longrightarrow> manager_inv (manager_new h)"
  by (simp add: manager_inv_def core_inv_def manager_new_def scenes_ok_def tier_default_def
      tier_shown_def tier_promoted_def tier_visible_def tier_scenes_def active_tier_def
      handle_ok_def layer_all_def)

definition manager_init :: led_scene_manager where
  "manager_init = manager_new desired_default"

lemma manager_inv_init: "manager_inv manager_init"
  unfolding manager_init_def by (rule manager_inv_new) (simp add: desired_default_def)

lemma ledger_init [simp]: "credit manager_init = {#}" "debit manager_init = {#}"
  by (simp_all add: manager_init_def ledger_defs manager_new_def)

text \<open>What the manager has published keeps the layers of the coordinator visible.\<close>

lemma manager_published:
  assumes "manager_inv m"
  shows "applied_local m = Some s \<Longrightarrow> effect s \<noteq> NoEffect"
    and "applied_global m = Some s \<Longrightarrow> effect s \<noteq> NoEffect"
proof -
  have shown: "tier_shown st = Some s \<Longrightarrow> tier_visible st \<Longrightarrow> effect s \<noteq> NoEffect" for st
    by (auto simp: tier_shown_def tier_visible_def tier_scenes_def split: option.splits)
  show "effect s \<noteq> NoEffect" if "applied_local m = Some s"
  proof -
    have "Option.bind (active_tier m) tier_shown = Some s"
      using assms that by (simp add: manager_inv_def)
    then obtain st where "active_tier m = Some st" "tier_shown st = Some s"
      by (auto simp: bind_eq_Some_conv)
    then show ?thesis
      using active_tier_visible [OF manager_inv_core [OF assms]] by (simp add: shown)
  qed
  show "effect s \<noteq> NoEffect" if "applied_global m = Some s"
    using assms that by (intro shown [of "global_state m"]) (simp_all add: manager_inv_def core_inv_def)
qed

interpretation local_tier: visible_producer manager_inv
  "\<lambda>op m. (applied_local (led_exec op m), led_exec op m)"
proof unfold_locales
  show "manager_inv (snd (applied_local (led_exec op m), led_exec op m))"
    if "manager_inv m" for op m using led_ledger.exec_inv [OF that] by simp
  show "effect s \<noteq> NoEffect"
    if "manager_inv m" "fst (applied_local (led_exec op m), led_exec op m) = Some s" for op m s
    using manager_published(1) [OF led_ledger.exec_inv [OF that(1)]] that(2) by simp
qed

interpretation global_tier: visible_producer manager_inv
  "\<lambda>op m. (applied_global (led_exec op m), led_exec op m)"
proof unfold_locales
  show "manager_inv (snd (applied_global (led_exec op m), led_exec op m))"
    if "manager_inv m" for op m using led_ledger.exec_inv [OF that] by simp
  show "effect s \<noteq> NoEffect"
    if "manager_inv m" "fst (applied_global (led_exec op m), led_exec op m) = Some s" for op m s
    using manager_published(2) [OF led_ledger.exec_inv [OF that(1)]] that(2) by simp
qed

end
