(* ===== verification/Led_Pipeline.thy ===== *)
theory Led_Pipeline
  imports Led_Strip Led_Ledger
begin

text \<open>
  The LED pipeline put together: the indicator loop of \<^verbatim>\<open>bmc/src/led.rs\<close> publishes the
  system layer, the scene preview of \<^verbatim>\<open>bmc/src/web/grpc/scene_management.rs\<close> the preview
  layer, the widget manager of \<^verbatim>\<open>bmc/src/widget/led_state.rs\<close> the local and the global layer,
  and the coordinator task of \<^verbatim>\<open>bmc/src/led_coordinator.rs\<close> drains the desired state they
  share into commands for the strip worker. A handler of the widget manager is one step: what
  it publishes becomes visible to the task together.
\<close>

section \<open>What the widget manager leaves alone\<close>

text \<open>The handlers only ever write their own two layers of the shared desired state.\<close>

definition frame_ok :: "desired_state \<Rightarrow> desired_state \<Rightarrow> bool" where
  "frame_ok d d' \<longleftrightarrow> desired_enabled d' = desired_enabled d \<and>
     length (desired_layers d') = length (desired_layers d) \<and>
     desired_layers d' ! layer_index LSystem = desired_layers d ! layer_index LSystem \<and>
     desired_layers d' ! layer_index LPreview = desired_layers d ! layer_index LPreview"

lemma frame_ok_refl [simp]: "frame_ok d d"
  by (simp add: frame_ok_def)

lemma frame_ok_trans: "frame_ok d d' \<Longrightarrow> frame_ok d' d'' \<Longrightarrow> frame_ok d d''"
  by (simp add: frame_ok_def)

lemma frame_ok_publish:
  "frame_ok d (handle_publish LLocalScene w d)" "frame_ok d (handle_publish LGlobalAmbient w d)"
  by (simp_all add: frame_ok_def handle_publish_def)

lemma publish_frame:
  "frame_ok (lm_handle m) (lm_handle (publish_local w m))"
  "frame_ok (lm_handle m) (lm_handle (publish_global w m))"
  by (simp_all add: publish_local_def publish_global_def frame_ok_publish)

lemma refresh_frame: "frame_ok (lm_handle m) (lm_handle (refresh_active_scene_effect now m))"
proof -
  have *: "frame_ok (lm_handle m) (lm_handle (publish_global v (publish_local w m')))"
    if "lm_handle m' = lm_handle m" for m' v w
    using frame_ok_trans [OF publish_frame(1) [of m' w] publish_frame(2)] that by simp
  show ?thesis
    by (auto simp: refresh_active_scene_effect_def Let_def split: option.splits prod.splits intro!: *)
qed

lemma refresh_frame_of: "lm_handle m' = lm_handle m \<Longrightarrow>
  frame_ok (lm_handle m) (lm_handle (refresh_active_scene_effect now m'))"
  using refresh_frame [of m' now] by simp

lemma drop_active_scene_temp_handle [simp]: "lm_handle (drop_active_scene_temp m) = lm_handle m"
  by (auto simp: drop_active_scene_temp_def split: option.splits)

lemma on_stop_frame: "frame_ok (lm_handle m) (lm_handle (on_stop i r now m))"
  by (auto simp: on_stop_def Let_def intro!: refresh_frame_of)

lemma stop_all_frame: "frame_ok (lm_handle m) (lm_handle (stop_all ws now m))"
  by (induction ws arbitrary: m) (auto intro: frame_ok_trans [OF on_stop_frame])

lemma remove_widgets_frame: "frame_ok (lm_handle m) (lm_handle (remove_widgets is now m))"
proof (induction "is" arbitrary: m)
  case (Cons i "is")
  let ?m = "m\<lparr>widget_to_scene := AList.delete i (widget_to_scene m)\<rparr>"
  have "frame_ok (lm_handle ?m) (lm_handle (remove_widgets is now (on_stop i led_request_id_all now ?m)))"
    by (rule frame_ok_trans [OF on_stop_frame Cons])
  then show ?case by simp
qed simp

lemma add_widgets_handle [simp]: "lm_handle (add_widgets ps m) = lm_handle m"
  by (induction ps m rule: add_widgets.induct) simp_all

lemma on_config_snapshot_frame: "frame_ok (lm_handle m) (lm_handle (on_config_snapshot ps now m))"
  unfolding on_config_snapshot_def Let_def
  by (rule frame_ok_trans [OF remove_widgets_frame refresh_frame_of])
    (simp add: evict_empty_scenes_def)

lemma on_active_expiry_frame: "frame_ok (lm_handle m) (lm_handle (on_active_expiry now m))"
  by (auto simp: on_active_expiry_def Let_def split: option.splits prod.splits
      intro!: refresh_frame_of)

lemma led_exec_frame: "frame_ok (lm_handle m) (lm_handle (led_exec (op, now) m))"
proof (cases op)
  case (OpSceneChanged k)
  then show ?thesis by (auto simp: on_scene_changed_def Let_def intro!: refresh_frame_of)
next
  case OpSceneCleared
  then show ?thesis by (auto simp: on_active_scene_cleared_def intro!: refresh_frame_of)
next
  case (OpTemporary i r e c p d s)
  then show ?thesis
    by (auto simp: on_temporary_def Let_def intro!: refresh_frame_of
        split: led_scope.splits option.splits)
next
  case (OpEndless i r e c p s)
  then show ?thesis
    by (auto simp: on_endless_def Let_def intro!: refresh_frame_of
        split: led_scope.splits option.splits)
qed (simp_all add: on_config_snapshot_frame on_stop_frame reconcile_connected_def stop_all_frame
    on_active_expiry_frame)

section \<open>The pipeline\<close>

record pipeline =
  pl_indicators :: led_indicators_state
  pl_manager :: led_scene_manager
  pl_task :: led_task
  pl_system :: "led_scene option"
  pl_preview :: "led_scene option"

definition pipeline_init :: pipeline where
  "pipeline_init =
     \<lparr>pl_indicators = led_indicators_new, pl_manager = manager_init, pl_task = led_task_init,
      pl_system = None, pl_preview = None\<rparr>"

definition preview_scene :: led_scene where
  "preview_scene = \<lparr>effect = Solid rgb_white, period = None, scene_duration = None\<rparr>"

text \<open>\<open>LedCoordinatorHandle::publish\<close> of a producer outside the widget manager.\<close>

definition task_publish :: "layer \<Rightarrow> led_scene option \<Rightarrow> led_task \<Rightarrow> led_task" where
  "task_publish l scene t = t\<lparr>desired := handle_publish l scene (desired t), unseen := True\<rparr>"

definition task_set_enabled :: "bool \<Rightarrow> led_task \<Rightarrow> led_task" where
  "task_set_enabled e t = t\<lparr>desired := handle_set_enabled e (desired t), unseen := True\<rparr>"

text \<open>A handler of the widget manager runs against the desired state it shares with the task. A
  handler that publishes marks the channel as unseen, also when the layers end up unchanged.\<close>

definition widget_turn :: "led_op \<times> instant \<Rightarrow> pipeline \<Rightarrow> led_scene_manager" where
  "widget_turn op p = led_exec op ((pl_manager p)\<lparr>lm_handle := desired (pl_task p)\<rparr>)"

inductive pipeline_step :: "pipeline \<Rightarrow> pipeline \<Rightarrow> bool" where
  system_turn:
    "system_loop_turn i now (pl_indicators p) = (scene, ind) \<Longrightarrow>
     pipeline_step p (p\<lparr>pl_indicators := ind, pl_system := scene,
                        pl_task := task_publish LSystem scene (pl_task p)\<rparr>)"
| preview_turn:
    "scene \<in> {None, Some preview_scene} \<Longrightarrow>
     pipeline_step p (p\<lparr>pl_preview := scene, pl_task := task_publish LPreview scene (pl_task p)\<rparr>)"
| enable_turn:
    "pipeline_step p (p\<lparr>pl_task := task_set_enabled e (pl_task p)\<rparr>)"
| widget_turn_quiet:
    "m = widget_turn op p \<Longrightarrow> lm_handle m = desired (pl_task p) \<Longrightarrow>
     pipeline_step p (p\<lparr>pl_manager := m\<rparr>)"
| widget_turn_publish:
    "m = widget_turn op p \<Longrightarrow>
     pipeline_step p (p\<lparr>pl_manager := m,
                        pl_task := (pl_task p)\<lparr>desired := lm_handle m, unseen := True\<rparr>\<rparr>)"
| task_turn:
    "led_step (pl_task p) t \<Longrightarrow> desired t = desired (pl_task p) \<Longrightarrow>
     pipeline_step p (p\<lparr>pl_task := t\<rparr>)"

inductive pipeline_reachable :: "pipeline \<Rightarrow> bool" where
  pipeline_start: "pipeline_reachable pipeline_init"
| pipeline_next: "pipeline_reachable p \<Longrightarrow> pipeline_step p q \<Longrightarrow> pipeline_reachable q"

section \<open>Invariant of the pipeline\<close>

definition pipeline_inv :: "pipeline \<Rightarrow> bool" where
  "pipeline_inv p \<longleftrightarrow>
     task_inv (pl_task p) \<and> indicators_inv (pl_indicators p) \<and>
     manager_inv ((pl_manager p)\<lparr>lm_handle := desired (pl_task p)\<rparr>) \<and>
     desired_layers (desired (pl_task p)) =
       [pl_system p, pl_preview p, applied_local (pl_manager p), applied_global (pl_manager p)] \<and>
     (\<forall>s. pl_system p = Some s \<longrightarrow> effect s \<noteq> NoEffect) \<and>
     pl_preview p \<in> {None, Some preview_scene}"

lemma task_inv_desired: "task_inv t \<Longrightarrow> task_inv (t\<lparr>desired := d, unseen := True\<rparr>)"
  by (cases "pc t") (auto simp: task_inv_def)

lemma manager_inv_handle:
  "manager_inv (m\<lparr>lm_handle := h\<rparr>) \<Longrightarrow> length (desired_layers h') = length (desired_layers h) \<Longrightarrow>
   desired_layers h' ! 2 = desired_layers h ! 2 \<Longrightarrow> desired_layers h' ! 3 = desired_layers h ! 3 \<Longrightarrow>
   manager_inv (m\<lparr>lm_handle := h'\<rparr>)"
  by (simp add: manager_inv_def core_inv_def handle_ok_def active_tier_def)

lemma manager_inv_own: "manager_inv m \<Longrightarrow> lm_handle m = h \<Longrightarrow> manager_inv (m\<lparr>lm_handle := h\<rparr>)"
  by (auto simp: manager_inv_def core_inv_def handle_ok_def active_tier_def)

text \<open>What a turn of the widget manager leaves in the shared desired state.\<close>

lemma list4_eqI:
  "length xs = 4 \<Longrightarrow> xs ! 0 = a \<Longrightarrow> xs ! 1 = b \<Longrightarrow> xs ! 2 = c \<Longrightarrow> xs ! 3 = d \<Longrightarrow> xs = [a, b, c, d]"
  by (auto simp: list_eq_iff_nth_eq less_Suc_eq numeral_eq_Suc)

lemma widget_turn_layers:
  assumes "pipeline_inv p" and "m = widget_turn op p"
  shows "manager_inv m"
    "desired_layers (lm_handle m) = [pl_system p, pl_preview p, applied_local m, applied_global m]"
proof -
  let ?m = "(pl_manager p)\<lparr>lm_handle := desired (pl_task p)\<rparr>"
  obtain o' now where op: "op = (o', now)" by (cases op)
  show inv: "manager_inv m"
    using assms led_ledger.exec_inv by (simp add: pipeline_inv_def widget_turn_def)
  have "frame_ok (desired (pl_task p)) (lm_handle m)"
    using led_exec_frame [of ?m o' now] assms(2) op by (simp add: widget_turn_def)
  with assms(1) inv show
    "desired_layers (lm_handle m) = [pl_system p, pl_preview p, applied_local m, applied_global m]"
    by (intro list4_eqI)
      (simp_all add: pipeline_inv_def frame_ok_def manager_inv_def core_inv_def handle_ok_def)
qed

lemma pipeline_inv_init: "pipeline_inv pipeline_init"
  using manager_inv_init task_inv_init
  by (simp add: pipeline_inv_def pipeline_init_def indicators_inv_new led_task_init_def
      manager_init_def manager_new_def desired_default_def layer_all_def)

lemma pipeline_step_inv: "pipeline_step p q \<Longrightarrow> pipeline_inv p \<Longrightarrow> pipeline_inv q"
proof (induction rule: pipeline_step.induct)
  case (system_turn i now p scene ind)
  then have "indicators_inv ind" "\<forall>s. scene = Some s \<longrightarrow> effect s \<noteq> NoEffect"
    using system_loop.turn_inv [of "pl_indicators p" "(i, now)"]
      system_loop.turn_visible [of "pl_indicators p" "(i, now)"]
    by (simp_all add: pipeline_inv_def)
  with system_turn show ?case
    by (auto simp: pipeline_inv_def task_publish_def handle_publish_def
        intro!: task_inv_desired elim!: manager_inv_handle)
next
  case (preview_turn scene p)
  then show ?case
    by (auto simp: pipeline_inv_def task_publish_def handle_publish_def
        intro!: task_inv_desired elim!: manager_inv_handle)
next
  case (enable_turn p e)
  then show ?case
    by (auto simp: pipeline_inv_def task_set_enabled_def handle_set_enabled_def
        intro!: task_inv_desired elim!: manager_inv_handle)
next
  case (widget_turn_quiet m op p)
  note turn = widget_turn_layers [OF widget_turn_quiet(3,1)]
  from turn widget_turn_quiet(2,3) show ?case
    by (simp add: pipeline_inv_def manager_inv_own)
next
  case (widget_turn_publish m op p)
  note turn = widget_turn_layers [OF widget_turn_publish(2,1)]
  from turn widget_turn_publish(2) show ?case
    by (simp add: pipeline_inv_def task_inv_desired)
next
  case (task_turn p t)
  then show ?case by (auto simp: pipeline_inv_def intro: led_step_inv)
qed

lemma pipeline_reachable_inv: "pipeline_reachable p \<Longrightarrow> pipeline_inv p"
  by (induction rule: pipeline_reachable.induct) (auto intro: pipeline_inv_init pipeline_step_inv)

lemma pipeline_layers_visible:
  assumes "pipeline_inv p"
  shows "layers_visible (desired_layers (desired (pl_task p)))"
  using assms manager_published [of "(pl_manager p)\<lparr>lm_handle := desired (pl_task p)\<rparr>"]
  by (auto simp: pipeline_inv_def layers_visible_def layer_all_def preview_scene_def)

end
