(* ===== verification/Led_Properties.thy ===== *)
theory Led_Properties
  imports Led_Pipeline
begin

text \<open>
  The properties of the LED pipeline: what a settled coordinator has told the strip and how fast
  it settles, the arbitration between the layers, the ledger of widget requests, the windows of
  the system indicators, and two runs in which the strip does not show what is desired.
\<close>

section \<open>Shared lemmas\<close>

lemma led_reachable_task_step: "led_reachable t \<Longrightarrow> led_reachable (task_step t)"
  by (metis led_reachable.step task_step_led_step task_step_settled task_step_stopped)

lemma led_reachable_task_steps: "led_reachable t \<Longrightarrow> led_reachable ((task_step ^^ n) t)"
  by (induction n) (simp_all add: led_reachable_task_step)

lemma led_reachable_publish: "led_reachable t \<Longrightarrow> led_reachable (task_publish l scene t)"
  unfolding task_publish_def by (blast intro: led_reachable.step led_step.publish)

lemma led_reachable_set_enabled: "led_reachable t \<Longrightarrow> led_reachable (task_set_enabled e t)"
  unfolding task_set_enabled_def by (blast intro: led_reachable.step led_step.set_enabled)

definition red_solid :: led_scene where
  "red_solid = \<lparr>effect = Solid rgb_red, period = None, scene_duration = None\<rparr>"

lemma red_solid_simps [simp]: "effect red_solid = Solid rgb_red" "scene_duration red_solid = None"
  by (simp_all add: red_solid_def)

text \<open>Evaluation of the task on explicit states.\<close>

lemma task_step_eval:
  "task_step \<lparr>coord = c, desired = d, unseen = u, sent = ss, pc = PcOuter\<rparr> =
     \<lparr>coord = apply_desired d c, desired = d, unseen = False, sent = ss, pc = PcInner\<rparr>"
  "task_step \<lparr>coord = c, desired = d, unseen = False, sent = ss, pc = PcInner\<rparr> =
     (case next_command c of
        None \<Rightarrow> \<lparr>coord = c, desired = d, unseen = False, sent = ss, pc = PcWaiting\<rparr>
      | Some (cmd, p) \<Rightarrow>
          \<lparr>coord = c, desired = d, unseen = False, sent = ss, pc = PcSending cmd p\<rparr>)"
  "task_step \<lparr>coord = c, desired = d, unseen = u, sent = ss, pc = PcSending cmd p\<rparr> =
     \<lparr>coord = apply_desired d (on_sent cmd p c), desired = d, unseen = False,
      sent = ss @ [cmd], pc = PcInner\<rparr>"
  "task_step \<lparr>coord = c, desired = d, unseen = True, sent = ss, pc = PcWaiting\<rparr> =
     \<lparr>coord = c, desired = d, unseen = False, sent = ss, pc = PcOuter\<rparr>"
  "task_publish l s \<lparr>coord = c, desired = d, unseen = u, sent = ss, pc = k\<rparr> =
     \<lparr>coord = c, desired = handle_publish l s d, unseen = True, sent = ss, pc = k\<rparr>"
  "task_set_enabled e \<lparr>coord = c, desired = d, unseen = u, sent = ss, pc = k\<rparr> =
     \<lparr>coord = c, desired = handle_set_enabled e d, unseen = True, sent = ss, pc = k\<rparr>"
  by (auto simp: task_step_def refresh_def task_publish_def task_set_enabled_def
      split: option.splits)

lemmas run_simps = task_step_eval led_task_init_def coordinator_defs pick_layers_def layer_all_def
  Let_def numeral_eq_Suc

text \<open>The run of the coordinator in which a scene outlives its layer: a scene is shown, the LEDs
  are disabled, the layer is cleared, the LEDs are enabled again, and the task settles each
  time.\<close>

definition shown_run :: led_task where
  "shown_run = task_step (task_step (task_step (task_step
     (task_publish LSystem (Some red_solid) led_task_init))))"

definition disabled_run :: led_task where
  "disabled_run = task_step (task_step (task_step (task_step (task_step
     (task_set_enabled False shown_run)))))"

definition cleared_run :: led_task where
  "cleared_run = task_step (task_step (task_step (task_publish LSystem None disabled_run)))"

definition reenabled_run :: led_task where
  "reenabled_run = task_step (task_step (task_step (task_step (task_step
     (task_set_enabled True cleared_run)))))"

lemma shown_run_value:
  "shown_run =
     \<lparr>coord = \<lparr>lc_layers = [Some red_solid, None, None, None], lc_enabled = True,
        applied = Some (LSystem, red_solid), output_enabled = True\<rparr>,
      desired = \<lparr>desired_layers = [Some red_solid, None, None, None], desired_enabled = True\<rparr>,
      unseen = False, sent = [SetEffect red_solid], pc = PcWaiting\<rparr>"
  by (simp add: shown_run_def run_simps)

lemma disabled_run_value:
  "disabled_run =
     \<lparr>coord = \<lparr>lc_layers = [Some red_solid, None, None, None], lc_enabled = False,
        applied = Some (LSystem, red_solid), output_enabled = False\<rparr>,
      desired = \<lparr>desired_layers = [Some red_solid, None, None, None], desired_enabled = False\<rparr>,
      unseen = False, sent = [SetEffect red_solid, Disable], pc = PcWaiting\<rparr>"
  by (simp add: disabled_run_def shown_run_value run_simps)

lemma cleared_run_value:
  "cleared_run =
     \<lparr>coord = \<lparr>lc_layers = [None, None, None, None], lc_enabled = False,
        applied = Some (LSystem, red_solid), output_enabled = False\<rparr>,
      desired = \<lparr>desired_layers = [None, None, None, None], desired_enabled = False\<rparr>,
      unseen = False, sent = [SetEffect red_solid, Disable], pc = PcWaiting\<rparr>"
  by (simp add: cleared_run_def disabled_run_value run_simps)

lemma reenabled_run_value:
  "reenabled_run =
     \<lparr>coord = \<lparr>lc_layers = [None, None, None, None], lc_enabled = True, applied = None,
        output_enabled = True\<rparr>,
      desired = \<lparr>desired_layers = [None, None, None, None], desired_enabled = True\<rparr>,
      unseen = False, sent = [SetEffect red_solid, Disable, Enable], pc = PcWaiting\<rparr>"
  by (simp add: reenabled_run_def cleared_run_value run_simps)

lemma runs_reachable: "led_reachable shown_run" "led_reachable reenabled_run"
  unfolding reenabled_run_def cleared_run_def disabled_run_def shown_run_def
  by (intro led_reachable_task_step led_reachable_publish led_reachable_set_enabled
      led_reachable.init)+

section \<open>The coordinator\<close>

text \<open>The first filled one of a list of layers, the topmost when the highest layer comes first.\<close>

fun topmost :: "'a option list \<Rightarrow> 'a option" where
  "topmost [] = None"
| "topmost (Some x # _) = Some x"
| "topmost (None # ls) = topmost ls"

lemma pick_layers_topmost_scene: "map_option snd (pick_layers [a, b, c, d]) = topmost [a, b, c, d]"
  by (cases a; cases b; cases c; cases d) (simp_all add: pick_layers_def layer_all_def numeral_eq_Suc)

text \<open>C24. From every reachable state of the whole pipeline, with whatever the system indicators, the
  preview, the widgets and the enable switch have published, a coordinator task that has not
  stopped settles within eight steps of its own, and has then told the strip the desired switch
  position and, when enabled, the scene of the topmost filled layer: the system's before the
  preview, before the local scene of the widgets, before the global one.\<close>

theorem pipeline_settles:
  assumes "pipeline_reachable p" and "pc (pl_task p) \<noteq> PcStopped"
    and "t = (task_step ^^ 8) (pl_task p)"
  shows "settled t \<and> wire_enabled (sent t) True = desired_enabled (desired (pl_task p)) \<and>
    (desired_enabled (desired (pl_task p)) \<longrightarrow>
     topmost [pl_system p, pl_preview p, applied_local (pl_manager p),
       applied_global (pl_manager p)] = Some s \<longrightarrow> wire_scene (sent t) none_scene = s)"
proof -
  have inv: "pipeline_inv p" using assms(1) by (rule pipeline_reachable_inv)
  then have "task_inv (pl_task p)" by (simp add: pipeline_inv_def)
  moreover from this have "settled t"
    using settles_inv [OF _ assms(2) pipeline_layers_visible [OF inv]] assms(3)
    by (simp add: settles_def)
  ultimately have "told t" using assms(3) by (simp add: settled_told task_steps_inv)
  with \<open>settled t\<close> inv assms(3) show ?thesis
    by (auto simp: told_def pipeline_inv_def simp flip: pick_layers_topmost_scene)
qed

lemma device_initializing_turn:
  "system_loop_turn (LoopEvent DeviceInitializing) 0 led_indicators_new =
     (Some (knight_rider_scene rgb_violet60),
      apply_event DeviceInitializing 0 led_indicators_new)"
  by (simp add: led_indicators_new_def current_scene_at_def select_persistent_def or_opt_def
      scene_of_command_def knight_rider_scene_def)

theorem pipeline_settles_witness:
  "wire_scene (sent ((task_step ^^ 8)
     (task_publish LSystem (Some (knight_rider_scene rgb_violet60)) led_task_init))) none_scene =
   knight_rider_scene rgb_violet60"
proof -
  let ?p = "pipeline_init\<lparr>pl_indicators := apply_event DeviceInitializing 0 led_indicators_new,
    pl_system := Some (knight_rider_scene rgb_violet60),
    pl_task := task_publish LSystem (Some (knight_rider_scene rgb_violet60)) led_task_init\<rparr>"
  have "pipeline_step pipeline_init ?p"
    using pipeline_step.system_turn [of "LoopEvent DeviceInitializing" 0 pipeline_init]
      device_initializing_turn by (simp add: pipeline_init_def)
  then have "pipeline_reachable ?p"
    by (blast intro: pipeline_reachable.intros)
  from pipeline_settles [OF this _ refl, of "knight_rider_scene rgb_violet60"]
  show ?thesis
    by (simp add: pipeline_init_def task_publish_def led_task_init_def handle_publish_def
        desired_default_def layer_all_def)
qed

text \<open>Whatever is published and however it interleaves with the task, a task that waits with
  nothing unseen has told the strip the desired switch position and, when enabled, the scene
  of the topmost filled layer.\<close>

lemma settled_in_step:
  assumes "led_reachable t" and "settled t"
  shows "wire_enabled (sent t) True = desired_enabled (desired t) \<and>
    (desired_enabled (desired t) \<longrightarrow> pick_layers (desired_layers (desired t)) = Some (l, s) \<longrightarrow>
      wire_scene (sent t) none_scene = s)"
  using settled_told [OF led_reachable_inv [OF assms(1)] assms(2)] by (simp_all add: told_def)

text \<open>The layer the coordinator picks is the filled layer of least index, System before Preview
  before LocalScene before GlobalAmbient; nothing is picked only when every layer is empty.\<close>

lemma pick_topmost:
  "(pick c = None \<longleftrightarrow> (\<forall>l. lc_layers c ! layer_index l = None)) \<and>
   (pick c = Some (l, s) \<longleftrightarrow> lc_layers c ! layer_index l = Some s \<and>
      (\<forall>l'. layer_index l' < layer_index l \<longrightarrow> lc_layers c ! layer_index l' = None))"
  unfolding pick_def using pick_layers_None pick_layers_topmost by blast

text \<open>After the LEDs are disabled, every layer is cleared and the LEDs are enabled again, the
  coordinator settles without sending a clearing scene: the strip is enabled and, whatever the
  frame's time, shows the scene of the layer that was cleared.\<close>

lemma stale_scene_after_reenable:
  "\<exists>t. led_reachable t \<and> settled t \<and> desired_enabled (desired t) \<and>
     (\<forall>l. desired_layers (desired t) ! layer_index l = None) \<and>
     (\<forall>now. fst (render now (worker_commands f32_mul (map (\<lambda>c. (c, 0)) (sent t)) (strip_new 0))) =
        Some (EffectFrame (Solid rgb_red) apa102_max_brightness (0, 1)))"
proof (intro exI [of _ reenabled_run] conjI)
  show "led_reachable reenabled_run" by (rule runs_reachable)
  show "\<forall>l. desired_layers (desired reenabled_run) ! layer_index l = None"
    by (intro allI) (case_tac l; simp add: reenabled_run_value)
qed (simp_all add: reenabled_run_value settled_def strip_new_def render_def strip_active_scene_def
    active_scene_new_def phase_def red_solid_def)

text \<open>At the strip, a scene with a duration keeps the output until it expires: a scene without
  a duration that is sent later, also the one of a higher layer, is not shown before.\<close>

lemma temporary_outlasts_higher_layer:
  assumes "scene_duration low = Some d" and "scene_duration high = None"
    and "now \<le> later" and "later \<le> t" and "t < now + d"
  shows "as_scene (fst (strip_active_scene t
    (worker_commands f32_mul [(SetEffect low, now), (SetEffect high, later)] st))) = low"
  using assms
  by (simp add: strip_active_scene_def active_scene_new_def expired_def
      saturating_duration_since_def Let_def less_diff_conv2 not_le)

section \<open>The widget manager\<close>

text \<open>After any sequence of widget requests, stops, scene changes, configuration snapshots,
  disconnects and expiries, the local and the global layer of the coordinator carry what the
  active scene's tier and the global tier show (the running temporary request, else the endless
  one), no tier that may show holds a waiting request while none is running, and no other tier
  has a running request.\<close>

lemma manager_publishes_tiers:
  assumes "m = fold led_exec ops manager_init"
  shows "desired_layers (lm_handle m) ! layer_index LLocalScene = Option.bind (active_tier m) tier_shown \<and>
    desired_layers (lm_handle m) ! layer_index LGlobalAmbient = tier_shown (global_state m) \<and>
    tier_promoted (global_state m) \<and> (\<forall>st. active_tier m = Some st \<longrightarrow> tier_promoted st) \<and>
    (\<forall>k st. (k, st) \<in> set (lm_scenes m) \<longrightarrow> lm_active m \<noteq> Some k \<longrightarrow> active_temp st = None)"
  using led_ledger.run_inv [OF manager_inv_init, of ops] assms
  by (fastforce simp: manager_inv_def core_inv_def handle_ok_def scenes_ok_def)

text \<open>A run of the manager: a widget is placed on the active scene and asks for two effects, then
  the first expires.\<close>

abbreviation blue :: rgb_color where
  "blue \<equiv> \<lparr>color_r = 0, color_g = 0, color_b = 255\<rparr>"

definition sample_ops :: "(led_op \<times> instant) list" where
  "sample_ops =
     [(OpConfigSnapshot [(''clock'', 7)], 0), (OpSceneChanged 7, 1),
      (OpEndless ''clock'' 4 PBreathe blue 1000 ScopeLocal, 2),
      (OpTemporary ''clock'' 5 PSolid blue 0 3 ScopeLocal, 3)]"

lemmas manager_eval = sample_ops_def manager_init_def manager_new_def desired_default_def
  layer_all_def on_config_snapshot_def on_scene_changed_def on_endless_def on_temporary_def
  evict_empty_scenes_def refresh_active_scene_effect_def active_tier_def set_active_tier_def
  pick_winner_scene_for_layer_def publish_local_def publish_global_def emit_def
  entry_or_default_def modify_entry_def drop_active_scene_temp_def tier_default_def
  apply_endless_def build_scene_def handle_publish_def

definition sample_manager :: led_scene_manager where
  "sample_manager = fold led_exec sample_ops manager_init"

lemma sample_manager_value:
  "lm_active sample_manager = Some 7"
  "lm_scenes sample_manager =
     [(7, \<lparr>endless = Some \<lparr>ee_instance = ''clock'', ee_request = 4,
                ee_scene = build_scene PBreathe blue 1000 None\<rparr>,
            temp_queue = [],
            active_temp = Some \<lparr>rt_entry = \<lparr>te_instance = ''clock'', te_request = 5,
                te_scene = build_scene PSolid blue 0 (Some 3), te_duration = from_millis 3\<rparr>,
              rt_until = 3 + from_millis 3\<rparr>\<rparr>)]"
  "lm_status sample_manager = [(''clock'', 4, Accepted), (''clock'', 5, Accepted)]"
  "global_state sample_manager = tier_default"
  unfolding sample_manager_def by (simp_all add: manager_eval Let_def)

text \<open>C26. No widget request is lost or reported twice: after any sequence of handlers, every request
  accepted so far is either held by exactly one tier slot or has been reported Superseded or
  Expired, with multiplicities; the only other terminal reports are those of local requests
  refused because their widget is on no scene.\<close>

theorem request_conservation:
  "outstanding (fold led_exec ops manager_init) + terminal (lm_status (fold led_exec ops manager_init)) =
   accepted (lm_status (fold led_exec ops manager_init)) + run_refused led_exec led_refused ops manager_init"
  using led_ledger.run_balance [OF manager_inv_init, of ops] ledger_init
  unfolding credit_def debit_def by simp

text \<open>A stop removes exactly the matching requests of the widget (all of them for request id
  zero), from every tier, and reports each of them once.\<close>

lemma stop_exact:
  assumes "m = fold led_exec ops manager_init"
  shows "outstanding (on_stop inst req now m) =
      filter_mset (\<lambda>p. \<not> stop_match inst req p) (outstanding m) \<and>
    terminal (lm_status (on_stop inst req now m)) =
      terminal (lm_status m) + filter_mset (stop_match inst req) (outstanding m) \<and>
    accepted (lm_status (on_stop inst req now m)) = accepted (lm_status m)"
proof -
  have inv: "core_inv m"
    using led_ledger.run_inv [OF manager_inv_init] assms by (simp add: manager_inv_core)
  have "mset (sweep_scenes (\<lambda>i r. stop_match inst req (i, r)) (lm_scenes m) @
      fst (sweep_state (\<lambda>i r. stop_match inst req (i, r)) (global_state m))) =
      filter_mset (stop_match inst req) (outstanding m)"
    by (simp add: outstanding_def held_sweep sweep_state_requests)
  then show ?thesis
    using on_stop_outstanding [OF inv]
    by (simp add: on_stop_swept swept_def del: map_append mset_append)
qed

text \<open>Reconciling with the connected widgets drops exactly the requests of the others, and doing
  it again changes nothing.\<close>

lemma reconcile_exact:
  assumes "m = fold led_exec ops manager_init"
  shows "outstanding (reconcile_connected conn now m) =
      filter_mset (\<lambda>p. fst p \<in> conn) (outstanding m) \<and>
    reconcile_connected conn later (reconcile_connected conn now m) = reconcile_connected conn now m"
proof -
  have inv: "manager_inv m" using led_ledger.run_inv [OF manager_inv_init] assms by simp
  note out = reconcile_outstanding [OF inv, of conn now]
  then have "w \<notin> set (stale_widgets conn (reconcile_connected conn now m))" for w
    by (auto simp: stale_widgets_iff)
  then have "stale_widgets conn (reconcile_connected conn now m) = []"
    by (metis all_not_in_conv set_empty)
  with out show ?thesis by (simp add: reconcile_connected_def [of conn later])
qed

section \<open>The system indicators and the strip\<close>

text \<open>Whatever came before, a success or error event shows its solid scene on the system layer
  for exactly its two seconds: at any instant of the window the stack resolves to that scene,
  and from its end on the temporary slot is empty and the scene shown is that of the persistent
  slots.\<close>

lemma indicator_window:
  assumes "st = apply_event e now (system_loop_run is led_indicators_new)"
    and "(e, c) \<in> {(WifiConnected, rgb_green), (DownloadOrUpgradeSuccess, rgb_green),
           (DownloadOrUpgradeError, rgb_red)}"
    and "now \<le> t"
  shows "if t < now + from_secs 2
    then fst (current_scene_at t st) = Some (solid_temp_scene c (from_secs 2))
    else snd (current_scene_at t st) = clear_temp st \<and>
      fst (current_scene_at t st) = fst (current_scene_at t (clear_temp st))"
  using assms
  by (auto simp: set_temp_def solid_temp_scene_def current_scene_at_def clear_temp_def Let_def
      success_duration_def error_duration_def select_persistent_def)

text \<open>The strip worker never panics on the remainder by a period, whatever commands it is sent,
  as long as the periods of their scenes are at least a microsecond, as are those of every scene
  a widget can ask for.\<close>

lemma render_never_panics:
  assumes "\<And>s t. (SetEffect s, t) \<in> set cs \<Longrightarrow> period_ok s \<or> (\<exists>e c p d. s = build_scene e c p d)"
  shows "fst (render now (worker_commands f32_mul cs (strip_new t0))) \<noteq> None"
proof (rule render_total, rule worker_commands_ok [OF strip_new_ok])
  have "period_ok (build_scene e c p d)" for e c p d
    by (auto simp: period_ok_def build_scene_def word_less_nat_alt)
  with assms show "period_ok s" if "(SetEffect s, t) \<in> set cs" for s t
    using that by blast
qed

text \<open>The byte codes of LED effects and scopes on the widget wire decode to what was encoded, and
  every other byte is reported back as the error.\<close>

lemma led_wire_codes:
  "(led_effect_kind_try_from v = Inr k \<longleftrightarrow> v = led_effect_kind_code k) \<and>
   (led_scope_try_from v = Inr sc \<longleftrightarrow> v = led_scope_code sc) \<and>
   (led_effect_kind_try_from v = Inl w \<longleftrightarrow> w = v \<and> (\<forall>k. v \<noteq> led_effect_kind_code k)) \<and>
   (led_scope_try_from v = Inl w \<longleftrightarrow> w = v \<and> (\<forall>sc. v \<noteq> led_scope_code sc))"
  by (simp only: led_effect_kind_roundtrip led_scope_roundtrip led_effect_kind_error
      led_scope_error simp_thms)

end
