(* ===== verification/Lifecycle_Emitter.thy ===== *)
theory Lifecycle_Emitter
  imports Prelude "HOL-Library.AList" "HOL-Library.Multiset"
begin

text \<open>
  The lifecycle emitter of \<^verbatim>\<open>bmc-openwrt/src/compositor/lifecycle_emitter.rs\<close>: the state last
  emitted to each widget and the release and acquire batches of the next emission. Hash maps are
  association lists with distinct keys whose order stands for the iteration order of the map;
  the emission is shown not to depend on it. \<open>guard_transition\<close> is the debug assertion of the
  source: an entry is processed to \<open>None\<close> when the assertion would fail.
\<close>

section \<open>States and transitions\<close>

datatype lifecycle_state = Dormant | Prepared | Entering | Visible | Leaving

fun missed_state :: "lifecycle_state \<Rightarrow> lifecycle_state \<Rightarrow> lifecycle_state option" where
  "missed_state Dormant Leaving = Some Visible"
| "missed_state Prepared Leaving = Some Visible"
| "missed_state Entering Leaving = Some Visible"
| "missed_state Visible Entering = Some Prepared"
| "missed_state Leaving Entering = Some Prepared"
| "missed_state _ _ = None"

fun legal_transition :: "lifecycle_state option \<Rightarrow> lifecycle_state \<Rightarrow> bool" where
  "legal_transition None n = True"
| "legal_transition (Some Dormant) n = (n \<in> {Prepared, Visible, Entering})"
| "legal_transition (Some Prepared) n = (n \<in> {Dormant, Visible, Entering})"
| "legal_transition (Some Visible) n = (n \<in> {Dormant, Prepared, Leaving})"
| "legal_transition (Some Entering) n = (n \<in> {Dormant, Prepared, Visible})"
| "legal_transition (Some Leaving) n = (n \<in> {Dormant, Prepared, Visible})"

text \<open>The state a widget is told when it connects.\<close>

fun clamp_initial_lifecycle :: "lifecycle_state \<Rightarrow> lifecycle_state" where
  "clamp_initial_lifecycle Entering = Prepared"
| "clamp_initial_lifecycle Leaving = Visible"
| "clamp_initial_lifecycle s = s"

section \<open>The emitter\<close>

type_synonym lifecycle_map = "(instance_id \<times> lifecycle_state) list"

record emission =
  releases :: "(instance_id \<times> lifecycle_state) list"
  acquires :: "(instance_id \<times> lifecycle_state) list"

definition emission_default :: emission where
  "emission_default = \<lparr>releases = [], acquires = []\<rparr>"

definition emission_is_empty :: "emission \<Rightarrow> bool" where
  "emission_is_empty e \<longleftrightarrow> releases e = [] \<and> acquires e = []"

definition guard_transition :: "lifecycle_state option \<Rightarrow> lifecycle_state \<Rightarrow> bool" where
  "guard_transition prev n = legal_transition prev n"

text \<open>The body of the first loop of \<open>step\<close> for one entry of \<open>next\<close>, with the state inserted
  before.\<close>

definition step_entry ::
  "instance_id \<Rightarrow> lifecycle_state option \<Rightarrow> lifecycle_state \<Rightarrow> emission \<Rightarrow> emission option" where
  "step_entry i prev new_state e =
     (if prev = Some new_state then Some e
      else
        case Option.bind prev (\<lambda>p. missed_state p new_state) of
          Some missed \<Rightarrow>
            if guard_transition prev missed \<and> guard_transition (Some missed) new_state
            then Some (e\<lparr>acquires := acquires e @ [(i, missed), (i, new_state)]\<rparr>)
            else None
        | None \<Rightarrow>
            if \<not> guard_transition prev new_state then None
            else if new_state = Dormant then
              if prev = None then Some e
              else Some (e\<lparr>releases := releases e @ [(i, new_state)]\<rparr>)
            else Some (e\<lparr>acquires := acquires e @ [(i, new_state)]\<rparr>))"

fun step_next ::
  "lifecycle_map \<Rightarrow> lifecycle_map \<Rightarrow> emission \<Rightarrow> (emission \<times> lifecycle_map) option" where
  "step_next [] lst e = Some (e, lst)"
| "step_next ((i, s) # nxt) lst e =
     (case step_entry i (map_of lst i) s e of
        None \<Rightarrow> None
      | Some e' \<Rightarrow> step_next nxt (AList.update i s lst) e')"

fun step_removed ::
  "instance_id list \<Rightarrow> lifecycle_map \<Rightarrow> emission \<Rightarrow> (emission \<times> lifecycle_map) option" where
  "step_removed [] lst e = Some (e, lst)"
| "step_removed (i # ids) lst e =
     (let prev = map_of lst i; lst = AList.delete i lst in
      if prev \<noteq> Some Dormant then
        if guard_transition prev Dormant
        then step_removed ids lst (e\<lparr>releases := releases e @ [(i, Dormant)]\<rparr>)
        else None
      else step_removed ids lst e)"

definition emitter_step ::
  "lifecycle_map \<Rightarrow> lifecycle_map \<Rightarrow> (emission \<times> lifecycle_map) option" where
  "emitter_step nxt lst =
     (case step_next nxt lst emission_default of
        None \<Rightarrow> None
      | Some (e, lst) \<Rightarrow>
          let removed = filter (\<lambda>i. i \<notin> fst ` set nxt) (map fst lst) in
          (case step_removed removed lst e of
             None \<Rightarrow> None
           | Some (e, lst) \<Rightarrow>
               Some (\<lparr>releases = sort_key fst (releases e), acquires = sort_key fst (acquires e)\<rparr>,
                     lst)))"

definition forget :: "instance_id \<Rightarrow> lifecycle_map \<Rightarrow> lifecycle_map" where
  "forget i lst = AList.delete i lst"

definition record_initial ::
  "instance_id \<Rightarrow> lifecycle_state \<Rightarrow> lifecycle_map \<Rightarrow> lifecycle_map" where
  "record_initial i s lst = AList.update i s lst"

section \<open>What a step emits to one widget\<close>

text \<open>The states a widget is sent when its state moves from \<open>prev\<close> to \<open>target\<close>, \<open>None\<close> standing
  for a widget the emitter, respectively the tracker, does not know.\<close>

fun moves :: "lifecycle_state option \<Rightarrow> lifecycle_state option \<Rightarrow> lifecycle_state list" where
  "moves prev None = (if prev = None \<or> prev = Some Dormant then [] else [Dormant])"
| "moves prev (Some n) =
     (if prev = Some n then []
      else case Option.bind prev (\<lambda>p. missed_state p n) of
             Some m \<Rightarrow> [m, n]
           | None \<Rightarrow> if n = Dormant \<and> prev = None then [] else [n])"

definition rel ::
  "instance_id \<Rightarrow> lifecycle_state option \<Rightarrow> lifecycle_state option
     \<Rightarrow> (instance_id \<times> lifecycle_state) list" where
  "rel i prev target = map (Pair i) (filter (\<lambda>s. s = Dormant) (moves prev target))"

definition acq ::
  "instance_id \<Rightarrow> lifecycle_state option \<Rightarrow> lifecycle_state option
     \<Rightarrow> (instance_id \<times> lifecycle_state) list" where
  "acq i prev target = map (Pair i) (filter (\<lambda>s. s \<noteq> Dormant) (moves prev target))"

lemma step_entry_moves:
  "step_entry i prev n e =
     Some (e\<lparr>releases := releases e @ rel i prev (Some n), acquires := acquires e @ acq i prev (Some n)\<rparr>)"
proof (cases prev)
  case None
  then show ?thesis by (cases n) (simp_all add: step_entry_def rel_def acq_def guard_transition_def)
next
  case (Some p)
  then show ?thesis
    by (cases p; cases n) (simp_all add: step_entry_def rel_def acq_def guard_transition_def)
qed

lemma removed_moves:
  "step_removed (i # ids) lst e =
     step_removed ids (AList.delete i lst) (e\<lparr>releases := releases e @ rel i (map_of lst i) None\<rparr>)"
  if "map_of lst i \<noteq> None"
proof -
  from that obtain p where "map_of lst i = Some p" by blast
  then show ?thesis by (cases p) (simp_all add: Let_def rel_def guard_transition_def)
qed

lemma step_next_moves:
  "distinct (map fst nxt) \<Longrightarrow>
   step_next nxt lst e = Some
     (e\<lparr>releases := releases e @ concat (map (\<lambda>(i, s). rel i (map_of lst i) (Some s)) nxt),
        acquires := acquires e @ concat (map (\<lambda>(i, s). acq i (map_of lst i) (Some s)) nxt)\<rparr>,
      fold (\<lambda>(i, s). AList.update i s) nxt lst)"
proof (induction nxt arbitrary: lst e)
  case (Cons x nxt)
  obtain i s where x: "x = (i, s)" by (cases x)
  have "map_of (AList.update i s lst) j = map_of lst j" if "j \<in> fst ` set nxt" for j
    using Cons.prems x that by (auto simp: update_conv')
  then have cong: "map (\<lambda>(j, t). g j (map_of (AList.update i s lst) j) (Some t)) nxt =
      map (\<lambda>(j, t). g j (map_of lst j) (Some t)) nxt"
    for g :: "instance_id \<Rightarrow> lifecycle_state option \<Rightarrow> lifecycle_state option
      \<Rightarrow> (instance_id \<times> lifecycle_state) list"
    by (intro map_cong refl) (force simp: image_iff)
  from Cons.prems have "distinct (map fst nxt)" by simp
  from Cons.IH [OF this] show ?case by (simp add: x step_entry_moves cong)
qed simp

lemma step_removed_moves:
  "distinct ids \<Longrightarrow> set ids \<subseteq> fst ` set lst \<Longrightarrow>
   step_removed ids lst e = Some
     (e\<lparr>releases := releases e @ concat (map (\<lambda>i. rel i (map_of lst i) None) ids)\<rparr>,
      fold AList.delete ids lst)"
proof (induction ids arbitrary: lst e)
  case (Cons i ids)
  have "map_of (AList.delete i lst) j = map_of lst j" if "j \<in> set ids" for j
    using Cons.prems that by (auto simp: delete_conv')
  then have cong: "map (\<lambda>j. rel j (map_of (AList.delete i lst) j) None) ids =
      map (\<lambda>j. rel j (map_of lst j) None) ids" by auto
  have "map_of lst i \<noteq> None" using Cons.prems by (simp add: map_of_eq_None_iff)
  have "set ids \<subseteq> fst ` set (AList.delete i lst)"
    using Cons.prems by (auto simp: delete_keys [symmetric] simp flip: set_map)
      (auto simp: delete_keys)
  then show ?case
    using Cons.IH Cons.prems(1) unfolding removed_moves [OF \<open>map_of lst i \<noteq> None\<close>]
    by (simp add: cong)
qed simp

section \<open>A step as a whole\<close>

lemma map_of_fold_update:
  "distinct (map fst nxt) \<Longrightarrow>
   map_of (fold (\<lambda>(i, s). AList.update i s) nxt lst) = map_of lst ++ map_of nxt"
proof (induction nxt arbitrary: lst)
  case (Cons x nxt)
  obtain i s where x: "x = (i, s)" by (cases x)
  with Cons.prems have "map_of nxt i = None" by (simp add: map_of_eq_None_iff)
  with Cons x show ?case
    by (auto simp: update_conv' map_add_def fun_eq_iff split: option.splits)
qed simp

lemma distinct_fold_update:
  "distinct (map fst lst) \<Longrightarrow> distinct (map fst (fold (\<lambda>(i, s). AList.update i s) nxt lst))"
  by (induction nxt arbitrary: lst) (auto simp: distinct_update)

lemma map_of_fold_delete: "map_of (fold AList.delete ids lst) = (map_of lst) |` (- set ids)"
  by (induction ids arbitrary: lst) (auto simp: delete_conv' restrict_map_def fun_eq_iff)

lemma distinct_fold_delete:
  "distinct (map fst lst) \<Longrightarrow> distinct (map fst (fold AList.delete ids lst))"
  by (induction ids arbitrary: lst) (auto simp: distinct_delete)

text \<open>The sub-list of one key in a list built key by key.\<close>

lemma filter_concat_keys:
  assumes "distinct (map fst xs)" and "\<And>i s p. (i, s) \<in> set xs \<Longrightarrow> p \<in> set (g i s) \<Longrightarrow> fst p = i"
  shows "filter (\<lambda>p. fst p = k) (concat (map (\<lambda>(i, s). g i s) xs)) =
    (case map_of xs k of Some s \<Rightarrow> g k s | None \<Rightarrow> [])"
  using assms
proof (induction xs)
  case (Cons x xs)
  obtain i s where x: "x = (i, s)" by (cases x)
  have own: "filter (\<lambda>p. fst p = k) (g i s) = (if i = k then g i s else [])"
    using Cons.prems(2) [of i s] x by (auto simp: filter_id_conv filter_empty_conv)
  have "filter (\<lambda>p. fst p = k) (concat (map (\<lambda>(i, s). g i s) xs)) =
      (case map_of xs k of Some s \<Rightarrow> g k s | None \<Rightarrow> [])"
    using Cons.prems by (intro Cons.IH) auto
  moreover have "map_of xs k = None" if "i = k"
    using Cons.prems(1) x that by (simp add: map_of_eq_None_iff)
  ultimately show ?case using own x by (cases "i = k") simp_all
qed simp

lemma filter_concat_ids:
  assumes "distinct ids" and "\<And>i p. p \<in> set (g i) \<Longrightarrow> fst p = i"
  shows "filter (\<lambda>p. fst p = k) (concat (map g ids)) = (if k \<in> set ids then g k else [])"
  using assms(1)
proof (induction ids)
  case (Cons i ids)
  have "filter (\<lambda>p. fst p = k) (g i) = (if i = k then g i else [])"
    using assms(2) by (auto simp: filter_id_conv filter_empty_conv)
  with Cons show ?case by auto
qed simp

lemma fst_rel: "p \<in> set (rel i prev t) \<Longrightarrow> fst p = i"
  by (auto simp: rel_def)

lemma fst_acq: "p \<in> set (acq i prev t) \<Longrightarrow> fst p = i"
  by (auto simp: acq_def)

lemma sort_key_one_key: "(\<And>p. p \<in> set xs \<Longrightarrow> f p = k) \<Longrightarrow> sort_key f xs = xs"
proof (rule properties_for_sort_key)
  assume "\<And>p. p \<in> set xs \<Longrightarrow> f p = k"
  then have "map f xs = replicate (length xs) k" by (simp add: map_replicate_const [symmetric])
  then show "sorted (map f xs)" by simp
qed simp_all

lemma sort_rel [simp]: "sort_key fst (rel i prev t) = rel i prev t"
  by (rule sort_key_one_key [OF fst_rel])

lemma sort_acq [simp]: "sort_key fst (acq i prev t) = acq i prev t"
  by (rule sort_key_one_key [OF fst_acq])

lemma emitter_step_eq:
  assumes "distinct (map fst nxt)" and "distinct (map fst lst)"
  obtains em lst' where "emitter_step nxt lst = Some (em, lst')"
    "map_of lst' = map_of nxt" "distinct (map fst lst')"
    "sorted (map fst (releases em))" "sorted (map fst (acquires em))"
    "\<And>i. filter (\<lambda>p. fst p = i) (releases em) = rel i (map_of lst i) (map_of nxt i)"
    "\<And>i. filter (\<lambda>p. fst p = i) (acquires em) = acq i (map_of lst i) (map_of nxt i)"
proof -
  define ups where "ups = fold (\<lambda>(i, s). AList.update i s) nxt lst"
  define gone where "gone = filter (\<lambda>i. i \<notin> fst ` set nxt) (map fst ups)"
  define rs where "rs = concat (map (\<lambda>(i, s). rel i (map_of lst i) (Some s)) nxt) @
    concat (map (\<lambda>i. rel i (map_of ups i) None) gone)"
  define as where "as = concat (map (\<lambda>(i, s). acq i (map_of lst i) (Some s)) nxt)"
  define lst' where "lst' = fold AList.delete gone ups"
  have ups: "map_of ups = map_of lst ++ map_of nxt" "distinct (map fst ups)"
    using assms unfolding ups_def by (simp_all add: map_of_fold_update distinct_fold_update)
  have gone: "i \<in> set gone \<longleftrightarrow> map_of nxt i = None \<and> map_of lst i \<noteq> None" for i
  proof -
    have "i \<in> fst ` set ups \<longleftrightarrow> map_of ups i \<noteq> None" by (simp add: map_of_eq_None_iff)
    then show ?thesis
      unfolding gone_def ups(1)
      by (auto simp: map_add_None map_of_eq_None_iff)
  qed
  have dg: "distinct gone" using ups(2) unfolding gone_def by (rule distinct_filter)
  have sg: "set gone \<subseteq> fst ` set ups" by (auto simp: gone_def)
  have step: "emitter_step nxt lst =
      Some (\<lparr>releases = sort_key fst rs, acquires = sort_key fst as\<rparr>, lst')"
    using step_removed_moves [OF dg sg]
    unfolding emitter_step_def step_next_moves [OF assms(1)] ups_def [symmetric]
    by (simp add: gone_def [symmetric] emission_default_def rs_def as_def lst'_def)
  have lm: "map_of lst' = map_of nxt"
    unfolding lst'_def map_of_fold_delete ups(1)
    by (rule ext) (auto simp: restrict_map_def gone map_add_def split: option.splits)
  have ld: "distinct (map fst lst')"
    unfolding lst'_def using ups(2) by (rule distinct_fold_delete)
  have fa: "filter (\<lambda>p. fst p = i) (sort_key fst as) = acq i (map_of lst i) (map_of nxt i)" for i
  proof -
    have "filter (\<lambda>p. fst p = i) as =
        (case map_of nxt i of Some s \<Rightarrow> acq i (map_of lst i) (Some s) | None \<Rightarrow> [])"
      unfolding as_def
      by (rule filter_concat_keys [OF assms(1), where g = "\<lambda>i s. acq i (map_of lst i) (Some s)"])
        (rule fst_acq)
    also have "\<dots> = acq i (map_of lst i) (map_of nxt i)"
      by (auto simp: acq_def split: option.splits)
    finally show ?thesis by (simp add: filter_sort)
  qed
  have fr: "filter (\<lambda>p. fst p = i) (sort_key fst rs) = rel i (map_of lst i) (map_of nxt i)" for i
  proof -
    have "filter (\<lambda>p. fst p = i) rs =
        (case map_of nxt i of Some s \<Rightarrow> rel i (map_of lst i) (Some s) | None \<Rightarrow> []) @
        (if i \<in> set gone then rel i (map_of ups i) None else [])"
      unfolding rs_def filter_append
      by (intro arg_cong2 [where f = append] filter_concat_ids [OF dg] filter_concat_keys
          [OF assms(1), where g = "\<lambda>i s. rel i (map_of lst i) (Some s)"]) (erule fst_rel)+
    also have "\<dots> = rel i (map_of lst i) (map_of nxt i)"
      by (auto simp: rel_def gone ups(1) map_add_def split: option.splits)
    finally show ?thesis by (simp add: filter_sort)
  qed
  show ?thesis by (rule that [OF step lm ld]) (simp_all add: fa fr del: filter_sort)
qed

text \<open>Two lists sorted by key with the same sub-list for every key are equal.\<close>

lemma sorted_keys_unique:
  fixes f :: "'a \<Rightarrow> 'k::linorder"
  assumes "sorted (map f xs)" "sorted (map f ys)"
    and "\<And>k. filter (\<lambda>p. f p = k) xs = filter (\<lambda>p. f p = k) ys"
  shows "xs = ys"
proof -
  have "count (mset xs) p = count (mset ys) p" for p
    using arg_cong [OF assms(3) [of "f p"], of "\<lambda>zs. count (mset zs) p"] by simp
  then have "mset xs = mset ys" by (rule multiset_eqI)
  have "sort_key f ys = xs"
    using \<open>mset xs = mset ys\<close> assms by (intro properties_for_sort_key) (simp_all add: eq_commute)
  moreover have "sort_key f ys = ys"
    using assms(2) by (intro properties_for_sort_key) simp_all
  ultimately show ?thesis by simp
qed

section \<open>Legal sequences\<close>

text \<open>The transitions that \<^verbatim>\<open>deck-widget.xml\<close> permits.\<close>

fun permitted :: "lifecycle_state \<Rightarrow> lifecycle_state set" where
  "permitted Dormant = {Prepared, Visible, Entering}"
| "permitted Prepared = {Dormant, Visible, Entering}"
| "permitted Visible = {Dormant, Prepared, Leaving}"
| "permitted Entering = {Visible, Prepared, Dormant}"
| "permitted Leaving = {Dormant, Prepared, Visible}"

fun permitted_run :: "lifecycle_state \<Rightarrow> lifecycle_state list \<Rightarrow> bool" where
  "permitted_run prev [] = True"
| "permitted_run prev (s # ss) \<longleftrightarrow> s \<in> permitted prev \<and> permitted_run s ss"

definition emitted :: "instance_id \<Rightarrow> emission \<Rightarrow> lifecycle_state list" where
  "emitted i em = map snd (filter (\<lambda>p. fst p = i) (releases em @ acquires em))"

lemma clamp_initial_idle:
  "clamp_initial_lifecycle s \<in> {Dormant, Prepared, Visible}"
  "s = clamp_initial_lifecycle s \<or> s \<in> permitted (clamp_initial_lifecycle s)"
  by (cases s; simp)+

lemma moves_permitted:
  "permitted_run p (moves (Some p) t)"
  "last (p # moves (Some p) t) = (case t of Some n \<Rightarrow> n | None \<Rightarrow> Dormant)"
proof -
  show "permitted_run p (moves (Some p) t)"
  proof (cases t)
    case (Some n)
    then show ?thesis by (cases p; cases n) simp_all
  qed (cases p; simp)
  show "last (p # moves (Some p) t) = (case t of Some n \<Rightarrow> n | None \<Rightarrow> Dormant)"
    by (auto split: option.splits)
qed

lemma moves_batches: "filter (\<lambda>s. s = Dormant) (moves prev t) @ filter (\<lambda>s. s \<noteq> Dormant) (moves prev t) = moves prev t"
proof (cases t)
  case (Some n)
  then show ?thesis
  proof (cases prev)
    case (Some p)
    with \<open>t = Some n\<close> show ?thesis by (cases p; cases n) simp_all
  qed simp
qed simp

lemma emitted_moves:
  assumes "filter (\<lambda>p. fst p = i) (releases em) = rel i prev t"
    and "filter (\<lambda>p. fst p = i) (acquires em) = acq i prev t"
  shows "emitted i em = moves prev t"
  using assms moves_batches by (simp add: emitted_def rel_def acq_def comp_def)

section \<open>Properties\<close>

lemma batches_of_filters:
  assumes "\<And>i. filter (\<lambda>p. fst p = i) (releases em) = rel i (f i) (g i)"
    and "\<And>i. filter (\<lambda>p. fst p = i) (acquires em) = acq i (f i) (g i)"
  shows "\<forall>p \<in> set (releases em). snd p = Dormant" "\<forall>p \<in> set (acquires em). snd p \<noteq> Dormant"
proof -
  have "p \<in> set (rel (fst p) (f (fst p)) (g (fst p)))" if "p \<in> set (releases em)" for p
    using arg_cong [OF assms(1) [of "fst p"], of set] that by auto
  then show "\<forall>p \<in> set (releases em). snd p = Dormant" by (fastforce simp: rel_def)
  have "p \<in> set (acq (fst p) (f (fst p)) (g (fst p)))" if "p \<in> set (acquires em)" for p
    using arg_cong [OF assms(2) [of "fst p"], of set] that by auto
  then show "\<forall>p \<in> set (acquires em). snd p \<noteq> Dormant" by (fastforce simp: acq_def)
qed

text \<open>C30. A step of the lifecycle emitter never trips its debug assertion. Whatever states the
  tracker went through since the last step, a widget that was sent a state before is sent a sequence
  of the transitions that deck-widget.xml permits, from that state to its new one, or to Dormant
  when it left, and nothing when its state is the same. A widget the emitter has no state for is sent
  just its new state unless it is Dormant; that Entering and Leaving never come first, as
  deck-widget.xml has it, is left to the connect path, which clamps the state it sends to an idle one,
  and the emitter itself does not ensure it. The emitter remembers exactly the new states. The release batch holds only transitions into Dormant and the acquire batch none.\<close>

theorem emitter_step_legal:
  assumes "distinct (map fst nxt)" and "distinct (map fst lst)"
  shows "\<exists>em lst'. emitter_step nxt lst = Some (em, lst') \<and>
    distinct (map fst lst') \<and> map_of lst' = map_of nxt \<and>
    (\<forall>i. case map_of lst i of
       Some s \<Rightarrow> permitted_run s (emitted i em) \<and>
         last (s # emitted i em) = (case map_of nxt i of Some n \<Rightarrow> n | None \<Rightarrow> Dormant) \<and>
         (map_of nxt i = Some s \<longrightarrow> emitted i em = [])
     | None \<Rightarrow> emitted i em = (case map_of nxt i of Some n \<Rightarrow> if n = Dormant then [] else [n] | None \<Rightarrow> [])) \<and>
    (\<forall>p \<in> set (releases em). snd p = Dormant) \<and> (\<forall>p \<in> set (acquires em). snd p \<noteq> Dormant)"
proof (rule emitter_step_eq [OF assms])
  fix em lst'
  assume st: "emitter_step nxt lst = Some (em, lst')" "map_of lst' = map_of nxt"
      "distinct (map fst lst')"
    and r: "\<And>i. filter (\<lambda>p. fst p = i) (releases em) = rel i (map_of lst i) (map_of nxt i)"
    and a: "\<And>i. filter (\<lambda>p. fst p = i) (acquires em) = acq i (map_of lst i) (map_of nxt i)"
  have e: "emitted i em = moves (map_of lst i) (map_of nxt i)" for i
    using r a by (rule emitted_moves)
  have "case map_of lst i of
       Some s \<Rightarrow> permitted_run s (emitted i em) \<and>
         last (s # emitted i em) = (case map_of nxt i of Some n \<Rightarrow> n | None \<Rightarrow> Dormant) \<and>
         (map_of nxt i = Some s \<longrightarrow> emitted i em = [])
     | None \<Rightarrow> emitted i em = (case map_of nxt i of Some n \<Rightarrow> if n = Dormant then [] else [n] | None \<Rightarrow> [])" for i
  proof (cases "map_of lst i")
    case None
    then show ?thesis by (auto simp: e split: option.splits)
  next
    case (Some s)
    with moves_permitted [of s "map_of nxt i"] show ?thesis by (simp add: e)
  qed
  with st batches_of_filters [OF r a] show ?thesis by blast
qed

text \<open>A widget that was on screen and is entering again, since the swipe that made it leave and the swipe
  back came between two steps, is first told that it is off screen; another enters the list.\<close>

theorem emitter_step_legal_witness:
  "\<exists>em lst'. emitter_step [(''clock'', Prepared), (''fees'', Entering)] [(''fees'', Visible)] =
     Some (em, lst') \<and> emitted ''clock'' em = [Prepared] \<and> permitted_run Visible (emitted ''fees'' em) \<and>
     last (Visible # emitted ''fees'' em) = Entering"
proof -
  let ?nxt = "[(''clock'', Prepared), (''fees'', Entering)]" and ?lst = "[(''fees'', Visible)]"
  have "distinct (map fst ?nxt)" "distinct (map fst ?lst)" by simp_all
  from emitter_step_legal [OF this] obtain em lst' where e: "emitter_step ?nxt ?lst = Some (em, lst')"
    and m: "\<forall>i. case map_of ?lst i of
       Some s \<Rightarrow> permitted_run s (emitted i em) \<and>
         last (s # emitted i em) = (case map_of ?nxt i of Some n \<Rightarrow> n | None \<Rightarrow> Dormant) \<and>
         (map_of ?nxt i = Some s \<longrightarrow> emitted i em = [])
     | None \<Rightarrow> emitted i em = (case map_of ?nxt i of Some n \<Rightarrow> if n = Dormant then [] else [n] | None \<Rightarrow> [])"
    by blast
  from spec [OF m, of "''clock''"] spec [OF m, of "''fees''"] e show ?thesis by simp
qed

text \<open>What a step emits, and in which order, does not depend on the iteration order of the two
  hash maps.\<close>

lemma emission_order_independent:
  assumes "distinct (map fst nxt)" "distinct (map fst nxt')" "set nxt = set nxt'"
    and "distinct (map fst lst)" "distinct (map fst lst')" "set lst = set lst'"
  shows "map_option fst (emitter_step nxt lst) = map_option fst (emitter_step nxt' lst')"
proof -
  have maps: "map_of nxt = map_of nxt'" "map_of lst = map_of lst'"
    using assms by (simp_all add: map_of_inject_set)
  obtain em l where e: "emitter_step nxt lst = Some (em, l)"
      "map_of l = map_of nxt" "distinct (map fst l)"
      "sorted (map fst (releases em))" "sorted (map fst (acquires em))"
      "\<And>i. filter (\<lambda>p. fst p = i) (releases em) = rel i (map_of lst i) (map_of nxt i)"
      "\<And>i. filter (\<lambda>p. fst p = i) (acquires em) = acq i (map_of lst i) (map_of nxt i)"
    by (rule emitter_step_eq [OF assms(1,4)]) (rule that)
  obtain em' l' where e': "emitter_step nxt' lst' = Some (em', l')"
      "map_of l' = map_of nxt'" "distinct (map fst l')"
      "sorted (map fst (releases em'))" "sorted (map fst (acquires em'))"
      "\<And>i. filter (\<lambda>p. fst p = i) (releases em') = rel i (map_of lst' i) (map_of nxt' i)"
      "\<And>i. filter (\<lambda>p. fst p = i) (acquires em') = acq i (map_of lst' i) (map_of nxt' i)"
    by (rule emitter_step_eq [OF assms(2,5)]) (rule that)
  have "releases em = releases em'" by (rule sorted_keys_unique [OF e(4) e'(4)]) (simp add: e(6) e'(6) maps)
  moreover have "acquires em = acquires em'"
    by (rule sorted_keys_unique [OF e(5) e'(5)]) (simp add: e(7) e'(7) maps)
  ultimately show ?thesis using e(1) e'(1) by simp
qed

end
