(* ===== verification/Widget_Tracker.thy ===== *)
theory Widget_Tracker
  imports Lifecycle_Emitter
begin

text \<open>
  The scene tracker of \<^verbatim>\<open>bmc-openwrt/src/compositor/widget_tracker.rs\<close>: the cycling list of
  scene layouts, the active scene, the drag in progress and the automatic transition in progress.
  An access to the list out of range panics in the source; here it is \<open>None\<close>, and the invariant
  \<open>tracker_inv\<close> rules it out. Pixel offsets are 32-bit words read as signed. Floats are reals:
  \<open>rnd\<close> is the rounding of a real to the nearest 32-bit float, a parameter; a NaN velocity is
  not represented.
\<close>

section \<open>Layouts\<close>

type_synonym i32 = "32 word"

record widget_placement =
  wp_instance :: instance_id
  wp_position :: "u32 \<times> u32"
  wp_size :: "u32 \<times> u32"
  wp_visible :: bool

record scene_layout =
  sl_scene_id :: "nat option"
  cycle_duration :: "duration option"
  combined :: bool
  sl_widgets :: "widget_placement list"

definition scene_layout_default :: scene_layout where
  "scene_layout_default =
     \<lparr>sl_scene_id = None, cycle_duration = None, combined = False, sl_widgets = []\<rparr>"

definition visible_ids :: "scene_layout \<Rightarrow> instance_id list" where
  "visible_ids s = map wp_instance (filter wp_visible (sl_widgets s))"

section \<open>State\<close>

record scene_commit_config =
  distance_fraction :: real
  commit_velocity :: real

definition scene_commit_default :: "(real \<Rightarrow> real) \<Rightarrow> scene_commit_config" where
  "scene_commit_default rnd = \<lparr>distance_fraction = rnd (30 / 100), commit_velocity = 800\<rparr>"

record scene_transition_target =
  from_index :: nat
  to_index :: nat

datatype transition_frame = SlideFrame i32 | FadeFrame real

record rendered_scene =
  rs_scene :: scene_layout
  x_offset :: i32
  alpha :: real

record widget_tracker =
  wt_scenes :: "scene_layout list"
  current_index :: nat
  drag_offset :: "i32 option"
  automatic_transition :: "scene_transition_target option"
  screen_width :: u32
  commit :: scene_commit_config

definition tracker_with_screen_width :: "(real \<Rightarrow> real) \<Rightarrow> u32 \<Rightarrow> widget_tracker" where
  "tracker_with_screen_width rnd width =
     \<lparr>wt_scenes = [scene_layout_default], current_index = 0, drag_offset = None,
      automatic_transition = None, screen_width = width, commit = scene_commit_default rnd\<rparr>"

section \<open>Queries\<close>

definition active_scene_of :: "widget_tracker \<Rightarrow> scene_layout option" where
  "active_scene_of t = get (wt_scenes t) (current_index t)"

definition can_drag :: "widget_tracker \<Rightarrow> bool" where
  "can_drag t \<longleftrightarrow> 1 < length (wt_scenes t)"

definition scene_count :: "widget_tracker \<Rightarrow> nat" where
  "scene_count t = length (wt_scenes t)"

definition neighbor_index_from :: "nat \<Rightarrow> int \<Rightarrow> widget_tracker \<Rightarrow> nat option" where
  "neighbor_index_from index direction t =
     (let len = length (wt_scenes t) in
      if len \<le> 1 \<or> len \<le> index then None
      else Some (if 0 < direction then (index + 1) mod len
                 else if index = 0 then len - 1 else index - 1))"

definition neighbor_index :: "int \<Rightarrow> widget_tracker \<Rightarrow> nat option" where
  "neighbor_index direction t = neighbor_index_from (current_index t) direction t"

definition neighbor_scene :: "int \<Rightarrow> widget_tracker \<Rightarrow> scene_layout option" where
  "neighbor_scene direction t = Option.bind (neighbor_index direction t) (get (wt_scenes t))"

definition drag_direction :: "i32 \<Rightarrow> int" where
  "drag_direction dx = (if sint dx \<le> 0 then 1 else - 1)"

definition drag_neighbor_scene :: "widget_tracker \<Rightarrow> scene_layout option" where
  "drag_neighbor_scene t =
     Option.bind (drag_offset t) (\<lambda>dx. neighbor_scene (drag_direction dx) t)"

definition active_visible_widget_ids :: "widget_tracker \<Rightarrow> instance_id list option" where
  "active_visible_widget_ids t = map_option visible_ids (active_scene_of t)"

definition presented_widget_ids :: "widget_tracker \<Rightarrow> instance_id set option" where
  "presented_widget_ids t =
     (case automatic_transition t of
        Some tr \<Rightarrow>
          Option.bind (get (wt_scenes t) (from_index tr)) (\<lambda>a.
          map_option (\<lambda>b. set (visible_ids a) \<union> set (visible_ids b))
            (get (wt_scenes t) (to_index tr)))
      | None \<Rightarrow>
          map_option (\<lambda>a. set (visible_ids a) \<union>
              (case drag_neighbor_scene t of Some n \<Rightarrow> set (visible_ids n) | None \<Rightarrow> {}))
            (active_scene_of t))"

section \<open>Operations\<close>

definition set_scene_cycling :: "scene_layout list \<Rightarrow> widget_tracker \<Rightarrow> widget_tracker" where
  "set_scene_cycling scenes t =
     (let active_id = Option.bind (get (wt_scenes t) (current_index t)) sl_scene_id;
          t = t\<lparr>automatic_transition := None\<rparr>;
          t = (if scenes = [] then t\<lparr>wt_scenes := [scene_layout_default], current_index := 0\<rparr>
               else
                 let new_index =
                   (case Option.bind active_id
                           (\<lambda>i. position (\<lambda>s. sl_scene_id s = Some i) scenes) of
                      Some k \<Rightarrow> k | None \<Rightarrow> 0)
                 in t\<lparr>wt_scenes := scenes, current_index := new_index\<rparr>)
      in t\<lparr>drag_offset := None\<rparr>)"

definition set_active_scene :: "scene_layout \<Rightarrow> widget_tracker \<Rightarrow> widget_tracker" where
  "set_active_scene layout t =
     (let t = t\<lparr>automatic_transition := None\<rparr>;
          t = (case Option.bind (sl_scene_id layout)
                      (\<lambda>i. position (\<lambda>s. sl_scene_id s = Some i) (wt_scenes t)) of
                 Some k \<Rightarrow> t\<lparr>wt_scenes := (wt_scenes t)[k := layout], current_index := k\<rparr>
               | None \<Rightarrow> t\<lparr>wt_scenes := [layout], current_index := 0\<rparr>)
      in t\<lparr>drag_offset := None\<rparr>)"

definition reset_to_first_scene :: "widget_tracker \<Rightarrow> widget_tracker" where
  "reset_to_first_scene t =
     (if wt_scenes t = [] then t
      else t\<lparr>current_index := 0, drag_offset := None, automatic_transition := None\<rparr>)"

definition start_drag :: "widget_tracker \<Rightarrow> widget_tracker" where
  "start_drag t =
     (if can_drag t then t\<lparr>automatic_transition := None, drag_offset := Some 0\<rparr> else t)"

definition update_drag :: "i32 \<Rightarrow> widget_tracker \<Rightarrow> widget_tracker" where
  "update_drag dx t = (if drag_offset t \<noteq> None then t\<lparr>drag_offset := Some dx\<rparr> else t)"

definition advance :: "int \<Rightarrow> widget_tracker \<Rightarrow> widget_tracker" where
  "advance direction t =
     (case neighbor_index direction t of Some k \<Rightarrow> t\<lparr>current_index := k\<rparr> | None \<Rightarrow> t)"

text \<open>\<open>dx.abs()\<close> of a build without overflow checks, which wraps; with them it panics where
  \<open>abs_overflows\<close> says.\<close>

definition i32_abs :: "i32 \<Rightarrow> i32" where
  "i32_abs dx = (if sint dx < 0 then - dx else dx)"

definition abs_overflows :: "i32 \<Rightarrow> bool" where
  "abs_overflows dx \<longleftrightarrow> sint dx = - (2 ^ 31)"

definition signum :: "real \<Rightarrow> real" where
  "signum x = (if x < 0 then - 1 else 1)"

definition should_commit ::
  "(real \<Rightarrow> real) \<Rightarrow> i32 \<Rightarrow> real \<Rightarrow> widget_tracker \<Rightarrow> bool" where
  "should_commit rnd dx velocity_x t =
     (let width = rnd (real (unat (screen_width t)));
          distance = rnd (real_of_int (sint (i32_abs dx)));
          commit_by_distance = distance > rnd (width * distance_fraction (commit t));
          commit_by_velocity = (dx \<noteq> 0 \<and> \<bar>velocity_x\<bar> > commit_velocity (commit t) \<and>
            signum velocity_x = signum (rnd (real_of_int (sint dx))))
      in commit_by_distance \<or> commit_by_velocity)"

definition end_drag ::
  "(real \<Rightarrow> real) \<Rightarrow> i32 \<Rightarrow> real \<Rightarrow> widget_tracker \<Rightarrow> bool \<times> widget_tracker" where
  "end_drag rnd dx velocity_x t =
     (let was_dragging = drag_offset t \<noteq> None; t = t\<lparr>drag_offset := None\<rparr> in
      if \<not> was_dragging then (False, t)
      else if length (wt_scenes t) \<le> 1 \<or> screen_width t = 0 then (False, t)
      else if should_commit rnd dx velocity_x t
      then (True, advance (if sint dx < 0 then 1 else - 1) t)
      else (False, t))"

definition end_drag_overflows :: "i32 \<Rightarrow> widget_tracker \<Rightarrow> bool" where
  "end_drag_overflows dx t \<longleftrightarrow> drag_offset t \<noteq> None \<and> \<not> (length (wt_scenes t) \<le> 1 \<or> screen_width t = 0) \<and>
     abs_overflows dx"

definition begin_automatic_transition_to_next ::
  "widget_tracker \<Rightarrow> scene_transition_target option \<times> widget_tracker" where
  "begin_automatic_transition_to_next t =
     (if drag_offset t \<noteq> None then (None, t)
      else case neighbor_index 1 t of
             None \<Rightarrow> (None, t)
           | Some k \<Rightarrow>
               let target = \<lparr>from_index = current_index t, to_index = k\<rparr>
               in (Some target, t\<lparr>automatic_transition := Some target\<rparr>))"

definition cancel_automatic_transition :: "widget_tracker \<Rightarrow> widget_tracker" where
  "cancel_automatic_transition t = t\<lparr>automatic_transition := None\<rparr>"

definition finish_automatic_transition :: "widget_tracker \<Rightarrow> nat option \<times> widget_tracker" where
  "finish_automatic_transition t =
     (case automatic_transition t of
        None \<Rightarrow> (None, t)
      | Some tr \<Rightarrow>
          (Some (to_index tr),
           t\<lparr>automatic_transition := None, current_index := to_index tr, drag_offset := None\<rparr>))"

section \<open>Rendering\<close>

definition logical_width :: "widget_tracker \<Rightarrow> i32" where
  "logical_width t = (if unat (screen_width t) < 2 ^ 31 then screen_width t else 2 ^ 31 - 1)"

definition full_scene :: "scene_layout \<Rightarrow> i32 \<Rightarrow> rendered_scene" where
  "full_scene s x = \<lparr>rs_scene = s, x_offset = x, alpha = 1\<rparr>"

definition rendered_transition ::
  "scene_layout \<Rightarrow> scene_layout \<Rightarrow> transition_frame option \<Rightarrow> i32 \<Rightarrow> widget_tracker
     \<Rightarrow> rendered_scene list" where
  "rendered_transition outgoing incoming frame seam t =
     (case frame of
        Some (FadeFrame progress) \<Rightarrow>
          [\<lparr>rs_scene = outgoing, x_offset = 0, alpha = 1 - progress\<rparr>,
           \<lparr>rs_scene = incoming, x_offset = 0, alpha = progress\<rparr>]
      | Some (SlideFrame offset) \<Rightarrow>
          [full_scene outgoing offset, full_scene incoming (offset + logical_width t - seam)]
      | None \<Rightarrow> [full_scene outgoing 0, full_scene incoming (logical_width t)])"

definition rendered_scenes ::
  "transition_frame option \<Rightarrow> i32 \<Rightarrow> widget_tracker \<Rightarrow> rendered_scene list option" where
  "rendered_scenes frame seam t =
     (case automatic_transition t of
        Some tr \<Rightarrow>
          Option.bind (get (wt_scenes t) (from_index tr)) (\<lambda>outgoing.
          map_option (\<lambda>incoming. rendered_transition outgoing incoming frame seam t)
            (get (wt_scenes t) (to_index tr)))
      | None \<Rightarrow>
          map_option (\<lambda>active.
              full_scene active (case drag_offset t of Some dx \<Rightarrow> dx | None \<Rightarrow> 0) #
              (case drag_offset t of
                 None \<Rightarrow> []
               | Some dx \<Rightarrow>
                   (case drag_neighbor_scene t of
                      None \<Rightarrow> []
                    | Some neighbor \<Rightarrow>
                        [full_scene neighbor
                           (if sint dx \<le> 0 then dx + logical_width t - seam
                            else dx - logical_width t + seam)])))
            (active_scene_of t))"

section \<open>Lifecycle states\<close>

definition mark_visible ::
  "lifecycle_state \<Rightarrow> scene_layout \<Rightarrow> lifecycle_map \<Rightarrow> lifecycle_map" where
  "mark_visible s scene out =
     fold (\<lambda>w out. if wp_visible w then AList.update (wp_instance w) s out else out)
       (sl_widgets scene) out"

definition mark_all_dormant :: "widget_tracker \<Rightarrow> lifecycle_map" where
  "mark_all_dormant t = fold (mark_visible Dormant) (wt_scenes t) []"

definition mark_option ::
  "lifecycle_state \<Rightarrow> scene_layout option \<Rightarrow> lifecycle_map \<Rightarrow> lifecycle_map" where
  "mark_option s scene out = (case scene of Some sc \<Rightarrow> mark_visible s sc out | None \<Rightarrow> out)"

fun mark_idle_neighbors ::
  "nat list \<Rightarrow> scene_transition_target \<Rightarrow> widget_tracker \<Rightarrow> lifecycle_map \<Rightarrow> lifecycle_map option" where
  "mark_idle_neighbors [] target t out = Some out"
| "mark_idle_neighbors (k # ks) target t out =
     (if k \<noteq> from_index target \<and> k \<noteq> to_index target then
        (case get (wt_scenes t) k of
           Some sc \<Rightarrow> mark_idle_neighbors ks target t (mark_visible Prepared sc out)
         | None \<Rightarrow> None)
      else mark_idle_neighbors ks target t out)"

definition apply_transition_lifecycle ::
  "scene_transition_target \<Rightarrow> widget_tracker \<Rightarrow> lifecycle_map \<Rightarrow> lifecycle_map option" where
  "apply_transition_lifecycle target t out =
     (let ks = List.map_filter (\<lambda>d. neighbor_index_from (from_index target) d t) [- 1, 1] in
      Option.bind (mark_idle_neighbors ks target t out) (\<lambda>out.
      Option.bind (get (wt_scenes t) (from_index target)) (\<lambda>a.
      map_option (\<lambda>b. mark_visible Entering b (mark_visible Leaving a out))
        (get (wt_scenes t) (to_index target)))))"

definition dragging :: "widget_tracker \<Rightarrow> bool" where
  "dragging t = (case drag_offset t of Some dx \<Rightarrow> dx \<noteq> 0 | None \<Rightarrow> False)"

definition lifecycle_states :: "widget_tracker \<Rightarrow> lifecycle_map option" where
  "lifecycle_states t =
     (let out = mark_all_dormant t in
      case automatic_transition t of
        Some tr \<Rightarrow> apply_transition_lifecycle tr t out
      | None \<Rightarrow>
          map_option (\<lambda>active.
              let out = mark_visible (if dragging t then Leaving else Visible) active out;
                  out = mark_option Prepared (neighbor_scene (- 1) t) out;
                  out = mark_option Prepared (neighbor_scene 1 t) out
              in if dragging t then mark_option Entering (drag_neighbor_scene t) out else out)
            (active_scene_of t))"

section \<open>Invariant\<close>

definition tracker_inv :: "widget_tracker \<Rightarrow> bool" where
  "tracker_inv t \<longleftrightarrow> current_index t < length (wt_scenes t) \<and>
     (\<forall>tr. automatic_transition t = Some tr \<longrightarrow>
        from_index tr = current_index t \<and> to_index tr < length (wt_scenes t) \<and>
        to_index tr \<noteq> from_index tr \<and> drag_offset t = None) \<and>
     (drag_offset t \<noteq> None \<longrightarrow> 1 < length (wt_scenes t))"

lemma neighbor_index_from_range:
  "neighbor_index_from k d t = Some n \<Longrightarrow>
   n < length (wt_scenes t) \<and> n \<noteq> k \<and> k < length (wt_scenes t) \<and> 1 < length (wt_scenes t)"
  by (auto simp: neighbor_index_from_def Let_def mod_Suc split: if_splits)

lemma neighbor_index_range:
  "neighbor_index d t = Some n \<Longrightarrow>
   n < length (wt_scenes t) \<and> n \<noteq> current_index t \<and> 1 < length (wt_scenes t)"
  unfolding neighbor_index_def using neighbor_index_from_range by blast

lemma tracker_inv_new: "tracker_inv (tracker_with_screen_width rnd w)"
  by (simp add: tracker_inv_def tracker_with_screen_width_def)

lemma set_scene_cycling_inv: "tracker_inv (set_scene_cycling scenes t)"
  by (auto simp: tracker_inv_def set_scene_cycling_def Let_def bind_eq_Some_conv
      split: option.splits dest!: position_SomeD)

lemma set_active_scene_inv: "tracker_inv (set_active_scene layout t)"
  by (auto simp: tracker_inv_def set_active_scene_def Let_def bind_eq_Some_conv
      split: option.splits dest!: position_SomeD)

lemma reset_to_first_scene_inv: "tracker_inv t \<Longrightarrow> tracker_inv (reset_to_first_scene t)"
  by (auto simp: tracker_inv_def reset_to_first_scene_def)

lemma start_drag_inv: "tracker_inv t \<Longrightarrow> tracker_inv (start_drag t)"
  by (auto simp: tracker_inv_def start_drag_def can_drag_def)

lemma update_drag_inv: "tracker_inv t \<Longrightarrow> tracker_inv (update_drag dx t)"
  by (auto simp: tracker_inv_def update_drag_def)

lemma advance_inv:
  "tracker_inv t \<Longrightarrow> automatic_transition t = None \<Longrightarrow> tracker_inv (advance d t)"
  by (auto simp: tracker_inv_def advance_def split: option.splits dest: neighbor_index_range)

lemma end_drag_inv: "tracker_inv t \<Longrightarrow> tracker_inv (snd (end_drag rnd dx v t))"
proof -
  assume t: "tracker_inv t"
  let ?t = "t\<lparr>drag_offset := None\<rparr>"
  have "tracker_inv ?t" using t by (auto simp: tracker_inv_def)
  moreover have "automatic_transition ?t = None" if "drag_offset t \<noteq> None"
    using t that by (auto simp: tracker_inv_def)
  ultimately show ?thesis by (auto simp: end_drag_def Let_def advance_inv)
qed

lemma begin_automatic_transition_inv:
  "tracker_inv t \<Longrightarrow> tracker_inv (snd (begin_automatic_transition_to_next t))"
  by (auto simp: tracker_inv_def begin_automatic_transition_to_next_def Let_def
      split: option.splits dest: neighbor_index_range)

lemma cancel_automatic_transition_inv:
  "tracker_inv t \<Longrightarrow> tracker_inv (cancel_automatic_transition t)"
  by (auto simp: tracker_inv_def cancel_automatic_transition_def)

lemma finish_automatic_transition_inv:
  "tracker_inv t \<Longrightarrow> tracker_inv (snd (finish_automatic_transition t))"
  by (auto simp: tracker_inv_def finish_automatic_transition_def split: option.splits)

lemmas tracker_inv_intros = tracker_inv_new set_scene_cycling_inv set_active_scene_inv
  reset_to_first_scene_inv start_drag_inv update_drag_inv end_drag_inv
  begin_automatic_transition_inv cancel_automatic_transition_inv finish_automatic_transition_inv

section \<open>Never out of range\<close>

lemma tracker_inv_active: "tracker_inv t \<Longrightarrow> \<exists>a. active_scene_of t = Some a"
  by (auto simp: tracker_inv_def active_scene_of_def get_def)

lemma tracker_inv_transition:
  assumes "tracker_inv t" and "automatic_transition t = Some tr"
  shows "\<exists>a. get (wt_scenes t) (from_index tr) = Some a" "\<exists>b. get (wt_scenes t) (to_index tr) = Some b"
  using assms by (auto simp: tracker_inv_def get_def)

lemma mark_idle_neighbors_total:
  "(\<And>k. k \<in> set ks \<Longrightarrow> k < length (wt_scenes t)) \<Longrightarrow> \<exists>out'. mark_idle_neighbors ks target t out = Some out'"
  by (induction ks arbitrary: out) (auto simp: get_def)

lemma neighbor_list_range:
  "k \<in> set (List.map_filter (\<lambda>d. neighbor_index_from j d t) ds) \<Longrightarrow> k < length (wt_scenes t)"
  by (auto simp: map_filter_def dest: neighbor_index_from_range split: option.splits)

lemma lifecycle_states_total:
  assumes "tracker_inv t" shows "\<exists>m. lifecycle_states t = Some m"
proof (cases "automatic_transition t")
  case None
  with tracker_inv_active [OF assms] show ?thesis by (auto simp: lifecycle_states_def Let_def)
next
  case (Some tr)
  obtain a b where "get (wt_scenes t) (from_index tr) = Some a" "get (wt_scenes t) (to_index tr) = Some b"
    using tracker_inv_transition [OF assms Some] by blast
  moreover obtain out where "mark_idle_neighbors
      (List.map_filter (\<lambda>d. neighbor_index_from (from_index tr) d t) [- 1, 1]) tr t (mark_all_dormant t) =
      Some out"
    using mark_idle_neighbors_total neighbor_list_range by metis
  ultimately show ?thesis
    using Some by (simp add: lifecycle_states_def apply_transition_lifecycle_def Let_def)
qed

lemma rendered_scenes_total: "tracker_inv t \<Longrightarrow> \<exists>rs. rendered_scenes frame seam t = Some rs"
  using tracker_inv_active tracker_inv_transition
  by (fastforce simp: rendered_scenes_def split: option.splits)

lemma presented_widget_ids_total: "tracker_inv t \<Longrightarrow> \<exists>ids. presented_widget_ids t = Some ids"
  using tracker_inv_active tracker_inv_transition
  by (fastforce simp: presented_widget_ids_def split: option.splits)

section \<open>The state of each widget\<close>


lemma distinct_mark_visible:
  "distinct (map fst out) \<Longrightarrow> distinct (map fst (mark_visible s sc out))"
proof -
  have "distinct (map fst out) \<Longrightarrow> distinct (map fst
      (fold (\<lambda>w out. if wp_visible w then AList.update (wp_instance w) s out else out) ws out))" for ws
    by (induction ws arbitrary: out) (auto simp: distinct_update)
  then show "distinct (map fst out) \<Longrightarrow> distinct (map fst (mark_visible s sc out))"
    by (simp add: mark_visible_def)
qed



lemma distinct_mark_all_dormant: "distinct (map fst (mark_all_dormant t))"
proof -
  have "distinct (map fst out) \<Longrightarrow> distinct (map fst (fold (mark_visible Dormant) scs out))" for scs out
    by (induction scs arbitrary: out) (auto simp: distinct_mark_visible)
  then show ?thesis by (simp add: mark_all_dormant_def)
qed

lemma distinct_mark_option:
  "distinct (map fst out) \<Longrightarrow> distinct (map fst (mark_option s sc out))"
  by (auto simp: mark_option_def distinct_mark_visible split: option.splits)

lemma distinct_mark_idle_neighbors:
  "mark_idle_neighbors ks tr t out = Some out' \<Longrightarrow> distinct (map fst out) \<Longrightarrow> distinct (map fst out')"
  by (induction ks arbitrary: out)
    (auto split: if_splits option.splits simp: distinct_mark_visible)

lemma lifecycle_states_distinct: "lifecycle_states t = Some m \<Longrightarrow> distinct (map fst m)"
  by (auto simp: lifecycle_states_def apply_transition_lifecycle_def Let_def bind_eq_Some_conv
      distinct_mark_option distinct_mark_visible distinct_mark_all_dormant
      split: option.splits if_splits dest: distinct_mark_idle_neighbors)










section \<open>Cycling\<close>

lemma neighbor_index_from_inverse:
  "neighbor_index_from k 1 t = Some n \<longleftrightarrow> neighbor_index_from n (- 1) t = Some k"
  by (auto simp: neighbor_index_from_def Let_def mod_Suc split: if_splits)

lemma advance_fields [simp]:
  "wt_scenes (advance d t) = wt_scenes t" "drag_offset (advance d t) = drag_offset t"
  "automatic_transition (advance d t) = automatic_transition t"
  by (simp_all add: advance_def split: option.splits)

lemma advance_next:
  assumes "current_index t < length (wt_scenes t)"
  shows "current_index (advance 1 t) = (current_index t + 1) mod length (wt_scenes t)"
  using assms
  by (cases "length (wt_scenes t)")
    (auto simp: advance_def neighbor_index_def neighbor_index_from_def Let_def split: option.splits)

lemma advance_steps:
  assumes "current_index t < length (wt_scenes t)"
  shows "wt_scenes ((advance 1 ^^ n) t) = wt_scenes t \<and>
    current_index ((advance 1 ^^ n) t) = (current_index t + n) mod length (wt_scenes t)"
proof (induction n)
  case 0
  with assms show ?case by simp
next
  case (Suc n)
  let ?t = "(advance 1 ^^ n) t"
  have "current_index ?t < length (wt_scenes ?t)" using Suc assms by (auto intro!: mod_less_divisor)
  from advance_next [OF this] Suc show ?case by (simp add: mod_Suc_eq)
qed

section \<open>Whole runs\<close>

datatype tracker_op =
    TSetCycling "scene_layout list"
  | TSetActive scene_layout
  | TResetFirst
  | TStartDrag
  | TUpdateDrag i32
  | TEndDrag i32 real
  | TBegin
  | TCancel
  | TFinish

fun tracker_exec :: "(real \<Rightarrow> real) \<Rightarrow> tracker_op \<Rightarrow> widget_tracker \<Rightarrow> widget_tracker" where
  "tracker_exec rnd (TSetCycling ss) t = set_scene_cycling ss t"
| "tracker_exec rnd (TSetActive l) t = set_active_scene l t"
| "tracker_exec rnd TResetFirst t = reset_to_first_scene t"
| "tracker_exec rnd TStartDrag t = start_drag t"
| "tracker_exec rnd (TUpdateDrag dx) t = update_drag dx t"
| "tracker_exec rnd (TEndDrag dx v) t = snd (end_drag rnd dx v t)"
| "tracker_exec rnd TBegin t = snd (begin_automatic_transition_to_next t)"
| "tracker_exec rnd TCancel t = cancel_automatic_transition t"
| "tracker_exec rnd TFinish t = snd (finish_automatic_transition t)"

lemma tracker_exec_inv: "tracker_inv t \<Longrightarrow> tracker_inv (tracker_exec rnd op t)"
  by (cases op) (simp_all add: tracker_inv_intros)

lemma tracker_run_inv: "tracker_inv t \<Longrightarrow> tracker_inv (fold (tracker_exec rnd) ops t)"
  by (induction ops arbitrary: t) (simp_all add: tracker_exec_inv)

text \<open>After any sequence of tracker operations the active index and the indices of a running
  transition are within the cycling list, a transition leaves the active scene for another one
  and excludes a drag, so none of the queries of a frame (rendered scenes, lifecycle states,
  presented widgets) indexes out of range.\<close>

lemma tracker_never_panics:
  assumes "t = fold (tracker_exec rnd) ops (tracker_with_screen_width rnd w)"
  shows "tracker_inv t \<and> rendered_scenes frame seam t \<noteq> None \<and> lifecycle_states t \<noteq> None \<and>
    presented_widget_ids t \<noteq> None"
proof -
  have "tracker_inv t" unfolding assms by (rule tracker_run_inv [OF tracker_inv_new])
  then show ?thesis
    using rendered_scenes_total lifecycle_states_total presented_widget_ids_total by fastforce
qed

definition layout_of :: "nat \<Rightarrow> instance_id \<Rightarrow> scene_layout" where
  "layout_of k i =
     \<lparr>sl_scene_id = Some k, cycle_duration = None, combined = False,
      sl_widgets = [\<lparr>wp_instance = i, wp_position = (0, 0), wp_size = (1280, 480), wp_visible = True\<rparr>]\<rparr>"





text \<open>A drag in a list of several scenes ends on the scene the swipe goes to, the cyclic successor
  for a swipe to the left and the predecessor for one to the right, exactly when the commit
  thresholds are met, and otherwise on the scene it started from; the two directions undo each
  other, and as many swipes as there are scenes lead back to the first one.\<close>

lemma i32_abs_value: "\<not> abs_overflows dx \<Longrightarrow> sint (i32_abs dx) = \<bar>sint dx\<bar>"
proof -
  assume no: "\<not> abs_overflows dx"
  have b: "- (2 ^ 31) \<le> sint dx" "sint dx < 2 ^ 31" using sint_ge [of dx] sint_lt [of dx] by simp_all
  have "sint (- dx) = - sint dx" if "sint dx < 0"
    using no b that by (simp add: abs_overflows_def sint_word_minus signed_take_bit_int_eq_self)
  then show ?thesis by (simp add: i32_abs_def)
qed

lemma swipe_cycles:
  assumes "t = fold (tracker_exec rnd) ops (tracker_with_screen_width rnd w)"
    and "drag_offset t \<noteq> None" and "screen_width t \<noteq> 0"
  shows "fst (end_drag rnd dx v t) = should_commit rnd dx v t \<and>
    neighbor_index_from (current_index t) (if sint dx < 0 then 1 else - 1) t =
      Some (current_index (advance (if sint dx < 0 then 1 else - 1) t)) \<and>
    current_index (snd (end_drag rnd dx v t)) =
      (if should_commit rnd dx v t
       then current_index (advance (if sint dx < 0 then 1 else - 1) t) else current_index t) \<and>
    current_index (advance (- 1) (advance 1 t)) = current_index t \<and>
    current_index ((advance 1 ^^ length (wt_scenes t)) t) = current_index t"
proof -
  have inv: "tracker_inv t" unfolding assms(1) by (rule tracker_run_inv [OF tracker_inv_new])
  then have idx: "current_index t < length (wt_scenes t)" and len: "1 < length (wt_scenes t)"
    using assms(2) by (auto simp: tracker_inv_def)
  have nb: "neighbor_index_from (current_index t) d t = Some (current_index (advance d t))" for d
    using idx len by (auto simp: advance_def neighbor_index_def neighbor_index_from_def Let_def)
  have commit: "should_commit rnd dx v (t\<lparr>drag_offset := None\<rparr>) = should_commit rnd dx v t"
    by (simp add: should_commit_def)
  have adv: "current_index (advance d (t\<lparr>drag_offset := None\<rparr>)) = current_index (advance d t)" for d
    by (auto simp: advance_def neighbor_index_def neighbor_index_from_def Let_def)
  have "neighbor_index_from (current_index (advance 1 t)) (- 1) t = Some (current_index t)"
    using nb [of 1] neighbor_index_from_inverse by blast
  then have undo: "current_index (advance (- 1) (advance 1 t)) = current_index t"
    by (simp add: advance_def [of "- 1"] neighbor_index_def neighbor_index_from_def Let_def
        split: if_splits)
  have "current_index ((advance 1 ^^ length (wt_scenes t)) t) = current_index t"
    using advance_steps [OF idx] idx by simp
  with nb undo assms(2,3) len show ?thesis
    by (auto simp: end_drag_def Let_def commit adv)
qed

definition dragged_tracker :: widget_tracker where
  "dragged_tracker = fold (tracker_exec (\<lambda>x. x))
     [TSetCycling [layout_of 1 ''clock'', layout_of 2 ''fees''], TStartDrag, TUpdateDrag (- 500)]
     (tracker_with_screen_width (\<lambda>x. x) 1280)"

lemma dragged_tracker_value:
  "dragged_tracker =
     \<lparr>wt_scenes = [layout_of 1 ''clock'', layout_of 2 ''fees''], current_index = 0,
      drag_offset = Some (- 500), automatic_transition = None, screen_width = 1280,
      commit = scene_commit_default (\<lambda>x. x)\<rparr>"
  by (simp add: dragged_tracker_def set_scene_cycling_def tracker_with_screen_width_def Let_def
      start_drag_def update_drag_def can_drag_def get_def scene_layout_default_def)

end
