(* ===== verification/Scene_Cycling.thy ===== *)
theory Scene_Cycling
  imports Widget_Tracker
begin

text \<open>
  The automatic cycling machine of \<^verbatim>\<open>bmc-openwrt/src/compositor/scene_cycling.rs\<close>: phases,
  the configuration that waits for a transition to end, the delay of the next timer and the
  action of a timer that fires. Clock readings are arguments. \<open>rnd\<close> is the rounding of a real to
  the nearest 32-bit float, as in \<open>Widget_Tracker\<close>.
\<close>

section \<open>State\<close>

datatype scene_cycling_transition = TrSlide | TrFade | TrNone

record cycling_config =
  cfg_enabled :: bool
  default_duration :: duration
  cfg_transition :: scene_cycling_transition

definition cycling_config_default :: cycling_config where
  "cycling_config_default =
     \<lparr>cfg_enabled = True, default_duration = from_secs 30, cfg_transition = TrSlide\<rparr>"

definition pre_transition_duration :: duration where
  "pre_transition_duration = from_millis 100"

definition automatic_transition_duration :: duration where
  "automatic_transition_duration = from_millis 300"

definition automatic_transition_tick :: duration where
  "automatic_transition_tick = from_millis 16"

datatype cycling_phase =
    PausedDisabled instant
  | WaitingForTimer instant
  | PreTransition instant
  | Transition instant

datatype cycling_action = ActNone | BeginPreTransition | BeginTransition | FinishTransition

record automatic_cycling =
  ac_config :: cycling_config
  pending_config :: "cycling_config option"
  ac_phase :: cycling_phase
  suspended :: bool

fun in_transition :: "cycling_phase \<Rightarrow> bool" where
  "in_transition (PreTransition s) = True"
| "in_transition (Transition s) = True"
| "in_transition (PausedDisabled s) = False"
| "in_transition (WaitingForTimer s) = False"

section \<open>Operations\<close>

definition cycling_new :: "instant \<Rightarrow> cycling_config \<Rightarrow> automatic_cycling" where
  "cycling_new now cfg =
     \<lparr>ac_config = cfg, pending_config = None, ac_phase = PausedDisabled now, suspended = False\<rparr>"

definition set_suspended :: "bool \<Rightarrow> automatic_cycling \<Rightarrow> automatic_cycling" where
  "set_suspended b a = a\<lparr>suspended := b\<rparr>"

definition transition_duration :: "automatic_cycling \<Rightarrow> duration" where
  "transition_duration a =
     (case cfg_transition (ac_config a) of
        TrSlide \<Rightarrow> automatic_transition_duration
      | TrFade \<Rightarrow> automatic_transition_duration
      | TrNone \<Rightarrow> 0)"

definition set_config :: "cycling_config \<Rightarrow> automatic_cycling \<Rightarrow> automatic_cycling" where
  "set_config cfg a =
     (if in_transition (ac_phase a) then a\<lparr>pending_config := Some cfg\<rparr>
      else a\<lparr>pending_config := None, ac_config := cfg\<rparr>)"

definition reevaluate ::
  "instant \<Rightarrow> bool \<Rightarrow> nat \<Rightarrow> bool \<Rightarrow> automatic_cycling \<Rightarrow> automatic_cycling" where
  "reevaluate now has_cycleable_scenes n_scenes touch_active a =
     (if suspended a \<or> \<not> cfg_enabled (ac_config a) \<or> \<not> has_cycleable_scenes \<or> n_scenes < 2 \<or> touch_active
      then a\<lparr>ac_phase := PausedDisabled now\<rparr>
      else case ac_phase a of
             PausedDisabled s \<Rightarrow> a\<lparr>ac_phase := WaitingForTimer now\<rparr>
           | _ \<Rightarrow> a)"

definition reset_waiting :: "instant \<Rightarrow> nat \<Rightarrow> bool \<Rightarrow> automatic_cycling \<Rightarrow> automatic_cycling" where
  "reset_waiting now n_scenes touch_active a =
     (let a = (case pending_config a of
                 Some cfg \<Rightarrow> a\<lparr>pending_config := None, ac_config := cfg\<rparr>
               | None \<Rightarrow> a)
      in if \<not> suspended a \<and> cfg_enabled (ac_config a) \<and> 2 \<le> n_scenes \<and> \<not> touch_active
         then a\<lparr>ac_phase := WaitingForTimer now\<rparr>
         else a\<lparr>ac_phase := PausedDisabled now\<rparr>)"

definition enter_pre_transition :: "instant \<Rightarrow> automatic_cycling \<Rightarrow> automatic_cycling" where
  "enter_pre_transition now a = a\<lparr>ac_phase := PreTransition now\<rparr>"

definition enter_transition :: "instant \<Rightarrow> automatic_cycling \<Rightarrow> automatic_cycling" where
  "enter_transition now a = a\<lparr>ac_phase := Transition now\<rparr>"

definition remaining_delay :: "instant \<Rightarrow> instant \<Rightarrow> duration \<Rightarrow> duration" where
  "remaining_delay now started_at d = d - saturating_duration_since now started_at"

definition next_delay :: "instant \<Rightarrow> duration \<Rightarrow> automatic_cycling \<Rightarrow> duration option" where
  "next_delay now active_duration a =
     (case ac_phase a of
        PausedDisabled s \<Rightarrow> None
      | WaitingForTimer s \<Rightarrow> Some (remaining_delay now s active_duration)
      | PreTransition s \<Rightarrow> Some (remaining_delay now s pre_transition_duration)
      | Transition s \<Rightarrow> Some automatic_transition_tick)"

definition on_timer :: "instant \<Rightarrow> duration \<Rightarrow> automatic_cycling \<Rightarrow> cycling_action" where
  "on_timer now active_duration a =
     (case ac_phase a of
        PausedDisabled s \<Rightarrow> ActNone
      | WaitingForTimer s \<Rightarrow>
          if active_duration \<le> saturating_duration_since now s then BeginPreTransition else ActNone
      | PreTransition s \<Rightarrow>
          if pre_transition_duration \<le> saturating_duration_since now s
          then if transition_duration a = 0 then FinishTransition else BeginTransition
          else ActNone
      | Transition s \<Rightarrow>
          if transition_duration a \<le> saturating_duration_since now s
          then FinishTransition else ActNone)"

definition as_secs_f32 :: "(real \<Rightarrow> real) \<Rightarrow> duration \<Rightarrow> real" where
  "as_secs_f32 rnd d =
     rnd (rnd (real (d div 1000000000)) + rnd (rnd (real (d mod 1000000000)) / 1000000000))"

text \<open>\<open>f32::round\<close> on a value that is not negative, and the saturating cast to \<open>i32\<close>.\<close>

definition round_half_up :: "real \<Rightarrow> int" where
  "round_half_up x = \<lfloor>x + 1 / 2\<rfloor>"

definition int_as_i32 :: "int \<Rightarrow> i32" where
  "int_as_i32 z = word_of_int (max (- (2 ^ 31)) (min (2 ^ 31 - 1) z))"

definition transition_progress :: "(real \<Rightarrow> real) \<Rightarrow> instant \<Rightarrow> instant \<Rightarrow> real" where
  "transition_progress rnd now started_at =
     min (rnd (as_secs_f32 rnd (saturating_duration_since now started_at) /
               as_secs_f32 rnd automatic_transition_duration)) 1"

definition transition_frame_at ::
  "(real \<Rightarrow> real) \<Rightarrow> u32 \<Rightarrow> instant \<Rightarrow> automatic_cycling \<Rightarrow> transition_frame option" where
  "transition_frame_at rnd width now a =
     (case ac_phase a of
        Transition s \<Rightarrow>
          (let progress = transition_progress rnd now s in
           case cfg_transition (ac_config a) of
             TrSlide \<Rightarrow>
               Some (SlideFrame (int_as_i32
                 (- round_half_up (rnd (rnd (real (unat width)) * progress)))))
           | TrFade \<Rightarrow> Some (FadeFrame progress)
           | TrNone \<Rightarrow> None)
      | _ \<Rightarrow> None)"

section \<open>Lemmas\<close>

text \<open>A timer armed with the delay finds its action due when it fires, and not before.\<close>

lemma timer_due:
  assumes "next_delay now ad a = Some d" and "\<And>s. ac_phase a \<noteq> Transition s"
    and "\<And>s. ac_phase a = WaitingForTimer s \<or> ac_phase a = PreTransition s \<Longrightarrow> s \<le> now"
    and "now \<le> t"
  shows "on_timer t ad a \<noteq> ActNone \<longleftrightarrow> now + d \<le> t"
  using assms
  by (cases "ac_phase a")
    (auto simp: next_delay_def on_timer_def remaining_delay_def saturating_duration_since_def)

lemma progress_range:
  assumes "mono rnd" and "rnd 0 = 0"
  shows "0 \<le> transition_progress rnd now s" "transition_progress rnd now s \<le> 1"
proof -
  have nn: "0 \<le> rnd x" if "0 \<le> x" for x using monoD [OF assms(1) that] assms(2) by simp
  have "0 \<le> as_secs_f32 rnd d" for d by (simp add: as_secs_f32_def nn)
  then show "0 \<le> transition_progress rnd now s" by (simp add: transition_progress_def nn)
  show "transition_progress rnd now s \<le> 1" by (simp add: transition_progress_def)
qed

lemma sint_int_as_i32: "- (2 ^ 31) \<le> z \<Longrightarrow> z < 2 ^ 31 \<Longrightarrow> sint (int_as_i32 z) = z"
  by (simp add: int_as_i32_def sint_sbintrunc' signed_take_bit_int_eq_self)

section \<open>Properties\<close>

text \<open>While a scene waits for its turn or a transition warms up, a timer armed with the delay the
  machine asks for finds its action due exactly when it fires; a running slide or fade is
  finished by the first tick that is 300 ms after its start, at most 19 ticks of 16 ms; a paused
  machine asks for no timer and never acts.\<close>

lemma cycling_timer_exact:
  assumes "now \<le> t"
    and "\<And>s. ac_phase a = WaitingForTimer s \<or> ac_phase a = PreTransition s \<or> ac_phase a = Transition s \<Longrightarrow> s \<le> now"
  shows "case ac_phase a of
      PausedDisabled s \<Rightarrow> next_delay now ad a = None \<and> on_timer t ad a = ActNone
    | Transition s \<Rightarrow> next_delay now ad a = Some automatic_transition_tick \<and>
        (s + 19 * automatic_transition_tick \<le> t \<longrightarrow> on_timer t ad a = FinishTransition)
    | _ \<Rightarrow> \<exists>d. next_delay now ad a = Some d \<and> (on_timer t ad a \<noteq> ActNone \<longleftrightarrow> now + d \<le> t)"
  using assms timer_due [of now ad a _ t]
  by (cases "ac_phase a")
    (auto simp: next_delay_def on_timer_def transition_duration_def saturating_duration_since_def
      automatic_transition_tick_def automatic_transition_duration_def
      split: scene_cycling_transition.splits)

text \<open>The offset of a sliding scene stays on the panel: whatever the clock says, it lies between
  minus the panel width and zero, and the opacity of a fade between zero and one, for any
  rounding of floats that is monotone and exact on zero and on the panel width.\<close>

lemma transition_frame_bounds:
  assumes "mono rnd" and "rnd 0 = 0" and "rnd (real (unat width)) = real (unat width)"
    and "unat width < 2 ^ 31"
  shows "case transition_frame_at rnd width now a of
      Some (SlideFrame off) \<Rightarrow> - int (unat width) \<le> sint off \<and> sint off \<le> 0
    | Some (FadeFrame p) \<Rightarrow> 0 \<le> p \<and> p \<le> 1
    | None \<Rightarrow> True"
proof (cases "transition_frame_at rnd width now a")
  case (Some f)
  then obtain s where ph: "ac_phase a = Transition s"
    by (auto simp: transition_frame_at_def split: cycling_phase.splits)
  let ?w = "real (unat width)" and ?p = "transition_progress rnd now s"
  note p = progress_range [OF assms(1,2), of now s]
  show ?thesis
  proof (cases f)
    case (SlideFrame off)
    let ?z = "round_half_up (rnd (?w * ?p))"
    have off: "off = int_as_i32 (- ?z)"
      using Some SlideFrame ph assms(3)
      by (auto simp: transition_frame_at_def Let_def split: scene_cycling_transition.splits)
    have "rnd 0 \<le> rnd (?w * ?p)"
      by (intro monoD [OF assms(1)] mult_nonneg_nonneg p(1) of_nat_0_le_iff)
    moreover have "rnd (?w * ?p) \<le> rnd ?w"
      by (intro monoD [OF assms(1)] mult_left_le p(2) of_nat_0_le_iff)
    ultimately have "0 \<le> rnd (?w * ?p)" "rnd (?w * ?p) \<le> ?w" unfolding assms(2,3) .
    then have z: "0 \<le> ?z" "?z \<le> int (unat width)"
      unfolding round_half_up_def by (simp_all add: le_floor_iff floor_le_iff)
    moreover have "int (unat width) < 2 ^ 31"
      using assms(4) by (metis of_nat_less_iff of_nat_numeral of_nat_power)
    moreover have "(0 :: int) < 2 ^ 31" by simp
    ultimately have "sint off = - ?z" unfolding off by (intro sint_int_as_i32) linarith+
    with z Some SlideFrame show ?thesis by simp
  next
    case (FadeFrame q)
    with Some ph p show ?thesis
      by (auto simp: transition_frame_at_def Let_def split: scene_cycling_transition.splits)
  qed
qed simp

end
