(* ===== verification/Scene_Loop.thy ===== *)
theory Scene_Loop
  imports Scene_Cycling "HOL-Library.Monad_Syntax"
begin

text \<open>
  The scene part of the compositor's main loop, \<open>AppState\<close> of
  \<^verbatim>\<open>bmc-openwrt/src/compositor/egl_compositor.rs\<close>: the handlers that drive the tracker, the
  cycling machine, its timer and the lifecycle emitter together. A handler returns \<open>None\<close> where
  the source would panic. The field \<open>debug_assertions\<close> tells a build with debug assertions and
  overflow checks from one without: the assertions of the handlers are checked in the former.

  Arguments stand for what the handlers read from outside: the clock \<open>now\<close>, the float rounding
  \<open>rnd\<close>, the latest committed generation of a widget \<open>gen\<close>. Wayland events, rendering, the
  gesture classification (its result is an argument) and the notification of the active scene
  are not modelled. The timer is the delay of the only live one; arming a timer invalidates the
  previous one by its generation.
\<close>

section \<open>State\<close>

record transition_warm_up =
  wu_started :: instant
  wu_widgets :: "(instance_id \<times> u64 option) list"

record app_state =
  debug_assertions :: bool
  ap_tracker :: widget_tracker
  ap_cycling :: automatic_cycling
  ap_emitter :: lifecycle_map
  ap_sent :: "emission list"
  active_touch_slots :: "nat set"
  gesture_slot :: "nat option"
  scene_drag_active :: bool
  edge_reveal_active :: bool
  pending_lifecycle_emission :: bool
  pending_transition_warm_up :: "transition_warm_up option"
  neighbors_suppressed :: bool
  last_neighbors_suppressed :: bool
  destinations_emptied_at :: "instant option"
  timer_generation :: u64
  ap_timer :: "duration option"
  output_damaged :: bool

definition app_init :: "bool \<Rightarrow> (real \<Rightarrow> real) \<Rightarrow> u32 \<Rightarrow> instant \<Rightarrow> app_state" where
  "app_init debug rnd width now =
     \<lparr>debug_assertions = debug, ap_tracker = tracker_with_screen_width rnd width,
      ap_cycling = cycling_new now cycling_config_default, ap_emitter = [], ap_sent = [],
      active_touch_slots = {}, gesture_slot = None, scene_drag_active = False,
      edge_reveal_active = False, pending_lifecycle_emission = False,
      pending_transition_warm_up = None, neighbors_suppressed = False,
      last_neighbors_suppressed = False,
      destinations_emptied_at = None, timer_generation = 0, ap_timer = None,
      output_damaged = False\<rparr>"

definition debug_assert :: "bool \<Rightarrow> app_state \<Rightarrow> app_state option" where
  "debug_assert c s = (if debug_assertions s \<and> \<not> c then None else Some s)"

definition transition_warm_up_retry :: duration where
  "transition_warm_up_retry = from_millis 16"

definition transition_warm_up_timeout :: duration where
  "transition_warm_up_timeout = from_secs 1"

section \<open>Lifecycle emission\<close>

definition suppress_prepared :: "lifecycle_map \<Rightarrow> lifecycle_map" where
  "suppress_prepared m = map (\<lambda>(i, s). (i, if s = Prepared then Dormant else s)) m"

definition next_states :: "app_state \<Rightarrow> lifecycle_map option" where
  "next_states s =
     map_option (\<lambda>m. if neighbors_suppressed s then suppress_prepared m else m)
       (lifecycle_states (ap_tracker s))"

definition emit_lifecycle_transitions :: "app_state \<Rightarrow> (emission \<times> app_state) option" where
  "emit_lifecycle_transitions s = do {
     nxt \<leftarrow> next_states s;
     (em, lst) \<leftarrow> emitter_step nxt (ap_emitter s);
     Some (em, s\<lparr>ap_emitter := lst,
       ap_sent := (if emission_is_empty em then ap_sent s else ap_sent s @ [em])\<rparr>)
   }"

definition emit_pending_lifecycle :: "app_state \<Rightarrow> (emission \<times> app_state) option" where
  "emit_pending_lifecycle s =
     (if \<not> pending_lifecycle_emission s then Some (emission_default, s)
      else emit_lifecycle_transitions (s\<lparr>pending_lifecycle_emission := False\<rparr>))"

definition after_scene_change :: "instant \<Rightarrow> app_state \<Rightarrow> app_state" where
  "after_scene_change now s =
     s\<lparr>output_damaged := True, pending_lifecycle_emission := True,
       destinations_emptied_at := Some now\<rparr>"

definition after_drag_scene_update :: "app_state \<Rightarrow> app_state option" where
  "after_drag_scene_update s =
     (let s = s\<lparr>output_damaged := True\<rparr> in
      if pending_lifecycle_emission s then Some s
      else do {
        (em, s) \<leftarrow> emit_lifecycle_transitions s;
        debug_assert (releases em = []) s
      })"

definition apply_neighbors_suppressed :: "bool \<Rightarrow> instant \<Rightarrow> app_state \<Rightarrow> app_state option" where
  "apply_neighbors_suppressed b now s =
     (if b = last_neighbors_suppressed s then Some s
      else do {
        (em, s) \<leftarrow> emit_lifecycle_transitions (s\<lparr>last_neighbors_suppressed := b\<rparr>);
        Some (if b then s else s\<lparr>destinations_emptied_at := Some now\<rparr>)
      })"

section \<open>Cycling\<close>

definition active_scene_cycle_duration :: "app_state \<Rightarrow> duration option" where
  "active_scene_cycle_duration s = do {
     a \<leftarrow> active_scene_of (ap_tracker s);
     Some (case cycle_duration a of
             Some d \<Rightarrow> d | None \<Rightarrow> default_duration (ac_config (ap_cycling s)))
   }"

definition rearm_scene_cycling_timer :: "duration option \<Rightarrow> app_state \<Rightarrow> app_state option" where
  "rearm_scene_cycling_timer d s = do {
     s \<leftarrow> debug_assert ((automatic_transition (ap_tracker s) \<noteq> None) = in_transition (ac_phase (ap_cycling s))) s;
     Some (s\<lparr>timer_generation := saturating_add (timer_generation s) 1, ap_timer := d\<rparr>)
   }"

definition schedule_scene_cycling_timer :: "instant \<Rightarrow> app_state \<Rightarrow> app_state option" where
  "schedule_scene_cycling_timer now s = do {
     d \<leftarrow> active_scene_cycle_duration s;
     rearm_scene_cycling_timer (next_delay now d (ap_cycling s)) s
   }"

definition finish_automatic_transition_interruption :: "app_state \<Rightarrow> app_state" where
  "finish_automatic_transition_interruption s = s\<lparr>pending_transition_warm_up := None\<rparr>"

definition cancel_automatic_transition_for_interruption :: "app_state \<Rightarrow> app_state option" where
  "cancel_automatic_transition_for_interruption s =
     (if automatic_transition (ap_tracker s) = None then Some s
      else
        let s = finish_automatic_transition_interruption
                  (s\<lparr>ap_tracker := cancel_automatic_transition (ap_tracker s)\<rparr>);
            s = s\<lparr>output_damaged := True\<rparr>
        in if pending_lifecycle_emission s then Some s
           else do {
             nxt \<leftarrow> next_states s;
             (em, _) \<leftarrow> emitter_step nxt (ap_emitter s);
             if releases em \<noteq> [] then Some (s\<lparr>pending_lifecycle_emission := True\<rparr>)
             else do {
               (em, s) \<leftarrow> emit_lifecycle_transitions s;
               debug_assert (releases em = []) s
             }
           })"

definition discard_automatic_transition_for_scene_replacement :: "app_state \<Rightarrow> app_state" where
  "discard_automatic_transition_for_scene_replacement s =
     finish_automatic_transition_interruption
       (s\<lparr>ap_tracker := cancel_automatic_transition (ap_tracker s)\<rparr>)"

definition cycling_reevaluate :: "instant \<Rightarrow> bool \<Rightarrow> app_state \<Rightarrow> app_state" where
  "cycling_reevaluate now touch s =
     s\<lparr>ap_cycling := reevaluate now (can_drag (ap_tracker s)) (scene_count (ap_tracker s)) touch
                       (ap_cycling s)\<rparr>"

definition reevaluate_automatic_cycling :: "instant \<Rightarrow> app_state \<Rightarrow> app_state option" where
  "reevaluate_automatic_cycling now s = do {
     let was_active = in_transition (ac_phase (ap_cycling s));
     let touch = active_touch_slots s \<noteq> {};
     s \<leftarrow> (if touch then cancel_automatic_transition_for_interruption s else Some s);
     let s = cycling_reevaluate now touch s;
     s \<leftarrow> (if was_active \<and> \<not> in_transition (ac_phase (ap_cycling s)) then
             if automatic_transition (ap_tracker s) \<noteq> None
             then cancel_automatic_transition_for_interruption s
             else Some (finish_automatic_transition_interruption s)
           else Some s);
     schedule_scene_cycling_timer now s
   }"

definition reset_automatic_waiting :: "instant \<Rightarrow> app_state \<Rightarrow> app_state option" where
  "reset_automatic_waiting now s = do {
     s \<leftarrow> cancel_automatic_transition_for_interruption s;
     schedule_scene_cycling_timer now
       (s\<lparr>ap_cycling := reset_waiting now (scene_count (ap_tracker s)) (active_touch_slots s \<noteq> {})
                          (ap_cycling s)\<rparr>)
   }"

definition pause_automatic_cycling_for_touch :: "instant \<Rightarrow> app_state \<Rightarrow> app_state option" where
  "pause_automatic_cycling_for_touch now s = do {
     s \<leftarrow> cancel_automatic_transition_for_interruption s;
     schedule_scene_cycling_timer now (cycling_reevaluate now True s)
   }"

section \<open>The cycling timer\<close>

definition transition_warm_up_ready ::
  "transition_warm_up option \<Rightarrow> instant \<Rightarrow> (instance_id \<Rightarrow> u64 option) \<Rightarrow> bool" where
  "transition_warm_up_ready warm_up now gen =
     (case warm_up of
        None \<Rightarrow> True
      | Some w \<Rightarrow>
          transition_warm_up_timeout \<le> saturating_duration_since now (wu_started w) \<or>
          list_all (\<lambda>(i, before).
              case gen i of
                None \<Rightarrow> False
              | Some current \<Rightarrow> (case before of None \<Rightarrow> True | Some b \<Rightarrow> b < current))
            (wu_widgets w))"

definition emit_transition_incoming_for_target ::
  "scene_transition_target \<Rightarrow> instant \<Rightarrow> (instance_id \<Rightarrow> u64 option) \<Rightarrow> app_state
     \<Rightarrow> transition_warm_up option" where
  "emit_transition_incoming_for_target target now gen s =
     (let ids = (case get (wt_scenes (ap_tracker s)) (to_index target) of
                   Some sc \<Rightarrow> visible_ids sc | None \<Rightarrow> [])
      in if ids = [] then None
         else Some \<lparr>wu_started = now, wu_widgets = map (\<lambda>i. (i, gen i)) ids\<rparr>)"

definition take_transition_warm_up ::
  "instant \<Rightarrow> (instance_id \<Rightarrow> u64 option) \<Rightarrow> app_state \<Rightarrow> (bool \<times> app_state) option" where
  "take_transition_warm_up now gen s =
     (if transition_warm_up_ready (pending_transition_warm_up s) now gen
      then Some (True, s\<lparr>pending_transition_warm_up := None\<rparr>)
      else map_option (Pair False) (rearm_scene_cycling_timer (Some transition_warm_up_retry) s))"

definition commit_automatic_transition :: "instant \<Rightarrow> app_state \<Rightarrow> app_state option" where
  "commit_automatic_transition now s =
     (let s = s\<lparr>pending_transition_warm_up := None,
                ap_tracker := snd (finish_automatic_transition (ap_tracker s))\<rparr>
      in reset_automatic_waiting now (after_scene_change now s))"

definition on_scene_cycling_timer ::
  "instant \<Rightarrow> (instance_id \<Rightarrow> u64 option) \<Rightarrow> app_state \<Rightarrow> app_state option" where
  "on_scene_cycling_timer now gen s = do {
     d \<leftarrow> active_scene_cycle_duration s;
     (case on_timer now d (ap_cycling s) of
        ActNone \<Rightarrow>
          schedule_scene_cycling_timer now
            (case ac_phase (ap_cycling s) of
               Transition _ \<Rightarrow> s\<lparr>output_damaged := True\<rparr>
             | _ \<Rightarrow> s)
      | BeginPreTransition \<Rightarrow>
          (case begin_automatic_transition_to_next (ap_tracker s) of
             (Some target, tr) \<Rightarrow> do {
               (em, s) \<leftarrow> emit_lifecycle_transitions
                 (s\<lparr>ap_tracker := tr, ap_cycling := enter_pre_transition now (ap_cycling s)\<rparr>);
               s \<leftarrow> debug_assert (releases em = []) s;
               schedule_scene_cycling_timer now
                 (s\<lparr>pending_transition_warm_up :=
                      emit_transition_incoming_for_target target now gen s\<rparr>)
             }
           | (None, tr) \<Rightarrow> reset_automatic_waiting now (s\<lparr>ap_tracker := tr\<rparr>))
      | BeginTransition \<Rightarrow> do {
          s \<leftarrow> debug_assert (case ac_phase (ap_cycling s) of PreTransition _ \<Rightarrow> True | _ \<Rightarrow> False) s;
          (ready, s) \<leftarrow> take_transition_warm_up now gen s;
          if \<not> ready then Some s
          else schedule_scene_cycling_timer now
                 (s\<lparr>ap_cycling := enter_transition now (ap_cycling s), output_damaged := True\<rparr>)
        }
      | FinishTransition \<Rightarrow> do {
          (ready, s) \<leftarrow> take_transition_warm_up now gen s;
          if \<not> ready then Some s else commit_automatic_transition now s
        })
   }"

section \<open>Commands\<close>

definition handle_set_scene_cycling_config ::
  "cycling_config \<Rightarrow> instant \<Rightarrow> app_state \<Rightarrow> app_state option" where
  "handle_set_scene_cycling_config cfg now s =
     reevaluate_automatic_cycling now (s\<lparr>ap_cycling := set_config cfg (ap_cycling s)\<rparr>)"

definition handle_set_scene_cycling_suspended ::
  "bool \<Rightarrow> instant \<Rightarrow> app_state \<Rightarrow> app_state option" where
  "handle_set_scene_cycling_suspended b now s = do {
     let s = s\<lparr>ap_cycling := set_suspended b (ap_cycling s)\<rparr>;
     s \<leftarrow> (if b then cancel_automatic_transition_for_interruption s else Some s);
     reevaluate_automatic_cycling now s
   }"

definition replace_scenes ::
  "(widget_tracker \<Rightarrow> widget_tracker) \<Rightarrow> instant \<Rightarrow> app_state \<Rightarrow> app_state option" where
  "replace_scenes f now s =
     (let s = discard_automatic_transition_for_scene_replacement s;
          s = s\<lparr>ap_tracker := f (ap_tracker s)\<rparr>
      in reset_automatic_waiting now (after_scene_change now s))"

definition handle_reset_to_first_scene :: "instant \<Rightarrow> app_state \<Rightarrow> app_state option" where
  "handle_reset_to_first_scene = replace_scenes reset_to_first_scene"

definition handle_set_active_scene :: "scene_layout \<Rightarrow> instant \<Rightarrow> app_state \<Rightarrow> app_state option" where
  "handle_set_active_scene layout = replace_scenes (set_active_scene layout)"

definition handle_set_scene_cycling ::
  "scene_layout list \<Rightarrow> instant \<Rightarrow> app_state \<Rightarrow> app_state option" where
  "handle_set_scene_cycling scenes = replace_scenes (set_scene_cycling scenes)"

section \<open>Touch\<close>

definition touch_down :: "nat \<Rightarrow> bool \<Rightarrow> instant \<Rightarrow> app_state \<Rightarrow> app_state option" where
  "touch_down slot screen_was_visible now s = do {
     let idle = (active_touch_slots s = {});
     let s = s\<lparr>active_touch_slots := insert slot (active_touch_slots s)\<rparr>;
     s \<leftarrow> (if idle then pause_automatic_cycling_for_touch now s else Some s);
     Some (if \<not> idle \<or> \<not> screen_was_visible then s
           else s\<lparr>gesture_slot := Some slot, scene_drag_active := False,
                  edge_reveal_active := False\<rparr>)
   }"

text \<open>The motion of the primary slot once the gesture machine has decided: \<open>edge\<close> when an armed
  screen edge consumed the motion, \<open>activated\<close> when it reports a scene drag, \<open>settled\<close> the answer
  of \<open>scene_settled\<close>, \<open>dx\<close> the offset of a drag in progress.\<close>

definition touch_motion ::
  "nat \<Rightarrow> bool \<Rightarrow> bool \<Rightarrow> bool \<Rightarrow> i32 option \<Rightarrow> app_state \<Rightarrow> app_state option" where
  "touch_motion slot edge activated settled dx s =
     (if gesture_slot s \<noteq> Some slot then Some s
      else if \<not> edge_reveal_active s \<and> edge then Some (s\<lparr>edge_reveal_active := True\<rparr>)
      else if edge_reveal_active s then Some s
      else
        let s = (if activated \<and> \<not> scene_drag_active s \<and> can_drag (ap_tracker s) \<and>
                   \<not> neighbors_suppressed s \<and> settled
                 then s\<lparr>scene_drag_active := True, ap_tracker := start_drag (ap_tracker s)\<rparr>
                 else s)
        in if scene_drag_active s then
             (case dx of
                Some dx \<Rightarrow>
                  after_drag_scene_update (s\<lparr>ap_tracker := update_drag dx (ap_tracker s)\<rparr>)
              | None \<Rightarrow> Some s)
           else Some s)"

text \<open>\<open>drag_end\<close> is the result \<open>DragEnd\<close> of the gesture machine, \<open>None\<close> for any other result.\<close>

definition touch_up ::
  "(real \<Rightarrow> real) \<Rightarrow> nat \<Rightarrow> (i32 \<times> real) option \<Rightarrow> instant \<Rightarrow> app_state \<Rightarrow> app_state option" where
  "touch_up rnd slot drag_end now s =
     (let s = s\<lparr>active_touch_slots := active_touch_slots s - {slot}\<rparr>;
          finish = (\<lambda>s. if active_touch_slots s = {} then reset_automatic_waiting now s else Some s)
      in if gesture_slot s \<noteq> Some slot then finish s
         else
           let s = s\<lparr>gesture_slot := None\<rparr> in
           if edge_reveal_active s then finish (s\<lparr>edge_reveal_active := False\<rparr>)
           else if scene_drag_active s then
             let (dx, v) = (case drag_end of Some p \<Rightarrow> p | None \<Rightarrow> (0, 0)) in do {
               s \<leftarrow> debug_assert (\<not> end_drag_overflows dx (ap_tracker s)) s;
               finish (after_scene_change now (s\<lparr>scene_drag_active := False,
                       ap_tracker := snd (end_drag rnd dx v (ap_tracker s))\<rparr>))
             }
           else finish s)"

definition touch_cancel :: "(real \<Rightarrow> real) \<Rightarrow> instant \<Rightarrow> app_state \<Rightarrow> app_state option" where
  "touch_cancel rnd now s =
     (let s' = s\<lparr>edge_reveal_active := False, gesture_slot := None, active_touch_slots := {}\<rparr> in
      if scene_drag_active s
      then reset_automatic_waiting now (after_scene_change now
             (s'\<lparr>scene_drag_active := False,
                 ap_tracker := snd (end_drag rnd 0 0 (ap_tracker s))\<rparr>))
      else reset_automatic_waiting now s')"

end
