(* ===== verification/Machines.thy ===== *)
theory Machines
  imports Prelude
begin

text \<open>
  Event-driven components: the run of a machine whose handlers may panic, and the locale of machines
  whose handlers never do on a state that satisfies the invariant.
\<close>

primrec machine_run :: "('op \<Rightarrow> 's \<Rightarrow> 's option) \<Rightarrow> 'op list \<Rightarrow> 's \<Rightarrow> 's option" where
  "machine_run exec [] s = Some s"
| "machine_run exec (op # ops) s = Option.bind (exec op s) (machine_run exec ops)"

lemma machine_run_append:
  "machine_run exec (ops @ ops') s = Option.bind (machine_run exec ops s) (machine_run exec ops')"
proof (induction ops arbitrary: s)
  case (Cons op ops)
  then show ?case by (cases "exec op s") simp_all
qed simp

locale total_machine =
  fixes inv :: "'s \<Rightarrow> bool"
    and exec :: "'op \<Rightarrow> 's \<Rightarrow> 's option"
  assumes exec_total: "inv s \<Longrightarrow> \<exists>s'. exec op s = Some s' \<and> inv s'"
begin

lemma run_total: "inv s \<Longrightarrow> \<exists>s'. machine_run exec ops s = Some s' \<and> inv s'"
proof (induction ops arbitrary: s)
  case (Cons op ops)
  from exec_total [OF Cons.prems] obtain s1 where "exec op s = Some s1" "inv s1" by blast
  with Cons.IH show ?case by simp
qed simp

end

text \<open>Systems given by a labelled step relation: their traces, and the locale of those whose steps keep
  an invariant.\<close>

inductive trace :: "('s \<Rightarrow> 'l \<Rightarrow> 's \<Rightarrow> bool) \<Rightarrow> 's \<Rightarrow> 'l list \<Rightarrow> 's \<Rightarrow> bool"
  for step where
  trace_start: "trace step s [] s"
| trace_more: "trace step s ls s1 \<Longrightarrow> step s1 l s2 \<Longrightarrow> trace step s (ls @ [l]) s2"

inductive_cases trace_NilE: "trace step s [] s'"
inductive_cases trace_snocE: "trace step s (ls @ [l]) s'"

lemma trace_append: "trace step s1 ls' s2 \<Longrightarrow> trace step s ls s1 \<Longrightarrow> trace step s (ls @ ls') s2"
  by (induction rule: trace.induct) (auto simp flip: append_assoc intro: trace_more)

lemma trace_split: "trace step s (ls @ ls') s2 \<Longrightarrow> \<exists>s1. trace step s ls s1 \<and> trace step s1 ls' s2"
proof (induction ls' arbitrary: s2 rule: rev_induct)
  case Nil
  then show ?case by (auto intro: trace_start)
next
  case (snoc l ls')
  then obtain s3 where "trace step s (ls @ ls') s3" "step s3 l s2"
    by (metis append_assoc trace_snocE append1_eq_conv)
  with snoc.IH show ?case by (blast intro: trace_more)
qed

locale invariant_system =
  fixes inv :: "'s \<Rightarrow> bool"
    and step :: "'s \<Rightarrow> 'l \<Rightarrow> 's \<Rightarrow> bool"
  assumes step_inv: "inv s \<Longrightarrow> step s l s' \<Longrightarrow> inv s'"
begin

lemma trace_inv: "trace step s ls s' \<Longrightarrow> inv s \<Longrightarrow> inv s'"
  by (induction rule: trace.induct) (auto intro: step_inv)

text \<open>What one step keeps under the invariant, for the labels of a set, a trace of such labels keeps.\<close>

lemma trace_keeps:
  assumes "trace step s ls s'" "inv s" "P s" "set ls \<subseteq> L"
    and "\<And>s l s'. inv s \<Longrightarrow> P s \<Longrightarrow> l \<in> L \<Longrightarrow> step s l s' \<Longrightarrow> P s'"
  shows "P s'"
  using assms(1-4)
proof (induction rule: trace.induct)
  case (trace_more s ls s1 l s2)
  then show ?case using assms(5) [of s1 l s2] trace_inv [of s ls s1] by simp
qed

end

end
