(* ===== verification/Scene_Loop_Props.thy ===== *)
theory Scene_Loop_Props
  imports Scene_Loop Machines
begin

text \<open>
  Correctness of the scene loop: no handler panics, the tracker and the cycling machine always
  agree on whether a transition runs, cycling is paused exactly when it has to be, and a timer is
  armed exactly when it is not.
\<close>

section \<open>Invariant\<close>

fun paused :: "cycling_phase \<Rightarrow> bool" where
  "paused (PausedDisabled s) = True"
| "paused (WaitingForTimer s) = False"
| "paused (PreTransition s) = False"
| "paused (Transition s) = False"

definition eligible :: "app_state \<Rightarrow> bool" where
  "eligible s \<longleftrightarrow> \<not> suspended (ap_cycling s) \<and> cfg_enabled (ac_config (ap_cycling s)) \<and>
     2 \<le> scene_count (ap_tracker s) \<and> active_touch_slots s = {}"

definition base_inv :: "bool \<Rightarrow> app_state \<Rightarrow> bool" where
  "base_inv dbg s \<longleftrightarrow> debug_assertions s = dbg \<and> tracker_inv (ap_tracker s) \<and> distinct (map fst (ap_emitter s)) \<and>
     (\<forall>g. gesture_slot s = Some g \<longrightarrow> g \<in> active_touch_slots s)"

definition agree :: "app_state \<Rightarrow> bool" where
  "agree s \<longleftrightarrow> (automatic_transition (ap_tracker s) \<noteq> None \<longleftrightarrow> in_transition (ac_phase (ap_cycling s)))"

definition app_inv :: "bool \<Rightarrow> app_state \<Rightarrow> bool" where
  "app_inv dbg s \<longleftrightarrow> base_inv dbg s \<and> agree s \<and> (paused (ac_phase (ap_cycling s)) \<longleftrightarrow> \<not> eligible s) \<and>
     (ap_timer s = None \<longleftrightarrow> paused (ac_phase (ap_cycling s)))"

text \<open>The part of the state the cycling decisions depend on.\<close>

definition same_scene :: "app_state \<Rightarrow> app_state \<Rightarrow> bool" where
  "same_scene s s' \<longleftrightarrow> ap_tracker s' = ap_tracker s \<and> ap_cycling s' = ap_cycling s \<and>
     active_touch_slots s' = active_touch_slots s \<and> gesture_slot s' = gesture_slot s \<and>
     ap_timer s' = ap_timer s \<and> debug_assertions s' = debug_assertions s"

lemma same_sceneD:
  "same_scene s s' \<Longrightarrow> eligible s' = eligible s" "same_scene s s' \<Longrightarrow> agree s' = agree s"
  "same_scene s s' \<Longrightarrow> base_inv dbg s' = (debug_assertions s = dbg \<and> tracker_inv (ap_tracker s) \<and> distinct (map fst (ap_emitter s')) \<and>
     (\<forall>g. gesture_slot s = Some g \<longrightarrow> g \<in> active_touch_slots s))"
  by (auto simp: same_scene_def eligible_def agree_def base_inv_def)

lemma app_init_inv: "app_inv dbg (app_init dbg rnd w now)"
  by (simp add: app_inv_def app_init_def base_inv_def agree_def eligible_def tracker_inv_new
      tracker_with_screen_width_def cycling_new_def scene_count_def tracker_inv_def)

section \<open>Emission, cancelling, scheduling\<close>

lemma debug_assert_Some [simp]: "debug_assert c s = Some s' \<longleftrightarrow> (debug_assertions s \<longrightarrow> c) \<and> s' = s"
  by (auto simp: debug_assert_def)

lemma suppress_prepared_keys [simp]: "map fst (suppress_prepared m) = map fst m"
  by (simp add: suppress_prepared_def case_prod_beta comp_def)

lemma next_states_total:
  assumes "tracker_inv (ap_tracker s)"
  obtains nxt where "next_states s = Some nxt" "distinct (map fst nxt)"
proof -
  obtain m where "lifecycle_states (ap_tracker s) = Some m"
    using lifecycle_states_total [OF assms] by blast
  moreover from this have "distinct (map fst m)" by (rule lifecycle_states_distinct)
  ultimately show ?thesis
    by (intro that [of "if neighbors_suppressed s then suppress_prepared m else m"])
      (auto simp: next_states_def)
qed

lemma emit_total:
  assumes "base_inv dbg s"
  obtains em s' where "emit_lifecycle_transitions s = Some (em, s')" "base_inv dbg s'" "same_scene s s'"
proof -
  obtain nxt where n: "next_states s = Some nxt" "distinct (map fst nxt)"
    using assms by (auto simp: base_inv_def elim: next_states_total)
  obtain em lst where "emitter_step nxt (ap_emitter s) = Some (em, lst)" "distinct (map fst lst)"
    using assms n(2) by (auto simp: base_inv_def elim: emitter_step_eq)
  with n assms show ?thesis
    by (intro that [of em "s\<lparr>ap_emitter := lst,
        ap_sent := (if emission_is_empty em then ap_sent s else ap_sent s @ [em])\<rparr>"])
      (auto simp: emit_lifecycle_transitions_def base_inv_def same_scene_def)
qed

lemma cancel_total:
  assumes "base_inv dbg s"
  obtains s' where "cancel_automatic_transition_for_interruption s = Some s'" "base_inv dbg s'"
    "same_scene (s\<lparr>ap_tracker := cancel_automatic_transition (ap_tracker s)\<rparr>) s'"
proof (cases "automatic_transition (ap_tracker s)")
  case None
  with assms show ?thesis
    by (intro that [of s])
      (simp_all add: cancel_automatic_transition_for_interruption_def same_scene_def
        cancel_automatic_transition_def)
next
  case (Some tr)
  define s0 where "s0 = (finish_automatic_transition_interruption
    (s\<lparr>ap_tracker := cancel_automatic_transition (ap_tracker s)\<rparr>))\<lparr>output_damaged := True\<rparr>"
  have s0: "base_inv dbg s0" "same_scene (s\<lparr>ap_tracker := cancel_automatic_transition (ap_tracker s)\<rparr>) s0"
    using assms
    by (simp_all add: s0_def base_inv_def same_scene_def cancel_automatic_transition_inv
        finish_automatic_transition_interruption_def)
  have c: "cancel_automatic_transition_for_interruption s =
      (if pending_lifecycle_emission s0 then Some s0
       else do {
         nxt \<leftarrow> next_states s0;
         (em, _) \<leftarrow> emitter_step nxt (ap_emitter s0);
         if releases em \<noteq> [] then Some (s0\<lparr>pending_lifecycle_emission := True\<rparr>)
         else do {
           (em, s) \<leftarrow> emit_lifecycle_transitions s0;
           debug_assert (releases em = []) s
         }
       })"
    unfolding s0_def cancel_automatic_transition_for_interruption_def Let_def
    by (simp only: Some option.distinct if_False)
  show ?thesis
  proof (cases "pending_lifecycle_emission s0")
    case True
    with c s0 show ?thesis by (intro that) simp_all
  next
    case False
    obtain em s1 where e: "emit_lifecycle_transitions s0 = Some (em, s1)" "base_inv dbg s1" "same_scene s0 s1"
      using emit_total [OF s0(1)] by blast
    then obtain nxt lst where "next_states s0 = Some nxt" "emitter_step nxt (ap_emitter s0) = Some (em, lst)"
      by (auto simp: emit_lifecycle_transitions_def bind_eq_Some_conv)
    with c False e have "cancel_automatic_transition_for_interruption s =
        Some (if releases em \<noteq> [] then s0\<lparr>pending_lifecycle_emission := True\<rparr> else s1)"
      by (simp add: debug_assert_def)
    moreover have "base_inv dbg (s0\<lparr>pending_lifecycle_emission := True\<rparr>)"
      using s0(1) by (simp add: base_inv_def)
    ultimately show ?thesis
      using s0(2) e(2,3)
      by (intro that [of "if releases em \<noteq> [] then s0\<lparr>pending_lifecycle_emission := True\<rparr> else s1"])
        (auto simp: same_scene_def)
  qed
qed

lemma schedule_total:
  assumes "base_inv dbg s" and "agree s" and "paused (ac_phase (ap_cycling s)) \<longleftrightarrow> \<not> eligible s"
  shows "\<exists>s'. schedule_scene_cycling_timer now s = Some s' \<and> app_inv dbg s'"
proof -
  obtain a where "active_scene_of (ap_tracker s) = Some a"
    using assms(1) tracker_inv_active by (auto simp: base_inv_def)
  then obtain d where d: "active_scene_cycle_duration s = Some d"
    by (simp add: active_scene_cycle_duration_def)
  have t: "next_delay now d (ap_cycling s) = None \<longleftrightarrow> paused (ac_phase (ap_cycling s))"
    by (cases "ac_phase (ap_cycling s)") (simp_all add: next_delay_def)
  have "\<exists>s'. rearm_scene_cycling_timer (next_delay now d (ap_cycling s)) s = Some s' \<and> app_inv dbg s'"
    using assms t
    by (auto simp: app_inv_def rearm_scene_cycling_timer_def debug_assert_def base_inv_def agree_def eligible_def)
  with d show ?thesis by (simp add: schedule_scene_cycling_timer_def)
qed

section \<open>The cycling decisions\<close>

lemma reevaluate_phase:
  "paused (ac_phase (reevaluate now c n touch a)) \<longleftrightarrow>
     suspended a \<or> \<not> cfg_enabled (ac_config a) \<or> \<not> c \<or> n < 2 \<or> touch"
  "in_transition (ac_phase (reevaluate now c n touch a)) \<longleftrightarrow>
     in_transition (ac_phase a) \<and> \<not> paused (ac_phase (reevaluate now c n touch a))"
  "ac_config (reevaluate now c n touch a) = ac_config a"
  "suspended (reevaluate now c n touch a) = suspended a"
  "pending_config (reevaluate now c n touch a) = pending_config a"
  by (cases "ac_phase a"; simp add: reevaluate_def)+

lemma reset_waiting_phase:
  "\<not> in_transition (ac_phase (reset_waiting now n touch a))"
  "paused (ac_phase (reset_waiting now n touch a)) \<longleftrightarrow>
     suspended a \<or> \<not> cfg_enabled (ac_config (reset_waiting now n touch a)) \<or> n < 2 \<or> touch"
  "suspended (reset_waiting now n touch a) = suspended a"
  "pending_config (reset_waiting now n touch a) = None"
  by (auto simp: reset_waiting_def Let_def split: option.splits)

lemma cycling_reevaluate_eligible [simp]:
  "eligible (cycling_reevaluate now touch s) = eligible s"
  by (simp add: eligible_def cycling_reevaluate_def reevaluate_phase)

lemma cycling_reevaluate_paused:
  "touch = (active_touch_slots s \<noteq> {}) \<Longrightarrow>
   paused (ac_phase (ap_cycling (cycling_reevaluate now touch s))) \<longleftrightarrow> \<not> eligible s"
  by (auto simp: eligible_def cycling_reevaluate_def reevaluate_phase can_drag_def scene_count_def)

lemma cycling_reevaluate_fields [simp]:
  "base_inv dbg (cycling_reevaluate now touch s) = base_inv dbg s"
  "ap_tracker (cycling_reevaluate now touch s) = ap_tracker s"
  "active_touch_slots (cycling_reevaluate now touch s) = active_touch_slots s"
  by (simp_all add: cycling_reevaluate_def base_inv_def)

lemma reset_automatic_waiting_inv:
  assumes "base_inv dbg s"
  shows "\<exists>s'. reset_automatic_waiting now s = Some s' \<and> app_inv dbg s'"
proof -
  obtain s1 where c: "cancel_automatic_transition_for_interruption s = Some s1" "base_inv dbg s1"
      "same_scene (s\<lparr>ap_tracker := cancel_automatic_transition (ap_tracker s)\<rparr>) s1"
    using cancel_total [OF assms] by blast
  let ?s = "s1\<lparr>ap_cycling := reset_waiting now (scene_count (ap_tracker s1))
    (active_touch_slots s1 \<noteq> {}) (ap_cycling s1)\<rparr>"
  have "base_inv dbg ?s" using c(2) by (simp add: base_inv_def)
  moreover have "agree ?s"
    using c(3) by (simp add: agree_def reset_waiting_phase same_scene_def cancel_automatic_transition_def)
  moreover have "paused (ac_phase (ap_cycling ?s)) \<longleftrightarrow> \<not> eligible ?s"
    by (auto simp: eligible_def reset_waiting_phase)
  ultimately show ?thesis
    using schedule_total [of dbg ?s now] c(1) by (simp add: reset_automatic_waiting_def)
qed

text \<open>What a reevaluation needs: a transition of the tracker is one of the machine, and the machine
  only runs one without the tracker when it is about to be paused.\<close>

definition half_agree :: "app_state \<Rightarrow> bool" where
  "half_agree s \<longleftrightarrow>
     (automatic_transition (ap_tracker s) \<noteq> None \<longrightarrow> in_transition (ac_phase (ap_cycling s))) \<and>
     (in_transition (ac_phase (ap_cycling s)) \<longrightarrow> eligible s \<longrightarrow> automatic_transition (ap_tracker s) \<noteq> None)"

lemma agree_half: "agree s \<Longrightarrow> half_agree s"
  by (simp add: agree_def half_agree_def)

lemma reevaluate_automatic_cycling_inv:
  assumes "base_inv dbg s" and "half_agree s"
  shows "\<exists>s'. reevaluate_automatic_cycling now s = Some s' \<and> app_inv dbg s'"
proof -
  let ?touch = "active_touch_slots s \<noteq> {}"
  obtain s1 where s1: "(if ?touch then cancel_automatic_transition_for_interruption s else Some s) = Some s1"
      "base_inv dbg s1" "same_scene (if ?touch then s\<lparr>ap_tracker := cancel_automatic_transition (ap_tracker s)\<rparr> else s) s1"
  proof (cases "?touch")
    case True
    then show ?thesis using cancel_total [OF assms(1)] that by (metis (full_types))
  next
    case False
    then show ?thesis using that [of s] assms(1) by (simp add: same_scene_def)
  qed
  let ?r = "cycling_reevaluate now ?touch s1"
  let ?lost = "in_transition (ac_phase (ap_cycling s)) \<and> \<not> in_transition (ac_phase (ap_cycling ?r))"
  have f: "active_touch_slots s1 = active_touch_slots s" "ap_cycling s1 = ap_cycling s"
    "automatic_transition (ap_tracker s1) =
       (if ?touch then None else automatic_transition (ap_tracker s))"
    "scene_count (ap_tracker s1) = scene_count (ap_tracker s)"
    using s1(3) by (auto simp: same_scene_def cancel_automatic_transition_def scene_count_def split: if_splits)
  have p: "paused (ac_phase (ap_cycling ?r)) \<longleftrightarrow> \<not> eligible s1"
    using f by (simp add: cycling_reevaluate_paused)
  have e: "eligible s1 = eligible s" using f by (simp add: eligible_def)
  have tr: "in_transition (ac_phase (ap_cycling ?r)) \<longleftrightarrow> in_transition (ac_phase (ap_cycling s)) \<and> eligible s"
    using p e f by (simp add: cycling_reevaluate_def reevaluate_phase(2))
  have "\<exists>s2. (if ?lost then
             if automatic_transition (ap_tracker ?r) \<noteq> None
             then cancel_automatic_transition_for_interruption ?r
             else Some (finish_automatic_transition_interruption ?r)
           else Some ?r) = Some s2 \<and> base_inv dbg s2 \<and> agree s2 \<and>
          ac_phase (ap_cycling s2) = ac_phase (ap_cycling ?r) \<and> eligible s2 = eligible s1"
  proof (cases "?lost \<and> automatic_transition (ap_tracker ?r) \<noteq> None")
    case True
    obtain s2 where c: "cancel_automatic_transition_for_interruption ?r = Some s2" "base_inv dbg s2"
        "same_scene (?r\<lparr>ap_tracker := cancel_automatic_transition (ap_tracker ?r)\<rparr>) s2"
      using cancel_total [of dbg ?r] s1(2) by auto
    have "eligible (?r\<lparr>ap_tracker := cancel_automatic_transition (ap_tracker ?r)\<rparr>) = eligible ?r"
      by (simp add: eligible_def cancel_automatic_transition_def scene_count_def)
    with same_sceneD(1) [OF c(3)] have "eligible s2 = eligible s1" by simp
    with True c show ?thesis
      by (auto simp: same_scene_def agree_def cancel_automatic_transition_def)
  next
    case False
    then have "agree ?r"
      using tr assms(2) f by (auto simp: agree_def half_agree_def eligible_def split: if_splits)
    with False s1(2) show ?thesis
      by (auto simp: finish_automatic_transition_interruption_def base_inv_def agree_def eligible_def
          cycling_reevaluate_def reevaluate_phase)
  qed
  then obtain s2 where s2: "(if ?lost then
             if automatic_transition (ap_tracker ?r) \<noteq> None
             then cancel_automatic_transition_for_interruption ?r
             else Some (finish_automatic_transition_interruption ?r)
           else Some ?r) = Some s2" "base_inv dbg s2" "agree s2"
          "ac_phase (ap_cycling s2) = ac_phase (ap_cycling ?r)" "eligible s2 = eligible s1"
    by blast
  with p have "\<exists>s'. schedule_scene_cycling_timer now s2 = Some s' \<and> app_inv dbg s'"
    by (intro schedule_total) simp_all
  with s1(1) s2(1) show ?thesis
    unfolding reevaluate_automatic_cycling_def Let_def by (simp only: Option.bind.bind_lunit)
qed

section \<open>Handlers\<close>

lemma app_invD: "app_inv dbg s \<Longrightarrow> base_inv dbg s" "app_inv dbg s \<Longrightarrow> agree s"
  "app_inv dbg s \<Longrightarrow> paused (ac_phase (ap_cycling s)) \<longleftrightarrow> \<not> eligible s"
  "app_inv dbg s \<Longrightarrow> ap_timer s = None \<longleftrightarrow> paused (ac_phase (ap_cycling s))"
  by (simp_all add: app_inv_def)

lemma after_scene_change_base [simp]: "base_inv dbg (after_scene_change now s) = base_inv dbg s"
  by (simp add: after_scene_change_def base_inv_def)

lemma replace_scenes_inv:
  assumes "base_inv dbg s" and "\<And>t. tracker_inv t \<Longrightarrow> tracker_inv (f t)"
  shows "\<exists>s'. replace_scenes f now s = Some s' \<and> app_inv dbg s'"
  unfolding replace_scenes_def Let_def using assms
  by (intro reset_automatic_waiting_inv)
    (simp add: base_inv_def after_scene_change_def discard_automatic_transition_for_scene_replacement_def
      finish_automatic_transition_interruption_def cancel_automatic_transition_inv)

lemma set_config_inv:
  assumes "app_inv dbg s"
  shows "\<exists>s'. handle_set_scene_cycling_config cfg now s = Some s' \<and> app_inv dbg s'"
proof -
  let ?s = "s\<lparr>ap_cycling := set_config cfg (ap_cycling s)\<rparr>"
  have "base_inv dbg ?s" using app_invD(1) [OF assms] by (simp add: base_inv_def)
  moreover have "agree ?s" using app_invD(2) [OF assms] by (auto simp: agree_def set_config_def)
  ultimately show ?thesis
    unfolding handle_set_scene_cycling_config_def
    by (intro reevaluate_automatic_cycling_inv agree_half)
qed

lemma set_suspended_inv:
  assumes "app_inv dbg s"
  shows "\<exists>s'. handle_set_scene_cycling_suspended b now s = Some s' \<and> app_inv dbg s'"
proof -
  let ?s = "s\<lparr>ap_cycling := set_suspended b (ap_cycling s)\<rparr>"
  have base: "base_inv dbg ?s" using app_invD(1) [OF assms] by (simp add: base_inv_def)
  have ag: "agree ?s" using app_invD(2) [OF assms] by (simp add: agree_def set_suspended_def)
  show ?thesis
  proof (cases b)
    case False
    then show ?thesis
      using reevaluate_automatic_cycling_inv [OF base agree_half [OF ag]]
      by (simp add: handle_set_scene_cycling_suspended_def)
  next
    case True
    obtain s1 where c: "cancel_automatic_transition_for_interruption ?s = Some s1" "base_inv dbg s1"
        "same_scene (?s\<lparr>ap_tracker := cancel_automatic_transition (ap_tracker ?s)\<rparr>) s1"
      using cancel_total [OF base] by blast
    have "half_agree s1"
      using c(3) True
      by (auto simp: half_agree_def same_scene_def cancel_automatic_transition_def eligible_def
          set_suspended_def)
    with c True show ?thesis
      using reevaluate_automatic_cycling_inv [OF c(2), of now]
      by (simp add: handle_set_scene_cycling_suspended_def)
  qed
qed

lemma emit_inv:
  assumes "app_inv dbg s"
  obtains em s' where "emit_lifecycle_transitions s = Some (em, s')" "app_inv dbg s'"
proof -
  obtain em s' where e: "emit_lifecycle_transitions s = Some (em, s')" "base_inv dbg s'" "same_scene s s'"
    using emit_total [OF app_invD(1) [OF assms]] by blast
  have "app_inv dbg s'"
    using assms e(2) same_sceneD(1,2) [OF e(3)] e(3) by (simp add: app_inv_def same_scene_def)
  with e(1) show ?thesis by (rule that)
qed

lemma app_inv_update [simp]:
  "app_inv dbg (s\<lparr>pending_lifecycle_emission := b\<rparr>) = app_inv dbg s"
  "app_inv dbg (s\<lparr>neighbors_suppressed := b\<rparr>) = app_inv dbg s"
  "app_inv dbg (s\<lparr>last_neighbors_suppressed := b\<rparr>) = app_inv dbg s"
  "app_inv dbg (s\<lparr>output_damaged := b\<rparr>) = app_inv dbg s"
  "app_inv dbg (s\<lparr>destinations_emptied_at := e\<rparr>) = app_inv dbg s"
  "app_inv dbg (s\<lparr>pending_transition_warm_up := w\<rparr>) = app_inv dbg s"
  "app_inv dbg (s\<lparr>edge_reveal_active := b\<rparr>) = app_inv dbg s"
  "app_inv dbg (s\<lparr>scene_drag_active := b\<rparr>) = app_inv dbg s"
  by (simp_all add: app_inv_def base_inv_def agree_def eligible_def)

lemma emit_pending_inv:
  assumes "app_inv dbg s" shows "\<exists>em s'. emit_pending_lifecycle s = Some (em, s') \<and> app_inv dbg s'"
proof -
  obtain em s' where "emit_lifecycle_transitions (s\<lparr>pending_lifecycle_emission := False\<rparr>) = Some (em, s')"
      "app_inv dbg s'"
    using emit_inv [of dbg "s\<lparr>pending_lifecycle_emission := False\<rparr>"] assms by auto
  with assms show ?thesis by (simp add: emit_pending_lifecycle_def)
qed

lemma neighbors_suppressed_inv:
  assumes "app_inv dbg s" shows "\<exists>s'. apply_neighbors_suppressed b now s = Some s' \<and> app_inv dbg s'"
proof -
  obtain em s' where "emit_lifecycle_transitions (s\<lparr>last_neighbors_suppressed := b\<rparr>) = Some (em, s')"
      "app_inv dbg s'"
    using emit_inv [of dbg "s\<lparr>last_neighbors_suppressed := b\<rparr>"] assms by auto
  with assms show ?thesis
    by (cases "b = last_neighbors_suppressed s") (simp_all add: apply_neighbors_suppressed_def)
qed

lemma take_warm_up_inv:
  assumes "app_inv dbg s" and "in_transition (ac_phase (ap_cycling s))"
  obtains b s' where "take_transition_warm_up now gen s = Some (b, s')"
    "app_inv dbg s'" "ap_cycling s' = ap_cycling s" "ap_tracker s' = ap_tracker s"
proof (cases "transition_warm_up_ready (pending_transition_warm_up s) now gen")
  case True
  with assms(1) show ?thesis
    by (intro that [of True "s\<lparr>pending_transition_warm_up := None\<rparr>"]) (simp_all add: take_transition_warm_up_def)
next
  case False
  let ?s = "s\<lparr>timer_generation := saturating_add (timer_generation s) 1, ap_timer := Some transition_warm_up_retry\<rparr>"
  have "\<not> paused (ac_phase (ap_cycling s))" using assms(2) by (cases "ac_phase (ap_cycling s)") auto
  with assms(1) have "app_inv dbg ?s" by (auto simp: app_inv_def base_inv_def agree_def eligible_def)
  moreover have "agree s" using assms(1) by (simp add: app_inv_def)
  ultimately show ?thesis
    using False by (intro that [of False ?s])
      (simp_all add: take_transition_warm_up_def rearm_scene_cycling_timer_def debug_assert_def agree_def)
qed

lemma phase_of_action:
  "on_timer now d a = BeginPreTransition \<Longrightarrow> \<exists>s. ac_phase a = WaitingForTimer s"
  "on_timer now d a = BeginTransition \<Longrightarrow> \<exists>s. ac_phase a = PreTransition s"
  "on_timer now d a = FinishTransition \<Longrightarrow> in_transition (ac_phase a)"
  by (auto simp: on_timer_def split: cycling_phase.splits if_splits)

lemma commit_inv:
  assumes "app_inv dbg s" shows "\<exists>s'. commit_automatic_transition now s = Some s' \<and> app_inv dbg s'"
  unfolding commit_automatic_transition_def Let_def
  using app_invD(1) [OF assms]
  by (intro reset_automatic_waiting_inv) (simp add: base_inv_def finish_automatic_transition_inv after_scene_change_def)

lemma begin_pre_transition_inv:
  assumes inv: "app_inv dbg s" and ph: "ac_phase (ap_cycling s) = WaitingForTimer w"
    and tr: "begin_automatic_transition_to_next (ap_tracker s) = (Some target, t)"
  obtains em s1 where "emit_lifecycle_transitions
      (s\<lparr>ap_tracker := t, ap_cycling := enter_pre_transition now (ap_cycling s)\<rparr>) = Some (em, s1)"
    "\<exists>s'. schedule_scene_cycling_timer now
        (s1\<lparr>pending_transition_warm_up := emit_transition_incoming_for_target target now gen s1\<rparr>) = Some s' \<and> app_inv dbg s'"
    "debug_assertions s1 = dbg"
proof -
  let ?s = "s\<lparr>ap_tracker := t, ap_cycling := enter_pre_transition now (ap_cycling s)\<rparr>"
  have t: "tracker_inv t" "automatic_transition t = Some target" "scene_count t = scene_count (ap_tracker s)"
    using begin_automatic_transition_inv [of "ap_tracker s"] app_invD(1) [OF inv] tr
    by (auto simp: base_inv_def begin_automatic_transition_to_next_def Let_def scene_count_def
        split: if_splits option.splits)
  have base: "base_inv dbg ?s" using app_invD(1) [OF inv] t(1) by (simp add: base_inv_def)
  obtain em s1 where e: "emit_lifecycle_transitions ?s = Some (em, s1)" "base_inv dbg s1" "same_scene ?s s1"
    using emit_total [OF base] by blast
  let ?s1 = "s1\<lparr>pending_transition_warm_up := emit_transition_incoming_for_target target now gen s1\<rparr>"
  have "base_inv dbg ?s1" using e(2) by (simp add: base_inv_def)
  moreover have "agree ?s1"
    using e(3) t(2) by (simp add: agree_def same_scene_def enter_pre_transition_def)
  moreover have "eligible s" using app_invD(3) [OF inv] ph by simp
  then have "paused (ac_phase (ap_cycling ?s1)) \<longleftrightarrow> \<not> eligible ?s1"
    using e(3) t(3) by (simp add: eligible_def same_scene_def enter_pre_transition_def)
  ultimately have "\<exists>s'. schedule_scene_cycling_timer now ?s1 = Some s' \<and> app_inv dbg s'"
    by (rule schedule_total)
  moreover have "debug_assertions s1 = dbg" using e(2) by (simp add: base_inv_def)
  ultimately show ?thesis using e(1) that by blast
qed

lemma enter_transition_inv:
  assumes inv: "app_inv dbg s" and ph: "ac_phase (ap_cycling s) = PreTransition w"
  shows "\<exists>s'. schedule_scene_cycling_timer now
    (s\<lparr>ap_cycling := enter_transition now (ap_cycling s), output_damaged := True\<rparr>) = Some s' \<and> app_inv dbg s'"
proof (rule schedule_total)
  have "eligible s" using app_invD(3) [OF inv] ph by simp
  then show "paused (ac_phase (ap_cycling
      (s\<lparr>ap_cycling := enter_transition now (ap_cycling s), output_damaged := True\<rparr>))) =
      (\<not> eligible (s\<lparr>ap_cycling := enter_transition now (ap_cycling s), output_damaged := True\<rparr>))"
    by (simp add: eligible_def enter_transition_def)
qed (use app_invD(1,2) [OF inv] ph in \<open>simp_all add: base_inv_def agree_def enter_transition_def\<close>)

text \<open>A handler that would send a release where the source asserts that there is none.\<close>

definition releases_inline :: "widget_tracker \<Rightarrow> app_state \<Rightarrow> bool" where
  "releases_inline t s \<longleftrightarrow> (\<exists>em s1. emit_lifecycle_transitions (s\<lparr>ap_tracker := t\<rparr>) = Some (em, s1) \<and> releases em \<noteq> [])"

lemma releases_inlineI:
  assumes "emit_lifecycle_transitions u = Some (em, s1)" "releases em \<noteq> []"
    and "ap_emitter u = ap_emitter s" "neighbors_suppressed u = neighbors_suppressed s" "ap_tracker u = t"
  shows "releases_inline t s"
proof -
  have "next_states (s\<lparr>ap_tracker := t\<rparr>) = next_states u" using assms(4,5) by (simp add: next_states_def)
  with assms show ?thesis
    by (auto simp: releases_inline_def emit_lifecycle_transitions_def bind_eq_Some_conv)
qed

lemma timer_inv:
  assumes inv: "app_inv dbg s"
  shows "(\<exists>s'. on_scene_cycling_timer now gen s = Some s' \<and> app_inv dbg s') \<or>
    (dbg \<and> on_scene_cycling_timer now gen s = None \<and>
       releases_inline (snd (begin_automatic_transition_to_next (ap_tracker s))) s)"
proof -
  obtain a where "active_scene_of (ap_tracker s) = Some a"
    using app_invD(1) [OF inv] tracker_inv_active by (auto simp: base_inv_def)
  then obtain d where d: "active_scene_cycle_duration s = Some d"
    by (simp add: active_scene_cycle_duration_def)
  show ?thesis
  proof (cases "on_timer now d (ap_cycling s)")
    case ActNone
    let ?s = "case ac_phase (ap_cycling s) of Transition _ \<Rightarrow> s\<lparr>output_damaged := True\<rparr> | _ \<Rightarrow> s"
    have "app_inv dbg ?s" using inv by (simp split: cycling_phase.splits)
    from schedule_total [OF app_invD(1-3) [OF this], of now] d ActNone show ?thesis
      by (simp add: on_scene_cycling_timer_def)
  next
    case BeginPreTransition
    then obtain w where ph: "ac_phase (ap_cycling s) = WaitingForTimer w"
      using phase_of_action(1) by blast
    obtain o' t where tr: "begin_automatic_transition_to_next (ap_tracker s) = (o', t)" by fastforce
    show ?thesis
    proof (cases o')
      case None
      have "base_inv dbg (s\<lparr>ap_tracker := t\<rparr>)"
        using app_invD(1) [OF inv] begin_automatic_transition_inv [of "ap_tracker s"] tr
        by (simp add: base_inv_def)
      from reset_automatic_waiting_inv [OF this, of now] d BeginPreTransition tr None show ?thesis
        by (simp add: on_scene_cycling_timer_def)
    next
      case (Some target)
      with tr have "begin_automatic_transition_to_next (ap_tracker s) = (Some target, t)" by simp
      from begin_pre_transition_inv [OF inv ph this, of now gen] obtain em s1 where
        e: "emit_lifecycle_transitions
            (s\<lparr>ap_tracker := t, ap_cycling := enter_pre_transition now (ap_cycling s)\<rparr>) = Some (em, s1)"
        "\<exists>s'. schedule_scene_cycling_timer now
          (s1\<lparr>pending_transition_warm_up := emit_transition_incoming_for_target target now gen s1\<rparr>) = Some s' \<and> app_inv dbg s'"
        "debug_assertions s1 = dbg" by blast
      have eq: "on_scene_cycling_timer now gen s = (if dbg \<and> releases em \<noteq> [] then None
          else schedule_scene_cycling_timer now
            (s1\<lparr>pending_transition_warm_up := emit_transition_incoming_for_target target now gen s1\<rparr>))"
        using d BeginPreTransition tr Some e(1,3) by (simp add: on_scene_cycling_timer_def debug_assert_def)
      show ?thesis
      proof (cases "dbg \<and> releases em \<noteq> []")
        case True
        then have "releases_inline t s" by (intro releases_inlineI [OF e(1)]) simp_all
        with True eq tr show ?thesis by simp
      qed (use eq e(2) in auto)
    qed
  next
    case BeginTransition
    then obtain w where ph: "ac_phase (ap_cycling s) = PreTransition w"
      using phase_of_action(2) by blast
    then have "in_transition (ac_phase (ap_cycling s))" by simp
    from take_warm_up_inv [OF inv this, of now gen] obtain b s1 where
      w: "take_transition_warm_up now gen s = Some (b, s1)" "app_inv dbg s1" "ap_cycling s1 = ap_cycling s" by blast
    show ?thesis
      using enter_transition_inv [of dbg s1 w now] w ph d BeginTransition
      by (cases b) (simp_all add: on_scene_cycling_timer_def debug_assert_def)
  next
    case FinishTransition
    from take_warm_up_inv [OF inv phase_of_action(3) [OF FinishTransition], of now gen] obtain b s1 where
      w: "take_transition_warm_up now gen s = Some (b, s1)" "app_inv dbg s1" by blast
    show ?thesis
      using commit_inv [OF w(2), of now] w d FinishTransition
      by (cases b) (simp_all add: on_scene_cycling_timer_def)
  qed
qed

section \<open>Touch\<close>

text \<open>While a finger is down nothing cycles, so the tracker may move freely.\<close>

lemma touched_idle:
  assumes "app_inv dbg s" and "active_touch_slots s \<noteq> {}"
  shows "\<not> eligible s" "paused (ac_phase (ap_cycling s))" "automatic_transition (ap_tracker s) = None"
proof -
  show "\<not> eligible s" using assms(2) by (simp add: eligible_def)
  with app_invD(3) [OF assms(1)] show p: "paused (ac_phase (ap_cycling s))" by simp
  then have "\<not> in_transition (ac_phase (ap_cycling s))" by (cases "ac_phase (ap_cycling s)") auto
  with app_invD(2) [OF assms(1)] show "automatic_transition (ap_tracker s) = None"
    by (simp add: agree_def)
qed

lemma touched_inv:
  assumes "app_inv dbg s" and "active_touch_slots s \<noteq> {}"
    and "base_inv dbg s'" and "active_touch_slots s' \<noteq> {}" and "ap_cycling s' = ap_cycling s"
    and "ap_timer s' = ap_timer s" and "automatic_transition (ap_tracker s') = None"
  shows "app_inv dbg s'"
proof -
  note t = touched_idle [OF assms(1,2)]
  have "\<not> in_transition (ac_phase (ap_cycling s))" using t(2) by (cases "ac_phase (ap_cycling s)") auto
  with assms t app_invD(4) [OF assms(1)] show ?thesis by (simp add: app_inv_def agree_def eligible_def)
qed

lemma pause_inv:
  assumes "base_inv dbg s" and "active_touch_slots s \<noteq> {}"
  shows "\<exists>s'. pause_automatic_cycling_for_touch now s = Some s' \<and> app_inv dbg s' \<and>
    active_touch_slots s' = active_touch_slots s"
proof -
  obtain s1 where c: "cancel_automatic_transition_for_interruption s = Some s1" "base_inv dbg s1"
      "same_scene (s\<lparr>ap_tracker := cancel_automatic_transition (ap_tracker s)\<rparr>) s1"
    using cancel_total [OF assms(1)] by blast
  let ?s = "cycling_reevaluate now True s1"
  have sl: "active_touch_slots ?s = active_touch_slots s" using c(3) by (simp add: same_scene_def)
  have p: "paused (ac_phase (ap_cycling ?s))" by (simp add: cycling_reevaluate_def reevaluate_phase)
  then have "\<not> in_transition (ac_phase (ap_cycling ?s))" by (cases "ac_phase (ap_cycling ?s)") auto
  then have "agree ?s"
    using c(3) by (simp add: agree_def same_scene_def cancel_automatic_transition_def)
  moreover have "\<not> eligible ?s"
    using assms(2) sl by (simp add: eligible_def del: cycling_reevaluate_fields)
  moreover have "base_inv dbg ?s" using c(2) by simp
  ultimately obtain s' where s': "schedule_scene_cycling_timer now ?s = Some s'" "app_inv dbg s'"
    using schedule_total [of dbg ?s now] p by blast
  moreover have "active_touch_slots s' = active_touch_slots ?s"
    using s'(1) by (auto simp: schedule_scene_cycling_timer_def rearm_scene_cycling_timer_def
        bind_eq_Some_conv)
  ultimately show ?thesis using c(1) sl by (simp add: pause_automatic_cycling_for_touch_def)
qed

lemma touch_down_inv:
  assumes "app_inv dbg s" shows "\<exists>s'. touch_down slot v now s = Some s' \<and> app_inv dbg s'"
proof -
  let ?s = "s\<lparr>active_touch_slots := insert slot (active_touch_slots s)\<rparr>"
  have base: "base_inv dbg ?s" using app_invD(1) [OF assms] by (auto simp: base_inv_def)
  show ?thesis
  proof (cases "active_touch_slots s = {}")
    case True
    obtain s1 where s1: "pause_automatic_cycling_for_touch now ?s = Some s1" "app_inv dbg s1"
        "active_touch_slots s1 = active_touch_slots ?s"
      using pause_inv [OF base] by auto
    have "app_inv dbg (s1\<lparr>gesture_slot := Some slot, scene_drag_active := False, edge_reveal_active := False\<rparr>)"
      using s1(2,3) by (simp add: app_inv_def base_inv_def agree_def eligible_def)
    with True s1 show ?thesis by (simp add: touch_down_def)
  next
    case False
    have "app_inv dbg ?s"
      using touched_inv [OF assms False base] touched_idle(3) [OF assms False] by simp
    with False show ?thesis by (simp add: touch_down_def)
  qed
qed

lemma start_drag_transition [simp]:
  "automatic_transition t = None \<Longrightarrow> automatic_transition (start_drag t) = None"
  "automatic_transition (update_drag dx t) = automatic_transition t"
  "automatic_transition t = None \<Longrightarrow> automatic_transition (snd (end_drag rnd dx v t)) = None"
  by (auto simp: start_drag_def update_drag_def end_drag_def Let_def)

lemma touch_motion_inv:
  assumes inv: "app_inv dbg s"
  shows "(\<exists>s'. touch_motion slot e a st dx s = Some s' \<and> app_inv dbg s') \<or>
    (dbg \<and> touch_motion slot e a st dx s = None \<and> \<not> pending_lifecycle_emission s \<and>
       (\<exists>x. \<exists>t \<in> {ap_tracker s, start_drag (ap_tracker s)}. dx = Some x \<and> releases_inline (update_drag x t) s))"
proof (cases "gesture_slot s = Some slot \<and> \<not> e \<and> \<not> edge_reveal_active s")
  case False
  with inv show ?thesis by (auto simp: touch_motion_def)
next
  case True
  then have sl: "active_touch_slots s \<noteq> {}"
    using app_invD(1) [OF inv] by (auto simp: base_inv_def)
  note t = touched_idle [OF inv sl]
  let ?on = "a \<and> \<not> scene_drag_active s \<and> can_drag (ap_tracker s) \<and> \<not> neighbors_suppressed s \<and> st"
  define q where "q = (if ?on then s\<lparr>scene_drag_active := True, ap_tracker := start_drag (ap_tracker s)\<rparr> else s)"
  have s: "app_inv dbg q" "active_touch_slots q \<noteq> {}"
    using touched_inv [OF inv sl, of q] t(3) sl app_invD(1) [OF inv]
    by (auto simp: q_def base_inv_def start_drag_inv)
  have eq: "touch_motion slot e a st dx s =
      (if scene_drag_active q then
         (case dx of
            Some dx \<Rightarrow> after_drag_scene_update (q\<lparr>ap_tracker := update_drag dx (ap_tracker q)\<rparr>)
          | None \<Rightarrow> Some q)
       else Some q)"
    using True unfolding touch_motion_def Let_def q_def by simp
  have q: "ap_emitter q = ap_emitter s" "neighbors_suppressed q = neighbors_suppressed s"
      "pending_lifecycle_emission q = pending_lifecycle_emission s"
      "ap_tracker q \<in> {ap_tracker s, start_drag (ap_tracker s)}" by (simp_all add: q_def)
  have drag: "(\<exists>s'. after_drag_scene_update (q\<lparr>ap_tracker := update_drag x (ap_tracker q)\<rparr>) = Some s' \<and> app_inv dbg s') \<or>
      (dbg \<and> after_drag_scene_update (q\<lparr>ap_tracker := update_drag x (ap_tracker q)\<rparr>) = None \<and>
        \<not> pending_lifecycle_emission s \<and> releases_inline (update_drag x (ap_tracker q)) s)" for x
  proof -
    let ?u = "q\<lparr>ap_tracker := update_drag x (ap_tracker q), output_damaged := True\<rparr>"
    have u: "app_inv dbg ?u"
      using touched_inv [OF s, of ?u] s(2) touched_idle(3) [OF s] app_invD(1) [OF s(1)]
      by (simp add: base_inv_def update_drag_inv)
    then obtain em s' where em: "emit_lifecycle_transitions ?u = Some (em, s')" "app_inv dbg s'"
      using emit_inv by blast
    then have dbg: "debug_assertions s' = dbg" by (simp add: app_inv_def base_inv_def)
    have "releases_inline (update_drag x (ap_tracker q)) s" if "releases em \<noteq> []"
      using releases_inlineI [OF em(1) that, of s] q(1,2) by simp
    with u em dbg q(3) show ?thesis by (auto simp: after_drag_scene_update_def debug_assert_def Let_def)
  qed
  show ?thesis
  proof (cases "scene_drag_active q \<and> dx \<noteq> None")
    case True
    then obtain x where "dx = Some x" by blast
    with True drag [of x] q(4) show ?thesis unfolding eq by auto
  next
    case False
    then show ?thesis unfolding eq using s(1) by (cases dx) auto
  qed
qed

lemma finish_touch_inv:
  assumes "base_inv dbg s" and "active_touch_slots s \<noteq> {} \<Longrightarrow> app_inv dbg s"
  shows "\<exists>s'. (if active_touch_slots s = {} then reset_automatic_waiting now s else Some s) = Some s' \<and>
    app_inv dbg s'"
  using assms reset_automatic_waiting_inv [OF assms(1)] by simp

lemma touch_up_inv:
  assumes inv: "app_inv dbg s"
  shows "(\<exists>s'. touch_up rnd slot de now s = Some s' \<and> app_inv dbg s') \<or>
    (dbg \<and> touch_up rnd slot de now s = None \<and> (\<exists>dx v. de = Some (dx, v) \<and> abs_overflows dx))"
proof (cases "gesture_slot s = Some slot")
  case False
  let ?s = "s\<lparr>active_touch_slots := active_touch_slots s - {slot}\<rparr>"
  have base: "base_inv dbg ?s" using app_invD(1) [OF inv] False by (auto simp: base_inv_def)
  have "app_inv dbg ?s" if "active_touch_slots ?s \<noteq> {}"
  proof -
    have sl: "active_touch_slots s \<noteq> {}" using that by auto
    then show ?thesis
      using touched_inv [OF inv sl base that] touched_idle(3) [OF inv sl] by simp
  qed
  from finish_touch_inv [OF base this, of now] False show ?thesis by (simp add: touch_up_def Let_def)
next
  case True
  then have sl: "active_touch_slots s \<noteq> {}"
    using app_invD(1) [OF inv] by (auto simp: base_inv_def)
  note t = touched_idle [OF inv sl]
  have fin: "\<exists>s'. (if active_touch_slots s1 = {} then reset_automatic_waiting now s1 else Some s1) = Some s' \<and>
      app_inv dbg s'"
    if "base_inv dbg s1" "ap_cycling s1 = ap_cycling s" "ap_timer s1 = ap_timer s"
      "automatic_transition (ap_tracker s1) = None" for s1
    using finish_touch_inv [OF that(1), of now] touched_inv [OF inv sl that(1) _ that(2-4)] by blast
  obtain dx v where dv: "(case de of Some p \<Rightarrow> p | None \<Rightarrow> (0, 0)) = (dx, v)" by fastforce
  have base: "tracker_inv (ap_tracker s)" "distinct (map fst (ap_emitter s))" "debug_assertions s = dbg"
    using app_invD(1) [OF inv] by (simp_all add: base_inv_def)
  consider "edge_reveal_active s" | "\<not> edge_reveal_active s" "scene_drag_active s"
    | "\<not> edge_reveal_active s" "\<not> scene_drag_active s" by blast
  then show ?thesis
  proof cases
    case 1
    with True show ?thesis
      using fin [of "s\<lparr>active_touch_slots := active_touch_slots s - {slot}, gesture_slot := None,
          edge_reveal_active := False\<rparr>"] base t(3)
      by (simp add: touch_up_def Let_def base_inv_def)
  next
    case 2
    have over: "\<exists>dx v. de = Some (dx, v) \<and> abs_overflows dx" if "end_drag_overflows dx (ap_tracker s)"
      using that dv by (cases de) (auto simp: end_drag_overflows_def abs_overflows_def)
    define s2 where "s2 = after_scene_change now (s\<lparr>active_touch_slots := active_touch_slots s - {slot},
        gesture_slot := None, scene_drag_active := False,
        ap_tracker := snd (end_drag rnd dx v (ap_tracker s))\<rparr>)"
    have "base_inv dbg s2" "ap_cycling s2 = ap_cycling s" "ap_timer s2 = ap_timer s"
        "automatic_transition (ap_tracker s2) = None"
      using base t(3) by (simp_all add: s2_def base_inv_def end_drag_inv after_scene_change_def)
    note f = fin [OF this]
    have eq: "touch_up rnd slot de now s = (if dbg \<and> end_drag_overflows dx (ap_tracker s) then None
        else if active_touch_slots s2 = {} then reset_automatic_waiting now s2 else Some s2)"
      unfolding s2_def using 2 True dv base(3) by (simp add: touch_up_def Let_def debug_assert_def)
    show ?thesis
    proof (cases "dbg \<and> end_drag_overflows dx (ap_tracker s)")
      case True
      with over eq show ?thesis by simp
    next
      case False
      then have "touch_up rnd slot de now s =
          (if active_touch_slots s2 = {} then reset_automatic_waiting now s2 else Some s2)" using eq by (simp only: if_False)
      with f show ?thesis by (simp only:) blast
    qed
  next
    case 3
    with True show ?thesis
      using fin [of "s\<lparr>active_touch_slots := active_touch_slots s - {slot}, gesture_slot := None\<rparr>"]
        base t(3)
      by (simp add: touch_up_def Let_def base_inv_def)
  qed
qed

lemma touch_cancel_inv:
  assumes inv: "app_inv dbg s" shows "\<exists>s'. touch_cancel rnd now s = Some s' \<and> app_inv dbg s'"
  unfolding touch_cancel_def Let_def
  using app_invD(1) [OF inv]
  by (auto simp: base_inv_def after_scene_change_def end_drag_inv intro!: reset_automatic_waiting_inv)

section \<open>Whole runs\<close>

text \<open>\<open>SoOverlay\<close>: a full-screen overlay or a revealed screen edge comes or goes; \<open>SoSuppress\<close>: the main
  loop notices.\<close>

datatype scene_op =
    SoTimer "instance_id \<Rightarrow> u64 option"
  | SoConfig cycling_config
  | SoSuspend bool
  | SoReset
  | SoActive scene_layout
  | SoCycling "scene_layout list"
  | SoDown nat bool
  | SoMotion nat bool bool bool "i32 option"
  | SoUp nat "(i32 \<times> real) option"
  | SoCancel
  | SoFrame
  | SoOverlay bool
  | SoSuppress
  | SoConnect instance_id lifecycle_state
  | SoForget instance_id

fun scene_exec :: "(real \<Rightarrow> real) \<Rightarrow> scene_op \<times> instant \<Rightarrow> app_state \<Rightarrow> app_state option" where
  "scene_exec rnd (SoTimer gen, now) s = on_scene_cycling_timer now gen s"
| "scene_exec rnd (SoConfig cfg, now) s = handle_set_scene_cycling_config cfg now s"
| "scene_exec rnd (SoSuspend b, now) s = handle_set_scene_cycling_suspended b now s"
| "scene_exec rnd (SoReset, now) s = handle_reset_to_first_scene now s"
| "scene_exec rnd (SoActive l, now) s = handle_set_active_scene l now s"
| "scene_exec rnd (SoCycling ls, now) s = handle_set_scene_cycling ls now s"
| "scene_exec rnd (SoDown slot v, now) s = touch_down slot v now s"
| "scene_exec rnd (SoMotion slot e a st dx, now) s = touch_motion slot e a st dx s"
| "scene_exec rnd (SoUp slot de, now) s = touch_up rnd slot de now s"
| "scene_exec rnd (SoCancel, now) s = touch_cancel rnd now s"
| "scene_exec rnd (SoFrame, now) s = map_option snd (emit_pending_lifecycle s)"
| "scene_exec rnd (SoOverlay b, now) s = Some (s\<lparr>neighbors_suppressed := b\<rparr>)"
| "scene_exec rnd (SoSuppress, now) s = apply_neighbors_suppressed (neighbors_suppressed s) now s"
| "scene_exec rnd (SoConnect i st, now) s = Some (s\<lparr>ap_emitter := record_initial i st (ap_emitter s)\<rparr>)"
| "scene_exec rnd (SoForget i, now) s = Some (s\<lparr>ap_emitter := forget i (ap_emitter s)\<rparr>)"

lemma emitter_ops_inv:
  "app_inv dbg s \<Longrightarrow> app_inv dbg (s\<lparr>ap_emitter := record_initial i st (ap_emitter s)\<rparr>)"
  "app_inv dbg s \<Longrightarrow> app_inv dbg (s\<lparr>ap_emitter := forget i (ap_emitter s)\<rparr>)"
  by (simp_all add: app_inv_def base_inv_def agree_def eligible_def record_initial_def forget_def
      distinct_update distinct_delete)

text \<open>The events at which a build with debug assertions may stop: the timer that begins an automatic
  transition, or the motion of a drag, would send a release, or the offset at the end of a drag has
  no absolute value in 32 bits.\<close>

fun may_stop :: "scene_op \<Rightarrow> app_state \<Rightarrow> bool" where
  "may_stop (SoTimer gen) s = releases_inline (snd (begin_automatic_transition_to_next (ap_tracker s))) s"
| "may_stop (SoMotion slot e a st (Some dx)) s =
     (\<not> pending_lifecycle_emission s \<and>
      (\<exists>t \<in> {ap_tracker s, start_drag (ap_tracker s)}. releases_inline (update_drag dx t) s))"
| "may_stop (SoUp slot (Some (dx, v))) s = abs_overflows dx"
| "may_stop _ s = False"

lemma scene_exec_cases:
  assumes inv: "app_inv dbg s"
  shows "(\<exists>s'. scene_exec rnd (op, now) s = Some s' \<and> app_inv dbg s') \<or>
    (dbg \<and> scene_exec rnd (op, now) s = None \<and> may_stop op s)"
proof (cases op)
  case (SoTimer gen)
  then show ?thesis using timer_inv [OF inv, of now gen] by auto
next
  case (SoMotion slot e a st dx)
  then show ?thesis using touch_motion_inv [OF inv, of slot e a st dx] by auto
next
  case (SoUp slot de)
  then show ?thesis using touch_up_inv [OF inv, of rnd slot de now] by auto
next
  case SoFrame
  with emit_pending_inv [OF inv] show ?thesis by auto
qed (use inv app_invD(1) [OF inv] in
      \<open>simp_all add: set_config_inv set_suspended_inv handle_reset_to_first_scene_def
        handle_set_active_scene_def handle_set_scene_cycling_def replace_scenes_inv
        reset_to_first_scene_inv set_active_scene_inv set_scene_cycling_inv touch_down_inv
        touch_cancel_inv neighbors_suppressed_inv emitter_ops_inv\<close>)

lemma scene_exec_total: "app_inv False s \<Longrightarrow> \<exists>s'. scene_exec rnd op s = Some s' \<and> app_inv False s'"
  using scene_exec_cases [of False s rnd "fst op" "snd op"] by simp

interpretation scene_loop: total_machine "app_inv False" "scene_exec rnd" for rnd
  by unfold_locales (rule scene_exec_total)

lemma scene_exec_keeps: "app_inv dbg s \<Longrightarrow> scene_exec rnd op s = Some s' \<Longrightarrow> app_inv dbg s'"
  using scene_exec_cases [of dbg s rnd "fst op" "snd op"] by auto

lemma scene_run_keeps:
  "machine_run (scene_exec rnd) ops s = Some s' \<Longrightarrow> app_inv dbg s \<Longrightarrow> app_inv dbg s'"
proof (induction ops arbitrary: s)
  case (Cons op ops)
  then obtain s1 where "scene_exec rnd op s = Some s1" "machine_run (scene_exec rnd) ops s1 = Some s'"
    by (auto simp: bind_eq_Some_conv)
  with Cons scene_exec_keeps show ?case by blast
qed simp

lemma scene_run_stops:
  "machine_run (scene_exec rnd) ops s = None \<Longrightarrow> app_inv True s \<Longrightarrow>
   \<exists>before op now rest s1. ops = before @ (op, now) # rest \<and> machine_run (scene_exec rnd) before s = Some s1 \<and>
     scene_exec rnd (op, now) s1 = None \<and> may_stop op s1"
proof (induction ops arbitrary: s)
  case (Cons x ops)
  obtain op now where x: "x = (op, now)" by (cases x)
  from scene_exec_cases [OF Cons.prems(2), of rnd op now] show ?case
  proof
    assume "\<exists>s'. scene_exec rnd (op, now) s = Some s' \<and> app_inv True s'"
    then obtain s2 where s2: "scene_exec rnd (op, now) s = Some s2" "app_inv True s2" by blast
    with Cons.prems(1) x have "machine_run (scene_exec rnd) ops s2 = None" by simp
    from Cons.IH [OF this s2(2)] obtain before o' n' rest s1 where
      "ops = before @ (o', n') # rest" "machine_run (scene_exec rnd) before s2 = Some s1"
      "scene_exec rnd (o', n') s1 = None" "may_stop o' s1" by blast
    with s2(1) x show ?thesis by (intro exI [of _ "(op, now) # before"]) auto
  next
    assume "True \<and> scene_exec rnd (op, now) s = None \<and> may_stop op s"
    with x show ?thesis by (intro exI [of _ "[]"]) auto
  qed
qed simp

section \<open>A configuration that waits for a transition\<close>

lemma schedule_fields:
  "schedule_scene_cycling_timer now s = Some s' \<Longrightarrow>
   ap_cycling s' = ap_cycling s \<and> ap_tracker s' = ap_tracker s \<and>
   active_touch_slots s' = active_touch_slots s"
  by (auto simp: schedule_scene_cycling_timer_def rearm_scene_cycling_timer_def bind_eq_Some_conv)

lemma cancel_fields:
  assumes "base_inv dbg s" and "cancel_automatic_transition_for_interruption s = Some s'"
  shows "ap_cycling s' = ap_cycling s \<and> wt_scenes (ap_tracker s') = wt_scenes (ap_tracker s) \<and>
    active_touch_slots s' = active_touch_slots s"
proof -
  obtain s1 where "cancel_automatic_transition_for_interruption s = Some s1"
      "same_scene (s\<lparr>ap_tracker := cancel_automatic_transition (ap_tracker s)\<rparr>) s1"
    using cancel_total [OF assms(1)] by blast
  with assms(2) show ?thesis by (simp add: same_scene_def cancel_automatic_transition_def)
qed

lemma reevaluate_fields:
  assumes "base_inv dbg s" and "active_touch_slots s = {}"
    and "reevaluate_automatic_cycling now s = Some s'"
  shows "ap_cycling s' = reevaluate now (can_drag (ap_tracker s)) (scene_count (ap_tracker s)) False
      (ap_cycling s) \<and> wt_scenes (ap_tracker s') = wt_scenes (ap_tracker s) \<and>
    active_touch_slots s' = {}"
proof -
  let ?r = "cycling_reevaluate now False s"
  obtain s2 where s2: "(if in_transition (ac_phase (ap_cycling s)) \<and> \<not> in_transition (ac_phase (ap_cycling ?r)) then
             if automatic_transition (ap_tracker ?r) \<noteq> None
             then cancel_automatic_transition_for_interruption ?r
             else Some (finish_automatic_transition_interruption ?r)
           else Some ?r) = Some s2" "schedule_scene_cycling_timer now s2 = Some s'"
    using assms(2,3) unfolding reevaluate_automatic_cycling_def Let_def
    by (auto simp only: bind_eq_Some_conv if_False simp_thms)
  have "ap_cycling s2 = ap_cycling ?r \<and> wt_scenes (ap_tracker s2) = wt_scenes (ap_tracker ?r) \<and>
      active_touch_slots s2 = active_touch_slots ?r"
    using s2(1) cancel_fields [of dbg ?r s2] assms(1)
    by (auto simp: finish_automatic_transition_interruption_def split: if_splits)
  with schedule_fields [OF s2(2)] assms(2) show ?thesis by (simp add: cycling_reevaluate_def)
qed

lemma reevaluate_running:
  "\<not> suspended a \<Longrightarrow> cfg_enabled (ac_config a) \<Longrightarrow> 2 \<le> n \<Longrightarrow> in_transition (ac_phase a) \<Longrightarrow>
   reevaluate now True n False a = a"
  by (cases "ac_phase a") (simp_all add: reevaluate_def)

lemma suspend_fields:
  assumes "app_inv dbg s" and "active_touch_slots s = {}"
    and "handle_set_scene_cycling_suspended b now s = Some s'"
  shows "ap_cycling s' = reevaluate now (can_drag (ap_tracker s)) (scene_count (ap_tracker s)) False
      (set_suspended b (ap_cycling s)) \<and> wt_scenes (ap_tracker s') = wt_scenes (ap_tracker s) \<and>
    active_touch_slots s' = {}"
proof -
  let ?s = "s\<lparr>ap_cycling := set_suspended b (ap_cycling s)\<rparr>"
  have base: "base_inv dbg ?s" using app_invD(1) [OF assms(1)] by (simp add: base_inv_def)
  obtain c where c: "cancel_automatic_transition_for_interruption ?s = Some c" "base_inv dbg c"
    using cancel_total [OF base] by blast
  note cf = cancel_fields [OF base c(1)]
  let ?u = "if b then c else ?s"
  have "reevaluate_automatic_cycling now ?u = Some s'"
    using assms(3) c(1) by (cases b) (simp_all add: handle_set_scene_cycling_suspended_def Let_def)
  moreover have "base_inv dbg ?u" "active_touch_slots ?u = {}"
    using base c(2) cf assms(2) by (cases b; simp)+
  ultimately show ?thesis
    using reevaluate_fields [of dbg ?u now s'] cf
    by (simp add: can_drag_def scene_count_def split: if_splits)
qed

lemma config_fields:
  assumes "app_inv dbg s" and "active_touch_slots s = {}"
    and "handle_set_scene_cycling_config cfg now s = Some s'"
  shows "ap_cycling s' = reevaluate now (can_drag (ap_tracker s)) (scene_count (ap_tracker s)) False
      (set_config cfg (ap_cycling s)) \<and> wt_scenes (ap_tracker s') = wt_scenes (ap_tracker s) \<and>
    active_touch_slots s' = {}"
proof -
  let ?s = "s\<lparr>ap_cycling := set_config cfg (ap_cycling s)\<rparr>"
  have "base_inv dbg ?s" using app_invD(1) [OF assms(1)] by (simp add: base_inv_def)
  from reevaluate_fields [OF this, of now s'] assms(2,3) show ?thesis
    by (simp add: handle_set_scene_cycling_config_def)
qed

text \<open>When cycling is switched off while an automatic transition runs, and night mode suspends
  and later resumes cycling before that transition ends, cycling starts again under the old
  configuration: the machine waits for its timer although the latest configuration, still
  pending, has cycling disabled.\<close>

lemma disabled_cycling_resumes:
  assumes "machine_run (scene_exec rnd) ops (app_init dbg rnd width start) = Some s"
    and "in_transition (ac_phase (ap_cycling s))" and "\<not> cfg_enabled cfg"
  shows "\<exists>s'. machine_run (scene_exec rnd)
      [(SoConfig cfg, t1), (SoSuspend True, t2), (SoSuspend False, t3)] s = Some s' \<and>
    pending_config (ap_cycling s') = Some cfg \<and> ac_phase (ap_cycling s') = WaitingForTimer t3 \<and>
    ap_timer s' \<noteq> None"
proof -
  have inv: "app_inv dbg s"
    using scene_run_keeps [OF assms(1) app_init_inv] .
  have "\<not> paused (ac_phase (ap_cycling s))" using assms(2) by (cases "ac_phase (ap_cycling s)") auto
  then have el: "eligible s" using app_invD(3) [OF inv] by simp
  then have on: "\<not> suspended (ap_cycling s)" "cfg_enabled (ac_config (ap_cycling s))"
    "2 \<le> length (wt_scenes (ap_tracker s))" "active_touch_slots s = {}"
    by (simp_all add: eligible_def scene_count_def)
  obtain s1 where s1: "handle_set_scene_cycling_config cfg t1 s = Some s1" "app_inv dbg s1"
    using set_config_inv [OF inv] by blast
  have f1: "ap_cycling s1 = (ap_cycling s)\<lparr>pending_config := Some cfg\<rparr>"
    "wt_scenes (ap_tracker s1) = wt_scenes (ap_tracker s)" "active_touch_slots s1 = {}"
    using config_fields [OF inv on(4) s1(1)] on assms(2)
    by (simp_all add: set_config_def reevaluate_running can_drag_def scene_count_def)
  obtain s2 where s2: "handle_set_scene_cycling_suspended True t2 s1 = Some s2" "app_inv dbg s2"
    using set_suspended_inv [OF s1(2)] by blast
  have f2: "ap_cycling s2 = (ap_cycling s)\<lparr>pending_config := Some cfg, suspended := True,
      ac_phase := PausedDisabled t2\<rparr>"
    "wt_scenes (ap_tracker s2) = wt_scenes (ap_tracker s)" "active_touch_slots s2 = {}"
    using suspend_fields [OF s1(2) f1(3) s2(1)] f1 by (simp_all add: reevaluate_def set_suspended_def)
  obtain s3 where s3: "handle_set_scene_cycling_suspended False t3 s2 = Some s3" "app_inv dbg s3"
    using set_suspended_inv [OF s2(2)] by blast
  have f3: "ap_cycling s3 = (ap_cycling s)\<lparr>pending_config := Some cfg, suspended := False,
      ac_phase := WaitingForTimer t3\<rparr>"
    using suspend_fields [OF s2(2) f2(3) s3(1)] f2 on
    by (simp add: reevaluate_def set_suspended_def can_drag_def scene_count_def)
  then have "ap_timer s3 \<noteq> None" using app_invD(4) [OF s3(2)] by simp
  with s1(1) s2(1) s3(1) f3 show ?thesis by simp
qed

text \<open>A run into a transition: two scenes, and the timer of the first one fires.\<close>

definition sample_scene_ops :: "(scene_op \<times> instant) list" where
  "sample_scene_ops =
     [(SoCycling [layout_of 1 ''clock'', layout_of 2 ''fees''], 0), (SoTimer (\<lambda>_. None), from_secs 30)]"

lemma timer_begins:
  assumes "active_scene_cycle_duration s = Some d"
    and "on_timer now d (ap_cycling s) = BeginPreTransition"
    and "begin_automatic_transition_to_next (ap_tracker s) = (Some target, t)"
    and "on_scene_cycling_timer now gen s = Some s'"
  shows "ap_cycling s' = enter_pre_transition now (ap_cycling s)"
proof -
  let ?s = "s\<lparr>ap_tracker := t, ap_cycling := enter_pre_transition now (ap_cycling s)\<rparr>"
  obtain em s1 where e: "emit_lifecycle_transitions ?s = Some (em, s1)"
      "schedule_scene_cycling_timer now
        (s1\<lparr>pending_transition_warm_up := emit_transition_incoming_for_target target now gen s1\<rparr>) = Some s'"
    using assms by (auto simp: on_scene_cycling_timer_def bind_eq_Some_conv)
  have "ap_cycling s1 = ap_cycling ?s"
    using e(1) by (auto simp: emit_lifecycle_transitions_def bind_eq_Some_conv)
  with schedule_fields [OF e(2)] show ?thesis by simp
qed

lemma sample_scene_run:
  "\<exists>s. machine_run (scene_exec (\<lambda>x. x)) sample_scene_ops (app_init False (\<lambda>x. x) 1280 0) = Some s \<and>
     in_transition (ac_phase (ap_cycling s))"
proof -
  let ?layouts = "[layout_of 1 ''clock'', layout_of 2 ''fees'']" and ?init = "app_init False (\<lambda>x. x) 1280 0"
  let ?s1 = "?init
      \<lparr>ap_tracker := set_scene_cycling ?layouts (ap_tracker ?init),
       ap_cycling := reset_waiting 0 2 False (ap_cycling ?init), output_damaged := True,
       pending_lifecycle_emission := True, destinations_emptied_at := Some 0, timer_generation := 1,
       ap_timer := Some (from_secs 30)\<rparr>"
  have s1: "handle_set_scene_cycling ?layouts 0 ?init = Some ?s1"
    by (simp add: handle_set_scene_cycling_def replace_scenes_def reset_automatic_waiting_def
        discard_automatic_transition_for_scene_replacement_def after_scene_change_def
        finish_automatic_transition_interruption_def cancel_automatic_transition_def app_init_def
        cancel_automatic_transition_for_interruption_def set_scene_cycling_def Let_def
        tracker_with_screen_width_def get_def scene_layout_default_def scene_count_def
        schedule_scene_cycling_timer_def active_scene_cycle_duration_def active_scene_of_def
        reset_waiting_def cycling_new_def cycling_config_default_def next_delay_def
        remaining_delay_def saturating_duration_since_def rearm_scene_cycling_timer_def
        saturating_add_def layout_of_def debug_assert_def)
  have "scene_exec (\<lambda>x. x) (SoCycling ?layouts, 0) ?init = Some ?s1" using s1 by simp
  with scene_exec_keeps [OF app_init_inv] have "app_inv False ?s1" .
  then obtain s2 where s2: "on_scene_cycling_timer (from_secs 30) (\<lambda>_. None) ?s1 = Some s2"
    using timer_inv [of False] by blast
  have "ap_cycling s2 = enter_pre_transition (from_secs 30) (ap_cycling ?s1)"
    by (rule timer_begins [where d = "from_secs 30", OF _ _ _ s2])
      (simp_all add: app_init_def set_scene_cycling_def Let_def begin_automatic_transition_to_next_def
        neighbor_index_def neighbor_index_from_def on_timer_def
        tracker_with_screen_width_def get_def scene_layout_default_def
        active_scene_cycle_duration_def active_scene_of_def
        reset_waiting_def cycling_new_def cycling_config_default_def
        saturating_duration_since_def layout_of_def)
  then show ?thesis
    using s1 s2 by (simp add: sample_scene_ops_def enter_pre_transition_def)
qed

definition cycling_off :: cycling_config where
  "cycling_off = cycling_config_default\<lparr>cfg_enabled := False\<rparr>"

end
