(* ===== verification/Host_Lifecycle.thy ===== *)
theory Host_Lifecycle
  imports Scene_Loop_Props
begin

text \<open>
  The widget host's side of the lifecycle protocol, \<^verbatim>\<open>bmc-wasm-host/src/lifecycle.rs\<close>: the
  state machine of a slot that follows the states the compositor emits, allocates a render target
  when it leaves \<open>Dormant\<close>, releases it when it returns there, and retries a failed allocation
  after a second. What the render target factory does is an argument of \<open>apply_slot\<close>: the result
  of an allocation, the cleanup of a target (whether it is complete, and what is left), and the
  compaction of a prepared target. The two assertions of the source make \<open>apply_slot\<close> return
  \<open>None\<close> when they fail. A render target is a number.
\<close>

section \<open>State machine\<close>

type_synonym render_target = nat

definition retry_after_failure :: duration where
  "retry_after_failure = from_secs 1"

definition has_render_target :: "lifecycle_state \<Rightarrow> bool" where
  "has_render_target s \<longleftrightarrow> s \<in> {Prepared, Entering, Visible, Leaving}"

datatype lifecycle_hook = Wake | Sleep

definition lifecycle_hook_of :: "lifecycle_state \<Rightarrow> lifecycle_state \<Rightarrow> lifecycle_hook option" where
  "lifecycle_hook_of previous current =
     (case (has_render_target previous, has_render_target current) of
        (False, True) \<Rightarrow> Some Wake
      | (True, False) \<Rightarrow> Some Sleep
      | _ \<Rightarrow> None)"

record lifecycle_machine =
  lc_current :: lifecycle_state
  lc_target :: lifecycle_state
  lc_blocked :: bool
  retry_at :: "instant option"

definition lifecycle_machine_new :: lifecycle_machine where
  "lifecycle_machine_new =
     \<lparr>lc_current = Dormant, lc_target = Dormant, lc_blocked = False, retry_at = None\<rparr>"

definition render_target_change_ready :: "instant \<Rightarrow> lifecycle_machine \<Rightarrow> bool" where
  "render_target_change_ready now m =
     (if has_render_target (lc_current m) = has_render_target (lc_target m) then False
      else \<not> lc_blocked m \<or> \<not> has_render_target (lc_target m) \<or>
        (case retry_at m of Some t \<Rightarrow> t \<le> now | None \<Rightarrow> False))"

definition on_lifecycle_event :: "lifecycle_state \<Rightarrow> lifecycle_machine \<Rightarrow> bool \<times> lifecycle_machine" where
  "on_lifecycle_event new_target m =
     (has_render_target new_target \<and> \<not> has_render_target (lc_target m) \<and> lc_target m \<noteq> new_target,
      m\<lparr>lc_target := new_target\<rparr>)"

definition needs_retry :: "instant \<Rightarrow> lifecycle_machine \<Rightarrow> bool" where
  "needs_retry now m \<longleftrightarrow>
     lc_blocked m \<and> (case retry_at m of Some t \<Rightarrow> t \<le> now | None \<Rightarrow> False)"

section \<open>Applying the target\<close>

record host_slot =
  hs_machine :: lifecycle_machine
  hs_render_target :: "render_target option"
  hs_retired :: "render_target list"

record target_factory =
  tf_allocate :: "render_target option"
  tf_destroy :: "render_target \<Rightarrow> bool \<times> render_target"
  tf_compact :: "render_target \<Rightarrow> render_target"

datatype slot_action = Skipped | Allocated | AllocFailed | Released | Followed

definition host_slot_new :: host_slot where
  "host_slot_new = \<lparr>hs_machine = lifecycle_machine_new, hs_render_target = None, hs_retired = []\<rparr>"

definition settle_machine :: "lifecycle_machine \<Rightarrow> lifecycle_machine" where
  "settle_machine m = m\<lparr>lc_current := lc_target m, lc_blocked := False, retry_at := None\<rparr>"

definition compact_slot :: "target_factory \<Rightarrow> host_slot \<Rightarrow> host_slot" where
  "compact_slot f s =
     (if lc_current (hs_machine s) = Prepared
      then s\<lparr>hs_render_target := map_option (tf_compact f) (hs_render_target s)\<rparr> else s)"

definition apply_slot ::
  "target_factory \<Rightarrow> instant \<Rightarrow> host_slot \<Rightarrow> (slot_action \<times> host_slot) option" where
  "apply_slot f now s =
     (let m = hs_machine s;
          target_needs = has_render_target (lc_target m);
          current_has = has_render_target (lc_current m)
      in if lc_blocked m \<and> target_needs \<and> \<not> current_has \<and>
            (case retry_at m of Some t \<Rightarrow> now < t | None \<Rightarrow> False)
         then Some (Skipped, s)
         else if target_needs \<and> \<not> current_has then
           if hs_render_target s \<noteq> None then None
           else
             (case tf_allocate f of
                Some t \<Rightarrow>
                  Some (Allocated, compact_slot f
                    (s\<lparr>hs_render_target := Some t, hs_machine := settle_machine m\<rparr>))
              | None \<Rightarrow>
                  Some (AllocFailed, compact_slot f
                    (s\<lparr>hs_machine := m\<lparr>lc_blocked := True, retry_at := Some (now + retry_after_failure)\<rparr>\<rparr>)))
         else if \<not> target_needs \<and> current_has then
           (case hs_render_target s of
              None \<Rightarrow> None
            | Some t \<Rightarrow>
                let (complete, t') = tf_destroy f t in
                Some (Released, compact_slot f
                  (s\<lparr>hs_render_target := None, hs_machine := settle_machine m,
                     hs_retired := (if complete then hs_retired s else hs_retired s @ [t'])\<rparr>)))
         else Some (Followed, compact_slot f (s\<lparr>hs_machine := settle_machine m\<rparr>)))"

section \<open>Invariant\<close>

definition slot_inv :: "host_slot \<Rightarrow> bool" where
  "slot_inv s \<longleftrightarrow>
     (hs_render_target s \<noteq> None \<longleftrightarrow> has_render_target (lc_current (hs_machine s))) \<and>
     (lc_blocked (hs_machine s) \<longleftrightarrow> retry_at (hs_machine s) \<noteq> None)"

lemma slot_inv_new: "slot_inv host_slot_new"
  by (simp add: slot_inv_def host_slot_new_def lifecycle_machine_new_def has_render_target_def)

lemma compact_slot_inv [simp]: "slot_inv (compact_slot f s) = slot_inv s"
  by (simp add: slot_inv_def compact_slot_def)

lemma compact_slot_machine [simp]: "hs_machine (compact_slot f s) = hs_machine s"
  by (simp add: compact_slot_def)

lemma settle_machine_simps [simp]:
  "lc_current (settle_machine m) = lc_target m" "lc_target (settle_machine m) = lc_target m"
  "lc_blocked (settle_machine m) = False" "retry_at (settle_machine m) = None"
  by (simp_all add: settle_machine_def)

lemma apply_slot_total: "slot_inv s \<Longrightarrow> \<exists>a s'. apply_slot f now s = Some (a, s') \<and> slot_inv s'"
  by (auto simp: apply_slot_def slot_inv_def compact_slot_def Let_def split: option.splits prod.splits)

datatype slot_op = SlEvent lifecycle_state | SlApply target_factory instant

fun slot_exec :: "slot_op \<Rightarrow> host_slot \<Rightarrow> host_slot option" where
  "slot_exec (SlEvent s) sl = Some (sl\<lparr>hs_machine := snd (on_lifecycle_event s (hs_machine sl))\<rparr>)"
| "slot_exec (SlApply f now) sl = map_option snd (apply_slot f now sl)"

lemma slot_exec_total: "slot_inv s \<Longrightarrow> \<exists>s'. slot_exec op s = Some s' \<and> slot_inv s'"
proof (cases op)
  case (SlApply f now)
  moreover assume "slot_inv s"
  ultimately show ?thesis using apply_slot_total [of s f now] by auto
qed (simp add: slot_inv_def on_lifecycle_event_def)

interpretation host: total_machine slot_inv slot_exec
  by unfold_locales (rule slot_exec_total)

section \<open>Properties\<close>

text \<open>Whatever lifecycle events arrive and however allocations, cleanups and compactions turn out,
  the assertions of the slot hold, so it never panics: it owns a render target exactly when its
  current state needs one, and it is blocked exactly when a retry is scheduled.\<close>

lemma host_slot_never_panics:
  "\<exists>s. machine_run slot_exec ops host_slot_new = Some s \<and>
     (hs_render_target s \<noteq> None \<longleftrightarrow> has_render_target (lc_current (hs_machine s))) \<and>
     (lc_blocked (hs_machine s) \<longleftrightarrow> retry_at (hs_machine s) \<noteq> None)"
  using host.run_total [OF slot_inv_new, of ops] by (auto simp: slot_inv_def)

text \<open>In every reachable state, applying the target asks the factory for a render target or gives
  one back exactly when the slot reports a change as ready; a failed allocation leaves the slot
  as it was and is not repeated for a second; and every other outcome brings the slot to its
  target and unblocks it.\<close>

lemma apply_slot_exact:
  assumes "machine_run slot_exec ops host_slot_new = Some s"
    and "apply_slot f now s = Some (a, s')"
  shows "(a \<in> {Allocated, AllocFailed, Released} \<longleftrightarrow> render_target_change_ready now (hs_machine s)) \<and>
    (a = Skipped \<longrightarrow> s' = s) \<and>
    (a = AllocFailed \<longrightarrow> hs_render_target s' = None \<and> lc_current (hs_machine s') = lc_current (hs_machine s) \<and>
      lc_target (hs_machine s') = lc_target (hs_machine s) \<and>
      (\<forall>t f'. t < now + retry_after_failure \<longrightarrow> apply_slot f' t s' = Some (Skipped, s'))) \<and>
    (a \<in> {Allocated, Released, Followed} \<longrightarrow> lc_current (hs_machine s') = lc_target (hs_machine s) \<and>
      \<not> lc_blocked (hs_machine s'))"
proof -
  have inv: "slot_inv s"
    using host.run_total [OF slot_inv_new, of ops] assms(1) by auto
  have Dormant: "lc_current (hs_machine s) \<noteq> Prepared" if "\<not> has_render_target (lc_current (hs_machine s))"
    using that by (auto simp: has_render_target_def)
  show ?thesis
    using assms(2) inv Dormant
    by (auto simp: apply_slot_def render_target_change_ready_def slot_inv_def compact_slot_def Let_def
        split: if_splits option.splits prod.splits)
qed

definition no_memory :: target_factory where
  "no_memory = \<lparr>tf_allocate = None, tf_destroy = (\<lambda>t. (True, t)), tf_compact = (\<lambda>t. t)\<rparr>"

end
