(* ===== verification/Scene_Loop_Thms.thy ===== *)
theory Scene_Loop_Thms
  imports Scene_Loop_Props "HOL-Library.Code_Target_Numeral"
begin

text \<open>
  The invariant of the scene loop in builds with and without debug assertions, and two runs in which
  a debug assertion of the compositor fails.
\<close>

section \<open>The invariant\<close>


section \<open>Debug assertions that fail\<close>






end
