(* ===== verification/Upgrade_Data.thy ===== *)
theory Upgrade_Data
  imports Prelude
begin

text \<open>
  The data of an upgrade run as it is shown on the device: the kinds and phases of
  \<^verbatim>\<open>bmc-upgrade/types/src/lib.rs\<close>, the run status of \<^verbatim>\<open>bmc/src/compositor.rs\<close>, and the
  service of \<^verbatim>\<open>bmc/src/system_upgrade.rs\<close> that holds the current snapshot, records every
  change of it in order and keeps the outcome of a run nothing showed. An execution id is the
  number of its UUID; a generation is a natural number, whose atomic counter cannot wrap in the
  lifetime of the process.
\<close>

section \<open>Kinds, phases and progress\<close>

type_synonym execution_id = nat
type_synonym upgrade_generation = nat

datatype upgrade_kind = KFirmware | KFirmwareAndPackages | KPackages

datatype disruption = Reboot | AppRestart

fun disruption_of :: "upgrade_kind \<Rightarrow> disruption" where
  "disruption_of KFirmware = Reboot"
| "disruption_of KFirmwareAndPackages = Reboot"
| "disruption_of KPackages = AppRestart"

datatype firmware_phase = FwDownloading | FwVerifying | FwFlashing | FwUnknown

datatype package_phase =
    PkRealizing | PkVerifying | PkBuilding | PkActivating | PkCleaning
  | PkFindingGarbageRoots | PkDeterminingGarbageLiveness | PkUnknown

datatype boser_phase = BpPreparing | BpFirmware firmware_phase | BpPackages package_phase | BpUnknown

datatype upgrade_phase =
    FirmwareDownloading | FirmwareVerifying | FirmwareApplying
  | PackageRealizing | PackageVerifying | PackageBuilding | PackageActivating

record download_progress =
  downloaded_bytes :: u64
  total_bytes :: "u64 option"

section \<open>Run status\<close>

datatype run_status =
    Running upgrade_kind "upgrade_phase option" "download_progress option"
  | Rebooting upgrade_kind
  | Succeeded upgrade_kind
  | Failed upgrade_kind string

record run_snapshot =
  generation :: upgrade_generation
  run_id :: "execution_id option"
  run_state :: run_status

fun status_kind :: "run_status \<Rightarrow> upgrade_kind" where
  "status_kind (Running k p d) = k"
| "status_kind (Rebooting k) = k"
| "status_kind (Succeeded k) = k"
| "status_kind (Failed k r) = k"

fun is_terminal :: "run_status \<Rightarrow> bool" where
  "is_terminal (Running k p d) = False"
| "is_terminal (Rebooting k) = False"
| "is_terminal (Succeeded k) = True"
| "is_terminal (Failed k r) = True"

section \<open>The run status service\<close>

record unseen_outcome =
  uo_id :: execution_id
  uo_result :: "string + unit"

record run_status_service =
  rs_current :: "run_snapshot option"
  rs_events :: "run_snapshot option list"
  rs_unseen :: "unseen_outcome option"
  rs_generation :: upgrade_generation

definition run_status_new :: run_status_service where
  "run_status_new = \<lparr>rs_current = None, rs_events = [], rs_unseen = None, rs_generation = 0\<rparr>"

definition next_generation :: "run_status_service \<Rightarrow> upgrade_generation \<times> run_status_service" where
  "next_generation s = (rs_generation s, s\<lparr>rs_generation := rs_generation s + 1\<rparr>)"

definition rs_publish :: "run_snapshot \<Rightarrow> run_status_service \<Rightarrow> run_status_service" where
  "rs_publish snapshot s =
     (if rs_current s = Some snapshot then s
      else s\<lparr>rs_events := rs_events s @ [Some snapshot], rs_current := Some snapshot\<rparr>)"

definition rs_clear :: "run_status_service \<Rightarrow> run_status_service" where
  "rs_clear s =
     (if rs_current s = None then s
      else s\<lparr>rs_current := None, rs_events := rs_events s @ [None]\<rparr>)"

definition publish_unseen_outcome :: "unseen_outcome \<Rightarrow> run_status_service \<Rightarrow> run_status_service" where
  "publish_unseen_outcome u s = (if rs_unseen s = Some u then s else s\<lparr>rs_unseen := Some u\<rparr>)"

section \<open>Lemmas\<close>

lemma rs_publish_fields [simp]:
  "rs_current (rs_publish x s) = Some x" "rs_unseen (rs_publish x s) = rs_unseen s"
  "rs_generation (rs_publish x s) = rs_generation s"
  by (simp_all add: rs_publish_def)

lemma rs_clear_fields [simp]:
  "rs_current (rs_clear s) = None" "rs_unseen (rs_clear s) = rs_unseen s"
  "rs_generation (rs_clear s) = rs_generation s"
  by (simp_all add: rs_clear_def)

lemma publish_unseen_fields [simp]:
  "rs_current (publish_unseen_outcome u s) = rs_current s"
  "rs_events (publish_unseen_outcome u s) = rs_events s"
  "rs_generation (publish_unseen_outcome u s) = rs_generation s"
  by (simp_all add: publish_unseen_outcome_def)

lemma set_rs_events:
  "set (rs_events (rs_publish x s)) = (if rs_current s = Some x then set (rs_events s)
     else insert (Some x) (set (rs_events s)))"
  "set (rs_events (rs_clear s)) = (if rs_current s = None then set (rs_events s)
     else insert None (set (rs_events s)))"
  by (auto simp: rs_publish_def rs_clear_def)

text \<open>The current snapshot is the last event.\<close>

definition current_is_last :: "run_status_service \<Rightarrow> bool" where
  "current_is_last s \<longleftrightarrow>
     rs_current s = (if rs_events s = [] then None else last (rs_events s))"

lemma current_is_last_ops [simp]:
  "current_is_last run_status_new"
  "current_is_last s \<Longrightarrow> current_is_last (rs_publish x s)"
  "current_is_last s \<Longrightarrow> current_is_last (rs_clear s)"
  "current_is_last s \<Longrightarrow> current_is_last (publish_unseen_outcome u s)"
  "current_is_last s \<Longrightarrow> current_is_last (snd (next_generation s))"
  by (auto simp: current_is_last_def run_status_new_def rs_publish_def rs_clear_def
      publish_unseen_outcome_def next_generation_def)

end
