(* ===== verification/Upgrade_Wire.thy ===== *)
theory Upgrade_Wire
  imports Upgrade_Data
begin

unbundle bit_operations_syntax

text \<open>
  The upgrade overlay protocol end to end: the snapshot cache of the compositor
  (\<^verbatim>\<open>bmc-openwrt/src/compositor/upgrade.rs\<close>), the events it sends to a client of a given protocol
  version, and the client's decoder (\<^verbatim>\<open>deck-upgrade-v1/src/decoder.rs\<close>,
  \<^verbatim>\<open>deck-upgrade-v1/src/lib.rs\<close>). The Wayland transport delivers the events in order; an enum
  value the client does not know arrives as \<open>None\<close>. A panic of \<open>expect\<close> is an outer \<open>None\<close>.
\<close>

section \<open>Wire vocabulary\<close>

datatype wire_kind = WkPackages | WkFirmware

datatype wire_phase =
    WpFirmwareDownloading | WpFirmwareVerifying | WpFirmwareApplying
  | WpPackageRealizing | WpPackageVerifying | WpPackageBuilding | WpPackageActivating
  | WpRebooting

datatype wire_event =
    WStarted wire_kind
  | WPhase wire_phase
  | WRebooting
  | WDownloadProgress u64
  | WDownloadProgressWithTotal u64 u64
  | WSucceeded u32
  | WFailed u32
  | WSnapshotDone

datatype client_event =
    EvStarted "wire_kind option"
  | EvPhase "wire_phase option"
  | EvDownloadProgress u32 u32
  | EvDownloadProgressWithTotal u32 u32 u32 u32
  | EvSucceeded u32
  | EvFailed u32
  | EvSnapshotDone
  | EvCleared

definition split_u64 :: "u64 \<Rightarrow> u32 \<times> u32" where
  "split_u64 v = (ucast (drop_bit 32 v), ucast (v AND ucast (- 1 :: u32)))"

definition join_u64 :: "u32 \<Rightarrow> u32 \<Rightarrow> u64" where
  "join_u64 hi lo = push_bit 32 (ucast hi) OR ucast lo"

section \<open>The cache\<close>

record cached_snapshot =
  cs_snapshot :: run_snapshot
  cs_deadline :: "instant option"

type_synonym upgrade_cache = "cached_snapshot option"

definition terminal_lifetime :: duration where
  "terminal_lifetime = from_secs 10"

definition cache_set :: "run_snapshot \<Rightarrow> instant \<Rightarrow> upgrade_cache \<Rightarrow> upgrade_cache" where
  "cache_set snapshot now c =
     (let deadline =
        (if is_terminal (run_state snapshot) then
           (case Option.bind c (\<lambda>cur.
                    if generation (cs_snapshot cur) = generation snapshot then cs_deadline cur
                    else None) of
              Some d \<Rightarrow> Some d
            | None \<Rightarrow> Some (now + terminal_lifetime))
         else None)
      in Some \<lparr>cs_snapshot = snapshot, cs_deadline = deadline\<rparr>)"

definition cache_clear :: "upgrade_cache \<Rightarrow> upgrade_cache" where
  "cache_clear c = None"

text \<open>The outer option is the panic of the conversion to 32 bits, the inner one the result.\<close>

definition remaining_ms :: "instant \<Rightarrow> instant \<Rightarrow> u32 option option" where
  "remaining_ms deadline now =
     (if deadline \<le> now then Some None
      else
        let ms = max ((deadline - now) div nanos_per_milli) 1 in
        if ms < 2 ^ 32 then Some (Some (word_of_nat ms)) else None)"

fun wire_kind_of :: "upgrade_kind \<Rightarrow> wire_kind" where
  "wire_kind_of KFirmware = WkFirmware"
| "wire_kind_of KFirmwareAndPackages = WkFirmware"
| "wire_kind_of KPackages = WkPackages"

fun phase_to_wire :: "upgrade_phase \<Rightarrow> wire_phase" where
  "phase_to_wire FirmwareDownloading = WpFirmwareDownloading"
| "phase_to_wire FirmwareVerifying = WpFirmwareVerifying"
| "phase_to_wire FirmwareApplying = WpFirmwareApplying"
| "phase_to_wire PackageRealizing = WpPackageRealizing"
| "phase_to_wire PackageVerifying = WpPackageVerifying"
| "phase_to_wire PackageBuilding = WpPackageBuilding"
| "phase_to_wire PackageActivating = WpPackageActivating"

definition progress_event :: "download_progress \<Rightarrow> wire_event" where
  "progress_event p =
     (case total_bytes p of
        Some t \<Rightarrow> WDownloadProgressWithTotal (downloaded_bytes p) t
      | None \<Rightarrow> WDownloadProgress (downloaded_bytes p))"

text \<open>\<open>cached.deadline?\<close> and \<open>remaining_ms(..)?\<close> of a terminal snapshot.\<close>

definition terminal_events ::
  "(u32 \<Rightarrow> wire_event) \<Rightarrow> instant option \<Rightarrow> instant \<Rightarrow> wire_event list option option" where
  "terminal_events ev deadline now =
     (case deadline of
        None \<Rightarrow> Some None
      | Some d \<Rightarrow> map_option (map_option (\<lambda>ms. [ev ms])) (remaining_ms d now))"

definition state_events ::
  "run_status \<Rightarrow> instant option \<Rightarrow> instant \<Rightarrow> wire_event list option option" where
  "state_events st deadline now =
     (case st of
        Running k phase progress \<Rightarrow>
          Some (Some ((case phase of Some p \<Rightarrow> [WPhase (phase_to_wire p)] | None \<Rightarrow> []) @
                      (case progress of Some d \<Rightarrow> [progress_event d] | None \<Rightarrow> [])))
      | Rebooting k \<Rightarrow> Some (Some [WRebooting])
      | Succeeded k \<Rightarrow> terminal_events WSucceeded deadline now
      | Failed k r \<Rightarrow> terminal_events WFailed deadline now)"

definition cache_events :: "instant \<Rightarrow> upgrade_cache \<Rightarrow> wire_event list option option" where
  "cache_events now c =
     (case c of
        None \<Rightarrow> Some None
      | Some cs \<Rightarrow>
          map_option (map_option (\<lambda>es.
              WStarted (wire_kind_of (status_kind (run_state (cs_snapshot cs)))) # es @ [WSnapshotDone]))
            (state_events (run_state (cs_snapshot cs)) (cs_deadline cs) now))"

section \<open>Emission to a client\<close>

definition rebooting_phase :: "nat \<Rightarrow> wire_phase" where
  "rebooting_phase version = (if 3 \<le> version then WpRebooting else WpFirmwareApplying)"

fun emit_event :: "nat \<Rightarrow> wire_event \<Rightarrow> client_event" where
  "emit_event v (WStarted k) = EvStarted (Some k)"
| "emit_event v (WPhase p) = EvPhase (Some p)"
| "emit_event v WRebooting = EvPhase (Some (rebooting_phase v))"
| "emit_event v (WDownloadProgress d) =
     (let (hi, lo) = split_u64 d in EvDownloadProgress hi lo)"
| "emit_event v (WDownloadProgressWithTotal d t) =
     (let (dh, dl) = split_u64 d; (thi, tlo) = split_u64 t in EvDownloadProgressWithTotal dh dl thi tlo)"
| "emit_event v (WSucceeded ms) = EvSucceeded ms"
| "emit_event v (WFailed ms) = EvFailed ms"
| "emit_event v WSnapshotDone = EvSnapshotDone"

section \<open>The decoder\<close>

datatype shown_state =
    ShRunning "wire_phase option" "download_progress option"
  | ShSucceeded duration
  | ShFailed duration

record shown_snapshot =
  sh_kind :: wire_kind
  sh_state :: shown_state

datatype upgrade_update = UpSnapshot shown_snapshot | UpCleared

datatype upgrade_terminal = TmSucceeded duration | TmFailed duration

record upgrade_candidate =
  ca_kind :: wire_kind
  ca_phase :: "wire_phase option"
  ca_progress :: "download_progress option"
  ca_terminal :: "upgrade_terminal option"

datatype candidate_state = ValidCandidate upgrade_candidate | InvalidCandidate

type_synonym upgrade_decoder = "candidate_state option"

definition invalidate_active :: "upgrade_decoder \<Rightarrow> upgrade_decoder" where
  "invalidate_active d = (if d \<noteq> None then Some InvalidCandidate else d)"

definition dec_started :: "wire_kind option \<Rightarrow> upgrade_decoder \<Rightarrow> upgrade_decoder" where
  "dec_started k d =
     (if d \<noteq> None then invalidate_active d
      else Some (case k of
        Some k \<Rightarrow> ValidCandidate
          \<lparr>ca_kind = k, ca_phase = None, ca_progress = None, ca_terminal = None\<rparr>
      | None \<Rightarrow> InvalidCandidate))"

fun phase_is_valid_for_kind :: "wire_kind \<Rightarrow> wire_phase \<Rightarrow> bool" where
  "phase_is_valid_for_kind WkFirmware p = True"
| "phase_is_valid_for_kind WkPackages p =
     (p \<in> {WpPackageRealizing, WpPackageVerifying, WpPackageBuilding, WpPackageActivating})"

definition dec_phase :: "wire_phase option \<Rightarrow> upgrade_decoder \<Rightarrow> upgrade_decoder" where
  "dec_phase p d =
     (case d of
        None \<Rightarrow> d
      | Some cand \<Rightarrow>
          (case (p, cand) of
             (Some p, ValidCandidate c) \<Rightarrow>
               if ca_phase c = None \<and> ca_progress c = None \<and> ca_terminal c = None \<and>
                  phase_is_valid_for_kind (ca_kind c) p
               then Some (ValidCandidate (c\<lparr>ca_phase := Some p\<rparr>))
               else invalidate_active d
           | _ \<Rightarrow> invalidate_active d))"

definition dec_progress :: "download_progress \<Rightarrow> upgrade_decoder \<Rightarrow> upgrade_decoder" where
  "dec_progress p d =
     (case d of
        None \<Rightarrow> d
      | Some (ValidCandidate c) \<Rightarrow>
          if ca_progress c = None \<and> ca_terminal c = None
          then Some (ValidCandidate (c\<lparr>ca_progress := Some p\<rparr>))
          else invalidate_active d
      | Some InvalidCandidate \<Rightarrow> invalidate_active d)"

definition dec_terminal :: "upgrade_terminal \<Rightarrow> upgrade_decoder \<Rightarrow> upgrade_decoder" where
  "dec_terminal t d =
     (case d of
        None \<Rightarrow> d
      | Some (ValidCandidate c) \<Rightarrow>
          if ca_phase c = None \<and> ca_progress c = None \<and> ca_terminal c = None
          then Some (ValidCandidate (c\<lparr>ca_terminal := Some t\<rparr>))
          else invalidate_active d
      | Some InvalidCandidate \<Rightarrow> invalidate_active d)"

definition dec_snapshot_done :: "upgrade_decoder \<Rightarrow> shown_snapshot option" where
  "dec_snapshot_done d =
     (case d of
        Some (ValidCandidate c) \<Rightarrow>
          Some \<lparr>sh_kind = ca_kind c,
                sh_state = (case ca_terminal c of
                   Some (TmSucceeded r) \<Rightarrow> ShSucceeded r
                 | Some (TmFailed r) \<Rightarrow> ShFailed r
                 | None \<Rightarrow> ShRunning (ca_phase c) (ca_progress c))\<rparr>
      | _ \<Rightarrow> None)"

fun decode :: "client_event \<Rightarrow> upgrade_decoder \<Rightarrow> upgrade_update option \<times> upgrade_decoder" where
  "decode (EvStarted k) d = (None, dec_started k d)"
| "decode (EvPhase p) d = (None, dec_phase p d)"
| "decode (EvDownloadProgress hi lo) d =
     (None, dec_progress \<lparr>downloaded_bytes = join_u64 hi lo, total_bytes = None\<rparr> d)"
| "decode (EvDownloadProgressWithTotal dh dl thi tlo) d =
     (None, dec_progress \<lparr>downloaded_bytes = join_u64 dh dl, total_bytes = Some (join_u64 thi tlo)\<rparr> d)"
| "decode (EvSucceeded ms) d = (None, dec_terminal (TmSucceeded (from_millis (unat ms))) d)"
| "decode (EvFailed ms) d = (None, dec_terminal (TmFailed (from_millis (unat ms))) d)"
| "decode EvSnapshotDone d = (map_option UpSnapshot (dec_snapshot_done d), None)"
| "decode EvCleared d = (Some UpCleared, None)"

fun decode_all :: "client_event list \<Rightarrow> upgrade_decoder \<Rightarrow> upgrade_update list \<times> upgrade_decoder" where
  "decode_all [] d = ([], d)"
| "decode_all (e # es) d =
     (let (u, d) = decode e d; (us, d) = decode_all es d
      in ((case u of Some x \<Rightarrow> [x] | None \<Rightarrow> []) @ us, d))"

section \<open>Lemmas\<close>

lemma join_split_u64: "join_u64 (fst (split_u64 v)) (snd (split_u64 v)) = v"
  unfolding join_u64_def split_u64_def
  by (rule bit_eqI) (auto simp: bit_simps)

lemma decode_all_append:
  "decode_all (es @ fs) d =
     (let (us, d) = decode_all es d; (vs, d) = decode_all fs d in (us @ vs, d))"
  by (induction es arbitrary: d) (auto simp: Let_def split: prod.splits)

lemma decode_progress_event:
  "decode (emit_event v (progress_event p)) d = (None, dec_progress p d)"
proof -
  obtain a b where p: "p = \<lparr>downloaded_bytes = a, total_bytes = b\<rparr>" by (cases p)
  show ?thesis
    using join_split_u64 [of a] join_split_u64 [of "the b"]
    by (cases b) (simp_all add: p progress_event_def Let_def case_prod_beta)
qed

text \<open>After the end of a snapshot or a clear the decoder starts afresh, whatever it was fed before.\<close>

lemma decoder_resynchronises:
  "snd (decode_all (es @ [EvSnapshotDone]) d) = None" "snd (decode_all (es @ [EvCleared]) d) = None"
  by (simp_all add: decode_all_append Let_def split: prod.splits)

section \<open>Deadlines\<close>

definition cache_inv :: "instant \<Rightarrow> upgrade_cache \<Rightarrow> bool" where
  "cache_inv now c \<longleftrightarrow> (\<forall>cs. c = Some cs \<longrightarrow>
     (if is_terminal (run_state (cs_snapshot cs))
      then \<exists>d. cs_deadline cs = Some d \<and> d \<le> now + terminal_lifetime
      else cs_deadline cs = None))"

lemma cache_set_inv: "cache_inv t c \<Longrightarrow> t \<le> now \<Longrightarrow> cache_inv now (cache_set s now c)"
  by (fastforce simp: cache_inv_def cache_set_def Let_def bind_eq_Some_conv split: option.splits if_splits)

definition cache_run :: "(run_snapshot \<times> instant) list \<Rightarrow> upgrade_cache" where
  "cache_run xs = fold (\<lambda>(s, t). cache_set s t) xs None"

lemma cache_run_inv:
  assumes "sorted (map snd xs)" and "\<forall>x \<in> set xs. snd x \<le> now"
  shows "cache_inv now (cache_run xs)"
proof -
  have "cache_inv now (fold (\<lambda>(s, t). cache_set s t) xs c)"
    if "sorted (map snd xs)" "\<forall>x \<in> set xs. snd x \<le> now" "cache_inv t c" "\<forall>x \<in> set xs. t \<le> snd x" "t \<le> now" for t c
    using that
  proof (induction xs arbitrary: t c)
    case Nil
    then show ?case by (auto simp: cache_inv_def split: if_splits)
  next
    case (Cons x xs)
    obtain s u where x: "x = (s, u)" by (cases x)
    with Cons show ?case by (auto intro!: Cons.IH [of u] cache_set_inv [of t])
  qed
  from this [OF assms, of 0 None] show ?thesis by (simp add: cache_run_def cache_inv_def)
qed

definition lifetime_ms :: "instant \<Rightarrow> instant \<Rightarrow> nat" where
  "lifetime_ms d now = max ((d - now) div nanos_per_milli) 1"

lemma remaining_ms_bound:
  assumes "now < d" and "d \<le> now + terminal_lifetime"
  shows "remaining_ms d now = Some (Some (word_of_nat (lifetime_ms d now)))"
    "unat (word_of_nat (lifetime_ms d now) :: u32) = lifetime_ms d now"
proof -
  have "lifetime_ms d now \<le> 10000"
    using assms(2) unfolding lifetime_ms_def terminal_lifetime_def by auto
  then have small: "lifetime_ms d now < 2 ^ 32" by simp
  with assms(1) show "remaining_ms d now = Some (Some (word_of_nat (lifetime_ms d now)))"
    by (simp add: remaining_ms_def lifetime_ms_def Let_def)
  show "unat (word_of_nat (lifetime_ms d now) :: u32) = lifetime_ms d now"
    using small by (simp add: unsigned_of_nat take_bit_nat_eq_self)
qed

section \<open>Properties\<close>

text \<open>What the overlay of a client is to show of a run: the phase of the same name, and the reboot as a
  phase of its own from version 3 of the protocol on.\<close>

definition shown_phase :: "upgrade_phase \<Rightarrow> wire_phase" where
  "shown_phase p =
     (case p of
        FirmwareDownloading \<Rightarrow> WpFirmwareDownloading
      | FirmwareVerifying \<Rightarrow> WpFirmwareVerifying
      | FirmwareApplying \<Rightarrow> WpFirmwareApplying
      | PackageRealizing \<Rightarrow> WpPackageRealizing
      | PackageVerifying \<Rightarrow> WpPackageVerifying
      | PackageBuilding \<Rightarrow> WpPackageBuilding
      | PackageActivating \<Rightarrow> WpPackageActivating)"

lemma phase_to_wire_shown: "map_option phase_to_wire p = map_option shown_phase p"
proof -
  have "phase_to_wire q = shown_phase q" for q by (cases q) (simp_all add: shown_phase_def)
  then show ?thesis by (cases p) simp_all
qed

fun shown_of :: "nat \<Rightarrow> run_status \<Rightarrow> instant \<Rightarrow> instant \<Rightarrow> shown_state" where
  "shown_of v (Running k p d) dl now = ShRunning (map_option shown_phase p) d"
| "shown_of v (Rebooting k) dl now =
     ShRunning (Some (if v < 3 then WpFirmwareApplying else WpRebooting)) None"
| "shown_of v (Succeeded k) dl now = ShSucceeded (from_millis (lifetime_ms dl now))"
| "shown_of v (Failed k r) dl now = ShFailed (from_millis (lifetime_ms dl now))"

text \<open>A package run has only package phases and does not reboot.\<close>

fun status_coherent :: "run_status \<Rightarrow> bool" where
  "status_coherent (Running k p d) =
     (case p of Some q \<Rightarrow> phase_is_valid_for_kind (wire_kind_of k) (phase_to_wire q) | None \<Rightarrow> True)"
| "status_coherent (Rebooting k) = (disruption_of k = Reboot)"
| "status_coherent (Succeeded k) = True"
| "status_coherent (Failed k r) = True"

lemma reboot_firmware: "disruption_of k = Reboot \<Longrightarrow> wire_kind_of k = WkFirmware"
  by (cases k) simp_all

lemma decode_running:
  assumes "status_coherent (Running k p d)"
  shows "decode_all (map (emit_event v) (WStarted (wire_kind_of k) #
      ((case p of Some q \<Rightarrow> [WPhase (phase_to_wire q)] | None \<Rightarrow> []) @
       (case d of Some q \<Rightarrow> [progress_event q] | None \<Rightarrow> [])) @ [WSnapshotDone])) None =
    ([UpSnapshot \<lparr>sh_kind = wire_kind_of k, sh_state = ShRunning (map_option phase_to_wire p) d\<rparr>], None)"
  using assms
  by (cases p; cases d)
    (simp_all add: decode_progress_event dec_started_def dec_phase_def dec_progress_def
      dec_snapshot_done_def)

text \<open>C36. From the events of any coherent upgrade snapshot the compositor caches, split into 32-bit
  words and sent to a client of any protocol version, the client's decoder, whatever stream it was
  fed up to the end of an earlier snapshot, commits exactly one update. A running upgrade has the same
  phase and download progress in it; an upgrade that waits for its reboot has the phase Rebooting for a
  client of version 3 or later, and FirmwareApplying, the nearest phase they know, for the older
  ones; a terminal state comes with the time left of its ten seconds, whose conversion to 32 bits
  never panics. An upgrade of packages alone is shown as one of packages, any other as firmware.\<close>

theorem upgrade_snapshot_roundtrip:
  assumes "sorted (map snd xs)" and "\<forall>x \<in> set xs. snd x \<le> now"
    and "cache_run xs = Some cs" and "st = run_state (cs_snapshot cs)" and "status_coherent st"
    and "is_terminal st \<longrightarrow> now < the (cs_deadline cs)"
  shows "\<exists>evs. cache_events now (cache_run xs) = Some (Some evs) \<and>
    decode_all (map (emit_event version) evs) (snd (decode_all (garbage @ [EvSnapshotDone]) None)) =
      ([UpSnapshot \<lparr>sh_kind = (if status_kind st = KPackages then WkPackages else WkFirmware),
          sh_state = shown_of version st (the (cs_deadline cs)) now\<rparr>], None)"
proof -
  have kind: "wire_kind_of k = (if k = KPackages then WkPackages else WkFirmware)" for k by (cases k) simp_all
  have inv: "cache_inv now (cache_run xs)" using assms(1,2) by (rule cache_run_inv)
  have rem: "\<exists>dl. cs_deadline cs = Some dl \<and>
      remaining_ms dl now = Some (Some (word_of_nat (lifetime_ms dl now))) \<and>
      unat (word_of_nat (lifetime_ms dl now) :: u32) = lifetime_ms dl now" if "is_terminal st"
    using inv assms(3,4,6) that remaining_ms_bound [of now "the (cs_deadline cs)"]
    by (auto simp: cache_inv_def)
  show ?thesis
  proof (cases st)
    case (Running k p d)
    with assms(5) decode_running [of k p d version] show ?thesis
      by (simp add: assms(3) assms(4) [symmetric] cache_events_def state_events_def decoder_resynchronises
          kind phase_to_wire_shown)
  next
    case (Rebooting k)
    with assms(5) have "k \<noteq> KPackages" by (cases k) simp_all
    with Rebooting assms(5) show ?thesis
      by (simp add: assms(3) assms(4) [symmetric] cache_events_def state_events_def dec_started_def dec_phase_def
          dec_snapshot_done_def reboot_firmware rebooting_phase_def decoder_resynchronises)
  next
    case (Succeeded k)
    with rem obtain dl where "cs_deadline cs = Some dl"
        "remaining_ms dl now = Some (Some (word_of_nat (lifetime_ms dl now)))"
        "unat (word_of_nat (lifetime_ms dl now) :: u32) = lifetime_ms dl now"
      by auto
    with Succeeded show ?thesis
      by (simp add: assms(3) assms(4) [symmetric] cache_events_def state_events_def terminal_events_def dec_started_def
          dec_terminal_def dec_snapshot_done_def decoder_resynchronises kind)
  next
    case (Failed k r)
    with rem obtain dl where "cs_deadline cs = Some dl"
        "remaining_ms dl now = Some (Some (word_of_nat (lifetime_ms dl now)))"
        "unat (word_of_nat (lifetime_ms dl now) :: u32) = lifetime_ms dl now"
      by auto
    with Failed show ?thesis
      by (simp add: assms(3) assms(4) [symmetric] cache_events_def state_events_def terminal_events_def dec_started_def
          dec_terminal_def dec_snapshot_done_def decoder_resynchronises kind)
  qed
qed

definition sample_snapshot :: run_snapshot where
  "sample_snapshot =
     \<lparr>generation = 3, run_id = Some 9,
      run_state = Running KPackages (Some PackageBuilding)
        (Some \<lparr>downloaded_bytes = 5000000000, total_bytes = Some 6000000000\<rparr>)\<rparr>"

definition rebooting_snapshot :: run_snapshot where
  "rebooting_snapshot = \<lparr>generation = 4, run_id = Some 9, run_state = Rebooting KFirmware\<rparr>"

theorem upgrade_snapshot_roundtrip_witness:
  "(\<exists>evs. cache_events 7 (cache_run [(sample_snapshot, 4)]) = Some (Some evs) \<and>
     decode_all (map (emit_event 2) evs) (snd (decode_all ([EvFailed 1] @ [EvSnapshotDone]) None)) =
       ([UpSnapshot \<lparr>sh_kind = WkPackages, sh_state = ShRunning (Some WpPackageBuilding)
           (Some \<lparr>downloaded_bytes = 5000000000, total_bytes = Some 6000000000\<rparr>)\<rparr>], None)) \<and>
   (\<exists>evs. cache_events 7 (cache_run [(rebooting_snapshot, 4)]) = Some (Some evs) \<and>
     decode_all (map (emit_event 2) evs) (snd (decode_all ([] @ [EvSnapshotDone]) None)) =
       ([UpSnapshot \<lparr>sh_kind = WkFirmware, sh_state = ShRunning (Some WpFirmwareApplying) None\<rparr>], None)) \<and>
   (\<exists>evs. cache_events 7 (cache_run [(rebooting_snapshot, 4)]) = Some (Some evs) \<and>
     decode_all (map (emit_event 3) evs) (snd (decode_all ([] @ [EvSnapshotDone]) None)) =
       ([UpSnapshot \<lparr>sh_kind = WkFirmware, sh_state = ShRunning (Some WpRebooting) None\<rparr>], None))"
proof (intro conjI)
  let ?reboot = "\<lparr>cs_snapshot = rebooting_snapshot, cs_deadline = None\<rparr>"
  have reboot: "cache_run [(rebooting_snapshot, 4)] = Some ?reboot"
    by (simp add: cache_run_def cache_set_def rebooting_snapshot_def)
  note shown = upgrade_snapshot_roundtrip [OF _ _ reboot refl, where now = 7 and garbage = "[]"]
  from shown [where version = 2]
  show "\<exists>evs. cache_events 7 (cache_run [(rebooting_snapshot, 4)]) = Some (Some evs) \<and>
     decode_all (map (emit_event 2) evs) (snd (decode_all ([] @ [EvSnapshotDone]) None)) =
       ([UpSnapshot \<lparr>sh_kind = WkFirmware, sh_state = ShRunning (Some WpFirmwareApplying) None\<rparr>], None)"
    by (simp add: rebooting_snapshot_def)
  from shown [where version = 3]
  show "\<exists>evs. cache_events 7 (cache_run [(rebooting_snapshot, 4)]) = Some (Some evs) \<and>
     decode_all (map (emit_event 3) evs) (snd (decode_all ([] @ [EvSnapshotDone]) None)) =
       ([UpSnapshot \<lparr>sh_kind = WkFirmware, sh_state = ShRunning (Some WpRebooting) None\<rparr>], None)"
    by (simp add: rebooting_snapshot_def)
next
  let ?cs = "\<lparr>cs_snapshot = sample_snapshot, cs_deadline = None\<rparr>"
  have "cache_run [(sample_snapshot, 4)] = Some ?cs"
    by (simp add: cache_run_def cache_set_def sample_snapshot_def)
  from upgrade_snapshot_roundtrip [OF _ _ this refl, of 7 2 "[EvFailed 1]"]
  show "\<exists>evs. cache_events 7 (cache_run [(sample_snapshot, 4)]) = Some (Some evs) \<and>
     decode_all (map (emit_event 2) evs) (snd (decode_all ([EvFailed 1] @ [EvSnapshotDone]) None)) =
       ([UpSnapshot \<lparr>sh_kind = WkPackages, sh_state = ShRunning (Some WpPackageBuilding)
           (Some \<lparr>downloaded_bytes = 5000000000, total_bytes = Some 6000000000\<rparr>)\<rparr>], None)"
    by (simp add: sample_snapshot_def shown_phase_def)
qed

text \<open>Malformed streams never change what the overlay shows: an event out of order between the
  start of a snapshot and its end makes the client drop that snapshot and keep its last coherent
  view.\<close>

lemma malformed_snapshot_dropped:
  assumes "d = Some InvalidCandidate" and "EvCleared \<notin> set es" and "EvSnapshotDone \<notin> set es"
  shows "decode_all (es @ [EvSnapshotDone]) d = ([], None)"
proof -
  have "decode_all es (Some InvalidCandidate) = ([], Some InvalidCandidate)"
    using assms(2,3)
  proof (induction es)
    case (Cons e es)
    then show ?case
      by (cases e) (auto simp: dec_started_def dec_phase_def dec_progress_def dec_terminal_def
          invalidate_active_def split: option.splits)
  qed simp
  then show ?thesis by (simp add: assms(1) decode_all_append dec_snapshot_done_def)
qed

end
