(* ===== verification/Upgrade_Projection.thy ===== *)
theory Upgrade_Projection
  imports Upgrade_Data Complex_Main
begin

text \<open>
  The observer of Boser's upgrade state on managed products (\<^verbatim>\<open>bmc/src/system_upgrade/boser.rs\<close>): it
  turns each reported state into a snapshot for the display, a value of the restart block
  (\<open>StateService\<close> of \<^verbatim>\<open>bmc/src/system_upgrade.rs\<close>) and, for a run nothing showed, an unseen outcome.
  The history of the display is compared with an abstract protocol of upgrade overlays, a small
  acceptor of event sequences. The megabyte counts of the restart block are floats in the source;
  the observer never computes with them and they are reals here.
\<close>

section \<open>Boser's states\<close>

datatype boser_state =
    BsNone
  | BsDownloadingImage download_progress
  | BsDownloadFailed string
  | BsRunning execution_id upgrade_kind boser_phase "download_progress option"
  | BsRebooting execution_id upgrade_kind
  | BsCompleted execution_id upgrade_kind
  | BsFailed execution_id upgrade_kind boser_phase string

datatype execution_key = KeyBoser execution_id | KeyDownload

fun key_id :: "execution_key \<Rightarrow> execution_id option" where
  "key_id (KeyBoser i) = Some i"
| "key_id KeyDownload = None"

fun display_phase :: "boser_phase \<Rightarrow> upgrade_phase option" where
  "display_phase BpPreparing = None"
| "display_phase BpUnknown = None"
| "display_phase (BpFirmware FwUnknown) = None"
| "display_phase (BpFirmware FwDownloading) = Some FirmwareDownloading"
| "display_phase (BpFirmware FwVerifying) = Some FirmwareVerifying"
| "display_phase (BpFirmware FwFlashing) = Some FirmwareApplying"
| "display_phase (BpPackages PkRealizing) = Some PackageRealizing"
| "display_phase (BpPackages PkVerifying) = Some PackageVerifying"
| "display_phase (BpPackages PkBuilding) = Some PackageBuilding"
| "display_phase (BpPackages PkActivating) = Some PackageActivating"
| "display_phase (BpPackages PkCleaning) = None"
| "display_phase (BpPackages PkFindingGarbageRoots) = None"
| "display_phase (BpPackages PkDeterminingGarbageLiveness) = None"
| "display_phase (BpPackages PkUnknown) = None"

fun project :: "boser_state \<Rightarrow> (execution_key \<times> run_status) option" where
  "project BsNone = None"
| "project (BsDownloadingImage d) =
     Some (KeyDownload, Running KFirmware (Some FirmwareDownloading) (Some d))"
| "project (BsDownloadFailed r) = Some (KeyDownload, Failed KFirmware r)"
| "project (BsRunning i k p d) = Some (KeyBoser i, Running k (display_phase p) d)"
| "project (BsRebooting i k) = Some (KeyBoser i, Rebooting k)"
| "project (BsCompleted i k) = Some (KeyBoser i, Succeeded k)"
| "project (BsFailed i k p r) = Some (KeyBoser i, Failed k r)"

fun unseen_outcome_of :: "execution_key \<Rightarrow> run_status \<Rightarrow> unseen_outcome option" where
  "unseen_outcome_of key (Succeeded k) =
     map_option (\<lambda>i. \<lparr>uo_id = i, uo_result = Inr ()\<rparr>) (key_id key)"
| "unseen_outcome_of key (Failed k r) =
     map_option (\<lambda>i. \<lparr>uo_id = i, uo_result = Inl r\<rparr>) (key_id key)"
| "unseen_outcome_of key (Running k p d) = None"
| "unseen_outcome_of key (Rebooting k) = None"

section \<open>The restart block\<close>

datatype system_upgrade_state =
    DownloadStarted "real option"
  | DownloadProgress real "real option"
  | DownloadFinished "string option" "real option"
  | UpgradeStarted
  | UpgradeFinished
  | UpgradeFailed

fun blocks_restart :: "system_upgrade_state \<Rightarrow> bool" where
  "blocks_restart (DownloadStarted t) = True"
| "blocks_restart (DownloadProgress d t) = True"
| "blocks_restart UpgradeStarted = True"
| "blocks_restart (DownloadFinished h t) = False"
| "blocks_restart UpgradeFinished = False"
| "blocks_restart UpgradeFailed = False"

text \<open>The watch value of \<open>StateService\<close>: setting a value that is already there is not a change.\<close>

definition state_notify ::
  "system_upgrade_state \<Rightarrow> system_upgrade_state option \<Rightarrow> system_upgrade_state option" where
  "state_notify v cur = (if cur \<noteq> Some v then Some v else cur)"

definition state_clear :: "system_upgrade_state option \<Rightarrow> system_upgrade_state option" where
  "state_clear cur = None"

section \<open>The projection\<close>

record projection =
  pj_display :: run_status_service
  pj_state :: "system_upgrade_state option"
  pj_current :: "(execution_key \<times> upgrade_generation) option"
  pj_ended :: "(execution_key \<times> upgrade_generation) option"
  pj_presented :: "execution_id option"
  pj_outage_since :: "instant option"

definition upgrade_outage_grace :: duration where
  "upgrade_outage_grace = from_secs 30"

definition projection_new :: projection where
  "projection_new =
     \<lparr>pj_display = run_status_new, pj_state = None, pj_current = None, pj_ended = None,
      pj_presented = None, pj_outage_since = None\<rparr>"

fun outcome_of :: "run_status \<Rightarrow> system_upgrade_state option" where
  "outcome_of (Running k p d) = None"
| "outcome_of (Rebooting k) = None"
| "outcome_of (Succeeded k) = Some UpgradeFinished"
| "outcome_of (Failed k r) = Some UpgradeFailed"

definition present ::
  "upgrade_generation \<Rightarrow> execution_id option \<Rightarrow> run_status \<Rightarrow> projection \<Rightarrow> projection" where
  "present gen i st p =
     (let p = p\<lparr>pj_display := rs_publish \<lparr>generation = gen, run_id = i, run_state = st\<rparr> (pj_display p)\<rparr>
      in case outcome_of st of
           None \<Rightarrow> p\<lparr>pj_state := state_notify UpgradeStarted (pj_state p)\<rparr>
         | Some outcome \<Rightarrow>
             p\<lparr>pj_state := state_notify outcome (pj_state p),
               pj_presented := (if i \<noteq> None then i else pj_presented p),
               pj_current := None, pj_outage_since := None\<rparr>)"

definition end_current :: "projection \<Rightarrow> projection" where
  "end_current p =
     (let p = p\<lparr>pj_outage_since := None\<rparr>
      in case pj_current p of
           None \<Rightarrow> p
         | Some e \<Rightarrow>
             p\<lparr>pj_current := None, pj_ended := Some e, pj_display := rs_clear (pj_display p),
               pj_state := state_clear (pj_state p)\<rparr>)"

text \<open>The guard of \<open>take_if\<close> on the run that ended without an outcome.\<close>

definition ended_generation :: "execution_key \<Rightarrow> projection \<Rightarrow> upgrade_generation option" where
  "ended_generation key p =
     (case pj_ended p of
        Some (ended, gen) \<Rightarrow> if ended = key then Some gen else None
      | None \<Rightarrow> None)"

text \<open>The second half of \<open>observe\<close>, with no live run on display.\<close>

definition observe_fresh :: "(execution_key \<times> run_status) option \<Rightarrow> projection \<Rightarrow> projection" where
  "observe_fresh projected p =
     (case projected of
        None \<Rightarrow> p
      | Some (key, st) \<Rightarrow>
          if \<not> is_terminal st then
            (let (gen, display) = next_generation (pj_display p)
             in present gen (key_id key) st
                  (p\<lparr>pj_ended := None, pj_display := display, pj_current := Some (key, gen)\<rparr>))
          else
            (case ended_generation key p of
               Some gen \<Rightarrow> present gen (key_id key) st (p\<lparr>pj_ended := None\<rparr>)
             | None \<Rightarrow>
                 if key_id key \<noteq> pj_presented p then
                   (case unseen_outcome_of key st of
                      Some u \<Rightarrow> p\<lparr>pj_display := publish_unseen_outcome u (pj_display p)\<rparr>
                    | None \<Rightarrow> p)
                 else p))"

definition observe :: "boser_state \<Rightarrow> projection \<Rightarrow> projection" where
  "observe response p =
     (let p = p\<lparr>pj_outage_since := None\<rparr>; projected = project response
      in case pj_current p of
           None \<Rightarrow> observe_fresh projected p
         | Some (current_key, gen) \<Rightarrow>
             (case projected of
                Some (key, st) \<Rightarrow>
                  if key = current_key then present gen (key_id current_key) st p
                  else observe_fresh projected (end_current p)
              | None \<Rightarrow> observe_fresh projected (end_current p)))"

definition contract_mismatch :: "projection \<Rightarrow> projection" where
  "contract_mismatch p = end_current p"

definition stream_lost :: "instant \<Rightarrow> projection \<Rightarrow> projection" where
  "stream_lost now p =
     (case pj_current p of
        None \<Rightarrow> p\<lparr>pj_outage_since := None\<rparr>
      | Some _ \<Rightarrow>
          (let since = (case pj_outage_since p of Some t \<Rightarrow> t | None \<Rightarrow> now);
               p = p\<lparr>pj_outage_since := Some since\<rparr>
           in if upgrade_outage_grace \<le> saturating_duration_since now since then end_current p else p))"

text \<open>What the stream task delivers to the observer.\<close>

datatype sink_call = Observe boser_state | ContractMismatch | StreamLost instant

fun sink :: "sink_call \<Rightarrow> projection \<Rightarrow> projection" where
  "sink (Observe r) p = observe r p"
| "sink ContractMismatch p = contract_mismatch p"
| "sink (StreamLost now) p = stream_lost now p"

definition projection_run :: "sink_call list \<Rightarrow> projection" where
  "projection_run cs = fold sink cs projection_new"

section \<open>The abstract protocol of upgrade overlays\<close>

text \<open>A run is shown under one generation; it ends with its outcome, or is taken down and may still
  get its outcome until another run, with a later generation, appears.\<close>

datatype overlay =
    OvFresh upgrade_generation
  | OvLive upgrade_generation "execution_id option"
  | OvDown upgrade_generation "execution_id option"

fun overlay_floor :: "overlay \<Rightarrow> upgrade_generation" where
  "overlay_floor (OvFresh n) = n"
| "overlay_floor (OvLive g i) = Suc g"
| "overlay_floor (OvDown g i) = Suc g"

fun overlay_next :: "run_snapshot option \<Rightarrow> overlay \<Rightarrow> overlay option" where
  "overlay_next None (OvLive g i) = Some (OvDown g i)"
| "overlay_next None ov = None"
| "overlay_next (Some x) ov =
     (if is_terminal (run_state x) then
        (if ov = OvLive (generation x) (run_id x) \<or> ov = OvDown (generation x) (run_id x)
         then Some (OvFresh (Suc (generation x))) else None)
      else if ov = OvLive (generation x) (run_id x) then Some ov
      else (case ov of
              OvLive g i \<Rightarrow> None
            | _ \<Rightarrow> if overlay_floor ov \<le> generation x then Some (OvLive (generation x) (run_id x))
                  else None))"

fun overlay_run :: "run_snapshot option list \<Rightarrow> overlay \<Rightarrow> overlay option" where
  "overlay_run [] ov = Some ov"
| "overlay_run (e # es) ov = Option.bind (overlay_next e ov) (overlay_run es)"

section \<open>Lemmas on the protocol\<close>

lemma overlay_run_append:
  "overlay_run (xs @ ys) ov = Option.bind (overlay_run xs ov) (overlay_run ys)"
proof (induction xs arbitrary: ov)
  case (Cons x xs)
  then show ?case by (cases "overlay_next x ov") simp_all
qed simp

fun overlay_low :: "overlay \<Rightarrow> upgrade_generation" where
  "overlay_low (OvFresh n) = n"
| "overlay_low (OvLive g i) = g"
| "overlay_low (OvDown g i) = g"

lemma overlay_next_low:
  assumes "overlay_next e ov = Some ov'"
  shows "overlay_low ov \<le> overlay_low ov' \<and> (\<forall>x. e = Some x \<longrightarrow> overlay_low ov \<le> generation x)"
proof (cases e)
  case None
  with assms show ?thesis by (cases ov) auto
next
  case (Some y)
  with assms show ?thesis
    by (cases ov; cases "is_terminal (run_state y)") (auto split: if_splits)
qed

lemma overlay_run_low:
  "overlay_run es ov = Some ov' \<Longrightarrow> Some x \<in> set es \<Longrightarrow> overlay_low ov \<le> generation x"
proof (induction es arbitrary: ov)
  case (Cons e es)
  then show ?case
    by (fastforce simp: bind_eq_Some_conv dest: overlay_next_low order_trans)
qed simp

lemma overlay_next_shown:
  assumes "overlay_next e ov = Some ov'" and "ov' = OvLive g i \<or> ov' = OvDown g i"
  shows "ov = OvLive g i \<or> ov = OvDown g i \<or>
    (\<exists>y. e = Some y \<and> \<not> is_terminal (run_state y) \<and> generation y = g \<and> run_id y = i)"
  using assms by (cases e; cases ov) (auto split: if_splits)

lemma overlay_run_shown:
  assumes "overlay_run es (OvFresh n) = Some ov" and "ov = OvLive g i \<or> ov = OvDown g i"
  shows "\<exists>y. Some y \<in> set es \<and> \<not> is_terminal (run_state y) \<and> generation y = g \<and> run_id y = i"
  using assms
proof (induction es arbitrary: ov rule: rev_induct)
  case (snoc e es)
  then obtain ov1 where ov1: "overlay_run es (OvFresh n) = Some ov1" "overlay_next e ov1 = Some ov"
    by (auto simp: overlay_run_append bind_eq_Some_conv)
  from overlay_next_shown [OF ov1(2) snoc.prems(2)] snoc.IH [OF ov1(1)] show ?case by auto
qed auto

lemma overlay_terminal:
  assumes "overlay_run (es @ Some x # fs) (OvFresh n) = Some ov" and "is_terminal (run_state x)"
  shows "(\<exists>y. Some y \<in> set es \<and> \<not> is_terminal (run_state y) \<and> generation y = generation x \<and>
      run_id y = run_id x) \<and>
    (\<forall>y. Some y \<in> set fs \<longrightarrow> generation x < generation y)"
proof -
  from assms obtain ov1 where ov1: "overlay_run es (OvFresh n) = Some ov1"
      "ov1 = OvLive (generation x) (run_id x) \<or> ov1 = OvDown (generation x) (run_id x)"
      "overlay_run fs (OvFresh (Suc (generation x))) = Some ov"
    by (auto simp: overlay_run_append bind_eq_Some_conv split: if_splits)
  with overlay_run_shown [OF ov1(1,2)] overlay_run_low [OF ov1(3)] show ?thesis by fastforce
qed

section \<open>Invariant\<close>

definition projection_inv :: "projection \<Rightarrow> bool" where
  "projection_inv p \<longleftrightarrow>
     (\<exists>ov. overlay_run (rs_events (pj_display p)) (OvFresh 0) = Some ov \<and>
        overlay_floor ov \<le> rs_generation (pj_display p) \<and>
        (case pj_current p of
           Some (key, g) \<Rightarrow>
             ov = OvLive g (key_id key) \<and> pj_ended p = None \<and> pj_state p = Some UpgradeStarted \<and>
             (\<exists>st. rs_current (pj_display p) =
                Some \<lparr>generation = g, run_id = key_id key, run_state = st\<rparr> \<and> \<not> is_terminal st)
         | None \<Rightarrow>
             (case pj_ended p of
                Some (key, g) \<Rightarrow>
                  ov = OvDown g (key_id key) \<and> rs_current (pj_display p) = None \<and> pj_state p = None
              | None \<Rightarrow>
                  (\<exists>n. ov = OvFresh n) \<and>
                  pj_state p = Option.bind (rs_current (pj_display p)) (\<lambda>x. outcome_of (run_state x)) \<and>
                  (case rs_current (pj_display p) of
                     Some x \<Rightarrow> is_terminal (run_state x) \<and>
                       (run_id x \<noteq> None \<longrightarrow> pj_presented p = run_id x)
                   | None \<Rightarrow> True))))"

lemma is_terminal_outcome: "is_terminal st \<longleftrightarrow> outcome_of st \<noteq> None"
  by (cases st) simp_all

lemma state_notify [simp]: "state_notify v cur = Some v"
  by (simp add: state_notify_def)

lemma rs_publish_events:
  "rs_events (rs_publish x s) = (if rs_current s = Some x then rs_events s else rs_events s @ [Some x])"
  by (simp add: rs_publish_def)

lemma rs_clear_events:
  "rs_events (rs_clear s) = (if rs_current s = None then rs_events s else rs_events s @ [None])"
  by (simp add: rs_clear_def)

lemmas projection_defs = present_def end_current_def projection_inv_def state_clear_def
  rs_publish_events rs_clear_events overlay_run_append is_terminal_outcome

lemma projection_new_inv: "projection_inv projection_new"
  by (auto simp: projection_inv_def projection_new_def run_status_new_def)

lemma outage_irrelevant [simp]: "projection_inv (p\<lparr>pj_outage_since := t\<rparr>) = projection_inv p"
  unfolding projection_inv_def by (simp split: option.split)

lemma end_current_inv:
  "projection_inv p \<Longrightarrow> projection_inv (end_current p) \<and> pj_current (end_current p) = None"
  by (auto simp: projection_defs Let_def split: option.splits)

lemma present_live_inv:
  assumes "projection_inv p" and "pj_current p = Some (key, g)"
  shows "projection_inv (present g (key_id key) st p)"
  using assms by (cases "outcome_of st") (auto simp: projection_defs Let_def)

lemma present_ended_inv:
  assumes "projection_inv p" and "pj_current p = None" and "pj_ended p = Some (key, g)"
    and "is_terminal st"
  shows "projection_inv (present g (key_id key) st (p\<lparr>pj_ended := None\<rparr>))"
  using assms by (auto simp: projection_defs Let_def)

lemma start_run_inv:
  assumes "projection_inv p" and "pj_current p = None" and "\<not> is_terminal st"
  shows "projection_inv (present (rs_generation (pj_display p)) (key_id key) st
    (p\<lparr>pj_ended := None, pj_display := (pj_display p)\<lparr>rs_generation := Suc (rs_generation (pj_display p))\<rparr>,
      pj_current := Some (key, rs_generation (pj_display p))\<rparr>))"
proof -
  let ?x = "\<lparr>generation = rs_generation (pj_display p), run_id = key_id key, run_state = st\<rparr>"
  from assms have "rs_current (pj_display p) \<noteq> Some ?x"
    by (auto simp: projection_inv_def split: option.splits)
  with assms show ?thesis
    by (auto simp: projection_defs Let_def split: option.splits)
qed

lemma unseen_inv:
  "projection_inv p \<Longrightarrow>
   projection_inv (p\<lparr>pj_display := publish_unseen_outcome u (pj_display p)\<rparr>)"
  by (auto simp: projection_inv_def split: option.splits)

lemma observe_fresh_inv:
  assumes "projection_inv p" and "pj_current p = None"
  shows "projection_inv (observe_fresh projected p)"
proof (cases projected)
  case (Some x)
  obtain key st where x: "projected = Some (key, st)" using Some by (cases x) simp
  show ?thesis
  proof (cases "is_terminal st")
    case False
    with x start_run_inv [OF assms False, of key] show ?thesis
      by (simp add: observe_fresh_def next_generation_def)
  next
    case True
    show ?thesis
    proof (cases "ended_generation key p")
      case None
      with x True assms show ?thesis
        by (auto simp: observe_fresh_def unseen_inv split: option.split)
    next
      case (Some gen)
      then have "pj_ended p = Some (key, gen)"
        by (auto simp: ended_generation_def split: option.splits if_splits)
      with x True Some present_ended_inv [OF assms _ True] show ?thesis
        by (simp add: observe_fresh_def)
    qed
  qed
qed (simp add: observe_fresh_def assms)

lemma observe_eq:
  "observe r p =
     (let p = p\<lparr>pj_outage_since := None\<rparr> in
      case pj_current p of
        Some (key, gen) \<Rightarrow>
          if map_option fst (project r) = Some key then present gen (key_id key) (snd (the (project r))) p
          else observe_fresh (project r) (end_current p)
      | None \<Rightarrow> observe_fresh (project r) p)"
  by (auto simp: observe_def Let_def split: option.splits)

lemma observe_inv:
  assumes "projection_inv p"
  shows "projection_inv (observe r p)"
proof -
  let ?p = "p\<lparr>pj_outage_since := None\<rparr>"
  have inv: "projection_inv ?p" using assms by simp
  show ?thesis
  proof (cases "pj_current ?p")
    case None
    with observe_fresh_inv [OF inv] show ?thesis by (simp add: observe_eq Let_def)
  next
    case (Some c)
    then obtain key gen where "pj_current ?p = Some (key, gen)" by (cases c) simp
    with present_live_inv [OF inv] end_current_inv [OF inv] observe_fresh_inv show ?thesis
      by (simp add: observe_eq Let_def)
  qed
qed

lemma stream_lost_inv: "projection_inv p \<Longrightarrow> projection_inv (stream_lost now p)"
  using end_current_inv by (simp add: stream_lost_def Let_def split: option.split)

lemma sink_inv: "projection_inv p \<Longrightarrow> projection_inv (sink c p)"
  using end_current_inv
  by (cases c) (simp_all add: observe_inv stream_lost_inv contract_mismatch_def)

lemma projection_run_inv: "projection_inv (projection_run cs)"
proof -
  have "projection_inv p \<Longrightarrow> projection_inv (fold sink cs p)" for p
    by (induction cs arbitrary: p) (simp_all add: sink_inv)
  then show ?thesis by (simp add: projection_run_def projection_new_inv)
qed

section \<open>The display and its events\<close>

lemma present_current_last:
  "current_is_last (pj_display p) \<Longrightarrow> current_is_last (pj_display (present g i st p))"
  by (simp add: present_def Let_def split: option.split)

lemma end_current_current_last:
  "current_is_last (pj_display p) \<Longrightarrow> current_is_last (pj_display (end_current p))"
  by (simp add: end_current_def Let_def split: option.split)

lemma observe_fresh_current_last:
  "current_is_last (pj_display p) \<Longrightarrow> current_is_last (pj_display (observe_fresh x p))"
  by (simp add: observe_fresh_def case_prod_beta present_current_last split: option.split)

lemma sink_current_last:
  "current_is_last (pj_display p) \<Longrightarrow> current_is_last (pj_display (sink c p))"
  by (cases c) (simp_all add: observe_eq contract_mismatch_def stream_lost_def
      present_current_last end_current_current_last observe_fresh_current_last Let_def
      split: option.split)

lemma rs_current_last: "current_is_last (pj_display (projection_run cs))"
proof -
  have "current_is_last (pj_display p) \<Longrightarrow> current_is_last (pj_display (fold sink cs p))" for p
    by (induction cs arbitrary: p) (simp_all add: sink_current_last)
  then show ?thesis by (simp add: projection_run_def projection_new_def)
qed

section \<open>Replayed states\<close>

text \<open>A state the observer has taken account of.\<close>

definition settled :: "boser_state \<Rightarrow> projection \<Rightarrow> bool" where
  "settled r p \<longleftrightarrow> pj_outage_since p = None \<and>
     (case project r of
        None \<Rightarrow> pj_current p = None
      | Some (key, st) \<Rightarrow>
          if is_terminal st then
            pj_current p = None \<and> ended_generation key p = None \<and>
            (key_id key = pj_presented p \<or>
             (\<forall>u. unseen_outcome_of key st = Some u \<longrightarrow> rs_unseen (pj_display p) = Some u))
          else
            (\<exists>g. pj_current p = Some (key, g) \<and> pj_state p = Some UpgradeStarted \<and>
               rs_current (pj_display p) =
                 Some \<lparr>generation = g, run_id = key_id key, run_state = st\<rparr>))"

lemma outage_none_same: "pj_outage_since p = None \<Longrightarrow> p\<lparr>pj_outage_since := None\<rparr> = p"
  by (cases p) simp

lemma present_same:
  assumes "pj_state p = Some UpgradeStarted" and "outcome_of st = None"
    and "rs_current (pj_display p) = Some \<lparr>generation = g, run_id = i, run_state = st\<rparr>"
  shows "present g i st p = p"
  using assms by (cases p) (simp add: present_def rs_publish_def)

lemma observe_settled:
  assumes "settled r p"
  shows "observe r p = p"
proof (cases "project r")
  case None
  with assms show ?thesis
    by (simp add: settled_def observe_def outage_none_same observe_fresh_def)
next
  case (Some x)
  then obtain key st where x: "project r = Some (key, st)" by (cases x) simp
  show ?thesis
  proof (cases "is_terminal st")
    case False
    with x assms show ?thesis
      by (auto simp: settled_def observe_def outage_none_same is_terminal_outcome present_same)
  next
    case True
    then have "observe r p = observe_fresh (Some (key, st)) p"
      using x assms by (simp add: settled_def observe_def outage_none_same)
    moreover have "p\<lparr>pj_display := publish_unseen_outcome u (pj_display p)\<rparr> = p"
      if "rs_unseen (pj_display p) = Some u" for u
      using that by (cases p) (simp add: publish_unseen_outcome_def)
    ultimately show ?thesis using True x assms
      by (auto simp: settled_def observe_fresh_def split: option.split)
  qed
qed

lemma present_live_settled:
  assumes "projection_inv p" "pj_current p = Some (key, g)" "pj_outage_since p = None"
    and "project r = Some (key, st)"
  shows "settled r (present g (key_id key) st p)"
  using assms
  by (cases st) (auto simp: settled_def present_def ended_generation_def projection_inv_def
      Let_def)

lemma observe_fresh_settled:
  assumes "projection_inv p" "pj_current p = None" "pj_outage_since p = None"
  shows "settled r (observe_fresh (project r) p)"
proof (cases "project r")
  case (Some x)
  obtain key st where x: "project r = Some (key, st)" using Some by (cases x) simp
  show ?thesis
  proof (cases "is_terminal st \<and> ended_generation key p \<noteq> None")
    case True
    with x assms show ?thesis
      by (cases st; cases key)
        (auto simp: settled_def observe_fresh_def present_def ended_generation_def Let_def)
  next
    case False
    with x assms show ?thesis
      by (cases st) (auto simp: settled_def observe_fresh_def present_def ended_generation_def
          next_generation_def publish_unseen_outcome_def Let_def split: option.splits)
  qed
qed (simp add: settled_def observe_fresh_def assms)

lemma observe_settles:
  assumes "projection_inv p"
  shows "settled r (observe r p)"
proof -
  let ?p = "p\<lparr>pj_outage_since := None\<rparr>"
  have inv: "projection_inv ?p" using assms by simp
  show ?thesis
  proof (cases "pj_current p")
    case None
    with observe_fresh_settled [OF inv] show ?thesis by (simp add: observe_eq Let_def)
  next
    case (Some c)
    then obtain key gen where c: "pj_current p = Some (key, gen)" by (cases c) simp
    have "pj_outage_since (end_current ?p) = None"
      by (simp add: end_current_def Let_def split: option.split)
    with c present_live_settled [OF inv] end_current_inv [OF inv] observe_fresh_settled
    show ?thesis by (auto simp: observe_eq Let_def)
  qed
qed

section \<open>Outages\<close>

lemma losses_after_end: "pj_current p = None \<Longrightarrow> pj_current (fold sink (map StreamLost ts) p) = None"
  by (induction ts arbitrary: p) (simp_all add: stream_lost_def)

lemma losses_during_outage:
  assumes "pj_current p = Some (key, g)" and "pj_outage_since p = Some t"
  shows "pj_current (fold sink (map StreamLost ts) p) =
    (if \<exists>u \<in> set ts. upgrade_outage_grace \<le> u - t then None else Some (key, g))"
  using assms
proof (induction ts arbitrary: p)
  case (Cons u ts)
  show ?case
  proof (cases "upgrade_outage_grace \<le> u - t")
    case True
    with Cons.prems have "pj_current (stream_lost u p) = None"
      by (simp add: stream_lost_def saturating_duration_since_def end_current_def Let_def)
    with True show ?thesis by (simp add: losses_after_end)
  next
    case False
    with Cons.prems have "stream_lost u p = p"
      by (cases p) (simp add: stream_lost_def saturating_duration_since_def Let_def)
    with False Cons show ?thesis by simp
  qed
qed simp

section \<open>Properties\<close>

text \<open>C15. What the observer puts on display is a correct history of upgrade runs, whatever Boser
  reports, however often the stream drops and whatever it cannot read: an outcome is only ever
  shown for a run that was shown running before, under the same generation and execution id, and
  nothing of that generation is shown after it.\<close>

theorem upgrade_history_correct:
  assumes "rs_events (pj_display (projection_run cs)) = es @ Some x # fs"
    and "is_terminal (run_state x)"
  shows "(\<exists>y. Some y \<in> set es \<and> \<not> is_terminal (run_state y) \<and>
      generation y = generation x \<and> run_id y = run_id x) \<and>
    (\<forall>y. Some y \<in> set fs \<longrightarrow> generation x < generation y)"
proof -
  from projection_run_inv [of cs] assms obtain ov where
    "overlay_run (es @ Some x # fs) (OvFresh 0) = Some ov" by (auto simp: projection_inv_def)
  from this assms(2) show ?thesis by (rule overlay_terminal)
qed

definition sample_run :: "sink_call list" where
  "sample_run =
     [Observe (BsCompleted 4 KPackages), Observe (BsRunning 7 KFirmware (BpFirmware FwFlashing) None),
      StreamLost 5, StreamLost (5 + upgrade_outage_grace), Observe (BsCompleted 7 KFirmware)]"

lemma sample_run_events:
  "rs_events (pj_display (projection_run sample_run)) =
     [Some \<lparr>generation = 0, run_id = Some 7, run_state = Running KFirmware (Some FirmwareApplying) None\<rparr>,
      None] @ Some \<lparr>generation = 0, run_id = Some 7, run_state = Succeeded KFirmware\<rparr> # []"
  by (simp add: projection_run_def sample_run_def projection_new_def run_status_new_def observe_def
      observe_fresh_def ended_generation_def next_generation_def present_def end_current_def
      stream_lost_def saturating_duration_since_def publish_unseen_outcome_def rs_publish_def
      rs_clear_def Let_def)

theorem upgrade_history_correct_witness:
  "\<exists>y. Some y \<in> set [Some \<lparr>generation = 0, run_id = Some 7,
        run_state = Running KFirmware (Some FirmwareApplying) None\<rparr>, None] \<and>
     \<not> is_terminal (run_state y) \<and> generation y = 0 \<and> run_id y = Some 7"
  using upgrade_history_correct [OF sample_run_events] by simp

text \<open>C35. The display, the restart block and the followed execution always agree: while an execution
  is followed, the display shows it running under its generation and restarts are declined; while
  none is, the display is empty or shows an outcome, the restart block holds that outcome or
  nothing, and restarts are allowed.\<close>

theorem upgrade_display_agrees:
  "case pj_current (projection_run cs) of
     Some (key, gen) \<Rightarrow>
       (\<exists>st. rs_current (pj_display (projection_run cs)) =
          Some \<lparr>generation = gen, run_id = key_id key, run_state = st\<rparr> \<and> \<not> is_terminal st) \<and>
       map_option blocks_restart (pj_state (projection_run cs)) = Some True
   | None \<Rightarrow>
       (case rs_current (pj_display (projection_run cs)) of
          Some x \<Rightarrow> pj_state (projection_run cs) = outcome_of (run_state x) \<and>
            map_option blocks_restart (outcome_of (run_state x)) = Some False
        | None \<Rightarrow> pj_state (projection_run cs) = None)"
proof -
  have blk: "is_terminal st \<Longrightarrow> \<exists>z. outcome_of st = Some z \<and> \<not> blocks_restart z" for st
    by (cases st) simp_all
  from projection_run_inv [of cs] show ?thesis
    by (auto simp: projection_inv_def blk split: option.splits)
qed

text \<open>Boser replays its current state on every connection, and a replay changes nothing: the
  second observation of the same state leaves the display, its history, the restart block, the
  unseen outcome and the observer itself as the first one left them.\<close>

lemma observation_replay_idempotent:
  "projection_run (cs @ [Observe r, Observe r]) = projection_run (cs @ [Observe r])"
  by (simp add: projection_run_def observe_settled
      observe_settles [OF projection_run_inv [unfolded projection_run_def]])

text \<open>A lost stream takes a live run off the display only once the outage has lasted its grace
  of thirty seconds, measured from the first failed attempt, and a run is then taken down by the
  first attempt that fails after it.\<close>

lemma outage_grace_exact:
  assumes "pj_current (projection_run cs) = Some (key, g)"
    and "pj_outage_since (projection_run cs) = None"
  shows "pj_current (projection_run (cs @ map StreamLost (t # ts))) =
    (if \<exists>u \<in> set ts. upgrade_outage_grace \<le> u - t then None else Some (key, g))"
proof -
  have "stream_lost t (projection_run cs) = (projection_run cs)\<lparr>pj_outage_since := Some t\<rparr>"
    using assms
    by (simp add: stream_lost_def saturating_duration_since_def upgrade_outage_grace_def Let_def)
  with assms show ?thesis
    by (simp add: projection_run_def losses_during_outage [where t = t])
qed

end
