(* ===== verification/Widget_Pause.thy ===== *)
theory Widget_Pause
  imports Upgrade_Projection
begin

text \<open>
  The widget pause (\<^verbatim>\<open>bmc/src/system_upgrade/widget_pause.rs\<close>): widgets are stopped while a firmware
  image is downloaded and flashed. The listener follows every display event of the run status
  service. One turn of its loop is a function of what woke it, the events queued behind that, and
  the time; the operation in flight is its target level, and the operations started are recorded.
  An \<open>expect\<close> that fails is \<open>None\<close>.
\<close>

section \<open>The pause\<close>

definition replacement_grace :: duration where
  "replacement_grace = from_secs 30"

datatype stage = Preparing | Applying

datatype pause = Idle | Paused upgrade_generation stage "instant option"

datatype level = LvRunning | LvStopped

fun desired :: "pause \<Rightarrow> level" where
  "desired Idle = LvRunning"
| "desired (Paused g st l) = LvStopped"

fun lapses_at :: "pause \<Rightarrow> instant option" where
  "lapses_at Idle = None"
| "lapses_at (Paused g st l) = l"

definition carries_firmware :: "upgrade_kind \<Rightarrow> bool" where
  "carries_firmware k \<longleftrightarrow> (case disruption_of k of Reboot \<Rightarrow> True | AppRestart \<Rightarrow> False)"

fun pause_cleared :: "instant \<Rightarrow> pause \<Rightarrow> pause" where
  "pause_cleared now (Paused g Preparing None) = Paused g Preparing (Some (now + replacement_grace))"
| "pause_cleared now p = p"

definition applying_before :: "upgrade_generation \<Rightarrow> pause \<Rightarrow> bool" where
  "applying_before gen p =
     (case p of
        Paused g st l \<Rightarrow> st = Applying \<and> g = gen
      | Idle \<Rightarrow> False)"

fun pause_step :: "instant \<Rightarrow> run_snapshot option \<Rightarrow> pause \<Rightarrow> pause" where
  "pause_step now None p = pause_cleared now p"
| "pause_step now (Some x) p =
     (case run_state x of
        Running k phase d \<Rightarrow>
          if carries_firmware k then
            Paused (generation x)
              (if applying_before (generation x) p \<or> phase = Some FirmwareApplying
               then Applying else Preparing) None
          else Idle
      | Rebooting k \<Rightarrow> if carries_firmware k then Paused (generation x) Applying None else Idle
      | Succeeded k \<Rightarrow> if carries_firmware k then p else Idle
      | Failed k r \<Rightarrow> Idle)"

fun pause_expire :: "instant \<Rightarrow> pause \<Rightarrow> pause" where
  "pause_expire now (Paused g st (Some deadline)) =
     (if deadline \<le> now then Idle else Paused g st (Some deadline))"
| "pause_expire now (Paused g st None) = Paused g st None"
| "pause_expire now Idle = Idle"

section \<open>The listener\<close>

datatype wake = WakeSnapshot "run_snapshot option" | OperationDone | Lapsed

record listener =
  ls_pause :: pause
  ls_reached :: level
  ls_in_flight :: "level option"
  ls_ack :: "upgrade_generation option"
  ls_started :: "level list"

definition listener_new :: listener where
  "listener_new =
     \<lparr>ls_pause = Idle, ls_reached = LvRunning, ls_in_flight = None, ls_ack = None, ls_started = []\<rparr>"

definition acknowledged :: "listener \<Rightarrow> upgrade_generation option" where
  "acknowledged s =
     (case ls_pause s of
        Paused g st l \<Rightarrow>
          if ls_in_flight s = None \<and> ls_reached s = LvStopped then Some g else None
      | Idle \<Rightarrow> None)"

definition start_operation :: "listener \<Rightarrow> listener" where
  "start_operation s =
     (if ls_in_flight s = None \<and> desired (ls_pause s) \<noteq> ls_reached s
      then s\<lparr>ls_in_flight := Some (desired (ls_pause s)),
             ls_started := ls_started s @ [desired (ls_pause s)]\<rparr>
      else s)"

fun wake_events :: "wake \<Rightarrow> run_snapshot option list" where
  "wake_events (WakeSnapshot e) = [e]"
| "wake_events OperationDone = []"
| "wake_events Lapsed = []"

definition take_wake :: "wake \<Rightarrow> instant \<Rightarrow> listener \<Rightarrow> listener option" where
  "take_wake w now s =
     (case w of
        WakeSnapshot e \<Rightarrow> Some s
      | OperationDone \<Rightarrow>
          map_option (\<lambda>target. s\<lparr>ls_reached := target, ls_in_flight := None\<rparr>) (ls_in_flight s)
      | Lapsed \<Rightarrow> Some (s\<lparr>ls_pause := pause_expire now (ls_pause s)\<rparr>))"

definition drive_turn ::
  "wake \<times> run_snapshot option list \<times> instant \<Rightarrow> listener \<Rightarrow> listener option" where
  "drive_turn t s =
     (let (w, queued, now) = t;
          s = s\<lparr>ls_pause := fold (pause_step now) (wake_events w @ queued) (ls_pause s)\<rparr>
      in map_option (\<lambda>s. let s = start_operation s in s\<lparr>ls_ack := acknowledged s\<rparr>)
           (take_wake w now s))"

text \<open>The branches the loop selects from: an operation completes only while one is in flight, and
  the pause lapses only when its deadline is armed and has passed.\<close>

fun wake_enabled :: "wake \<Rightarrow> instant \<Rightarrow> listener \<Rightarrow> bool" where
  "wake_enabled (WakeSnapshot e) now s = True"
| "wake_enabled OperationDone now s = (ls_in_flight s \<noteq> None)"
| "wake_enabled Lapsed now s = (case lapses_at (ls_pause s) of Some d \<Rightarrow> d \<le> now | None \<Rightarrow> False)"

text \<open>A run of the listener: each turn with its wake, the queued events and the time.\<close>

inductive drives :: "listener \<Rightarrow> run_snapshot option list \<Rightarrow> bool" where
  drives_start: "drives listener_new []"
| drives_turn: "drives s es \<Longrightarrow> wake_enabled w now s \<Longrightarrow> drive_turn (w, queued, now) s = Some s' \<Longrightarrow>
    drives s' (es @ wake_events w @ queued)"

section \<open>Invariants\<close>

fun pause_wf :: "pause \<Rightarrow> bool" where
  "pause_wf (Paused g Applying (Some l)) = False"
| "pause_wf p = True"

lemma pause_cleared_wf: "pause_wf p \<Longrightarrow> pause_wf (pause_cleared now p)"
  by (induction now p rule: pause_cleared.induct) auto

lemma pause_wf_None [simp]: "pause_wf (Paused g st None)"
  by (cases st) simp_all

lemma pause_step_wf: "pause_wf p \<Longrightarrow> pause_wf (pause_step now e p)"
  by (cases e) (auto simp: pause_cleared_wf split: run_status.split)

lemma pause_fold_wf: "pause_wf p \<Longrightarrow> pause_wf (fold (pause_step now) es p)"
  by (induction es arbitrary: p) (simp_all add: pause_step_wf)

lemma pause_expire_wf: "pause_wf p \<Longrightarrow> pause_wf (pause_expire now p)"
  by (induction now p rule: pause_expire.induct) auto

text \<open>Operations alternate, beginning with a stop, and the last of them is in flight or reached.\<close>

fun level_after :: "level list \<Rightarrow> level \<Rightarrow> level option" where
  "level_after [] l = Some l"
| "level_after (x # xs) l = (if x = l then None else level_after xs x)"

lemma level_after_append:
  "level_after (xs @ [x]) l = Option.bind (level_after xs l) (\<lambda>y. if x = y then None else Some x)"
  by (induction xs arbitrary: l) auto

definition listener_inv :: "listener \<Rightarrow> bool" where
  "listener_inv s \<longleftrightarrow> pause_wf (ls_pause s) \<and> ls_ack s = acknowledged s \<and>
     (case ls_in_flight s of
        None \<Rightarrow> ls_reached s = desired (ls_pause s) \<and>
          level_after (ls_started s) LvRunning = Some (ls_reached s)
      | Some t \<Rightarrow> t \<noteq> ls_reached s \<and> level_after (ls_started s) LvRunning = Some t)"

lemma listener_new_inv: "listener_inv listener_new"
  by (simp add: listener_inv_def listener_new_def acknowledged_def)

lemma acknowledged_ack [simp]: "acknowledged (s\<lparr>ls_ack := a\<rparr>) = acknowledged s"
  by (simp add: acknowledged_def split: pause.split)

lemma finish_turn_inv:
  assumes "pause_wf (ls_pause s)"
    and "case ls_in_flight s of
        None \<Rightarrow> level_after (ls_started s) LvRunning = Some (ls_reached s)
      | Some t \<Rightarrow> t \<noteq> ls_reached s \<and> level_after (ls_started s) LvRunning = Some t"
  shows "listener_inv (let s = start_operation s in s\<lparr>ls_ack := acknowledged s\<rparr>)"
  using assms
  by (auto simp: listener_inv_def start_operation_def level_after_append Let_def split: option.splits)

lemma drive_turn_inv:
  assumes "listener_inv s" and "drive_turn (w, queued, now) s = Some s'"
  shows "listener_inv s'"
proof -
  from assms(2) obtain t where t: "take_wake w now
        (s\<lparr>ls_pause := fold (pause_step now) (wake_events w @ queued) (ls_pause s)\<rparr>) = Some t"
      "s' = (let s = start_operation t in s\<lparr>ls_ack := acknowledged s\<rparr>)"
    by (auto simp: drive_turn_def Let_def)
  have "pause_wf (ls_pause t) \<and> (case ls_in_flight t of
        None \<Rightarrow> level_after (ls_started t) LvRunning = Some (ls_reached t)
      | Some l \<Rightarrow> l \<noteq> ls_reached t \<and> level_after (ls_started t) LvRunning = Some l)"
    using t(1) assms(1)
    by (cases w) (auto simp: take_wake_def listener_inv_def pause_fold_wf pause_step_wf
        pause_expire_wf split: option.splits)
  with t(2) show ?thesis by (simp add: finish_turn_inv)
qed

lemma drives_inv: "drives s es \<Longrightarrow> listener_inv s"
  by (induction rule: drives.induct) (auto simp: listener_new_inv drive_turn_inv)

lemma drive_turn_total:
  "wake_enabled w now s \<Longrightarrow> \<exists>s'. drive_turn (w, queued, now) s = Some s'"
  by (cases w) (auto simp: drive_turn_def take_wake_def Let_def)

section \<open>The pause of a live firmware run\<close>

fun live_firmware :: "run_status \<Rightarrow> bool" where
  "live_firmware (Running k p d) = carries_firmware k"
| "live_firmware (Rebooting k) = carries_firmware k"
| "live_firmware (Succeeded k) = False"
| "live_firmware (Failed k r) = False"

definition held :: "upgrade_generation \<Rightarrow> pause \<Rightarrow> bool" where
  "held g p \<longleftrightarrow> (\<exists>st. p = Paused g st None)"

lemma held_expire: "held g p \<Longrightarrow> pause_expire now p = p"
  by (auto simp: held_def)

lemma live_step_held: "live_firmware (run_state x) \<Longrightarrow> held (generation x) (pause_step now (Some x) p)"
  by (auto simp: held_def split: run_status.splits)

lemma fold_live_held:
  "es \<noteq> [] \<Longrightarrow> last es = Some x \<Longrightarrow> live_firmware (run_state x) \<Longrightarrow>
   held (generation x) (fold (pause_step now) es p)"
  by (induction es arbitrary: p rule: rev_induct) (simp_all add: live_step_held del: pause_step.simps)

lemma drive_turn_pause:
  assumes "drive_turn (w, queued, now) s = Some s'"
  shows "ls_pause s' =
    (if w = Lapsed then pause_expire now (fold (pause_step now) queued (ls_pause s))
     else fold (pause_step now) (wake_events w @ queued) (ls_pause s))"
  using assms
  by (cases w) (auto simp: drive_turn_def take_wake_def start_operation_def Let_def)

lemma drives_held:
  "drives s es \<Longrightarrow> es \<noteq> [] \<Longrightarrow> last es = Some x \<Longrightarrow> live_firmware (run_state x) \<Longrightarrow>
   held (generation x) (ls_pause s)"
proof (induction rule: drives.induct)
  case (drives_turn s es w now queued s')
  let ?c = "wake_events w @ queued"
  show ?case
  proof (cases "?c = []")
    case True
    with drives_turn have "held (generation x) (ls_pause s)" by simp
    with True drive_turn_pause [OF drives_turn.hyps(3)] show ?thesis
      by (auto simp: held_expire)
  next
    case False
    with drives_turn.prems have "held (generation x) (fold (pause_step now) ?c (ls_pause s))"
      by (intro fold_live_held) auto
    with drive_turn_pause [OF drives_turn.hyps(3)] show ?thesis
      by (auto simp: held_expire)
  qed
qed simp

section \<open>Turns without a release\<close>

text \<open>Events that do not release a run that is being applied.\<close>

fun quiet :: "upgrade_generation \<Rightarrow> run_snapshot option \<Rightarrow> bool" where
  "quiet g None = True"
| "quiet g (Some x) =
     (case run_state x of
        Running k p d \<Rightarrow> carries_firmware k \<and> generation x = g
      | Rebooting k \<Rightarrow> carries_firmware k \<and> generation x = g
      | Succeeded k \<Rightarrow> carries_firmware k
      | Failed k r \<Rightarrow> False)"

fun drive_all ::
  "(wake \<times> run_snapshot option list \<times> instant) list \<Rightarrow> listener \<Rightarrow> listener option" where
  "drive_all [] s = Some s"
| "drive_all (t # ts) s = Option.bind (drive_turn t s) (drive_all ts)"

lemma quiet_step: "quiet g e \<Longrightarrow> pause_step now e (Paused g Applying None) = Paused g Applying None"
  by (cases e) (auto simp: applying_before_def split: run_status.splits)

lemma quiet_fold:
  "\<forall>e \<in> set es. quiet g e \<Longrightarrow>
   fold (pause_step now) es (Paused g Applying None) = Paused g Applying None"
  by (induction es) (simp_all add: quiet_step del: pause_step.simps quiet.simps)

lemma start_operation_pause [simp]: "ls_pause (start_operation s) = ls_pause s"
  by (simp add: start_operation_def)

lemma start_operation_started:
  "ls_started (start_operation s) = ls_started s \<or>
   ls_started (start_operation s) = ls_started s @ [desired (ls_pause s)]"
  by (simp add: start_operation_def)

lemma drive_turn_started:
  assumes "drive_turn (w, queued, now) s = Some s'"
  shows "ls_started s' = ls_started s \<or> ls_started s' = ls_started s @ [desired (ls_pause s')]"
proof -
  from assms obtain t where t: "take_wake w now
        (s\<lparr>ls_pause := fold (pause_step now) (wake_events w @ queued) (ls_pause s)\<rparr>) = Some t"
      "s' = (start_operation t)\<lparr>ls_ack := acknowledged (start_operation t)\<rparr>"
    by (auto simp: drive_turn_def Let_def)
  from t(1) have "ls_started t = ls_started s" by (cases w) (auto simp: take_wake_def)
  with t(2) start_operation_started [of t] show ?thesis by simp
qed

text \<open>A snapshot that keeps a paused listener paused starts no operation.\<close>

lemma stopped_turn:
  assumes "listener_inv s" "desired (ls_pause s) = LvStopped" "desired (ls_pause s') = LvStopped"
    and "drive_turn (WakeSnapshot e, queued, now) s = Some s'"
  shows "ls_started s' = ls_started s"
proof -
  let ?t = "s\<lparr>ls_pause := fold (pause_step now) (e # queued) (ls_pause s)\<rparr>"
  have s': "s' = (start_operation ?t)\<lparr>ls_ack := acknowledged (start_operation ?t)\<rparr>"
    using assms(4) by (auto simp: drive_turn_def take_wake_def Let_def)
  then have "desired (ls_pause ?t) = LvStopped"
    using assms(3) by (simp del: fold_simps)
  with assms(1,2) have "start_operation ?t = ?t"
    by (cases "ls_in_flight s") (simp_all add: start_operation_def listener_inv_def del: fold_simps)
  with s' show ?thesis by simp
qed

lemma applying_turns:
  assumes "drive_all ts s = Some s'" and "ls_pause s = Paused g Applying None"
    and "\<forall>(w, queued, now) \<in> set ts. \<forall>e \<in> set (wake_events w @ queued). quiet g e"
  shows "ls_pause s' = Paused g Applying None \<and>
    (\<exists>ops. ls_started s' = ls_started s @ ops \<and> LvRunning \<notin> set ops)"
  using assms
proof (induction ts arbitrary: s)
  case (Cons t ts)
  obtain w queued now where t: "t = (w, queued, now)" by (cases t)
  from Cons.prems t obtain s1 where s1: "drive_turn (w, queued, now) s = Some s1" "drive_all ts s1 = Some s'"
    by (auto simp: bind_eq_Some_conv)
  have q: "\<forall>e \<in> set (wake_events w @ queued). quiet g e" using Cons.prems(3) t by simp
  have p1: "ls_pause s1 = Paused g Applying None"
  proof (cases "w = Lapsed")
    case True
    with drive_turn_pause [OF s1(1)] Cons.prems(2) quiet_fold [of queued g now] q show ?thesis by simp
  next
    case False
    with drive_turn_pause [OF s1(1)] Cons.prems(2) quiet_fold [OF q, of now] show ?thesis by simp
  qed
  from Cons.IH [OF s1(2) p1] Cons.prems(3) obtain ops where
    "ls_pause s' = Paused g Applying None" "ls_started s' = ls_started s1 @ ops" "LvRunning \<notin> set ops"
    by auto
  with drive_turn_started [OF s1(1)] p1 show ?case
    by (cases "ls_started s1 = ls_started s") auto
qed simp

lemma drives_all:
  assumes "drives s es" and "listener_inv s"
  shows "drive_all ts s = Some s' \<Longrightarrow> listener_inv s'"
  using assms(2)
proof (induction ts arbitrary: s)
  case (Cons t ts)
  then show ?case
    by (cases t) (auto simp: bind_eq_Some_conv intro: drive_turn_inv)
qed simp

section \<open>Properties\<close>

text \<open>C8. While the display shows a live firmware run, and the widget pause has taken in every display
  event and has no operation under way, every widget is stopped and the acknowledgement a
  download waits for names that run's generation, whatever Boser reported and however events,
  completions and lapses were interleaved.\<close>

theorem live_firmware_run_pauses:
  assumes "drives s (rs_events (pj_display (projection_run cs)))"
    and "rs_current (pj_display (projection_run cs)) = Some x" and "live_firmware (run_state x)"
    and "ls_in_flight s = None"
  shows "ls_reached s = LvStopped \<and> ls_ack s = Some (generation x)"
proof -
  from assms(2) rs_current_last [of cs] have
    "rs_events (pj_display (projection_run cs)) \<noteq> []"
    "last (rs_events (pj_display (projection_run cs))) = Some x"
    by (auto simp: current_is_last_def split: if_splits)
  from drives_held [OF assms(1) this assms(3)] drives_inv [OF assms(1)] assms(4) show ?thesis
    by (auto simp: held_def listener_inv_def acknowledged_def)
qed

definition flash_calls :: "sink_call list" where
  "flash_calls = [Observe (BsRunning 7 KFirmware (BpFirmware FwDownloading) None)]"

definition flash_snapshot :: run_snapshot where
  "flash_snapshot =
     \<lparr>generation = 0, run_id = Some 7, run_state = Running KFirmware (Some FirmwareDownloading) None\<rparr>"

lemma flash_display:
  "rs_events (pj_display (projection_run flash_calls)) = [Some flash_snapshot]"
  "rs_current (pj_display (projection_run flash_calls)) = Some flash_snapshot"
  by (simp_all add: projection_run_def flash_calls_def flash_snapshot_def projection_new_def
      run_status_new_def observe_def observe_fresh_def next_generation_def present_def
      rs_publish_def Let_def)

definition stopped_listener :: listener where
  "stopped_listener =
     \<lparr>ls_pause = Paused 0 Preparing None, ls_reached = LvStopped, ls_in_flight = None,
      ls_ack = Some 0, ls_started = [LvStopped]\<rparr>"

lemma stopped_listener_drives: "drives stopped_listener [Some flash_snapshot]"
proof -
  let ?s = "\<lparr>ls_pause = Paused 0 Preparing None, ls_reached = LvRunning,
      ls_in_flight = Some LvStopped, ls_ack = None, ls_started = [LvStopped]\<rparr>"
  have "drive_turn (WakeSnapshot (Some flash_snapshot), [], 1) listener_new = Some ?s"
    by (simp add: drive_turn_def take_wake_def flash_snapshot_def listener_new_def
        carries_firmware_def applying_before_def start_operation_def acknowledged_def Let_def)
  from drives_turn [OF drives_start _ this] have "drives ?s [Some flash_snapshot]" by simp
  moreover have "drive_turn (OperationDone, [], 2) ?s = Some stopped_listener"
    by (simp add: drive_turn_def take_wake_def stopped_listener_def start_operation_def
        acknowledged_def)
  ultimately show ?thesis
    using drives_turn [of ?s "[Some flash_snapshot]" OperationDone 2 "[]" stopped_listener] by simp
qed

theorem live_firmware_run_pauses_witness:
  "ls_reached stopped_listener = LvStopped \<and> ls_ack stopped_listener = Some (generation flash_snapshot)"
proof -
  have "drives stopped_listener (rs_events (pj_display (projection_run flash_calls)))"
    by (simp only: flash_display stopped_listener_drives)
  from live_firmware_run_pauses [OF this flash_display(2)] show ?thesis
    by (simp add: flash_snapshot_def carries_firmware_def stopped_listener_def)
qed

text \<open>C34. Once firmware is being applied, widgets stay stopped: whatever number of turns, cleared
  displays, completed operations, elapsed deadlines, progress of the same run and reported
  successes follow, the pause is held without a deadline, no restart of the widgets is started,
  and at rest they are stopped.\<close>

theorem applying_never_releases:
  assumes "drives s es" and "ls_pause s = Paused g Applying l" and "drive_all ts s = Some s'"
    and "\<forall>(w, queued, now) \<in> set ts. \<forall>e \<in> set (wake_events w @ queued). quiet g e"
  shows "ls_pause s' = Paused g Applying None \<and>
    (\<exists>ops. ls_started s' = ls_started s @ ops \<and> LvRunning \<notin> set ops) \<and>
    (ls_in_flight s' = None \<longrightarrow> ls_reached s' = LvStopped \<and> ls_ack s' = Some g)"
proof -
  have inv: "listener_inv s" using assms(1) by (rule drives_inv)
  with assms(2) have "l = None" by (cases l) (auto simp: listener_inv_def)
  with applying_turns [OF assms(3) _ assms(4)] assms(2)
  have *: "ls_pause s' = Paused g Applying None \<and>
      (\<exists>ops. ls_started s' = ls_started s @ ops \<and> LvRunning \<notin> set ops)" by simp
  have "listener_inv s'" using drives_all [OF assms(1) inv assms(3)] .
  with * show ?thesis by (cases "ls_in_flight s'") (auto simp: listener_inv_def acknowledged_def)
qed

definition applying_listener :: listener where
  "applying_listener =
     \<lparr>ls_pause = Paused 0 Applying None, ls_reached = LvRunning, ls_in_flight = Some LvStopped,
      ls_ack = None, ls_started = [LvStopped]\<rparr>"

definition reboot_snapshot :: run_snapshot where
  "reboot_snapshot = \<lparr>generation = 0, run_id = None, run_state = Rebooting KFirmwareAndPackages\<rparr>"

lemma applying_listener_drives: "drives applying_listener [Some reboot_snapshot]"
proof -
  have "drive_turn (WakeSnapshot (Some reboot_snapshot), [], 1) listener_new = Some applying_listener"
    by (simp add: drive_turn_def take_wake_def reboot_snapshot_def listener_new_def
        applying_listener_def carries_firmware_def start_operation_def acknowledged_def Let_def)
  from drives_turn [OF drives_start _ this] show ?thesis by simp
qed

theorem applying_never_releases_witness:
  "ls_pause (applying_listener\<lparr>ls_reached := LvStopped, ls_in_flight := None, ls_ack := Some 0\<rparr>) =
     Paused 0 Applying None \<and>
   drive_all [(WakeSnapshot None, [], 5), (OperationDone, [None], 9)] applying_listener =
     Some (applying_listener\<lparr>ls_reached := LvStopped, ls_in_flight := None, ls_ack := Some 0\<rparr>)"
proof -
  let ?ts = "[(WakeSnapshot None, [], 5), (OperationDone, [None], 9)]"
  let ?s = "applying_listener\<lparr>ls_reached := LvStopped, ls_in_flight := None, ls_ack := Some 0\<rparr>"
  have run: "drive_all ?ts applying_listener = Some ?s"
    by (simp add: drive_turn_def take_wake_def applying_listener_def start_operation_def
        acknowledged_def Let_def)
  have "ls_pause applying_listener = Paused 0 Applying None" by (simp add: applying_listener_def)
  from applying_never_releases [OF applying_listener_drives this run] run show ?thesis by simp
qed

text \<open>A firmware run that leaves the display without an outcome keeps the widgets stopped for
  exactly its thirty seconds of grace: the deadline is armed once and counts from the first clear,
  it fires no earlier, a firmware run that appears before it takes the pause over without a
  restart of the widgets, and when it fires with nothing to replace the run the pause is released.\<close>

lemma replacement_grace_exact:
  assumes "drives s es" and "ls_pause s = Paused g Preparing None"
    and "drive_turn (WakeSnapshot None, replicate n None, t) s = Some s1"
  shows "(wake_enabled Lapsed now s1 \<longleftrightarrow> t + replacement_grace \<le> now) \<and>
    ls_started s1 = ls_started s \<and>
    (live_firmware (run_state x) \<longrightarrow>
      (\<exists>s2. drive_turn (WakeSnapshot (Some x), [], now) s1 = Some s2 \<and>
         held (generation x) (ls_pause s2) \<and> ls_started s2 = ls_started s)) \<and>
    (t + replacement_grace \<le> now \<longrightarrow>
      (\<exists>s2. drive_turn (Lapsed, [], now) s1 = Some s2 \<and> ls_pause s2 = Idle))"
proof -
  have "fold (pause_step t) (replicate n None) (Paused g Preparing (Some d)) =
      Paused g Preparing (Some d)" for d
    by (induction n) simp_all
  then have p1: "ls_pause s1 = Paused g Preparing (Some (t + replacement_grace))"
    using drive_turn_pause [OF assms(3)] assms(2) by simp
  have inv: "listener_inv s" using assms(1) by (rule drives_inv)
  then have inv1: "listener_inv s1" using assms(3) by (rule drive_turn_inv)
  have st1: "ls_started s1 = ls_started s"
    using stopped_turn [OF inv _ _ assms(3)] assms(2) p1 by simp
  have "\<exists>s2. drive_turn (WakeSnapshot (Some x), [], now) s1 = Some s2 \<and>
         held (generation x) (ls_pause s2) \<and> ls_started s2 = ls_started s"
    if live: "live_firmware (run_state x)"
  proof -
    obtain s2 where s2: "drive_turn (WakeSnapshot (Some x), [], now) s1 = Some s2"
      using drive_turn_total [of "WakeSnapshot (Some x)" now s1 "[]"] by auto
    with drive_turn_pause [OF s2] live_step_held [OF live] have h: "held (generation x) (ls_pause s2)"
      by (simp del: pause_step.simps)
    then have "desired (ls_pause s2) = LvStopped" by (auto simp: held_def)
    with stopped_turn [OF inv1 _ _ s2] p1 st1 s2 h show ?thesis by simp
  qed
  moreover have "\<exists>s2. drive_turn (Lapsed, [], now) s1 = Some s2 \<and> ls_pause s2 = Idle"
    if "t + replacement_grace \<le> now"
    using that p1 by (simp add: drive_turn_def take_wake_def Let_def)
  ultimately show ?thesis using p1 st1 by simp
qed

text \<open>C38. The listener never panics and always converges: every enabled wake is handled, operations
  alternate between stopping and restarting the widgets, at rest the widgets are at the level the
  pause asks for and the acknowledgement names the paused run, and without further events at most
  two completions bring it to rest.\<close>

theorem pause_listener_converges:
  assumes "drives s es"
  shows "(wake_enabled w now s \<longrightarrow> (\<exists>s'. drive_turn (w, queued, now) s = Some s')) \<and>
    level_after (ls_started s) LvRunning \<noteq> None \<and> ls_ack s = acknowledged s \<and>
    (case ls_in_flight s of
       None \<Rightarrow> ls_reached s = desired (ls_pause s)
     | Some target \<Rightarrow>
         (\<exists>s1. drive_turn (OperationDone, [], now) s = Some s1 \<and>
            (ls_in_flight s1 = None \<and> ls_reached s1 = desired (ls_pause s) \<or>
             (\<exists>s2. drive_turn (OperationDone, [], now) s1 = Some s2 \<and>
                ls_in_flight s2 = None \<and> ls_reached s2 = desired (ls_pause s)))))"
proof -
  have inv: "listener_inv s" using assms by (rule drives_inv)
  have "\<exists>s1. drive_turn (OperationDone, [], now) s = Some s1 \<and>
      (ls_in_flight s1 = None \<and> ls_reached s1 = desired (ls_pause s) \<or>
       (\<exists>s2. drive_turn (OperationDone, [], now) s1 = Some s2 \<and>
          ls_in_flight s2 = None \<and> ls_reached s2 = desired (ls_pause s)))"
    if "ls_in_flight s = Some target" for target
    using that
    by (cases "target = desired (ls_pause s)")
      (simp_all add: drive_turn_def take_wake_def start_operation_def Let_def)
  with inv drive_turn_total [of w now s queued] show ?thesis
    by (auto simp: listener_inv_def split: option.split)
qed

theorem pause_listener_converges_witness:
  "\<exists>s'. drive_turn (OperationDone, [], 3) applying_listener = Some s'"
  using pause_listener_converges [OF applying_listener_drives, of OperationDone 3 "[]"]
  by (simp add: applying_listener_def)

end
