(* ===== verification/Upgrade_Follow.thy ===== *)
theory Upgrade_Follow
  imports Upgrade_Data
begin

text \<open>
  Following one upgrade run (\<^verbatim>\<open>bmc/src/system_upgrade/boser/progress.rs\<close>): the stream a client reads
  after starting an upgrade on a managed product, computed from what the observer publishes. The
  updates the follower receives are a list; a deadline that passes before the run appears and a
  sender that is gone are the update \<open>UpdateLost\<close>. A \<open>Result\<close> is a sum with the error on the left.
\<close>

section \<open>The follower\<close>

datatype followed = FoPhase upgrade_phase | FoDownload download_progress | FoFinished

datatype follow_error = FollowFailed string | FollowLost

type_synonym follow_item = "follow_error + followed"

datatype follow_update =
    UpdateDisplay "run_snapshot option"
  | UpdateUnseen "unseen_outcome option"
  | UpdateLost

record follower =
  fo_offer :: execution_id
  fo_seen :: bool
  fo_last_phase :: "upgrade_phase option"
  fo_last_download :: "download_progress option"
  fo_pending :: "follow_item list"
  fo_ended :: bool

definition follow_new :: "execution_id \<Rightarrow> follower" where
  "follow_new offer =
     \<lparr>fo_offer = offer, fo_seen = False, fo_last_phase = None, fo_last_download = None,
      fo_pending = [], fo_ended = False\<rparr>"

definition follow_end :: "follow_item \<Rightarrow> follower \<Rightarrow> follower" where
  "follow_end item f = f\<lparr>fo_pending := fo_pending f @ [item], fo_ended := True\<rparr>"

definition conclude :: "unseen_outcome option \<Rightarrow> follower \<Rightarrow> follower" where
  "conclude outcome f =
     (case outcome of
        None \<Rightarrow> f
      | Some u \<Rightarrow>
          if uo_id u = fo_offer f then
            (case uo_result u of
               Inr _ \<Rightarrow> follow_end (Inr FoFinished) f
             | Inl reason \<Rightarrow> follow_end (Inl (FollowFailed reason)) f)
          else f)"

definition judge_phase :: "upgrade_phase option \<Rightarrow> follower \<Rightarrow> follower" where
  "judge_phase phase f =
     (case phase of
        Some p \<Rightarrow>
          if p \<noteq> FirmwareApplying \<and> fo_last_phase f \<noteq> Some p
          then f\<lparr>fo_last_phase := Some p, fo_last_download := None,
                 fo_pending := fo_pending f @ [Inr (FoPhase p)]\<rparr>
          else f
      | None \<Rightarrow> f)"

definition judge_download :: "download_progress option \<Rightarrow> follower \<Rightarrow> follower" where
  "judge_download progress f =
     (case progress of
        Some d \<Rightarrow>
          if fo_last_download f \<noteq> Some d
          then f\<lparr>fo_last_download := Some d, fo_pending := fo_pending f @ [Inr (FoDownload d)]\<rparr>
          else f
      | None \<Rightarrow> f)"

definition own_state :: "run_snapshot option \<Rightarrow> follower \<Rightarrow> run_status option" where
  "own_state snapshot f =
     Option.bind snapshot (\<lambda>x. if run_id x = Some (fo_offer f) then Some (run_state x) else None)"

definition judge :: "run_snapshot option \<Rightarrow> follower \<Rightarrow> follower" where
  "judge snapshot f =
     (case own_state snapshot f of
        None \<Rightarrow> if fo_seen f then follow_end (Inl FollowLost) f else f
      | Some st \<Rightarrow>
          (let f = f\<lparr>fo_seen := True\<rparr>
           in case st of
                Running k phase progress \<Rightarrow> judge_download progress (judge_phase phase f)
              | Rebooting k \<Rightarrow> follow_end (Inr (FoPhase FirmwareApplying)) f
              | Succeeded k \<Rightarrow> follow_end (Inr FoFinished) f
              | Failed k reason \<Rightarrow> follow_end (Inl (FollowFailed reason)) f))"

fun follow_update_step :: "follow_update \<Rightarrow> follower \<Rightarrow> follower" where
  "follow_update_step (UpdateDisplay s) f = judge s f"
| "follow_update_step (UpdateUnseen u) f = conclude u f"
| "follow_update_step UpdateLost f = follow_end (Inl FollowLost) f"

text \<open>The stream: pending items first, then nothing once ended, then the next update. It yields the
  items delivered from the given updates and whether the stream has ended.\<close>

function follow_items :: "follow_update list \<Rightarrow> follower \<Rightarrow> follow_item list \<times> bool" where
  "follow_items us f =
     (case fo_pending f of
        item # rest \<Rightarrow>
          (let (items, ended) = follow_items us (f\<lparr>fo_pending := rest\<rparr>) in (item # items, ended))
      | [] \<Rightarrow>
          if fo_ended f then ([], True)
          else (case us of
                  [] \<Rightarrow> ([], False)
                | u # us' \<Rightarrow> follow_items us' (follow_update_step u f)))"
  by pat_completeness auto
termination
  by (relation "measures [\<lambda>(us, f). length us, \<lambda>(us, f). length (fo_pending f)]") auto

declare follow_items.simps [simp del]

lemma follow_items_pending:
  "follow_items us f =
     (let (items, ended) = follow_items us (f\<lparr>fo_pending := []\<rparr>) in (fo_pending f @ items, ended))"
proof (induction "fo_pending f" arbitrary: f)
  case Nil
  then have same: "f\<lparr>fo_pending := []\<rparr> = f" by (cases f) simp
  show ?case unfolding same using Nil [symmetric] by (simp add: case_prod_beta)
next
  case (Cons item rest)
  from Cons(1) [of "f\<lparr>fo_pending := rest\<rparr>"] Cons(2) [symmetric] show ?case
    by (subst follow_items.simps) (simp add: case_prod_beta)
qed

lemma follow_items_ended [simp]:
  "fo_pending f = [] \<Longrightarrow> fo_ended f \<Longrightarrow> follow_items us f = ([], True)"
  by (subst follow_items.simps) simp

lemma follow_items_blocked [simp]:
  "fo_pending f = [] \<Longrightarrow> \<not> fo_ended f \<Longrightarrow> follow_items [] f = ([], False)"
  by (subst follow_items.simps) simp

lemma follow_items_update:
  "fo_pending f = [] \<Longrightarrow> \<not> fo_ended f \<Longrightarrow>
   follow_items (u # us) f = follow_items us (follow_update_step u f)"
  by (subst follow_items.simps) simp

section \<open>The shape of the stream\<close>

text \<open>The progress items, against the phase and the download reported last.\<close>

fun progress_ok :: "upgrade_phase option \<Rightarrow> download_progress option \<Rightarrow> follow_item list \<Rightarrow> bool" where
  "progress_ok p d [] = True"
| "progress_ok p d (Inr (FoPhase q) # xs) =
     (q \<noteq> FirmwareApplying \<and> p \<noteq> Some q \<and> progress_ok (Some q) None xs)"
| "progress_ok p d (Inr (FoDownload e) # xs) = (d \<noteq> Some e \<and> progress_ok p (Some e) xs)"
| "progress_ok p d (Inr FoFinished # xs) = False"
| "progress_ok p d (Inl e # xs) = False"

fun final_item :: "follow_item \<Rightarrow> bool" where
  "final_item (Inl e) = True"
| "final_item (Inr FoFinished) = True"
| "final_item (Inr (FoPhase q)) = (q = FirmwareApplying)"
| "final_item (Inr (FoDownload d)) = False"

definition stream_ok ::
  "upgrade_phase option \<Rightarrow> download_progress option \<Rightarrow> follow_item list \<Rightarrow> bool \<Rightarrow> bool" where
  "stream_ok p d items ended \<longleftrightarrow>
     (if ended then \<exists>xs x. items = xs @ [x] \<and> progress_ok p d xs \<and> final_item x
      else progress_ok p d items)"

text \<open>One update of a waiting follower: it ends with one final item, or appends progress.\<close>

lemma judge_running:
  fixes p d
  assumes "fo_pending f = []" and "\<not> fo_ended f"
  defines "g \<equiv> judge_download d (judge_phase p f)"
  shows "\<not> fo_ended g \<and>
    (progress_ok (fo_last_phase g) (fo_last_download g) xs \<longrightarrow>
     progress_ok (fo_last_phase f) (fo_last_download f) (fo_pending g @ xs))"
  using assms(1,2) unfolding g_def
  by (auto simp: judge_download_def judge_phase_def split: option.splits)

lemma follow_update_step_shape:
  fixes u
  assumes "fo_pending f = []" and "\<not> fo_ended f"
  defines "g \<equiv> follow_update_step u f"
  shows "(fo_ended g \<and> (\<exists>x. fo_pending g = [x] \<and> final_item x)) \<or>
    (\<not> fo_ended g \<and>
     (\<forall>xs. progress_ok (fo_last_phase g) (fo_last_download g) xs \<longrightarrow>
        progress_ok (fo_last_phase f) (fo_last_download f) (fo_pending g @ xs)))"
proof (cases u)
  case (UpdateDisplay s)
  show ?thesis
  proof (cases "own_state s f")
    case None
    with UpdateDisplay assms show ?thesis by (simp add: judge_def follow_end_def)
  next
    case (Some st)
    with UpdateDisplay assms judge_running [of "f\<lparr>fo_seen := True\<rparr>"] show ?thesis
      by (cases st) (simp_all add: judge_def follow_end_def)
  qed
next
  case (UpdateUnseen v)
  with assms show ?thesis
    by (auto simp: conclude_def follow_end_def split: option.split sum.split)
next
  case UpdateLost
  with assms show ?thesis by (simp add: follow_end_def)
qed

lemma follow_items_ok:
  assumes "fo_pending f = []" and "\<not> fo_ended f"
  shows "stream_ok (fo_last_phase f) (fo_last_download f) (fst (follow_items us f)) (snd (follow_items us f))"
  using assms
proof (induction us arbitrary: f)
  case Nil
  then show ?case by (simp add: stream_ok_def)
next
  case (Cons u us)
  let ?g = "follow_update_step u f" and ?h = "(follow_update_step u f)\<lparr>fo_pending := []\<rparr>"
  have eq: "follow_items (u # us) f =
      (fo_pending ?g @ fst (follow_items us ?h), snd (follow_items us ?h))"
    using Cons.prems by (simp add: follow_items_update follow_items_pending [of us ?g] case_prod_beta)
  show ?case
  proof (cases "fo_ended ?g")
    case True
    with follow_update_step_shape [OF Cons.prems, of u] eq show ?thesis
      by (auto simp: stream_ok_def)
  next
    case False
    with Cons.IH [of ?h] have "stream_ok (fo_last_phase ?g) (fo_last_download ?g)
        (fst (follow_items us ?h)) (snd (follow_items us ?h))" by simp
    with follow_update_step_shape [OF Cons.prems, of u] False eq show ?thesis
      by (auto simp: stream_ok_def simp flip: append_assoc)
  qed
qed

section \<open>What the items rest on\<close>

text \<open>The updates that report an item about the run of an offer.\<close>

fun reports :: "execution_id \<Rightarrow> follow_item \<Rightarrow> follow_update \<Rightarrow> bool" where
  "reports offer item (UpdateDisplay s) =
     (case s of
        None \<Rightarrow> item = Inl FollowLost
      | Some x \<Rightarrow>
          if run_id x = Some offer then
            (case run_state x of
               Running k p d \<Rightarrow>
                 (\<exists>q. p = Some q \<and> q \<noteq> FirmwareApplying \<and> item = Inr (FoPhase q)) \<or>
                 (\<exists>e. d = Some e \<and> item = Inr (FoDownload e))
             | Rebooting k \<Rightarrow> item = Inr (FoPhase FirmwareApplying)
             | Succeeded k \<Rightarrow> item = Inr FoFinished
             | Failed k r \<Rightarrow> item = Inl (FollowFailed r))
          else item = Inl FollowLost)"
| "reports offer item (UpdateUnseen u) =
     (case u of
        None \<Rightarrow> False
      | Some v \<Rightarrow> uo_id v = offer \<and>
          (case uo_result v of
             Inr _ \<Rightarrow> item = Inr FoFinished
           | Inl r \<Rightarrow> item = Inl (FollowFailed r)))"
| "reports offer item UpdateLost = (item = Inl FollowLost)"

lemma judge_phase_pending:
  "fo_pending (judge_phase p f) = fo_pending f @
     (case p of
        Some q \<Rightarrow> if q \<noteq> FirmwareApplying \<and> fo_last_phase f \<noteq> Some q then [Inr (FoPhase q)] else []
      | None \<Rightarrow> [])"
  "fo_offer (judge_phase p f) = fo_offer f"
  by (simp_all add: judge_phase_def split: option.split)

lemma judge_download_pending:
  "fo_pending (judge_download d f) = fo_pending f @
     (case d of
        Some e \<Rightarrow> if fo_last_download f \<noteq> Some e then [Inr (FoDownload e)] else []
      | None \<Rightarrow> [])"
  "fo_offer (judge_download d f) = fo_offer f"
  by (simp_all add: judge_download_def split: option.split)

lemma follow_update_step_reports:
  assumes "fo_pending f = []"
  shows "fo_offer (follow_update_step u f) = fo_offer f \<and>
    (\<forall>item \<in> set (fo_pending (follow_update_step u f)). reports (fo_offer f) item u)"
proof (cases u)
  case (UpdateDisplay s)
  show ?thesis
  proof (cases "\<exists>x. s = Some x \<and> run_id x = Some (fo_offer f)")
    case True
    then obtain x where x: "s = Some x" "run_id x = Some (fo_offer f)" by blast
    with UpdateDisplay assms show ?thesis
      by (cases "run_state x") (auto simp: judge_def own_state_def follow_end_def
          judge_download_pending judge_phase_pending split: if_splits option.splits)
  next
    case False
    then have "own_state s f = None" by (cases s) (auto simp: own_state_def)
    with False UpdateDisplay assms show ?thesis
      by (cases s) (auto simp: judge_def follow_end_def)
  qed
next
  case (UpdateUnseen v)
  with assms show ?thesis
    by (auto simp: conclude_def follow_end_def split: option.split sum.split)
next
  case UpdateLost
  with assms show ?thesis by (simp add: follow_end_def)
qed

lemma follow_items_reports:
  assumes "fo_pending f = []" and "item \<in> set (fst (follow_items us f))"
  shows "\<exists>u \<in> set us. reports (fo_offer f) item u"
  using assms
proof (induction us arbitrary: f)
  case Nil
  then show ?case by (cases "fo_ended f") simp_all
next
  case (Cons u us)
  let ?g = "follow_update_step u f" and ?h = "(follow_update_step u f)\<lparr>fo_pending := []\<rparr>"
  show ?case
  proof (cases "fo_ended f")
    case True
    with Cons.prems show ?thesis by simp
  next
    case False
    then have "follow_items (u # us) f =
        (fo_pending ?g @ fst (follow_items us ?h), snd (follow_items us ?h))"
      using Cons.prems by (simp add: follow_items_update follow_items_pending [of us ?g] case_prod_beta)
    with Cons.prems(2) have "item \<in> set (fo_pending ?g) \<or> item \<in> set (fst (follow_items us ?h))" by simp
    with Cons.IH [of ?h] follow_update_step_reports [OF Cons.prems(1), of u] show ?thesis by auto
  qed
qed

section \<open>Properties\<close>

text \<open>The progress stream of an upgrade run is well formed whatever the observer publishes: it
  ends with exactly one final item (the outcome, the loss of the run, or the hand-over to the
  reboot) and reports nothing after it; before it only progress is reported, never firmware being
  applied, no phase twice in a row and no download figure twice in a phase.\<close>

lemma follow_stream_well_formed:
  "case follow_items us (follow_new offer) of
     (items, ended) \<Rightarrow>
       if ended then \<exists>xs x. items = xs @ [x] \<and> progress_ok None None xs \<and> final_item x
       else progress_ok None None items"
  using follow_items_ok [of "follow_new offer" us]
  by (simp add: follow_new_def stream_ok_def case_prod_beta)

text \<open>Every item of the stream is about the followed run: it was reported by an update that names
  the offer's execution, so another run's outcome, failure or progress never reaches the client.\<close>

lemma follow_items_sound:
  assumes "item \<in> set (fst (follow_items us (follow_new offer)))"
  shows "\<exists>u \<in> set us. reports offer item u"
  using follow_items_reports [OF _ assms] by (simp add: follow_new_def)

end
