(* ===== verification/Wire_Bytes.thy ===== *)
theory Wire_Bytes
  imports Prelude
begin

unbundle bit_operations_syntax

text \<open>
  The bytes of the widget tree format: little-endian words, \<open>f32\<close> values as their bit patterns,
  UTF-8 validity, and the two readers of \<^verbatim>\<open>bmc-render/ui/src\<close>. The readers of \<^verbatim>\<open>wire.rs\<close> return an
  option and move a position; the \<open>Reader\<close> of \<^verbatim>\<open>codec.rs\<close> also collects byte ranges and reports an
  error with its offset. What a writer appends is a pair of the bytes and the first overflow.

  A writer and a reader fit together when reading what was written, wherever it stands in the
  data, returns the value and stops after it. The rules of that relation, collected in
  \<open>fits\<close>, prove the round trip of every part of the format by following the code.
\<close>

section \<open>Words and floats\<close>

type_synonym u16 = "16 word"
type_synonym f32 = "32 word"
type_synonym bytes = "u8 list"

definition le16 :: "u16 \<Rightarrow> bytes" where
  "le16 w = [ucast w, ucast (drop_bit 8 w)]"

definition le32 :: "u32 \<Rightarrow> bytes" where
  "le32 w = [ucast w, ucast (drop_bit 8 w), ucast (drop_bit 16 w), ucast (drop_bit 24 w)]"

definition le64 :: "u64 \<Rightarrow> bytes" where
  "le64 w = le32 (ucast w) @ le32 (ucast (drop_bit 32 w))"

text \<open>The word a list of bytes denotes, least significant byte first.\<close>

fun from_le :: "bytes \<Rightarrow> 'a::len word" where
  "from_le [] = 0"
| "from_le (b # bs) = ucast b OR push_bit 8 (from_le bs)"

lemma length_le [simp]: "length (le16 a) = 2" "length (le32 b) = 4" "length (le64 c) = 8"
  by (simp_all add: le16_def le32_def le64_def)

lemma from_le16 [simp]: "from_le (le16 w) = w"
  by (simp add: le16_def, rule bit_eqI) (auto simp: bit_simps)

lemma from_le32_ucast: "from_le (le32 w) = (ucast w :: 'a::len word)"
proof (rule bit_eqI)
  fix n
  assume n: "possible_bit TYPE('a word) n"
  have "n < 8 \<or> (\<exists>k<8. n = 8 + k) \<or> (\<exists>k<8. n = 16 + k) \<or> (\<exists>k<8. n = 24 + k) \<or> 32 \<le> n"
    by presburger
  with n show "bit (from_le (le32 w) :: 'a word) n = bit (ucast w :: 'a word) n"
    by (elim disjE exE conjE) (auto simp: le32_def push_bit_or bit_simps dest: bit_imp_le_length)
qed

lemma from_le32 [simp]: "from_le (le32 w) = w"
  by (simp add: from_le32_ucast)

lemma from_le_append:
  "from_le (xs @ ys) = (from_le xs OR push_bit (8 * length xs) (from_le ys) :: 'a::len word)"
  by (induction xs) (simp_all add: push_bit_or or.assoc)

lemma from_le64 [simp]: "from_le (le64 w) = w"
  by (simp add: le64_def from_le_append from_le32_ucast, rule bit_eqI) (auto simp: bit_simps)

text \<open>The predicates on floats the readers use, on the sign, exponent and fraction fields.\<close>

definition f32_exponent :: "f32 \<Rightarrow> f32" where
  "f32_exponent v = drop_bit 23 v AND 0xFF"

definition f32_fraction :: "f32 \<Rightarrow> f32" where
  "f32_fraction v = v AND 0x7FFFFF"

definition f32_is_finite :: "f32 \<Rightarrow> bool" where
  "f32_is_finite v \<longleftrightarrow> f32_exponent v \<noteq> 0xFF"

definition f32_is_nan :: "f32 \<Rightarrow> bool" where
  "f32_is_nan v \<longleftrightarrow> f32_exponent v = 0xFF \<and> f32_fraction v \<noteq> 0"

text \<open>\<open>v >= 0.0\<close>: false for a NaN, true for both zeros.\<close>

definition f32_nonneg :: "f32 \<Rightarrow> bool" where
  "f32_nonneg v \<longleftrightarrow> \<not> f32_is_nan v \<and> (\<not> bit v 31 \<or> v = 0x80000000)"

definition extent_ok :: "f32 \<Rightarrow> bool" where
  "extent_ok v \<longleftrightarrow> f32_is_finite v \<and> f32_nonneg v"

text \<open>Comparison of a non-negative float with a positive constant is comparison of the patterns.\<close>

definition f32_ge :: "f32 \<Rightarrow> f32 \<Rightarrow> bool" where
  "f32_ge c v \<longleftrightarrow> \<not> f32_is_nan v \<and> \<not> bit v 31 \<and> c \<le> v"

definition f32_le_one :: "f32 \<Rightarrow> bool" where
  "f32_le_one v \<longleftrightarrow> \<not> f32_is_nan v \<and> (bit v 31 \<or> v \<le> 0x3F800000)"

section \<open>UTF-8\<close>

definition continuation :: "u8 \<Rightarrow> bool" where
  "continuation b \<longleftrightarrow> 0x80 \<le> b \<and> b \<le> 0xBF"

fun valid_utf8 :: "bytes \<Rightarrow> bool" where
  "valid_utf8 [] = True"
| "valid_utf8 (a # rest) =
     (if a \<le> 0x7F then valid_utf8 rest
      else if 0xC2 \<le> a \<and> a \<le> 0xDF then
        (case rest of b # rest' \<Rightarrow> continuation b \<and> valid_utf8 rest' | _ \<Rightarrow> False)
      else if 0xE0 \<le> a \<and> a \<le> 0xEF then
        (case rest of
           b # c # rest' \<Rightarrow>
             (if a = 0xE0 then 0xA0 \<le> b \<and> b \<le> 0xBF
              else if a = 0xED then 0x80 \<le> b \<and> b \<le> 0x9F
              else continuation b) \<and> continuation c \<and> valid_utf8 rest'
         | _ \<Rightarrow> False)
      else if 0xF0 \<le> a \<and> a \<le> 0xF4 then
        (case rest of
           b # c # d # rest' \<Rightarrow>
             (if a = 0xF0 then 0x90 \<le> b \<and> b \<le> 0xBF
              else if a = 0xF4 then 0x80 \<le> b \<and> b \<le> 0x8F
              else continuation b) \<and> continuation c \<and> continuation d \<and> valid_utf8 rest'
         | _ \<Rightarrow> False)
      else False)"

section \<open>The readers of wire.rs\<close>

type_synonym 'a oreader = "bytes \<Rightarrow> nat \<Rightarrow> ('a \<times> nat) option"

definition oreturn :: "'a \<Rightarrow> 'a oreader" where
  "oreturn x d p = Some (x, p)"

definition obind :: "'a oreader \<Rightarrow> ('a \<Rightarrow> 'b oreader) \<Rightarrow> 'b oreader" where
  "obind r f d p = (case r d p of None \<Rightarrow> None | Some (x, q) \<Rightarrow> f x d q)"

definition ofail :: "'a oreader" where
  "ofail d p = None"

definition ofilter :: "('a \<Rightarrow> bool) \<Rightarrow> 'a oreader \<Rightarrow> 'a oreader" where
  "ofilter P r = obind r (\<lambda>x. if P x then oreturn x else ofail)"

text \<open>\<open>data.get(pos..pos + n)\<close> and the move past it.\<close>

definition otake :: "nat \<Rightarrow> bytes oreader" where
  "otake n d p = (if p + n \<le> length d then Some (take n (drop p d), p + n) else None)"

definition ow_u8 :: "u8 oreader" where
  "ow_u8 = obind (otake 1) (\<lambda>bs. oreturn (hd bs))"

definition ow_u16 :: "u16 oreader" where
  "ow_u16 = obind (otake 2) (\<lambda>bs. oreturn (from_le bs))"

definition ow_u32 :: "u32 oreader" where
  "ow_u32 = obind (otake 4) (\<lambda>bs. oreturn (from_le bs))"

definition ow_f32 :: "f32 oreader" where
  "ow_f32 = obind (otake 4) (\<lambda>bs. oreturn (from_le bs))"

definition ow_finite_f32 :: "f32 oreader" where
  "ow_finite_f32 = ofilter f32_is_finite ow_f32"

definition ow_extent_f32 :: "f32 oreader" where
  "ow_extent_f32 = ofilter f32_nonneg ow_finite_f32"

definition ow_color :: "u32 oreader" where
  "ow_color = ow_u32"

text \<open>A loop that reads a given number of values.\<close>

primrec omany :: "nat \<Rightarrow> 'a oreader \<Rightarrow> 'a list oreader" where
  "omany 0 r = oreturn []"
| "omany (Suc n) r = obind r (\<lambda>x. obind (omany n r) (\<lambda>xs. oreturn (x # xs)))"

text \<open>Reading \<open>w\<close> anywhere in the data yields \<open>v\<close> and stops after \<open>w\<close>.\<close>

definition ofits :: "'a oreader \<Rightarrow> bytes \<Rightarrow> 'a \<Rightarrow> bool" where
  "ofits r w v \<longleftrightarrow> (\<forall>pre post. r (pre @ w @ post) (length pre) = Some (v, length pre + length w))"

named_theorems ofits \<open>rules that follow an option reader along the bytes it reads\<close>

lemma ofits_return [ofits]: "ofits (oreturn v) [] v"
  by (simp add: ofits_def oreturn_def)

lemma ofits_bind:
  assumes "ofits r w v" and "ofits (f v) w' u"
  shows "ofits (obind r f) (w @ w') u"
  unfolding ofits_def
proof (intro allI)
  fix pre post
  have "r (pre @ w @ w' @ post) (length pre) = Some (v, length (pre @ w))"
    using assms(1) by (simp add: ofits_def)
  moreover have "f v ((pre @ w) @ w' @ post) (length (pre @ w)) = Some (u, length (pre @ w) + length w')"
    using assms(2) unfolding ofits_def by blast
  ultimately show "obind r f (pre @ (w @ w') @ post) (length pre) = Some (u, length pre + length (w @ w'))"
    by (simp add: obind_def)
qed

lemma ofits_bind_end: "ofits r w v \<Longrightarrow> ofits (f v) [] u \<Longrightarrow> ofits (obind r f) w u"
  using ofits_bind [of r w v f "[]" u] by simp

lemma ofits_take: "length w = n \<Longrightarrow> ofits (otake n) w w"
  by (auto simp: ofits_def otake_def)

lemma ofits_filter: "ofits r w v \<Longrightarrow> P v \<Longrightarrow> ofits (ofilter P r) w v"
  unfolding ofilter_def by (rule ofits_bind_end) (auto simp: ofits_return)

lemma ofits_u8: "ofits ow_u8 [v] v"
  unfolding ow_u8_def by (rule ofits_bind_end [OF ofits_take]) (simp_all add: ofits_return)

lemma ofits_u16: "ofits ow_u16 (le16 v) v"
  unfolding ow_u16_def by (rule ofits_bind_end [OF ofits_take]) (simp_all add: ofits_return)

lemma ofits_u32: "ofits ow_u32 (le32 v) v"
  unfolding ow_u32_def by (rule ofits_bind_end [OF ofits_take]) (simp_all add: ofits_return)

lemma ofits_f32: "ofits ow_f32 (le32 v) v"
  unfolding ow_f32_def by (rule ofits_bind_end [OF ofits_take]) (simp_all add: ofits_return)

lemma ofits_finite: "f32_is_finite v \<Longrightarrow> ofits ow_finite_f32 (le32 v) v"
  unfolding ow_finite_f32_def by (rule ofits_filter [OF ofits_f32])

lemma ofits_extent: "extent_ok v \<Longrightarrow> ofits ow_extent_f32 (le32 v) v"
  unfolding ow_extent_f32_def extent_ok_def by (auto intro: ofits_filter ofits_finite)

lemma ofits_color: "ofits ow_color (le32 v) v"
  unfolding ow_color_def by (rule ofits_u32)

lemmas ofits_prims = ofits_u8 ofits_u16 ofits_u32 ofits_f32 ofits_finite ofits_extent ofits_color

lemmas ofits_seq [ofits] =
  ofits_prims [THEN ofits_bind] ofits_prims [THEN ofits_bind_end]

lemma ofits_byte [ofits]: "ofits (f v) w u \<Longrightarrow> ofits (obind ow_u8 f) (v # w) u"
  using ofits_bind [OF ofits_u8] by force

lemma ofits_many:
  "(\<And>x. x \<in> set xs \<Longrightarrow> ofits r (w x) (v x)) \<Longrightarrow> ofits (omany (length xs) r) (concat (map w xs)) (map v xs)"
proof (induction xs)
  case (Cons x xs)
  then show ?case
    by (auto intro!: ofits_bind [where v = "v x"] ofits_bind_end [where v = "map v xs"] ofits_return)
qed (simp add: ofits_return)

end
