(* ===== verification/Wire_Reader.thy ===== *)
theory Wire_Reader
  imports Wire_Bytes
begin

text \<open>
  The \<open>Writer\<close> and the \<open>Reader\<close> of \<^verbatim>\<open>bmc-render/ui/src/codec.rs\<close>: their primitive operations, and the
  three relations the properties of the tree format rest on. \<open>fits\<close> says that a reader undoes a
  writer, \<open>advances\<close> that a reader only moves forward in its data and records ordered ranges,
  \<open>same_upto\<close> that two readers agree on short data. The locale \<open>wire_codec\<close> is the interface of a
  writer with its reader.
\<close>

section \<open>Writing\<close>

type_synonym written = "bytes \<times> string option"

definition wcat :: "written list \<Rightarrow> written" where
  "wcat ws = (concat (map fst ws), find_map snd ws)"

definition w_bytes :: "bytes \<Rightarrow> written" where
  "w_bytes bs = (bs, None)"

definition w_u8 :: "u8 \<Rightarrow> written" where
  "w_u8 v = ([v], None)"

definition w_u16 :: "u16 \<Rightarrow> written" where
  "w_u16 v = (le16 v, None)"

definition w_u32 :: "u32 \<Rightarrow> written" where
  "w_u32 v = (le32 v, None)"

definition w_f32 :: "f32 \<Rightarrow> written" where
  "w_f32 v = (le32 v, None)"

definition w_i64 :: "u64 \<Rightarrow> written" where
  "w_i64 v = (le64 v, None)"

definition w_color :: "u32 \<Rightarrow> written" where
  "w_color c = w_u32 c"

definition w_bool :: "bool \<Rightarrow> written" where
  "w_bool b = w_u8 (if b then 1 else 0)"

definition w_count_u16 :: "nat \<Rightarrow> string \<Rightarrow> written" where
  "w_count_u16 n too_many =
     (if n < 2 ^ 16 then w_u16 (word_of_nat n) else (le16 0xFFFF, Some too_many))"

definition w_count_u8 :: "nat \<Rightarrow> string \<Rightarrow> written" where
  "w_count_u8 n too_many =
     (if n < 2 ^ 8 then w_u8 (word_of_nat n) else ([0xFF], Some too_many))"

definition w_str :: "bytes \<Rightarrow> string \<Rightarrow> written" where
  "w_str s too_long = wcat [w_count_u16 (length s) too_long, w_bytes s]"

text \<open>An optional resource id; zero stands for none, and an id is never zero.\<close>

definition w_id :: "u16 option \<Rightarrow> written" where
  "w_id i = w_u16 (case i of Some v \<Rightarrow> v | None \<Rightarrow> 0)"

definition id_ok :: "u16 option \<Rightarrow> bool" where
  "id_ok i \<longleftrightarrow> i \<noteq> Some 0"

definition w_option :: "('a \<Rightarrow> written) \<Rightarrow> 'a option \<Rightarrow> written" where
  "w_option w x = (case x of Some v \<Rightarrow> w v | None \<Rightarrow> ([], None))"

section \<open>Reading\<close>

datatype decode_error =
    Empty
  | Truncated nat
  | InvalidExtent f32 nat
  | InvalidBrightness f32 nat
  | InvalidUtf8 nat
  | InvalidFill nat
  | InvalidArcFill nat
  | InvalidArcSegments nat
  | InvalidArcCap nat
  | InvalidProps nat
  | InvalidTextStyle nat
  | InvalidDiscriminant string u8 nat
  | UnknownNode u8 nat
  | UnknownDraw u8 nat

record rstate =
  rd_data :: bytes
  rd_pos :: nat
  rd_ranges :: "(nat \<times> nat) list"

type_synonym 'a reader = "rstate \<Rightarrow> decode_error + ('a \<times> rstate)"

definition remaining :: "rstate \<Rightarrow> nat" where
  "remaining s = length (rd_data s) - rd_pos s"

definition rreturn :: "'a \<Rightarrow> 'a reader" where
  "rreturn v s = Inr (v, s)"

definition rfail :: "decode_error \<Rightarrow> 'a reader" where
  "rfail e s = Inl e"

definition rbind :: "'a reader \<Rightarrow> ('a \<Rightarrow> 'b reader) \<Rightarrow> 'b reader" where
  "rbind r f s = (case r s of Inl e \<Rightarrow> Inl e | Inr (v, t) \<Rightarrow> f v t)"

definition r_pos :: "nat reader" where
  "r_pos s = Inr (rd_pos s, s)"

definition r_bytes :: "nat \<Rightarrow> bytes reader" where
  "r_bytes n s =
     (if rd_pos s + n \<le> length (rd_data s)
      then Inr (take n (drop (rd_pos s) (rd_data s)), s\<lparr>rd_pos := rd_pos s + n\<rparr>)
      else Inl (Truncated (rd_pos s)))"

definition r_u8 :: "u8 reader" where
  "r_u8 = rbind (r_bytes 1) (\<lambda>bs. rreturn (hd bs))"

definition r_u16 :: "u16 reader" where
  "r_u16 = rbind (r_bytes 2) (\<lambda>bs. rreturn (from_le bs))"

definition r_u32 :: "u32 reader" where
  "r_u32 = rbind (r_bytes 4) (\<lambda>bs. rreturn (from_le bs))"

definition r_i64 :: "u64 reader" where
  "r_i64 = rbind (r_bytes 8) (\<lambda>bs. rreturn (from_le bs))"

definition r_f32 :: "f32 reader" where
  "r_f32 = r_u32"

definition r_extent :: "f32 reader" where
  "r_extent = rbind r_f32 (\<lambda>v. rbind r_pos (\<lambda>here.
     if f32_is_finite v \<and> f32_nonneg v then rreturn v else rfail (InvalidExtent v here)))"

definition r_color :: "u32 reader" where
  "r_color = r_u32"

definition r_bool :: "bool reader" where
  "r_bool = rbind r_u8 (\<lambda>b. rreturn (b \<noteq> 0))"

definition r_id :: "u16 option reader" where
  "r_id = rbind r_u16 (\<lambda>v. rreturn (if v = 0 then None else Some v))"

definition r_string :: "u16 \<Rightarrow> bytes reader" where
  "r_string len = rbind r_pos (\<lambda>here. rbind (r_bytes (unat len)) (\<lambda>bs.
     if valid_utf8 bs then rreturn bs else rfail (InvalidUtf8 here)))"

definition r_prefixed_string :: "bytes reader" where
  "r_prefixed_string = rbind r_u16 r_string"

definition r_discriminant :: "string \<Rightarrow> (u8 \<Rightarrow> 'a option) \<Rightarrow> 'a reader" where
  "r_discriminant what try_from = rbind r_pos (\<lambda>here. rbind r_u8 (\<lambda>v.
     case try_from v of Some x \<Rightarrow> rreturn x | None \<Rightarrow> rfail (InvalidDiscriminant what v here)))"

definition r_animation_field :: "string \<Rightarrow> (u8 \<Rightarrow> 'a option) \<Rightarrow> 'a reader" where
  "r_animation_field what from_u8 = rbind r_pos (\<lambda>here. rbind r_u8 (\<lambda>v.
     case from_u8 v of Some x \<Rightarrow> rreturn x | None \<Rightarrow> rfail (InvalidDiscriminant what v here)))"

text \<open>The readers of \<^verbatim>\<open>wire.rs\<close> on the reader's own position, and on the data from it.\<close>

definition r_lift :: "(nat \<Rightarrow> decode_error) \<Rightarrow> 'a oreader \<Rightarrow> 'a reader" where
  "r_lift err r s =
     (case r (rd_data s) (rd_pos s) of
        Some (v, p) \<Rightarrow> Inr (v, s\<lparr>rd_pos := p\<rparr>)
      | None \<Rightarrow> Inl (err (rd_pos s)))"

definition r_struct :: "(nat \<Rightarrow> decode_error) \<Rightarrow> nat \<Rightarrow> 'a oreader \<Rightarrow> 'a reader" where
  "r_struct err len r s =
     (case r (drop (rd_pos s) (rd_data s)) 0 of
        Some (v, p) \<Rightarrow> Inr (v, s\<lparr>rd_pos := rd_pos s + len\<rparr>)
      | None \<Rightarrow> Inl (err (rd_pos s)))"

text \<open>An optional part, and a loop over a count.\<close>

definition r_when :: "bool \<Rightarrow> 'a reader \<Rightarrow> 'a option reader" where
  "r_when b r = (if b then rbind r (\<lambda>v. rreturn (Some v)) else rreturn None)"

primrec r_many :: "nat \<Rightarrow> 'a reader \<Rightarrow> 'a list reader" where
  "r_many 0 r = rreturn []"
| "r_many (Suc n) r = rbind r (\<lambda>x. rbind (r_many n r) (\<lambda>xs. rreturn (x # xs)))"

definition r_push_range :: "nat \<Rightarrow> unit reader" where
  "r_push_range start s = Inr ((), s\<lparr>rd_ranges := rd_ranges s @ [(start, rd_pos s)]\<rparr>)"

section \<open>A reader undoes a writer\<close>

definition fits :: "written \<Rightarrow> 'a reader \<Rightarrow> 'a \<Rightarrow> bool" where
  "fits w r v \<longleftrightarrow> (snd w = None \<longrightarrow>
     (\<forall>pre post rs. \<exists>rs'.
        r \<lparr>rd_data = pre @ fst w @ post, rd_pos = length pre, rd_ranges = rs\<rparr> =
        Inr (v, \<lparr>rd_data = pre @ fst w @ post, rd_pos = length pre + length (fst w), rd_ranges = rs'\<rparr>)))"

named_theorems fits \<open>rules that follow a reader along what was written\<close>

lemma fits_return [fits]: "fits (wcat []) (rreturn v) v"
  by (simp add: fits_def wcat_def rreturn_def)

lemma fits_bind_gen:
  assumes "fits w r v" and "fits w' (f v) u"
    and "fst x = fst w @ fst w'" and "snd x = None \<Longrightarrow> snd w = None \<and> snd w' = None"
  shows "fits x (rbind r f) u"
  unfolding fits_def
proof (intro impI allI)
  fix pre post rs
  assume "snd x = None"
  then have none: "snd w = None" "snd w' = None" using assms(4) by simp_all
  let ?d = "pre @ fst w @ fst w' @ post"
  from assms(1) none obtain rs1 where "r \<lparr>rd_data = ?d, rd_pos = length pre, rd_ranges = rs\<rparr> =
      Inr (v, \<lparr>rd_data = ?d, rd_pos = length pre + length (fst w), rd_ranges = rs1\<rparr>)"
    unfolding fits_def by blast
  moreover from assms(2) none obtain rs2 where
    "f v \<lparr>rd_data = (pre @ fst w) @ fst w' @ post, rd_pos = length (pre @ fst w), rd_ranges = rs1\<rparr> =
      Inr (u, \<lparr>rd_data = (pre @ fst w) @ fst w' @ post,
        rd_pos = length (pre @ fst w) + length (fst w'), rd_ranges = rs2\<rparr>)"
    unfolding fits_def by blast
  ultimately show "\<exists>rs'. rbind r f \<lparr>rd_data = pre @ fst x @ post, rd_pos = length pre, rd_ranges = rs\<rparr> =
      Inr (u, \<lparr>rd_data = pre @ fst x @ post, rd_pos = length pre + length (fst x), rd_ranges = rs'\<rparr>)"
    by (simp add: rbind_def assms(3) add.assoc)
qed

lemma fits_bind: "fits w r v \<Longrightarrow> fits (wcat ws) (f v) u \<Longrightarrow> fits (wcat (w # ws)) (rbind r f) u"
  by (rule fits_bind_gen [where w' = "wcat ws"]) (auto simp: wcat_def split: option.splits)

lemma fits_bind1: "fits w r v \<Longrightarrow> fits (wcat []) (f v) u \<Longrightarrow> fits w (rbind r f) u"
  by (rule fits_bind_gen [where w' = "wcat []"]) (auto simp: wcat_def)

lemma fits_bind2:
  "fits (wcat [a, b]) r v \<Longrightarrow> fits (wcat ws) (f v) u \<Longrightarrow> fits (wcat (a # b # ws)) (rbind r f) u"
  by (rule fits_bind_gen [where w = "wcat [a, b]" and w' = "wcat ws"]) (auto simp: wcat_def split: option.splits)

lemma fits_wcat1: "fits (wcat [w]) r v = fits w r v"
  by (simp add: wcat_def fits_def split: option.split)

text \<open>Steps that read nothing.\<close>

lemma fits_silent:
  assumes "\<And>s. \<exists>v rs. r s = Inr (v, s\<lparr>rd_ranges := rs\<rparr>) \<and> Q v" and "\<And>v. Q v \<Longrightarrow> fits w (f v) u"
  shows "fits w (rbind r f) u"
  unfolding fits_def
proof (intro impI allI)
  fix pre post rs
  assume none: "snd w = None"
  let ?s = "\<lparr>rd_data = pre @ fst w @ post, rd_pos = length pre, rd_ranges = rs\<rparr>"
  from assms(1) [of ?s] obtain v rs1 where "r ?s = Inr (v, ?s\<lparr>rd_ranges := rs1\<rparr>)" "Q v" by auto
  moreover from assms(2) [OF this(2)] none obtain rs2 where
    "f v \<lparr>rd_data = pre @ fst w @ post, rd_pos = length pre, rd_ranges = rs1\<rparr> =
      Inr (u, \<lparr>rd_data = pre @ fst w @ post, rd_pos = length pre + length (fst w), rd_ranges = rs2\<rparr>)"
    unfolding fits_def by blast
  ultimately show "\<exists>rs'. rbind r f ?s =
      Inr (u, \<lparr>rd_data = pre @ fst w @ post, rd_pos = length pre + length (fst w), rd_ranges = rs'\<rparr>)"
    by (simp add: rbind_def)
qed

lemma fits_pos [fits]: "(\<And>here. fits w (f here) u) \<Longrightarrow> fits w (rbind r_pos f) u"
proof (rule fits_silent [where Q = "\<lambda>_. True"])
  show "\<exists>v rs. r_pos s = Inr (v, s\<lparr>rd_ranges := rs\<rparr>) \<and> True" for s
    by (cases s) (auto simp: r_pos_def)
qed

lemma fits_push_range [fits]: "fits w (f ()) u \<Longrightarrow> fits w (rbind (r_push_range p) f) u"
  by (rule fits_silent [where Q = "\<lambda>_. True"]) (auto simp: r_push_range_def)

text \<open>A loop reads back what was written value by value.\<close>

lemma fits_many:
  "(\<And>x. x \<in> set xs \<Longrightarrow> fits (p x) r (v x)) \<Longrightarrow>
   fits (wcat (map p xs)) (r_many (length xs) r) (map v xs)"
proof (induction xs)
  case Nil
  then show ?case by (simp add: fits_return)
next
  case (Cons x xs)
  then have "fits (wcat [wcat (map p xs)])
      (rbind (r_many (length xs) r) (\<lambda>ys. rreturn (v x # ys))) (v x # map v xs)"
    by (auto intro: fits_bind fits_return)
  then have "fits (wcat (map p xs))
      (rbind (r_many (length xs) r) (\<lambda>ys. rreturn (v x # ys))) (v x # map v xs)"
    by (simp add: fits_wcat1)
  with Cons.prems show ?case by (auto intro!: fits_bind)
qed

section \<open>Codecs\<close>

locale wire_codec =
  fixes put :: "'a \<Rightarrow> written" and get :: "'a reader" and ok :: "'a \<Rightarrow> bool" and norm :: "'a \<Rightarrow> 'a"
  assumes get_put: "ok x \<Longrightarrow> fits (put x) get (norm x)"
begin

lemma bind:
  "ok x \<Longrightarrow> fits (wcat ws) (f (norm x)) u \<Longrightarrow> fits (wcat (put x # ws)) (rbind get f) u"
  by (rule fits_bind [OF get_put])

lemma many:
  "\<forall>x \<in> set xs. ok x \<Longrightarrow> fits (wcat (map put xs)) (r_many (length xs) get) (map norm xs)"
  by (rule fits_many) (simp add: get_put)

lemma optional:
  assumes "pred_option ok x"
  shows "fits (w_option put x) (r_when (x \<noteq> None) get) (map_option norm x)"
  using assms fits_bind1 [OF get_put fits_return] fits_return
  by (cases x) (simp_all add: w_option_def r_when_def wcat_def)

text \<open>A value can be read back from the start of any data that begins with its encoding, whatever
  follows it.\<close>

lemma decodes:
  assumes "ok x" and "snd (put x) = None"
  shows "\<exists>rs. get \<lparr>rd_data = fst (put x) @ post, rd_pos = 0, rd_ranges = []\<rparr> =
    Inr (norm x, \<lparr>rd_data = fst (put x) @ post, rd_pos = length (fst (put x)), rd_ranges = rs\<rparr>)"
proof -
  from get_put [OF assms(1)] assms(2) have "\<exists>rs. get \<lparr>rd_data = [] @ fst (put x) @ post,
      rd_pos = length ([] :: bytes), rd_ranges = []\<rparr> =
    Inr (norm x, \<lparr>rd_data = [] @ fst (put x) @ post,
      rd_pos = length ([] :: bytes) + length (fst (put x)), rd_ranges = rs\<rparr>)"
    unfolding fits_def by blast
  then show ?thesis by simp
qed

end

text \<open>Two values with one encoding are the same up to normalisation.\<close>

locale exact_codec = wire_codec put get ok "\<lambda>x. x" for put :: "'a \<Rightarrow> written" and get ok
begin

lemma unique:
  assumes "ok x" "ok y" "snd (put x) = None" "snd (put y) = None" "fst (put x) @ p = fst (put y) @ q"
  shows "x = y \<and> p = q"
proof -
  obtain rs rs' where
    "get \<lparr>rd_data = fst (put x) @ p, rd_pos = 0, rd_ranges = []\<rparr> =
      Inr (x, \<lparr>rd_data = fst (put x) @ p, rd_pos = length (fst (put x)), rd_ranges = rs\<rparr>)"
    "get \<lparr>rd_data = fst (put y) @ q, rd_pos = 0, rd_ranges = []\<rparr> =
      Inr (y, \<lparr>rd_data = fst (put y) @ q, rd_pos = length (fst (put y)), rd_ranges = rs'\<rparr>)"
    using decodes [OF assms(1,3)] decodes [OF assms(2,4)] by blast
  with assms(5) show ?thesis by simp
qed

end

section \<open>The primitive codecs\<close>

lemma r_bytes_at [simp]:
  "length w = n \<Longrightarrow> r_bytes n \<lparr>rd_data = pre @ w @ post, rd_pos = length pre, rd_ranges = rs\<rparr> =
     Inr (w, \<lparr>rd_data = pre @ w @ post, rd_pos = length pre + n, rd_ranges = rs\<rparr>)"
  by (auto simp: r_bytes_def)

lemma fits_bytes: "length bs = n \<Longrightarrow> fits (w_bytes bs) (r_bytes n) bs"
  by (simp add: fits_def w_bytes_def)

lemma fits_map: "fits w r v \<Longrightarrow> fits w (rbind r (\<lambda>x. rreturn (f x))) (f v)"
  by (erule fits_bind1) (rule fits_return)

interpretation u8: exact_codec w_u8 r_u8 "\<lambda>_. True"
  by unfold_locales
    (use fits_map [OF fits_bytes, of "[x]" 1 hd for x] in \<open>simp add: w_u8_def w_bytes_def r_u8_def\<close>)

interpretation u16: exact_codec w_u16 r_u16 "\<lambda>_. True"
  by unfold_locales
    (use fits_map [OF fits_bytes, of "le16 x" 2 "from_le :: bytes \<Rightarrow> 16 word" for x] in
      \<open>simp add: w_u16_def w_bytes_def r_u16_def\<close>)

interpretation u32: exact_codec w_u32 r_u32 "\<lambda>_. True"
  by unfold_locales
    (use fits_map [OF fits_bytes, of "le32 x" 4 "from_le :: bytes \<Rightarrow> 32 word" for x] in
      \<open>simp add: w_u32_def w_bytes_def r_u32_def\<close>)

interpretation i64: exact_codec w_i64 r_i64 "\<lambda>_. True"
  by unfold_locales
    (use fits_map [OF fits_bytes, of "le64 x" 8 "from_le :: bytes \<Rightarrow> 64 word" for x] in
      \<open>simp add: w_i64_def w_bytes_def r_i64_def\<close>)

interpretation f32: exact_codec w_f32 r_f32 "\<lambda>_. True"
  by unfold_locales (use u32.get_put in \<open>simp add: w_f32_def r_f32_def w_u32_def\<close>)

interpretation color: exact_codec w_color r_color "\<lambda>_. True"
  by unfold_locales (use u32.get_put in \<open>simp add: w_color_def r_color_def\<close>)

interpretation extent: exact_codec w_f32 r_extent extent_ok
proof unfold_locales
  fix x
  assume "extent_ok x"
  then show "fits (w_f32 x) r_extent x"
    unfolding r_extent_def
    by (intro fits_bind1 [OF f32.get_put] fits_pos) (auto simp: extent_ok_def intro: fits_return)
qed

interpretation boolean: exact_codec w_bool r_bool "\<lambda>_. True"
proof unfold_locales
  fix x
  show "fits (w_bool x) r_bool x"
    unfolding w_bool_def r_bool_def
    using fits_map [OF u8.get_put, of "if x then 1 else 0" "\<lambda>b. b \<noteq> 0"] by (cases x) simp_all
qed

interpretation res_id: exact_codec w_id r_id id_ok
proof unfold_locales
  fix x
  assume "id_ok x"
  then show "fits (w_id x) r_id x"
    unfolding w_id_def r_id_def
    using fits_map [OF u16.get_put, of "case x of Some v \<Rightarrow> v | None \<Rightarrow> 0"
        "\<lambda>v. if v = 0 then None else Some v"]
    by (cases x) (auto simp: id_ok_def)
qed

lemma fits_overflow: "snd w = Some e \<Longrightarrow> fits w r v"
  by (simp add: fits_def)

lemma fits_count_u16:
  "(n < 2 ^ 16 \<Longrightarrow> fits (wcat ws) (f (word_of_nat n)) u) \<Longrightarrow>
   fits (wcat (w_count_u16 n m # ws)) (rbind r_u16 f) u"
  by (cases "n < 2 ^ 16")
    (simp_all add: w_count_u16_def u16.bind fits_overflow wcat_def [of "(_, Some _) # _"])

lemma fits_count_u8:
  "(n < 2 ^ 8 \<Longrightarrow> fits (wcat ws) (f (word_of_nat n)) u) \<Longrightarrow>
   fits (wcat (w_count_u8 n m # ws)) (rbind r_u8 f) u"
  by (cases "n < 2 ^ 8")
    (simp_all add: w_count_u8_def u8.bind fits_overflow wcat_def [of "(_, Some _) # _"])

lemma fits_counted_u16:
  assumes "fits w (r_many n r) ys" and "fits (wcat ws) (f ys) u"
  shows "fits (wcat (w_count_u16 n m # w # ws)) (rbind r_u16 (\<lambda>k. rbind (r_many (unat k) r) f)) u"
proof (cases "n < 2 ^ 16")
  case True
  then have "unat (word_of_nat n :: u16) = n" by (simp add: unsigned_of_nat take_bit_nat_eq_self)
  with assms show ?thesis by (auto intro!: fits_count_u16 intro: fits_bind)
next
  case False
  then show ?thesis by (intro fits_overflow) (simp add: wcat_def w_count_u16_def)
qed

lemma fits_counted_u8:
  assumes "fits w (r_many n r) ys" and "fits (wcat ws) (f ys) u"
  shows "fits (wcat (w_count_u8 n m # w # ws)) (rbind r_u8 (\<lambda>k. rbind (r_many (unat k) r) f)) u"
proof (cases "n < 2 ^ 8")
  case True
  then have "unat (word_of_nat n :: u8) = n" by (simp add: unsigned_of_nat take_bit_nat_eq_self)
  with assms show ?thesis by (auto intro!: fits_count_u8 intro: fits_bind)
next
  case False
  then show ?thesis by (intro fits_overflow) (simp add: wcat_def w_count_u8_def)
qed

interpretation str: exact_codec "\<lambda>s. w_str s msg" r_prefixed_string valid_utf8 for msg
proof unfold_locales
  fix s :: bytes
  assume ok: "valid_utf8 s"
  show "fits (w_str s msg) r_prefixed_string s"
  proof (cases "length s < 2 ^ 16")
    case True
    then have len: "length s = unat (word_of_nat (length s) :: u16)" by (simp add: unsigned_of_nat take_bit_nat_eq_self)
    have "fits (wcat [w_bytes s]) (r_string (word_of_nat (length s))) s"
      unfolding r_string_def using ok
      by (intro fits_pos fits_bind [OF fits_bytes [OF len]]) (auto intro: fits_return)
    then show ?thesis
      unfolding w_str_def r_prefixed_string_def by (rule fits_count_u16)
  next
    case False
    then show ?thesis by (intro fits_overflow) (simp add: w_str_def wcat_def w_count_u16_def)
  qed
qed

lemma fits_discriminant:
  "try_from v = Some x \<Longrightarrow> fits (w_u8 v) (r_discriminant what try_from) x"
  "try_from v = Some x \<Longrightarrow> fits (w_u8 v) (r_animation_field what try_from) x"
  unfolding r_discriminant_def r_animation_field_def
  by (intro fits_pos fits_bind1 [OF u8.get_put], auto intro: fits_return)+

lemma fits_lift: "ofits r w v \<Longrightarrow> fits (w_bytes w) (r_lift err r) v"
  by (auto simp: fits_def ofits_def r_lift_def w_bytes_def)

lemma fits_struct:
  assumes "ofits r w v" and "length w = len"
  shows "fits (w_bytes w) (r_struct err len r) v"
proof -
  from assms(1) have "r (w @ post) 0 = Some (v, length w)" for post
    unfolding ofits_def by (metis append_Nil list.size(3) plus_nat.add_0)
  with assms(2) show ?thesis by (simp add: fits_def r_struct_def w_bytes_def)
qed

lemma fits_when:
  "fits (w_option p x) (r_when (x \<noteq> None) g) y \<Longrightarrow> b = (x \<noteq> None) \<Longrightarrow>
   fits (wcat ws) (f y) u \<Longrightarrow> fits (wcat (w_option p x # ws)) (rbind (r_when b g) f) u"
  by (simp add: fits_bind)

lemmas fits_prims [fits] =
  u8.bind [simplified] u16.bind [simplified] u32.bind [simplified] i64.bind [simplified]
  f32.bind [simplified] color.bind [simplified] extent.bind boolean.bind [simplified] res_id.bind
  str.bind fits_discriminant [THEN fits_bind]

end
