(* ===== verification/Ui_Text.thy ===== *)
theory Ui_Text
  imports Wire_Reader
begin

unbundle bit_operations_syntax

text \<open>
  Text styles, span flags and layout properties (\<^verbatim>\<open>bmc-render/ui/src/text.rs\<close>) with their packed wire
  forms. A colour is its packed word, a font weight its number, and an \<open>f32\<close> its bit pattern; the
  scaling of the line height to hundredths and back is single precision arithmetic, rounded to
  nearest even, on the significand and the exponent.
\<close>

section \<open>Enumerations\<close>

datatype text_align = TaLeft | TaCenter | TaRight
datatype vertical_align = VaTop | VaCenter | VaBottom | VaBaseline
datatype arc_anchor = AaStart | AaCenter | AaEnd
datatype arc_text_facing = FacingOutward | FacingInward
datatype cross_align = CaStretch | CaCenter | CaStart | CaEnd
datatype justify = JsStart | JsCenter | JsEnd | JsSpaceBetween
datatype text_overflow = ToWrap | ToClip | ToEllipsis
datatype auto_fit = AfShrink | AfGrow | AfShrinkAndGrow
datatype font_family = FfSans | FfDeckSans

fun text_align_bits :: "text_align \<Rightarrow> u32" where
  "text_align_bits TaLeft = 0" | "text_align_bits TaCenter = 1" | "text_align_bits TaRight = 2"

fun vertical_align_bits :: "vertical_align \<Rightarrow> u32" where
  "vertical_align_bits VaTop = 0" | "vertical_align_bits VaCenter = 1"
| "vertical_align_bits VaBottom = 2" | "vertical_align_bits VaBaseline = 3"

fun text_overflow_bits :: "text_overflow \<Rightarrow> u32" where
  "text_overflow_bits ToWrap = 0" | "text_overflow_bits ToClip = 1" | "text_overflow_bits ToEllipsis = 2"

fun font_family_bits :: "font_family \<Rightarrow> u32" where
  "font_family_bits FfSans = 0" | "font_family_bits FfDeckSans = 1"

fun cross_align_bits :: "cross_align \<Rightarrow> u32" where
  "cross_align_bits CaStretch = 0" | "cross_align_bits CaCenter = 1"
| "cross_align_bits CaStart = 2" | "cross_align_bits CaEnd = 3"

fun justify_bits :: "justify \<Rightarrow> u32" where
  "justify_bits JsStart = 0" | "justify_bits JsCenter = 1"
| "justify_bits JsEnd = 2" | "justify_bits JsSpaceBetween = 3"

fun arc_anchor_u8 :: "arc_anchor \<Rightarrow> u8" where
  "arc_anchor_u8 AaStart = 0" | "arc_anchor_u8 AaCenter = 1" | "arc_anchor_u8 AaEnd = 2"

definition arc_anchor_try_from :: "u8 \<Rightarrow> arc_anchor option" where
  "arc_anchor_try_from v =
     (if v = 0 then Some AaStart else if v = 1 then Some AaCenter else if v = 2 then Some AaEnd
      else None)"

fun arc_text_facing_u8 :: "arc_text_facing \<Rightarrow> u8" where
  "arc_text_facing_u8 FacingOutward = 0" | "arc_text_facing_u8 FacingInward = 1"

definition arc_text_facing_try_from :: "u8 \<Rightarrow> arc_text_facing option" where
  "arc_text_facing_try_from v =
     (if v = 0 then Some FacingOutward else if v = 1 then Some FacingInward else None)"

fun auto_fit_u8 :: "auto_fit \<Rightarrow> u8" where
  "auto_fit_u8 AfShrink = 0" | "auto_fit_u8 AfGrow = 1" | "auto_fit_u8 AfShrinkAndGrow = 2"

definition auto_fit_from_u8 :: "u8 \<Rightarrow> auto_fit" where
  "auto_fit_from_u8 v = (if v = 1 then AfGrow else if v = 2 then AfShrinkAndGrow else AfShrink)"

section \<open>Layout flags\<close>

definition layout_flags_new :: "cross_align \<Rightarrow> bool \<Rightarrow> justify \<Rightarrow> u32" where
  "layout_flags_new ca wrap js =
     ((cross_align_bits ca AND 0xFF) OR (if wrap then 0x100 else 0)) OR push_bit 9 (justify_bits js)"

definition layout_cross_align :: "u32 \<Rightarrow> cross_align" where
  "layout_cross_align bits =
     (let v = bits AND 0xFF in
      if v = 1 then CaCenter else if v = 2 then CaStart else if v = 3 then CaEnd else CaStretch)"

definition layout_wrap :: "u32 \<Rightarrow> bool" where
  "layout_wrap bits \<longleftrightarrow> bits AND 0x100 \<noteq> 0"

definition layout_justify :: "u32 \<Rightarrow> justify" where
  "layout_justify bits =
     (let v = drop_bit 9 (bits AND push_bit 9 0xFF) in
      if v = 1 then JsCenter else if v = 2 then JsEnd else if v = 3 then JsSpaceBetween else JsStart)"

lemma layout_flags_roundtrip [simp]:
  "layout_cross_align (layout_flags_new ca wrap js) = ca"
  "layout_wrap (layout_flags_new ca wrap js) = wrap"
  "layout_justify (layout_flags_new ca wrap js) = js"
  by (cases ca; cases wrap; cases js;
      simp add: layout_flags_new_def layout_cross_align_def layout_wrap_def layout_justify_def)+

section \<open>Span flags\<close>

record span_flags =
  sf_weight :: "u16 option"
  sf_has_color :: bool
  sf_has_size :: bool
  sf_italic :: bool
  sf_underline :: bool
  sf_strikethrough :: bool

definition span_flags_pack :: "span_flags \<Rightarrow> u16 \<times> u8" where
  "span_flags_pack f =
     (((((case sf_weight f of Some w \<Rightarrow> w AND 0xFFF | None \<Rightarrow> 0) OR
         (if sf_weight f \<noteq> None then 0x1000 else 0)) OR
        (if sf_has_color f then 0x2000 else 0)) OR
       (if sf_italic f then 0x4000 else 0)) OR
      (if sf_underline f then 0x8000 else 0),
      (if sf_strikethrough f then 1 else 0) OR (if sf_has_size f then 2 else 0))"

definition span_flags_unpack :: "u16 \<Rightarrow> u8 \<Rightarrow> span_flags" where
  "span_flags_unpack flags extra =
     \<lparr>sf_weight = (if flags AND 0x1000 \<noteq> 0 then Some (flags AND 0xFFF) else None),
      sf_has_color = (flags AND 0x2000 \<noteq> 0),
      sf_has_size = (extra AND 2 \<noteq> 0),
      sf_italic = (flags AND 0x4000 \<noteq> 0),
      sf_underline = (flags AND 0x8000 \<noteq> 0),
      sf_strikethrough = (extra AND 1 \<noteq> 0)\<rparr>"

lemma span_flags_roundtrip:
  "span_flags_unpack (fst (span_flags_pack f)) (snd (span_flags_pack f)) =
     f\<lparr>sf_weight := map_option (\<lambda>w. w AND 0xFFF) (sf_weight f)\<rparr>"
proof -
  obtain w c s i u k where f: "f = \<lparr>sf_weight = w, sf_has_color = c, sf_has_size = s, sf_italic
      = i,
      sf_underline = u, sf_strikethrough = k\<rparr>" by (cases f)
  have a: "(a AND 0xFFF) AND (m :: u16) = a AND (0xFFF AND m)" for a m by (simp add: and.assoc)
  show ?thesis
    unfolding f span_flags_pack_def span_flags_unpack_def
    by (cases w; cases c; cases s; cases i; cases u; cases k;
        simp add: bit.conj_disj_distrib2 a)
qed

section \<open>The line height\<close>

text \<open>The significand of a finite float and the power of two it counts in.\<close>

definition f32_significand :: "f32 \<Rightarrow> nat" where
  "f32_significand v =
     (if f32_exponent v = 0 then unat (f32_fraction v) else 2 ^ 23 + unat (f32_fraction v))"

definition f32_scale :: "f32 \<Rightarrow> int" where
  "f32_scale v = (if f32_exponent v = 0 then - 149 else int (unat (f32_exponent v)) - 150)"

fun bit_length :: "nat \<Rightarrow> nat" where
  "bit_length n = (if n = 0 then 0 else Suc (bit_length (n div 2)))"

declare bit_length.simps [simp del]

text \<open>Division by a power of two, to the nearest, ties to even.\<close>

definition round_shift :: "nat \<Rightarrow> nat \<Rightarrow> nat" where
  "round_shift n k =
     (let q = n div 2 ^ k; r = n mod 2 ^ k; half = 2 ^ k div 2 in
      if k = 0 then q
      else if half < r \<or> r = half \<and> odd q then q + 1 else q)"

text \<open>\<open>(line_height * 100.0).clamp(0.0, 4095.0) as u32\<close>. The product of a finite float with 100 has no
  more precision than its significand times 100 rounded to 24 bits; the conversion truncates and
  maps a NaN to zero.\<close>

definition line_height_bits :: "f32 \<Rightarrow> nat" where
  "line_height_bits v =
     (if f32_is_nan v \<or> bit v 31 then 0
      else if \<not> f32_is_finite v then 4095
      else
        let n = f32_significand v * 100;
            k = bit_length n - 24;
            m = round_shift n k;
            e = f32_scale v + int k
        in if 0 \<le> e then min 4095 (m * 2 ^ nat e) else min 4095 (m div 2 ^ nat (- e)))"

text \<open>\<open>(fixed as f32) / 100.0\<close> for a 12-bit count: the quotient to 24 bits, rounded to nearest even.\<close>

definition line_height_from :: "nat \<Rightarrow> f32" where
  "line_height_from n =
     (if n = 0 then 0
      else
        let s = (case find (\<lambda>s. 2 ^ 23 \<le> n * 2 ^ s div 100) [0..<31] of Some s \<Rightarrow> s | None \<Rightarrow> 31);
            q = n * 2 ^ s div 100; r = n * 2 ^ s mod 100;
            q = (if 50 < r \<or> r = 50 \<and> odd q then q + 1 else q)
        in word_of_nat ((150 - s) * 2 ^ 23 + (q - 2 ^ 23)))"

lemma line_height_bits_bound: "line_height_bits v \<le> 4095"
  by (simp add: line_height_bits_def Let_def)

section \<open>Text styles\<close>

record text_style =
  ts_size :: u32
  ts_color :: u32
  ts_max_width :: u32
  ts_weight :: u16
  ts_italic :: bool
  ts_underline :: bool
  ts_strikethrough :: bool
  ts_line_height :: f32
  ts_align :: text_align
  ts_overflow :: text_overflow
  ts_outline_color :: u32
  ts_outline_width :: f32
  ts_vertical_align :: vertical_align
  ts_family :: font_family

definition text_style_flags :: "text_style \<Rightarrow> u32" where
  "text_style_flags t =
     (ucast (ts_weight t) AND 0xFFF)
     OR push_bit 12 (word_of_nat (line_height_bits (ts_line_height t)))
     OR push_bit 24 (if ts_italic t then 1 else 0)
     OR push_bit 25 (if ts_underline t then 1 else 0)
     OR push_bit 26 (if ts_strikethrough t then 1 else 0)
     OR push_bit 27 (text_align_bits (ts_align t) AND 3)
     OR push_bit 29 (text_overflow_bits (ts_overflow t) AND 3)"

definition text_style_flags2 :: "text_style \<Rightarrow> u32" where
  "text_style_flags2 t =
     (vertical_align_bits (ts_vertical_align t) AND 3)
     OR push_bit 2 (font_family_bits (ts_family t) AND 3)"

definition text_style_to_bytes :: "text_style \<Rightarrow> bytes" where
  "text_style_to_bytes t =
     le32 (ts_size t) @ le32 (ts_color t) @ le32 (ts_max_width t) @ le32 (text_style_flags t) @
     le32 (ts_outline_color t) @ le32 (ts_outline_width t) @ le32 (text_style_flags2 t)"

definition text_align_of :: "u32 \<Rightarrow> text_align" where
  "text_align_of v = (if v = 1 then TaCenter else if v = 2 then TaRight else TaLeft)"

definition text_overflow_of :: "u32 \<Rightarrow> text_overflow" where
  "text_overflow_of v = (if v = 1 then ToClip else if v = 2 then ToEllipsis else ToWrap)"

definition vertical_align_of :: "u32 \<Rightarrow> vertical_align" where
  "vertical_align_of v =
     (if v = 1 then VaCenter else if v = 2 then VaBottom else if v = 3 then VaBaseline else VaTop)"

definition font_family_of :: "u32 \<Rightarrow> font_family" where
  "font_family_of v = (if v = 1 then FfDeckSans else FfSans)"

definition text_style_from_bytes :: "text_style oreader" where
  "text_style_from_bytes =
     obind ow_u32 (\<lambda>sz. obind ow_color (\<lambda>color. obind ow_u32 (\<lambda>max_width.
     obind ow_u32 (\<lambda>flags. obind ow_color (\<lambda>outline_color. obind ow_extent_f32 (\<lambda>outline_width.
     obind ow_u32 (\<lambda>flags2.
     oreturn \<lparr>ts_size = sz, ts_color = color, ts_max_width = max_width,
       ts_weight = ucast (flags AND 0xFFF),
       ts_italic = (drop_bit 24 flags AND 1 \<noteq> 0),
       ts_underline = (drop_bit 25 flags AND 1 \<noteq> 0),
       ts_strikethrough = (drop_bit 26 flags AND 1 \<noteq> 0),
       ts_line_height = line_height_from (unat (drop_bit 12 flags AND 0xFFF)),
       ts_align = text_align_of (drop_bit 27 flags AND 3),
       ts_overflow = text_overflow_of (drop_bit 29 flags AND 3),
       ts_outline_color = outline_color, ts_outline_width = outline_width,
       ts_vertical_align = vertical_align_of (flags2 AND 3),
       ts_family = font_family_of (drop_bit 2 flags2 AND 3)\<rparr>)))))))"

text \<open>What the wire keeps of a text style: twelve bits of the weight, and hundredths of the line
  height, truncated.\<close>

definition text_style_norm :: "text_style \<Rightarrow> text_style" where
  "text_style_norm t =
     t\<lparr>ts_weight := ts_weight t AND 0xFFF,
       ts_line_height := line_height_from (line_height_bits (ts_line_height t))\<rparr>"

definition text_style_ok :: "text_style \<Rightarrow> bool" where
  "text_style_ok t \<longleftrightarrow> extent_ok (ts_outline_width t)"

text \<open>Reading the fields of a packed word.\<close>

lemma and_masks:
  "(w :: 'a::len word) AND 0xFFF = take_bit 12 w" "w AND 3 = take_bit 2 w" "w AND 1 = take_bit 1 w"
  by (simp_all add: take_bit_eq_mask mask_eq_exp_minus_1)

lemma packed_fields:
  fixes a b c d e f g :: u32
  defines "w \<equiv> take_bit 12 a OR push_bit 12 b OR push_bit 24 c OR push_bit 25 d OR push_bit 26 e
    OR push_bit 27 (take_bit 2 f) OR push_bit 29 (take_bit 2 g)"
  assumes "take_bit 12 b = b" "take_bit 1 c = c" "take_bit 1 d = d" "take_bit 1 e = e"
  shows "take_bit 12 w = take_bit 12 a" "take_bit 12 (drop_bit 12 w) = b"
    "take_bit 1 (drop_bit 24 w) = c" "take_bit 1 (drop_bit 25 w) = d" "take_bit 1 (drop_bit 26 w) = e"
    "take_bit 2 (drop_bit 27 w) = take_bit 2 f" "take_bit 2 (drop_bit 29 w) = take_bit 2 g"
proof -
  have bits: "bit b n \<Longrightarrow> n < 12" "bit c n \<Longrightarrow> n < 1" "bit d n \<Longrightarrow> n < 1" "bit e n \<Longrightarrow> n < 1" for n
    using assms(2-5) by (metis bit_take_bit_iff)+
  have one: "take_bit 1 x = y" if "bit x 0 = bit y 0" "take_bit 1 y = y" for x y :: u32
  proof -
    have "take_bit 1 x = take_bit 1 y"
      by (rule bit_eqI) (use that(1) in \<open>simp only: bit_take_bit_iff less_one, blast\<close>)
    with that(2) show ?thesis by simp
  qed
  show "take_bit 12 w = take_bit 12 a"
    unfolding w_def by (rule bit_eqI) (auto simp: bit_simps)
  show "take_bit 12 (drop_bit 12 w) = b"
  proof (rule bit_eqI)
    fix n
    assume n: "possible_bit TYPE(u32) n"
    show "bit (take_bit 12 (drop_bit 12 w)) n = bit b n"
    proof (cases "n < 12")
      case True
      with n show ?thesis unfolding w_def by (simp add: bit_simps)
    next
      case False
      then have "\<not> bit b n" using bits(1) [of n] by blast
      with False show ?thesis by (simp add: bit_take_bit_iff)
    qed
  qed
  have two: "take_bit 2 x = take_bit 2 y" if "bit x 0 = bit y 0" "bit x 1 = bit y 1" for x y :: u32
    by (rule bit_eqI)
      (use that in \<open>auto simp only: bit_take_bit_iff less_Suc_eq numeral_2_eq_2 not_less_zero One_nat_def\<close>)
  have big: "12 \<le> n \<Longrightarrow> \<not> bit b n" "1 \<le> n \<Longrightarrow> \<not> bit c n" "1 \<le> n \<Longrightarrow> \<not> bit d n" "1 \<le> n \<Longrightarrow> \<not> bit e n" for n
    using bits [of n] by auto
  show "take_bit 1 (drop_bit 24 w) = c"
    by (rule one [OF _ assms(3)]) (simp add: w_def bit_simps big)
  show "take_bit 1 (drop_bit 25 w) = d"
    by (rule one [OF _ assms(4)]) (simp add: w_def bit_simps big)
  show "take_bit 1 (drop_bit 26 w) = e"
    by (rule one [OF _ assms(5)]) (simp add: w_def bit_simps big)
  show "take_bit 2 (drop_bit 27 w) = take_bit 2 f"
    by (rule two) (simp_all add: w_def bit_simps big)
  show "take_bit 2 (drop_bit 29 w) = take_bit 2 g"
    by (rule two) (simp_all add: w_def bit_simps big)
qed

lemma text_style_fields:
  "ucast (text_style_flags t AND 0xFFF) = ts_weight t AND 0xFFF"
  "unat (drop_bit 12 (text_style_flags t) AND 0xFFF) = line_height_bits (ts_line_height t)"
  "(drop_bit 24 (text_style_flags t) AND 1 \<noteq> 0) = ts_italic t"
  "(drop_bit 25 (text_style_flags t) AND 1 \<noteq> 0) = ts_underline t"
  "(drop_bit 26 (text_style_flags t) AND 1 \<noteq> 0) = ts_strikethrough t"
  "text_align_of (drop_bit 27 (text_style_flags t) AND 3) = ts_align t"
  "text_overflow_of (drop_bit 29 (text_style_flags t) AND 3) = ts_overflow t"
proof -
  let ?n = "line_height_bits (ts_line_height t)"
  have lh: "unat (word_of_nat ?n :: u32) = ?n" "take_bit 12 (word_of_nat ?n :: u32) = word_of_nat ?n"
    using line_height_bits_bound [of "ts_line_height t"]
    by (simp_all add: unsigned_of_nat take_bit_nat_eq_self take_bit_of_nat)
  note fields = packed_fields [where a = "ucast (ts_weight t)" and b = "word_of_nat ?n"
      and c = "if ts_italic t then 1 else 0" and d = "if ts_underline t then 1 else 0"
      and e = "if ts_strikethrough t then 1 else 0" and f = "text_align_bits (ts_align t)"
      and g = "text_overflow_bits (ts_overflow t)", OF lh(2)]
  have "ucast (take_bit 12 (ucast w :: u32)) = (take_bit 12 w :: u16)" for w :: u16
    by (rule bit_eqI) (auto simp: bit_simps)
  then show "ucast (text_style_flags t AND 0xFFF) = ts_weight t AND 0xFFF"
    unfolding text_style_flags_def and_masks by (subst fields(1)) simp_all
  show "unat (drop_bit 12 (text_style_flags t) AND 0xFFF) = ?n"
    unfolding text_style_flags_def and_masks by (subst fields(2)) (simp_all add: lh)
  show "(drop_bit 24 (text_style_flags t) AND 1 \<noteq> 0) = ts_italic t"
    unfolding text_style_flags_def and_masks by (subst fields(3)) simp_all
  show "(drop_bit 25 (text_style_flags t) AND 1 \<noteq> 0) = ts_underline t"
    unfolding text_style_flags_def and_masks by (subst fields(4)) simp_all
  show "(drop_bit 26 (text_style_flags t) AND 1 \<noteq> 0) = ts_strikethrough t"
    unfolding text_style_flags_def and_masks by (subst fields(5)) simp_all
  show "text_align_of (drop_bit 27 (text_style_flags t) AND 3) = ts_align t"
    unfolding text_style_flags_def and_masks
    by (subst fields(6), simp_all, cases "ts_align t") (simp_all add: text_align_of_def)
  show "text_overflow_of (drop_bit 29 (text_style_flags t) AND 3) = ts_overflow t"
    unfolding text_style_flags_def and_masks
    by (subst fields(7), simp_all, cases "ts_overflow t") (simp_all add: text_overflow_of_def)
qed

lemma text_style_fields2:
  "vertical_align_of (text_style_flags2 t AND 3) = ts_vertical_align t"
  "font_family_of (drop_bit 2 (text_style_flags2 t) AND 3) = ts_family t"
  by (cases "ts_vertical_align t"; cases "ts_family t";
      simp add: text_style_flags2_def vertical_align_of_def font_family_of_def)+

lemma text_style_ofits:
  "text_style_ok t \<Longrightarrow> ofits text_style_from_bytes (text_style_to_bytes t) (text_style_norm t)"
proof -
  assume ok: "text_style_ok t"
  let ?r = "\<lambda>w l. \<lparr>ts_size = ts_size t, ts_color = ts_color t, ts_max_width = ts_max_width t,
       ts_weight = w, ts_italic = ts_italic t, ts_underline = ts_underline t,
       ts_strikethrough = ts_strikethrough t, ts_line_height = l, ts_align = ts_align t,
       ts_overflow = ts_overflow t, ts_outline_color = ts_outline_color t,
       ts_outline_width = ts_outline_width t, ts_vertical_align = ts_vertical_align t,
       ts_family = ts_family t\<rparr>"
  have eq: "text_style_norm t =
      ?r (ts_weight t AND 0xFFF) (line_height_from (line_height_bits (ts_line_height t)))"
    by (cases t) (simp add: text_style_norm_def)
  show ?thesis
    unfolding text_style_from_bytes_def text_style_to_bytes_def eq
      text_style_fields [of t, symmetric] text_style_fields2 [of t, symmetric]
    using ok by (intro ofits) (simp add: text_style_ok_def)
qed

section \<open>Layout properties\<close>

record props_data =
  pd_padding :: f32
  pd_margin :: f32
  pd_gap :: f32
  pd_background :: u32
  pd_width :: f32
  pd_height :: f32
  pd_flex :: f32
  pd_max_width :: f32
  pd_max_height :: f32
  pd_cross_align :: cross_align
  pd_justify_content :: justify
  pd_wrap :: bool
  pd_bg_np_id :: "u16 option"
  pd_bg_np_left :: u16
  pd_bg_np_top :: u16
  pd_bg_np_right :: u16
  pd_bg_np_bottom :: u16
  pd_inset_top :: f32
  pd_inset_right :: f32
  pd_inset_bottom :: f32
  pd_inset_left :: f32
  pd_border_radius :: f32
  pd_border_width :: f32
  pd_border_color :: u32

definition props_to_bytes :: "props_data \<Rightarrow> bytes" where
  "props_to_bytes p =
     le32 (pd_padding p) @
     le32 (pd_margin p) @
     le32 (pd_gap p) @
     le32 (pd_background p) @
     le32 (pd_width p) @
     le32 (pd_height p) @
     le32 (pd_flex p) @
     le32 (pd_max_width p) @
     le32 (pd_max_height p) @
     le32 (layout_flags_new (pd_cross_align p) (pd_wrap p) (pd_justify_content p)) @
     le16 (case pd_bg_np_id p of Some v \<Rightarrow> v | None \<Rightarrow> 0) @
     le16 (pd_bg_np_left p) @
     le16 (pd_bg_np_top p) @
     le16 (pd_bg_np_right p) @
     le16 (pd_bg_np_bottom p) @
     le32 (pd_inset_top p) @
     le32 (pd_inset_right p) @
     le32 (pd_inset_bottom p) @
     le32 (pd_inset_left p) @
     le32 (pd_border_radius p) @
     le32 (pd_border_width p) @
     le32 (pd_border_color p)"

definition props_from_bytes :: "props_data oreader" where
  "props_from_bytes =
     obind ow_extent_f32 (\<lambda>padding_v.
     obind ow_finite_f32 (\<lambda>margin_v.
     obind ow_extent_f32 (\<lambda>gap_v.
     obind ow_color (\<lambda>background_v.
     obind ow_extent_f32 (\<lambda>width_v.
     obind ow_extent_f32 (\<lambda>height_v.
     obind ow_extent_f32 (\<lambda>flex_v.
     obind ow_extent_f32 (\<lambda>max_width_v.
     obind ow_extent_f32 (\<lambda>max_height_v.
     obind ow_u32 (\<lambda>layout_v.
     obind ow_u16 (\<lambda>bg_np_id_v.
     obind ow_u16 (\<lambda>bg_np_left_v.
     obind ow_u16 (\<lambda>bg_np_top_v.
     obind ow_u16 (\<lambda>bg_np_right_v.
     obind ow_u16 (\<lambda>bg_np_bottom_v.
     obind ow_f32 (\<lambda>inset_top_v.
     obind ow_f32 (\<lambda>inset_right_v.
     obind ow_f32 (\<lambda>inset_bottom_v.
     obind ow_f32 (\<lambda>inset_left_v.
     obind ow_extent_f32 (\<lambda>border_radius_v.
     obind ow_extent_f32 (\<lambda>border_width_v.
     obind ow_color (\<lambda>border_color_v.
     oreturn \<lparr>pd_padding = padding_v,
       pd_margin = margin_v,
       pd_gap = gap_v,
       pd_background = background_v,
       pd_width = width_v,
       pd_height = height_v,
       pd_flex = flex_v,
       pd_max_width = max_width_v,
       pd_max_height = max_height_v,
       pd_cross_align = layout_cross_align layout_v,
       pd_justify_content = layout_justify layout_v,
       pd_wrap = layout_wrap layout_v,
       pd_bg_np_id = (if bg_np_id_v = 0 then None else Some bg_np_id_v),
       pd_bg_np_left = bg_np_left_v,
       pd_bg_np_top = bg_np_top_v,
       pd_bg_np_right = bg_np_right_v,
       pd_bg_np_bottom = bg_np_bottom_v,
       pd_inset_top = inset_top_v,
       pd_inset_right = inset_right_v,
       pd_inset_bottom = inset_bottom_v,
       pd_inset_left = inset_left_v,
       pd_border_radius = border_radius_v,
       pd_border_width = border_width_v,
       pd_border_color = border_color_v\<rparr>))))))))))))))))))))))"

definition props_ok :: "props_data \<Rightarrow> bool" where
  "props_ok p \<longleftrightarrow> extent_ok (pd_padding p) \<and>
     f32_is_finite (pd_margin p) \<and>
     extent_ok (pd_gap p) \<and>
     extent_ok (pd_width p) \<and>
     extent_ok (pd_height p) \<and>
     extent_ok (pd_flex p) \<and>
     extent_ok (pd_max_width p) \<and>
     extent_ok (pd_max_height p) \<and>
     extent_ok (pd_border_radius p) \<and>
     extent_ok (pd_border_width p) \<and>
     id_ok (pd_bg_np_id p)"

lemma props_ofits:
  assumes "props_ok p"
  shows "ofits props_from_bytes (props_to_bytes p) p"
proof -
  obtain x0 x1 x2 x3 x4 x5 x6 x7 x8 x9 x10 x11 x12 x13 x14 x15 x16 x17 x18 x19 x20 x21 x22 x23 where
      p: "p = \<lparr>pd_padding = x0, pd_margin = x1, pd_gap = x2, pd_background = x3, pd_width = x4,
      pd_height = x5, pd_flex = x6, pd_max_width = x7, pd_max_height = x8, pd_cross_align = x9,
      pd_justify_content = x10, pd_wrap = x11, pd_bg_np_id = x12, pd_bg_np_left = x13, pd_bg_np_top = x14,
      pd_bg_np_right = x15, pd_bg_np_bottom = x16, pd_inset_top = x17, pd_inset_right = x18,
      pd_inset_bottom = x19, pd_inset_left = x20, pd_border_radius = x21, pd_border_width = x22,
      pd_border_color = x23\<rparr>"
    by (cases p)
  have nid: "(if (case x12 of Some v \<Rightarrow> v | None \<Rightarrow> 0) = (0 :: u16) then None
      else Some (case x12 of Some v \<Rightarrow> v | None \<Rightarrow> 0)) = x12"
    using assms by (cases x12) (auto simp: p props_ok_def id_ok_def)
  have "ofits props_from_bytes (props_to_bytes p)
      \<lparr>pd_padding = x0, pd_margin = x1, pd_gap = x2, pd_background = x3, pd_width = x4, pd_height =
          x5, pd_flex = x6, pd_max_width = x7, pd_max_height = x8, pd_cross_align = layout_cross_align
          (layout_flags_new x9 x11 x10), pd_justify_content = layout_justify (layout_flags_new x9 x11 x10),
          pd_wrap = layout_wrap (layout_flags_new x9 x11 x10), pd_bg_np_id = (if (case x12 of Some v
          \<Rightarrow> v | None \<Rightarrow> 0) = (0 :: u16) then None else Some (case x12 of Some v
          \<Rightarrow> v | None \<Rightarrow> 0)), pd_bg_np_left = x13, pd_bg_np_top = x14, pd_bg_np_right =
          x15, pd_bg_np_bottom = x16, pd_inset_top = x17, pd_inset_right = x18, pd_inset_bottom = x19,
          pd_inset_left = x20, pd_border_radius = x21, pd_border_width = x22, pd_border_color = x23\<rparr>"
    unfolding props_from_bytes_def props_to_bytes_def p props_data.simps
    using assms unfolding p props_ok_def props_data.simps by (intro ofits) simp_all
  then show ?thesis unfolding layout_flags_roundtrip nid p .
qed

lemma length_props [simp]: "length (props_to_bytes p) = 78"
  by (simp add: props_to_bytes_def)

lemma length_text_style [simp]: "length (text_style_to_bytes t) = 28"
  by (simp add: text_style_to_bytes_def)

section \<open>On the reader and the writer\<close>

definition w_props :: "props_data \<Rightarrow> written" where
  "w_props p = w_bytes (props_to_bytes p)"

definition r_props :: "props_data reader" where
  "r_props = r_struct InvalidProps 78 props_from_bytes"

definition w_text_style :: "text_style \<Rightarrow> written" where
  "w_text_style t = w_bytes (text_style_to_bytes t)"

definition r_text_style :: "text_style reader" where
  "r_text_style = r_struct InvalidTextStyle 28 text_style_from_bytes"

interpretation props: exact_codec w_props r_props props_ok
  by unfold_locales (simp add: w_props_def r_props_def fits_struct props_ofits)

interpretation text_style: wire_codec w_text_style r_text_style text_style_ok text_style_norm
  by unfold_locales (simp add: w_text_style_def r_text_style_def fits_struct text_style_ofits)

lemmas fits_text [fits] = props.bind text_style.bind

end
