(* ===== verification/Ui_Tree.thy ===== *)
theory Ui_Tree
  imports Ui_Text
begin

unbundle bit_operations_syntax

text \<open>
  The widget tree (\<^verbatim>\<open>bmc-render/ui/src/tree.rs\<close>) and the vocabulary it is made of: fills, arcs, skins,
  meshes, animations, relative times and placeholders, each with its wire bytes, and the
  classification of nodes and draws into a static and a dynamic half (\<^verbatim>\<open>partition.rs\<close>). A string is
  its UTF-8 bytes, a resource id a non-zero word.
\<close>

section \<open>Fills, dashes and path paints\<close>

datatype fill = FillSolid u32 | FillLinear f32 u32 u32 | FillRadial u32 u32

fun encode_fill :: "fill \<Rightarrow> bytes" where
  "encode_fill (FillSolid c) = [0] @ le32 c"
| "encode_fill (FillLinear angle start stop) = [1] @ le32 start @ le32 stop @ le32 angle"
| "encode_fill (FillRadial inner outer) = [2] @ le32 inner @ le32 outer"

definition decode_fill :: "fill oreader" where
  "decode_fill = obind ow_u8 (\<lambda>kind.
     if kind = 0 then obind ow_color (\<lambda>c. oreturn (FillSolid c))
     else if kind = 1 then
       obind ow_color (\<lambda>start. obind ow_color (\<lambda>stop. obind ow_finite_f32 (\<lambda>angle.
         oreturn (FillLinear angle start stop))))
     else if kind = 2 then
       obind ow_color (\<lambda>inner. obind ow_color (\<lambda>outer. oreturn (FillRadial inner outer)))
     else ofail)"

fun fill_ok :: "fill \<Rightarrow> bool" where
  "fill_ok (FillLinear angle start stop) = f32_is_finite angle"
| "fill_ok _ = True"

record dash =
  dash_on :: f32
  dash_off :: f32

text \<open>A run is usable from 0.01 px on, whose bit pattern is \<open>0x3C23D70A\<close>.\<close>

definition dash_usable :: "f32 \<Rightarrow> bool" where
  "dash_usable run \<longleftrightarrow> f32_is_finite run \<and> f32_ge 0x3C23D70A run"

definition dash_new :: "f32 \<Rightarrow> f32 \<Rightarrow> dash option" where
  "dash_new on off =
     (if dash_usable on \<and> dash_usable off then Some \<lparr>dash_on = on, dash_off = off\<rparr> else None)"

datatype path_paint = PaintStroke u32 f32 "dash option" | PaintFill fill

section \<open>Arcs\<close>

datatype arc_fill = ArcFillSolid u32 | ArcFillGradient u32 u32
datatype arc_segments = SegContinuous | SegExplicit "(f32 \<times> f32) list"
datatype arc_cap = CapRound | CapButt

fun encode_arc_fill :: "arc_fill \<Rightarrow> bytes" where
  "encode_arc_fill (ArcFillSolid c) = [0] @ le32 c"
| "encode_arc_fill (ArcFillGradient start stop) = [1] @ le32 start @ le32 stop"

definition decode_arc_fill :: "arc_fill oreader" where
  "decode_arc_fill = obind ow_u8 (\<lambda>kind.
     if kind = 0 then obind ow_color (\<lambda>c. oreturn (ArcFillSolid c))
     else if kind = 1 then
       obind ow_color (\<lambda>start. obind ow_color (\<lambda>stop. oreturn (ArcFillGradient start stop)))
     else ofail)"

text \<open>More than \<open>u32::MAX\<close> spans make the encoder panic, which is \<open>None\<close>.\<close>

fun encode_arc_segments :: "arc_segments \<Rightarrow> bytes option" where
  "encode_arc_segments SegContinuous = Some [0]"
| "encode_arc_segments (SegExplicit spans) =
     (if length spans < 2 ^ 32
      then Some ([1] @ le32 (word_of_nat (length spans)) @
                 concat (map (\<lambda>(a, b). le32 a @ le32 b) spans))
      else None)"

text \<open>The reader refuses a count the data cannot hold before it reserves space for it.\<close>

definition osegments_left :: "nat oreader" where
  "osegments_left d p = (if p \<le> length d then Some ((length d - p) div 8, p) else None)"

definition ospan :: "(f32 \<times> f32) oreader" where
  "ospan = obind ow_finite_f32 (\<lambda>a. obind ow_finite_f32 (\<lambda>b. oreturn (a, b)))"

definition decode_arc_segments :: "arc_segments oreader" where
  "decode_arc_segments = obind ow_u8 (\<lambda>kind.
     if kind = 0 then oreturn SegContinuous
     else if kind = 1 then
       obind ow_u32 (\<lambda>count. obind osegments_left (\<lambda>left.
         if left < unat count then ofail
         else obind (omany (unat count) ospan) (\<lambda>spans. oreturn (SegExplicit spans))))
     else ofail)"

fun arc_segments_ok :: "arc_segments \<Rightarrow> bool" where
  "arc_segments_ok SegContinuous = True"
| "arc_segments_ok (SegExplicit spans) =
     (length spans < 2 ^ 32 \<and> list_all (\<lambda>(a, b). f32_is_finite a \<and> f32_is_finite b) spans)"

fun encode_arc_cap :: "arc_cap \<Rightarrow> bytes" where
  "encode_arc_cap CapRound = [0]"
| "encode_arc_cap CapButt = [1]"

definition decode_arc_cap :: "arc_cap oreader" where
  "decode_arc_cap = obind ow_u8 (\<lambda>kind.
     if kind = 0 then oreturn CapRound else if kind = 1 then oreturn CapButt else ofail)"

section \<open>Animations\<close>

datatype anim_property =
  ApRotate | ApScale | ApAlpha | ApTranslateX | ApTranslateY | ApOrbitAngle | ApColor
datatype easing =
    EzLinear | EzIn | EzOut | EzInOut | EzInCubic | EzOutCubic | EzInOutCubic | EzOutBack
  | EzInOutBack | EzOutBounce | EzOutElastic
datatype loop_mode = LoopOnce | LoopForever | LoopPingPong
datatype color_space = CsOklab | CsOklch | CsLinearRgb | CsSrgb

text \<open>An enumeration with explicit discriminants, as the list of its values in order.\<close>

definition anim_properties :: "anim_property list" where
  "anim_properties =
     [ApRotate, ApScale, ApAlpha, ApTranslateX, ApTranslateY, ApOrbitAngle, ApColor]"

definition easings :: "easing list" where
  "easings = [EzLinear, EzIn, EzOut, EzInOut, EzInCubic, EzOutCubic, EzInOutCubic, EzOutBack,
     EzInOutBack, EzOutBounce, EzOutElastic]"

definition loop_modes :: "loop_mode list" where
  "loop_modes = [LoopOnce, LoopForever, LoopPingPong]"

definition color_spaces :: "color_space list" where
  "color_spaces = [CsOklab, CsOklch, CsLinearRgb, CsSrgb]"

definition enum_u8 :: "'a list \<Rightarrow> 'a \<Rightarrow> u8" where
  "enum_u8 vs v = (case position (\<lambda>x. x = v) vs of Some i \<Rightarrow> word_of_nat i | None \<Rightarrow> 0)"

definition enum_from_u8 :: "'a list \<Rightarrow> u8 \<Rightarrow> 'a option" where
  "enum_from_u8 vs v = get vs (unat v)"

record animation_def =
  an_property :: anim_property
  an_from :: f32
  an_to :: f32
  an_duration_ms :: u32
  an_delay_ms :: u16
  an_easing :: easing
  an_loop_mode :: loop_mode

record transition_def =
  tr_id_hash :: u32
  tr_duration_ms :: u32
  tr_easing :: easing

datatype interpolation = IpLinear | IpCatmullRom

section \<open>Node payloads\<close>

record span =
  sp_text :: bytes
  sp_weight :: "u16 option"
  sp_color :: "u32 option"
  sp_size :: "u32 option"
  sp_italic :: bool
  sp_underline :: bool
  sp_strikethrough :: bool

definition span_wire_flags :: "span \<Rightarrow> u16 \<times> u8" where
  "span_wire_flags s = span_flags_pack
     \<lparr>sf_weight = sp_weight s, sf_has_color = (sp_color s \<noteq> None), sf_has_size = (sp_size s \<noteq> None),
      sf_italic = sp_italic s, sf_underline = sp_underline s,
      sf_strikethrough = sp_strikethrough s\<rparr>"

record nine_patch =
  np_bitmap_id :: "u16 option"
  np_left :: u16
  np_top :: u16
  np_right :: u16
  np_bottom :: u16

record button_skin =
  bs_normal :: nine_patch
  bs_pressed :: "nine_patch option"
  bs_text_color :: u32
  bs_pressed_text_color :: u32
  bs_opaque :: bool

record slider_skin =
  ss_track :: nine_patch
  ss_track_h :: u16
  ss_thumb_id :: "u16 option"
  ss_thumb_w :: u16
  ss_thumb_h :: u16
  ss_thumb_pressed_id :: "u16 option"

datatype button_style = BtnPrimary | BtnSecondary | BtnDanger | BtnTertiary | BtnGhost
datatype button_size = BtnSmall | BtnNormal | BtnLarge

fun button_style_u8 :: "button_style \<Rightarrow> u8" where
  "button_style_u8 BtnPrimary = 0" | "button_style_u8 BtnSecondary = 1"
| "button_style_u8 BtnDanger = 2" | "button_style_u8 BtnTertiary = 3" | "button_style_u8 BtnGhost = 4"

definition button_style_from :: "u8 \<Rightarrow> button_style" where
  "button_style_from v =
     (if v = 1 then BtnSecondary else if v = 2 then BtnDanger else if v = 3 then BtnTertiary
      else if v = 4 then BtnGhost else BtnPrimary)"

fun button_size_u8 :: "button_size \<Rightarrow> u8" where
  "button_size_u8 BtnSmall = 0" | "button_size_u8 BtnNormal = 1" | "button_size_u8 BtnLarge = 2"

definition button_size_from :: "u8 \<Rightarrow> button_size" where
  "button_size_from v = (if v = 0 then BtnSmall else if v = 2 then BtnLarge else BtnNormal)"

datatype notification_kind = NtError | NtWarning | NtSuccess | NtInfo

fun notification_kind_u8 :: "notification_kind \<Rightarrow> u8" where
  "notification_kind_u8 NtError = 0" | "notification_kind_u8 NtWarning = 1"
| "notification_kind_u8 NtSuccess = 2" | "notification_kind_u8 NtInfo = 3"

definition notification_kind_from :: "u8 \<Rightarrow> notification_kind" where
  "notification_kind_from v =
     (if v = 0 then NtError else if v = 1 then NtWarning else if v = 2 then NtSuccess else NtInfo)"

datatype tag_kind = TgInfo | TgWarning | TgError
datatype tag_icon_mode = TimDefault | TimHidden | TimCustom
datatype tag_icon = TiDefault | TiHidden | TiCustom u16

definition tag_kinds :: "tag_kind list" where "tag_kinds = [TgInfo, TgWarning, TgError]"

definition tag_icon_modes :: "tag_icon_mode list" where
  "tag_icon_modes = [TimDefault, TimHidden, TimCustom]"

datatype rel_time_length = RtShort | RtLong
datatype rel_time_segments = RtSingle | RtDouble
datatype rel_time_clamp = RcAuto | RcElapsedOnly | RcRemainingOnly

record rel_time_format =
  rt_length :: rel_time_length
  rt_segments :: rel_time_segments

definition rel_time_format_u8 :: "rel_time_format \<Rightarrow> u8" where
  "rel_time_format_u8 f =
     (case rt_length f of RtShort \<Rightarrow> 0 | RtLong \<Rightarrow> 1) OR
     push_bit 1 (case rt_segments f of RtSingle \<Rightarrow> 0 | RtDouble \<Rightarrow> 1)"

definition rel_time_format_try_from :: "u8 \<Rightarrow> rel_time_format option" where
  "rel_time_format_try_from v =
     (if v AND NOT 3 \<noteq> 0 then None
      else Some \<lparr>rt_length = (if v AND 1 = 0 then RtShort else RtLong),
                 rt_segments = (if v AND 2 = 0 then RtSingle else RtDouble)\<rparr>)"

definition rel_time_clamps :: "rel_time_clamp list" where
  "rel_time_clamps = [RcAuto, RcElapsedOnly, RcRemainingOnly]"

datatype progress_kind = PkSlider | PkIndeterminate | PkMeter
datatype progress_mode = PmSlider f32 | PmIndeterminate | PmMeter f32

definition progress_kinds :: "progress_kind list" where
  "progress_kinds = [PkSlider, PkIndeterminate, PkMeter]"

fun progress_mode_kind :: "progress_mode \<Rightarrow> progress_kind" where
  "progress_mode_kind (PmSlider x) = PkSlider"
| "progress_mode_kind PmIndeterminate = PkIndeterminate"
| "progress_mode_kind (PmMeter x) = PkMeter"

fun progress_mode_fraction :: "progress_mode \<Rightarrow> f32" where
  "progress_mode_fraction (PmSlider x) = x"
| "progress_mode_fraction PmIndeterminate = 0"
| "progress_mode_fraction (PmMeter x) = x"

fun progress_mode_from_wire :: "progress_kind \<Rightarrow> f32 \<Rightarrow> progress_mode" where
  "progress_mode_from_wire PkSlider x = PmSlider x"
| "progress_mode_from_wire PkIndeterminate x = PmIndeterminate"
| "progress_mode_from_wire PkMeter x = PmMeter x"

datatype skeleton_kind = SkText | SkHeading | SkPlaceholder | SkFill

definition skeleton_kinds :: "skeleton_kind list" where
  "skeleton_kinds = [SkText, SkHeading, SkPlaceholder, SkFill]"

record skeleton_data =
  sk_kind :: skeleton_kind
  sk_chars :: f32
  sk_font_size :: f32
  sk_width :: f32
  sk_height :: f32
  sk_color :: u32

record switcher_tab =
  tab_icon :: "u16 option"
  tab_click_id :: bytes

record qr_style =
  qr_dark :: u32
  qr_light :: u32
  qr_quiet_zone :: u8

record mesh_transform =
  mt_fov :: f32
  mt_distance :: f32
  mt_quat :: "f32 list"
  mt_position :: "f32 list"
  mt_scale :: f32

record mesh_lighting =
  ml_pitch :: f32
  ml_yaw :: f32
  ml_ambient :: f32
  ml_specular :: f32

record mesh_highlight =
  mh_u_min :: f32
  mh_v_min :: f32
  mh_u_max :: f32
  mh_v_max :: f32
  mh_r :: f32
  mh_g :: f32
  mh_b :: f32

record mesh_draw_args =
  ma_transform :: mesh_transform
  ma_lighting :: mesh_lighting
  ma_highlight :: mesh_highlight

section \<open>Draws and nodes\<close>

datatype (plugins only: size) draw =
    DrawRect f32 f32 f32 f32 fill
  | DrawCircle f32 f32 f32 fill
  | DrawArc f32 f32 f32 f32 f32 f32 arc_fill arc_segments arc_cap
  | DrawCentered draw
  | DrawOrbit f32 f32 draw
  | DrawRotated f32 draw
  | DrawShadow f32 f32 f32 u32 draw
  | DrawSvg f32 f32 f32 f32 u32 "u16 option" bool "(bytes \<times> u32) list"
  | DrawBitmap f32 f32 f32 f32 "u16 option"
  | DrawQr f32 f32 f32 qr_style bytes
  | DrawModified "animation_def list" "transition_def option" color_space draw
  | DrawPath "(f32 \<times> f32) list" path_paint bool interpolation
  | DrawText f32 f32 bytes text_style
  | DrawCurvedText f32 f32 f32 f32 arc_anchor arc_text_facing bytes text_style
  | DrawAutofitText f32 f32 f32 f32 auto_fit u16 u16 bytes text_style
  | DrawNinePatch f32 f32 f32 f32 nine_patch
  | DrawSphere f32 f32 f32 f32 "u16 option" bool f32 f32 f32 f32 f32
  | DrawMesh f32 f32 f32 f32 "u16 option" mesh_draw_args

text \<open>The strings of a modal's footer, and its header.\<close>

record modal_footer =
  mf_primary_key :: bytes
  mf_primary_label :: bytes
  mf_secondary_key :: bytes
  mf_secondary_label :: bytes
  mf_danger :: bool

record modal_head =
  mo_id :: bytes
  mo_is_open :: bool
  mo_title :: bytes
  mo_content_height :: f32
  mo_padding :: u16
  mo_backdrop_alpha :: u8
  mo_bg_color :: u32
  mo_header_color :: u32
  mo_title_color :: u32
  mo_max_width :: u16

datatype (plugins only: size) node =
    NColumn props_data "node list"
  | NRow props_data "node list"
  | NCenter props_data "node list"
  | NParagraph props_data text_style "span list"
  | NButton bytes bytes button_style button_size "u16 option" bool bool "button_skin option"
  | NSpacer f32
  | NCanvas props_data "bytes option" "draw list"
  | NNotification notification_kind bytes bytes
  | NRelTime u64 rel_time_format rel_time_clamp text_style
  | NTag tag_kind tag_icon node
  | NSwitcher nat bool "switcher_tab list"
  | NSkeleton skeleton_data
  | NScroll bytes props_data "node list"
  | NModal modal_head "node list" modal_footer
  | NProgressBar "bytes option" f32 progress_mode bool u32 u32 u32 "slider_skin option"
  | NDimmed f32 node

section \<open>Static and dynamic halves\<close>

fun draw_is_dynamic :: "draw \<Rightarrow> bool" where
  "draw_is_dynamic (DrawModified animations transition cs inner) =
     (animations \<noteq> [] \<or> transition \<noteq> None \<or> draw_is_dynamic inner)"
| "draw_is_dynamic (DrawCentered inner) = draw_is_dynamic inner"
| "draw_is_dynamic (DrawOrbit r a inner) = draw_is_dynamic inner"
| "draw_is_dynamic (DrawRotated a inner) = draw_is_dynamic inner"
| "draw_is_dynamic (DrawShadow dx dy b c inner) = draw_is_dynamic inner"
| "draw_is_dynamic _ = False"

fun node_self_is_dynamic :: "node \<Rightarrow> bool" where
  "node_self_is_dynamic (NDimmed b child) = node_self_is_dynamic child"
| "node_self_is_dynamic (NRelTime a f c s) = True"
| "node_self_is_dynamic (NProgressBar k t m a f tr bg s) = True"
| "node_self_is_dynamic (NModal h b f) = True"
| "node_self_is_dynamic _ = False"

end
