(* ===== verification/Tree_Codec.thy ===== *)
theory Tree_Codec
  imports Ui_Tree
begin

unbundle bit_operations_syntax

text \<open>
  The encoder and the decoder of widget trees (\<^verbatim>\<open>bmc-render/ui/src/codec.rs\<close>), node by node and draw by
  draw in the order of the source. The recursion of the decoder is on the nesting of the data:
  every node and draw takes at least its type byte, so the number of bytes left bounds it, and a
  reader with none left reports the truncation the source reports. \<open>Tree_Decode_Props\<close> shows that
  the bound is never felt: the readers satisfy the equations of the source without it.
\<close>

section \<open>Type bytes\<close>

abbreviation "NODE_COLUMN \<equiv> 0x00 :: u8"
abbreviation "NODE_ROW \<equiv> 0x01 :: u8"
abbreviation "NODE_CENTER \<equiv> 0x02 :: u8"
abbreviation "NODE_PARAGRAPH \<equiv> 0x03 :: u8"
abbreviation "NODE_BUTTON \<equiv> 0x04 :: u8"
abbreviation "NODE_SPACER \<equiv> 0x05 :: u8"
abbreviation "NODE_CANVAS \<equiv> 0x06 :: u8"
abbreviation "NODE_MODAL \<equiv> 0x07 :: u8"
abbreviation "NODE_NOTIFICATION \<equiv> 0x08 :: u8"
abbreviation "NODE_SCROLL \<equiv> 0x09 :: u8"
abbreviation "NODE_PROGRESS_BAR \<equiv> 0x0A :: u8"
abbreviation "NODE_RELTIME \<equiv> 0x0B :: u8"
abbreviation "NODE_TAG \<equiv> 0x0C :: u8"
abbreviation "NODE_SWITCHER \<equiv> 0x0D :: u8"
abbreviation "NODE_SKELETON \<equiv> 0x0E :: u8"
abbreviation "NODE_DIMMED \<equiv> 0x0F :: u8"

abbreviation "DRAW_RECT \<equiv> 0x40 :: u8"
abbreviation "DRAW_CIRCLE \<equiv> 0x41 :: u8"
abbreviation "DRAW_ICON \<equiv> 0x42 :: u8"
abbreviation "DRAW_BITMAP \<equiv> 0x43 :: u8"
abbreviation "DRAW_PATH \<equiv> 0x44 :: u8"
abbreviation "DRAW_SPHERE \<equiv> 0x45 :: u8"
abbreviation "DRAW_TEXT \<equiv> 0x46 :: u8"
abbreviation "DRAW_MESH \<equiv> 0x47 :: u8"
abbreviation "DRAW_NINE_PATCH \<equiv> 0x48 :: u8"
abbreviation "DRAW_CURVED_TEXT \<equiv> 0x49 :: u8"
abbreviation "DRAW_ARC \<equiv> 0x4A :: u8"
abbreviation "DRAW_AUTOFIT_TEXT \<equiv> 0x4B :: u8"
abbreviation "DRAW_QR \<equiv> 0x4C :: u8"
abbreviation "DRAW_CENTERED \<equiv> 0x60 :: u8"
abbreviation "DRAW_ORBIT \<equiv> 0x61 :: u8"
abbreviation "DRAW_ROTATED \<equiv> 0x62 :: u8"
abbreviation "DRAW_SHADOW \<equiv> 0x63 :: u8"
abbreviation "DRAW_MODIFIED \<equiv> 0x80 :: u8"

section \<open>Encoding draws\<close>

definition w_nine_patch :: "nine_patch \<Rightarrow> written" where
  "w_nine_patch np = wcat [w_id (np_bitmap_id np), w_u16 (np_left np), w_u16 (np_top np),
     w_u16 (np_right np), w_u16 (np_bottom np)]"

definition w_fill :: "fill \<Rightarrow> written" where
  "w_fill f = w_bytes (encode_fill f)"

definition w_arc_fill :: "arc_fill \<Rightarrow> written" where
  "w_arc_fill f = w_bytes (encode_arc_fill f)"

text \<open>The panic on more spans than 32 bits count is written as an overflow with its message.\<close>

definition w_arc_segments :: "arc_segments \<Rightarrow> written" where
  "w_arc_segments s =
     (case encode_arc_segments s of
        Some bs \<Rightarrow> w_bytes bs
      | None \<Rightarrow> ([], Some ''BUG: arc segment count exceeds u32''))"

definition w_arc_cap :: "arc_cap \<Rightarrow> written" where
  "w_arc_cap c = w_bytes (encode_arc_cap c)"

definition w_svg_fill :: "bytes \<times> u32 \<Rightarrow> written" where
  "w_svg_fill f = wcat [w_str (fst f) ''SVG path id exceeds u16::MAX bytes'', w_color (snd f)]"

definition w_animation :: "animation_def \<Rightarrow> written" where
  "w_animation a = wcat [w_u8 (enum_u8 anim_properties (an_property a)), w_f32 (an_from a),
     w_f32 (an_to a), w_u32 (an_duration_ms a), w_u16 (an_delay_ms a),
     w_u8 (enum_u8 easings (an_easing a)), w_u8 (enum_u8 loop_modes (an_loop_mode a))]"

definition w_transition :: "transition_def \<Rightarrow> written" where
  "w_transition t = wcat [w_u32 (tr_id_hash t), w_u32 (tr_duration_ms t),
     w_u8 (enum_u8 easings (tr_easing t))]"

definition modified_flags :: "animation_def list \<Rightarrow> transition_def option \<Rightarrow> color_space \<Rightarrow> u8" where
  "modified_flags animations transition cs =
     ((if animations \<noteq> [] then 1 else 0) OR (if transition \<noteq> None then 2 else 0))
     OR push_bit 2 (enum_u8 color_spaces cs)"

definition w_animations :: "animation_def list \<Rightarrow> written" where
  "w_animations as = wcat [w_count_u8 (length as) ''node animations exceed u8::MAX'',
     wcat (map w_animation as)]"

definition path_flags :: "path_paint \<Rightarrow> bool \<Rightarrow> interpolation \<Rightarrow> u8" where
  "path_flags paint is_closed ip =
     (((if is_closed then 1 else 0) OR (if ip = IpCatmullRom then 2 else 0))
      OR (case paint of PaintFill f \<Rightarrow> 4 | PaintStroke c w d \<Rightarrow> 0))
     OR (case paint of PaintStroke c w (Some d) \<Rightarrow> 8 | _ \<Rightarrow> 0)"

definition w_point :: "f32 \<times> f32 \<Rightarrow> written" where
  "w_point p = wcat [w_f32 (fst p), w_f32 (snd p)]"

definition w_dash :: "dash \<Rightarrow> written" where
  "w_dash d = wcat [w_f32 (dash_on d), w_f32 (dash_off d)]"

definition w_path_paint :: "path_paint \<Rightarrow> written" where
  "w_path_paint paint =
     (case paint of
        PaintFill f \<Rightarrow> w_fill f
      | PaintStroke c width d \<Rightarrow> wcat [w_color c, w_f32 width, w_option w_dash d])"

definition w_mesh_args :: "mesh_draw_args \<Rightarrow> written" where
  "w_mesh_args a =
     (let t = ma_transform a; l = ma_lighting a; h = ma_highlight a in
      wcat [w_f32 (mt_fov t), w_f32 (mt_distance t), wcat (map w_f32 (mt_quat t)),
        wcat (map w_f32 (mt_position t)), w_f32 (mt_scale t),
        w_f32 (ml_pitch l), w_f32 (ml_yaw l), w_f32 (ml_ambient l), w_f32 (ml_specular l),
        w_f32 (mh_u_min h), w_f32 (mh_v_min h), w_f32 (mh_u_max h), w_f32 (mh_v_max h),
        w_f32 (mh_r h), w_f32 (mh_g h), w_f32 (mh_b h)])"

primrec w_draw :: "draw \<Rightarrow> written" where
  "w_draw (DrawRect x y w h f) =
     wcat [w_u8 DRAW_RECT, w_f32 x, w_f32 y, w_f32 w, w_f32 h, w_fill f]"
| "w_draw (DrawCircle cx cy r f) = wcat [w_u8 DRAW_CIRCLE, w_f32 cx, w_f32 cy, w_f32 r, w_fill f]"
| "w_draw (DrawArc cx cy radius a0 a1 width f segments cap) =
     wcat [w_u8 DRAW_ARC, w_f32 cx, w_f32 cy, w_f32 radius, w_f32 a0, w_f32 a1, w_f32 width,
       w_arc_fill f, w_arc_segments segments, w_arc_cap cap]"
| "w_draw (DrawSvg x y w h color icon_id anti_alias fills) =
     wcat [w_u8 DRAW_ICON, w_f32 x, w_f32 y, w_f32 w, w_f32 h, w_color color, w_id icon_id,
       w_bool anti_alias,
       w_count_u16 (length fills) ''Draw::Svg has more than u16::MAX fill overrides'',
       wcat (map w_svg_fill fills)]"
| "w_draw (DrawBitmap x y w h bitmap_id) =
     wcat [w_u8 DRAW_BITMAP, w_f32 x, w_f32 y, w_f32 w, w_f32 h, w_id bitmap_id]"
| "w_draw (DrawQr x y sz style txt) =
     wcat [w_u8 DRAW_QR, w_f32 x, w_f32 y, w_f32 sz, w_color (qr_dark style),
       w_color (qr_light style), w_u8 (qr_quiet_zone style),
       w_str txt ''QR text exceeds u16::MAX bytes'']"
| "w_draw (DrawCentered inner) = wcat [w_u8 DRAW_CENTERED, w_draw inner]"
| "w_draw (DrawOrbit radius angle inner) =
     wcat [w_u8 DRAW_ORBIT, w_f32 radius, w_f32 angle, w_draw inner]"
| "w_draw (DrawRotated angle inner) = wcat [w_u8 DRAW_ROTATED, w_f32 angle, w_draw inner]"
| "w_draw (DrawShadow dx dy blur color inner) =
     wcat [w_u8 DRAW_SHADOW, w_f32 dx, w_f32 dy, w_f32 blur, w_color color, w_draw inner]"
| "w_draw (DrawModified animations transition cs inner) =
     wcat [w_u8 DRAW_MODIFIED, w_u8 (modified_flags animations transition cs),
       w_option w_animations (if animations \<noteq> [] then Some animations else None),
       w_option w_transition transition, w_draw inner]"
| "w_draw (DrawPath points paint is_closed ip) =
     wcat [w_u8 DRAW_PATH, w_u8 (path_flags paint is_closed ip),
       w_count_u16 (length points) ''path points exceed u16::MAX'', wcat (map w_point points),
       w_path_paint paint]"
| "w_draw (DrawText x y txt style) =
     wcat [w_u8 DRAW_TEXT, w_f32 x, w_f32 y, w_text_style style,
       w_str txt ''draw text exceeds u16::MAX bytes'']"
| "w_draw (DrawCurvedText cx cy radius angle anchor facing txt style) =
     wcat [w_u8 DRAW_CURVED_TEXT, w_f32 cx, w_f32 cy, w_f32 radius, w_f32 angle,
       w_u8 (arc_anchor_u8 anchor), w_u8 (arc_text_facing_u8 facing), w_text_style style,
       w_str txt ''Draw::CurvedText text exceeds u16::MAX bytes'']"
| "w_draw (DrawAutofitText x y box_width box_height mode min_size max_size txt style) =
     wcat [w_u8 DRAW_AUTOFIT_TEXT, w_f32 x, w_f32 y, w_f32 box_width, w_f32 box_height,
       w_u8 (auto_fit_u8 mode), w_u16 min_size, w_u16 max_size, w_text_style style,
       w_str txt ''Draw::AutofitText text exceeds u16::MAX bytes'']"
| "w_draw (DrawSphere x y w h bitmap_id atmosphere center_lat center_lon zoom light_lat light_lon) =
     wcat [w_u8 DRAW_SPHERE, w_f32 x, w_f32 y, w_f32 w, w_f32 h, w_id bitmap_id,
       w_bool atmosphere, w_f32 center_lat, w_f32 center_lon, w_f32 zoom, w_f32 light_lat,
       w_f32 light_lon]"
| "w_draw (DrawMesh x y w h mesh_id args) =
     wcat [w_u8 DRAW_MESH, w_f32 x, w_f32 y, w_f32 w, w_f32 h, w_id mesh_id, w_mesh_args args]"
| "w_draw (DrawNinePatch x y w h np) =
     wcat [w_u8 DRAW_NINE_PATCH, w_f32 x, w_f32 y, w_f32 w, w_f32 h, w_nine_patch np]"

section \<open>Encoding nodes\<close>

definition w_span :: "span \<Rightarrow> written" where
  "w_span s = wcat [w_u16 (fst (span_wire_flags s)), w_u8 (snd (span_wire_flags s)),
     w_str (sp_text s) ''span text exceeds u16::MAX bytes'', w_option w_color (sp_color s),
     w_option w_u32 (sp_size s)]"

definition w_button_skin :: "button_skin \<Rightarrow> written" where
  "w_button_skin k = wcat [w_nine_patch (bs_normal k),
     (case bs_pressed k of Some np \<Rightarrow> wcat [w_u8 1, w_nine_patch np] | None \<Rightarrow> w_u8 0),
     w_color (bs_text_color k), w_color (bs_pressed_text_color k), w_bool (bs_opaque k)]"

definition w_slider_skin :: "slider_skin \<Rightarrow> written" where
  "w_slider_skin k = wcat [w_nine_patch (ss_track k), w_u16 (ss_track_h k), w_id (ss_thumb_id k),
     w_u16 (ss_thumb_w k), w_u16 (ss_thumb_h k), w_id (ss_thumb_pressed_id k)]"

text \<open>An optional part behind a presence byte.\<close>

definition w_present :: "('a \<Rightarrow> written) \<Rightarrow> 'a option \<Rightarrow> written" where
  "w_present w x = (case x of Some v \<Rightarrow> wcat [w_u8 1, w v] | None \<Rightarrow> w_u8 0)"

definition tag_icon_wire :: "tag_icon \<Rightarrow> tag_icon_mode \<times> u16 option" where
  "tag_icon_wire icon =
     (case icon of
        TiDefault \<Rightarrow> (TimDefault, None)
      | TiHidden \<Rightarrow> (TimHidden, None)
      | TiCustom i \<Rightarrow> (TimCustom, Some i))"

definition w_tab :: "switcher_tab \<Rightarrow> written" where
  "w_tab t = wcat [w_id (tab_icon t), w_str (tab_click_id t) ''tab click id exceeds u16::MAX bytes'']"

definition w_container :: "u8 \<Rightarrow> props_data \<Rightarrow> written list \<Rightarrow> written" where
  "w_container tag props children =
     wcat [w_u8 tag, w_props props,
       w_count_u16 (length children) ''container children exceed u16::MAX'', wcat children]"

text \<open>A key is written as the empty string when there is none.\<close>

definition key_bytes :: "bytes option \<Rightarrow> bytes" where
  "key_bytes k = (case k of Some s \<Rightarrow> s | None \<Rightarrow> [])"

primrec w_node :: "node \<Rightarrow> written" where
  "w_node (NColumn props children) = w_container NODE_COLUMN props (map w_node children)"
| "w_node (NRow props children) = w_container NODE_ROW props (map w_node children)"
| "w_node (NCenter props children) = w_container NODE_CENTER props (map w_node children)"
| "w_node (NParagraph props base_style spans) =
     wcat [w_u8 NODE_PARAGRAPH, w_props props, w_text_style base_style,
       w_count_u16 (length spans) ''text spans exceed u16::MAX'', wcat (map w_span spans)]"
| "w_node (NRelTime anchor format clamp style) =
     wcat [w_u8 NODE_RELTIME, w_i64 anchor, w_u8 (rel_time_format_u8 format),
       w_u8 (enum_u8 rel_time_clamps clamp), w_text_style style]"
| "w_node (NTag kind icon content) =
     wcat [w_u8 NODE_TAG, w_u8 (enum_u8 tag_kinds kind),
       w_u8 (enum_u8 tag_icon_modes (fst (tag_icon_wire icon))), w_id (snd (tag_icon_wire icon)),
       w_node content]"
| "w_node (NButton bid label style sz icon_id disabled stretch skin) =
     wcat [w_u8 NODE_BUTTON, w_str bid ''button id exceeds u16::MAX bytes'',
       w_u8 (button_style_u8 style), w_u8 (button_size_u8 sz), w_id icon_id, w_bool disabled,
       w_bool stretch, w_str label ''button label exceeds u16::MAX bytes'',
       w_present w_button_skin skin]"
| "w_node (NSpacer flex) = wcat [w_u8 NODE_SPACER, w_f32 flex]"
| "w_node (NCanvas props touch_key draws) =
     wcat [w_u8 NODE_CANVAS, w_props props,
       w_str (key_bytes touch_key) ''touch key exceeds u16::MAX bytes'',
       w_count_u16 (length draws) ''canvas draws exceed u16::MAX'', wcat (map w_draw draws)]"
| "w_node (NScroll scroll_key props children) =
     wcat [w_u8 NODE_SCROLL, w_str scroll_key ''scroll key exceeds u16::MAX bytes'', w_props props,
       w_count_u16 (length (map w_node children)) ''scroll children exceed u16::MAX'',
       wcat (map w_node children)]"
| "w_node (NNotification kind title subtitle) =
     wcat [w_u8 NODE_NOTIFICATION, w_u8 (notification_kind_u8 kind),
       w_str title ''title exceeds u16::MAX bytes'', w_str subtitle ''subtitle exceeds u16::MAX bytes'']"
| "w_node (NSwitcher active disabled tabs) =
     wcat [w_u8 NODE_SWITCHER, w_count_u8 active ''active tab index exceeds u8::MAX'',
       w_bool disabled, w_count_u8 (length tabs) ''switcher tabs exceed u8::MAX'',
       wcat (map w_tab tabs)]"
| "w_node (NSkeleton d) =
     wcat [w_u8 NODE_SKELETON, w_u8 (enum_u8 skeleton_kinds (sk_kind d)), w_f32 (sk_chars d),
       w_f32 (sk_font_size d), w_f32 (sk_width d), w_f32 (sk_height d), w_color (sk_color d)]"
| "w_node (NModal head body footer) =
     wcat [w_u8 NODE_MODAL, w_str (mo_id head) ''modal id exceeds u16::MAX bytes'',
       w_bool (mo_is_open head), w_u16 (mo_padding head), w_u8 (mo_backdrop_alpha head),
       w_str (mo_title head) ''modal title exceeds u16::MAX bytes'', w_f32 (mo_content_height head),
       w_count_u16 (length (map w_node body)) ''modal body children exceed u16::MAX'',
       w_color (mo_bg_color head), w_color (mo_header_color head), w_color (mo_title_color head),
       w_u16 (mo_max_width head), wcat (map w_node body),
       w_str (mf_primary_key footer) ''footer primary key exceeds u16::MAX bytes'',
       w_str (mf_primary_label footer) ''footer primary label exceeds u16::MAX bytes'',
       w_str (mf_secondary_key footer) ''footer secondary key exceeds u16::MAX bytes'',
       w_str (mf_secondary_label footer) ''footer secondary label exceeds u16::MAX bytes'',
       w_bool (mf_danger footer)]"
| "w_node (NProgressBar touch_key track_h mode active fill_color track_color bg_color skin) =
     wcat [w_u8 NODE_PROGRESS_BAR,
       w_str (key_bytes touch_key) ''progress touch key exceeds u16::MAX bytes'', w_f32 track_h,
       w_u8 (enum_u8 progress_kinds (progress_mode_kind mode)), w_f32 (progress_mode_fraction mode),
       w_bool active, w_color fill_color, w_color track_color, w_color bg_color,
       w_present w_slider_skin skin]"
| "w_node (NDimmed brightness child) =
     wcat [w_u8 NODE_DIMMED, w_f32 brightness, w_node child]"

definition try_encode_into :: "bytes \<Rightarrow> node \<Rightarrow> string + bytes" where
  "try_encode_into buf tree =
     (case snd (w_node tree) of None \<Rightarrow> Inr (buf @ fst (w_node tree)) | Some what \<Rightarrow> Inl what)"

definition try_encode :: "node \<Rightarrow> string + bytes" where
  "try_encode tree = try_encode_into [] tree"

end
