(* ===== verification/Tree_Decode.thy ===== *)
theory Tree_Decode
  imports Tree_Codec
begin

unbundle bit_operations_syntax

text \<open>
  The decoder of widget trees (\<open>Reader\<close> of \<^verbatim>\<open>bmc-render/ui/src/codec.rs\<close>). The readers of nodes and draws
  take the reader of what they hold as an argument, which \<open>r_node\<close> and \<open>r_draw\<close> close by recursion on
  the bytes left.
\<close>

section \<open>Parts\<close>

definition r_nine_patch :: "nine_patch reader" where
  "r_nine_patch = rbind r_id (\<lambda>i. rbind r_u16 (\<lambda>l. rbind r_u16 (\<lambda>t. rbind r_u16 (\<lambda>r. rbind r_u16 (\<lambda>b.
     rreturn \<lparr>np_bitmap_id = i, np_left = l, np_top = t, np_right = r, np_bottom = b\<rparr>)))))"

definition r_fill :: "fill reader" where
  "r_fill = r_lift InvalidFill decode_fill"

definition r_arc_fill :: "arc_fill reader" where
  "r_arc_fill = r_lift InvalidArcFill decode_arc_fill"

definition r_arc_segments :: "arc_segments reader" where
  "r_arc_segments = r_lift InvalidArcSegments decode_arc_segments"

definition r_arc_cap :: "arc_cap reader" where
  "r_arc_cap = r_lift InvalidArcCap decode_arc_cap"

definition r_span :: "span reader" where
  "r_span = rbind r_u16 (\<lambda>w. rbind r_u8 (\<lambda>x. rbind r_prefixed_string (\<lambda>txt.
     (let flags = span_flags_unpack w x in
      rbind (r_when (sf_has_color flags) r_color) (\<lambda>color.
      rbind (r_when (sf_has_size flags) r_u32) (\<lambda>sz.
      rreturn \<lparr>sp_text = txt, sp_weight = sf_weight flags, sp_color = color, sp_size = sz,
        sp_italic = sf_italic flags, sp_underline = sf_underline flags,
        sp_strikethrough = sf_strikethrough flags\<rparr>))))))"

definition r_svg_fill :: "(bytes \<times> u32) reader" where
  "r_svg_fill = rbind r_prefixed_string (\<lambda>i. rbind r_color (\<lambda>c. rreturn (i, c)))"

definition r_animation :: "animation_def reader" where
  "r_animation =
     rbind (r_animation_field ''animation property'' (enum_from_u8 anim_properties)) (\<lambda>property.
     rbind r_f32 (\<lambda>a. rbind r_f32 (\<lambda>b. rbind r_u32 (\<lambda>duration. rbind r_u16 (\<lambda>delay.
     rbind (r_animation_field ''easing'' (enum_from_u8 easings)) (\<lambda>ez.
     rbind (r_animation_field ''loop mode'' (enum_from_u8 loop_modes)) (\<lambda>lm.
     rreturn \<lparr>an_property = property, an_from = a, an_to = b, an_duration_ms = duration,
       an_delay_ms = delay, an_easing = ez, an_loop_mode = lm\<rparr>)))))))"

definition r_animations :: "animation_def list reader" where
  "r_animations = rbind r_u8 (\<lambda>count. rbind (r_many (unat count) r_animation) rreturn)"

definition r_transition :: "transition_def reader" where
  "r_transition = rbind r_u32 (\<lambda>h. rbind r_u32 (\<lambda>duration.
     rbind (r_animation_field ''transition easing'' (enum_from_u8 easings)) (\<lambda>ez.
     rreturn \<lparr>tr_id_hash = h, tr_duration_ms = duration, tr_easing = ez\<rparr>)))"

definition r_point :: "(f32 \<times> f32) reader" where
  "r_point = rbind r_f32 (\<lambda>x. rbind r_f32 (\<lambda>y. rreturn (x, y)))"

definition r_path_paint :: "u8 \<Rightarrow> path_paint reader" where
  "r_path_paint flags =
     (if flags AND 4 \<noteq> 0 then rbind r_fill (\<lambda>f. rreturn (PaintFill f))
      else
        rbind r_color (\<lambda>c. rbind r_extent (\<lambda>width.
        if flags AND 8 \<noteq> 0 then
          rbind r_f32 (\<lambda>on. rbind r_f32 (\<lambda>off. rreturn (PaintStroke c width (dash_new on off))))
        else rreturn (PaintStroke c width None))))"

definition r_mesh_args :: "mesh_draw_args reader" where
  "r_mesh_args =
     rbind r_f32 (\<lambda>fov. rbind r_f32 (\<lambda>distance. rbind (r_many 4 r_f32) (\<lambda>quat.
     rbind (r_many 3 r_f32) (\<lambda>position. rbind r_f32 (\<lambda>scale.
     rbind r_f32 (\<lambda>pitch. rbind r_f32 (\<lambda>yaw. rbind r_f32 (\<lambda>ambient. rbind r_f32 (\<lambda>specular.
     rbind r_f32 (\<lambda>u0. rbind r_f32 (\<lambda>v0. rbind r_f32 (\<lambda>u1. rbind r_f32 (\<lambda>v1.
     rbind r_f32 (\<lambda>r. rbind r_f32 (\<lambda>g. rbind r_f32 (\<lambda>b.
     rreturn \<lparr>ma_transform = \<lparr>mt_fov = fov, mt_distance = distance, mt_quat = quat,
         mt_position = position, mt_scale = scale\<rparr>,
       ma_lighting = \<lparr>ml_pitch = pitch, ml_yaw = yaw, ml_ambient = ambient, ml_specular = specular\<rparr>,
       ma_highlight = \<lparr>mh_u_min = u0, mh_v_min = v0, mh_u_max = u1, mh_v_max = v1,
         mh_r = r, mh_g = g, mh_b = b\<rparr>\<rparr>))))))))))))))))"

section \<open>Draws\<close>

text \<open>The transforms and modifiers, which hold another draw.\<close>

definition r_draw_wrapper :: "draw reader \<Rightarrow> nat \<Rightarrow> u8 \<Rightarrow> draw reader" where
  "r_draw_wrapper self here tag =
     (if tag = DRAW_CENTERED then rbind self (\<lambda>inner. rreturn (DrawCentered inner))
      else if tag = DRAW_ORBIT then
        rbind r_extent (\<lambda>radius. rbind r_f32 (\<lambda>angle. rbind self (\<lambda>inner.
          rreturn (DrawOrbit radius angle inner))))
      else if tag = DRAW_ROTATED then
        rbind r_f32 (\<lambda>angle. rbind self (\<lambda>inner. rreturn (DrawRotated angle inner)))
      else if tag = DRAW_SHADOW then
        rbind r_f32 (\<lambda>dx. rbind r_f32 (\<lambda>dy. rbind r_f32 (\<lambda>blur. rbind r_color (\<lambda>c.
        rbind self (\<lambda>inner. rreturn (DrawShadow dx dy blur c inner))))))
      else if tag = DRAW_MODIFIED then
        rbind r_u8 (\<lambda>flags.
        rbind (r_when (flags AND 1 \<noteq> 0) r_animations) (\<lambda>animations.
        rbind (r_when (flags AND 2 \<noteq> 0) r_transition) (\<lambda>transition.
        rbind self (\<lambda>inner.
        rreturn (DrawModified (case animations of Some as \<Rightarrow> as | None \<Rightarrow> []) transition
          (case enum_from_u8 color_spaces (drop_bit 2 flags AND 3) of
             Some cs \<Rightarrow> cs | None \<Rightarrow> CsOklab) inner)))))
      else rfail (UnknownDraw tag here))"

definition r_draw_text :: "draw reader \<Rightarrow> nat \<Rightarrow> u8 \<Rightarrow> draw reader" where
  "r_draw_text self here tag =
     (if tag = DRAW_TEXT then
        rbind r_f32 (\<lambda>x. rbind r_f32 (\<lambda>y. rbind r_text_style (\<lambda>style.
        rbind r_prefixed_string (\<lambda>txt. rreturn (DrawText x y txt style)))))
      else if tag = DRAW_CURVED_TEXT then
        rbind r_f32 (\<lambda>cx. rbind r_f32 (\<lambda>cy. rbind r_extent (\<lambda>radius. rbind r_f32 (\<lambda>angle.
        rbind (r_discriminant ''arc anchor'' arc_anchor_try_from) (\<lambda>anchor.
        rbind (r_discriminant ''arc text facing'' arc_text_facing_try_from) (\<lambda>facing.
        rbind r_text_style (\<lambda>style. rbind r_prefixed_string (\<lambda>txt.
        rreturn (DrawCurvedText cx cy radius angle anchor facing txt style)))))))))
      else if tag = DRAW_NINE_PATCH then
        rbind r_f32 (\<lambda>x. rbind r_f32 (\<lambda>y. rbind r_extent (\<lambda>w. rbind r_extent (\<lambda>h.
        rbind r_nine_patch (\<lambda>np. rreturn (DrawNinePatch x y w h np))))))
      else if tag = DRAW_AUTOFIT_TEXT then
        rbind r_f32 (\<lambda>x. rbind r_f32 (\<lambda>y. rbind r_extent (\<lambda>w. rbind r_extent (\<lambda>h.
        rbind r_u8 (\<lambda>mode. rbind r_u16 (\<lambda>min_size. rbind r_u16 (\<lambda>max_size.
        rbind r_text_style (\<lambda>style. rbind r_prefixed_string (\<lambda>txt.
        rreturn (DrawAutofitText x y w h (auto_fit_from_u8 mode) min_size max_size txt style))))))))))
      else r_draw_wrapper self here tag)"

definition r_draw_with :: "draw reader \<Rightarrow> draw reader" where
  "r_draw_with self = rbind r_pos (\<lambda>here. rbind r_u8 (\<lambda>tag.
     if tag = DRAW_RECT then
       rbind r_f32 (\<lambda>x. rbind r_f32 (\<lambda>y. rbind r_extent (\<lambda>w. rbind r_extent (\<lambda>h. rbind r_fill (\<lambda>f.
       rreturn (DrawRect x y w h f))))))
     else if tag = DRAW_CIRCLE then
       rbind r_f32 (\<lambda>cx. rbind r_f32 (\<lambda>cy. rbind r_extent (\<lambda>r. rbind r_fill (\<lambda>f.
       rreturn (DrawCircle cx cy r f)))))
     else if tag = DRAW_ARC then
       rbind r_f32 (\<lambda>cx. rbind r_f32 (\<lambda>cy. rbind r_extent (\<lambda>radius. rbind r_f32 (\<lambda>a0.
       rbind r_f32 (\<lambda>a1. rbind r_extent (\<lambda>width. rbind r_arc_fill (\<lambda>f.
       rbind r_arc_segments (\<lambda>segments. rbind r_arc_cap (\<lambda>cap.
       rreturn (DrawArc cx cy radius a0 a1 width f segments cap))))))))))
     else if tag = DRAW_ICON then
       rbind r_f32 (\<lambda>x. rbind r_f32 (\<lambda>y. rbind r_extent (\<lambda>w. rbind r_extent (\<lambda>h.
       rbind r_color (\<lambda>c. rbind r_id (\<lambda>i. rbind r_bool (\<lambda>anti_alias.
       rbind r_u16 (\<lambda>count. rbind (r_many (unat count) r_svg_fill) (\<lambda>fills.
       rreturn (DrawSvg x y w h c i anti_alias fills))))))))))
     else if tag = DRAW_BITMAP then
       rbind r_f32 (\<lambda>x. rbind r_f32 (\<lambda>y. rbind r_extent (\<lambda>w. rbind r_extent (\<lambda>h. rbind r_id (\<lambda>i.
       rreturn (DrawBitmap x y w h i))))))
     else if tag = DRAW_QR then
       rbind r_f32 (\<lambda>x. rbind r_f32 (\<lambda>y. rbind r_f32 (\<lambda>sz. rbind r_color (\<lambda>dark.
       rbind r_color (\<lambda>light. rbind r_u8 (\<lambda>quiet_zone. rbind r_prefixed_string (\<lambda>txt.
       rreturn (DrawQr x y sz \<lparr>qr_dark = dark, qr_light = light, qr_quiet_zone = quiet_zone\<rparr> txt))))))))
     else if tag = DRAW_PATH then
       rbind r_u8 (\<lambda>flags. rbind r_u16 (\<lambda>count. rbind (r_many (unat count) r_point) (\<lambda>points.
       rbind (r_path_paint flags) (\<lambda>paint.
       rreturn (DrawPath points paint (flags AND 1 \<noteq> 0)
         (if flags AND 2 \<noteq> 0 then IpCatmullRom else IpLinear))))))
     else if tag = DRAW_SPHERE then
       rbind r_f32 (\<lambda>x. rbind r_f32 (\<lambda>y. rbind r_extent (\<lambda>w. rbind r_extent (\<lambda>h. rbind r_id (\<lambda>i.
       rbind r_u8 (\<lambda>flags. rbind r_f32 (\<lambda>center_lat. rbind r_f32 (\<lambda>center_lon. rbind r_f32 (\<lambda>zoom.
       rbind r_f32 (\<lambda>light_lat. rbind r_f32 (\<lambda>light_lon.
       rreturn (DrawSphere x y w h i (flags AND 1 \<noteq> 0) center_lat center_lon zoom light_lat
         light_lon))))))))))))
     else if tag = DRAW_MESH then
       rbind r_f32 (\<lambda>x. rbind r_f32 (\<lambda>y. rbind r_extent (\<lambda>w. rbind r_extent (\<lambda>h. rbind r_id (\<lambda>i.
       rbind r_mesh_args (\<lambda>args. rreturn (DrawMesh x y w h i args)))))))
     else r_draw_text self here tag))"

primrec r_draw_fuel :: "nat \<Rightarrow> draw reader" where
  "r_draw_fuel 0 = (\<lambda>s. Inl (Truncated (rd_pos s)))"
| "r_draw_fuel (Suc n) = r_draw_with (r_draw_fuel n)"

definition r_draw :: "draw reader" where
  "r_draw s = r_draw_fuel (remaining s) s"

section \<open>Nodes\<close>

definition r_button_skin :: "button_skin reader" where
  "r_button_skin = rbind r_nine_patch (\<lambda>normal. rbind r_bool (\<lambda>has_pressed.
     rbind (r_when has_pressed r_nine_patch) (\<lambda>pressed. rbind r_color (\<lambda>text_color.
     rbind r_color (\<lambda>pressed_text_color. rbind r_bool (\<lambda>is_opaque.
     rreturn \<lparr>bs_normal = normal, bs_pressed = pressed, bs_text_color = text_color,
       bs_pressed_text_color = pressed_text_color, bs_opaque = is_opaque\<rparr>))))))"

definition r_slider_skin :: "slider_skin reader" where
  "r_slider_skin = rbind r_nine_patch (\<lambda>track. rbind r_u16 (\<lambda>track_h. rbind r_id (\<lambda>thumb_id.
     rbind r_u16 (\<lambda>thumb_w. rbind r_u16 (\<lambda>thumb_h. rbind r_id (\<lambda>thumb_pressed_id.
     rreturn \<lparr>ss_track = track, ss_track_h = track_h, ss_thumb_id = thumb_id, ss_thumb_w = thumb_w,
       ss_thumb_h = thumb_h, ss_thumb_pressed_id = thumb_pressed_id\<rparr>))))))"

text \<open>The presence byte of a button skin may be missing at the very end of the data.\<close>

definition r_trailing_flag :: "bool reader" where
  "r_trailing_flag s = (if 0 < remaining s then r_bool s else Inr (False, s))"

definition r_key :: "bytes option reader" where
  "r_key = rbind r_prefixed_string (\<lambda>k. rreturn (if k = [] then None else Some k))"

definition r_tab :: "switcher_tab reader" where
  "r_tab = rbind r_id (\<lambda>i. rbind r_prefixed_string (\<lambda>c.
     rreturn \<lparr>tab_icon = i, tab_click_id = c\<rparr>))"

definition brightness_ok :: "f32 \<Rightarrow> bool" where
  "brightness_ok v \<longleftrightarrow> f32_is_finite v \<and> f32_nonneg v \<and> f32_le_one v"

primrec r_draws :: "nat \<Rightarrow> nat option \<Rightarrow> (draw list \<times> nat option) reader" where
  "r_draws 0 first = rreturn ([], first)"
| "r_draws (Suc n) first = rbind r_pos (\<lambda>start. rbind r_draw (\<lambda>d.
     rbind (r_draws n (if first = None \<and> draw_is_dynamic d then Some start else first)) (\<lambda>(ds, fin).
     rreturn (d # ds, fin))))"

definition r_canvas :: "node reader" where
  "r_canvas = rbind r_props (\<lambda>props. rbind r_key (\<lambda>touch_key. rbind r_pos (\<lambda>count_start.
     rbind r_u16 (\<lambda>draw_count. rbind (r_push_range count_start) (\<lambda>_.
     rbind (r_draws (unat draw_count) None) (\<lambda>(draws, first_dynamic).
     rbind (case first_dynamic of Some start \<Rightarrow> r_push_range start | None \<Rightarrow> rreturn ()) (\<lambda>_.
     rreturn (NCanvas props touch_key draws))))))))"

definition r_children :: "node reader \<Rightarrow> node list reader" where
  "r_children self = rbind r_u16 (\<lambda>count. rbind (r_many (unat count) self) rreturn)"

definition r_modal :: "node reader \<Rightarrow> node reader" where
  "r_modal self =
     rbind r_prefixed_string (\<lambda>modal_id. rbind r_bool (\<lambda>is_open. rbind r_u16 (\<lambda>padding.
     rbind r_u8 (\<lambda>backdrop_alpha. rbind r_prefixed_string (\<lambda>title. rbind r_f32 (\<lambda>content_height.
     rbind r_u16 (\<lambda>child_count. rbind r_color (\<lambda>bg. rbind r_color (\<lambda>header. rbind r_color (\<lambda>tc.
     rbind r_u16 (\<lambda>max_width. rbind (r_many (unat child_count) self) (\<lambda>body.
     rbind r_prefixed_string (\<lambda>k1. rbind r_prefixed_string (\<lambda>l1. rbind r_prefixed_string (\<lambda>k2.
     rbind r_prefixed_string (\<lambda>l2. rbind r_bool (\<lambda>danger.
     rreturn (NModal
       \<lparr>mo_id = modal_id, mo_is_open = is_open, mo_title = title, mo_content_height = content_height,
        mo_padding = padding, mo_backdrop_alpha = backdrop_alpha, mo_bg_color = bg,
        mo_header_color = header, mo_title_color = tc, mo_max_width = max_width\<rparr> body
       \<lparr>mf_primary_key = k1, mf_primary_label = l1, mf_secondary_key = k2, mf_secondary_label = l2,
        mf_danger = danger\<rparr>))))))))))))))))))"

definition r_node_leaf :: "nat \<Rightarrow> u8 \<Rightarrow> node reader" where
  "r_node_leaf here tag =
     (if tag = NODE_PARAGRAPH then
        rbind r_props (\<lambda>props. rbind r_text_style (\<lambda>base_style. rbind r_u16 (\<lambda>count.
        rbind (r_many (unat count) r_span) (\<lambda>spans. rreturn (NParagraph props base_style spans)))))
      else if tag = NODE_BUTTON then
        rbind r_prefixed_string (\<lambda>bid. rbind r_u8 (\<lambda>style. rbind r_u8 (\<lambda>sz. rbind r_id (\<lambda>icon_id.
        rbind r_bool (\<lambda>disabled. rbind r_bool (\<lambda>stretch. rbind r_prefixed_string (\<lambda>label.
        rbind r_trailing_flag (\<lambda>has_skin. rbind (r_when has_skin r_button_skin) (\<lambda>skin.
        rreturn (NButton bid label (button_style_from style) (button_size_from sz) icon_id disabled
          stretch skin))))))))))
      else if tag = NODE_SPACER then rbind r_extent (\<lambda>flex. rreturn (NSpacer flex))
      else if tag = NODE_CANVAS then r_canvas
      else if tag = NODE_NOTIFICATION then
        rbind r_u8 (\<lambda>kind. rbind r_prefixed_string (\<lambda>title. rbind r_prefixed_string (\<lambda>subtitle.
        rreturn (NNotification (notification_kind_from kind) title subtitle))))
      else if tag = NODE_RELTIME then
        rbind r_i64 (\<lambda>anchor.
        rbind (r_discriminant ''relative-time format'' rel_time_format_try_from) (\<lambda>format.
        rbind (r_discriminant ''relative-time clamp'' (enum_from_u8 rel_time_clamps)) (\<lambda>clamp.
        rbind r_text_style (\<lambda>style. rreturn (NRelTime anchor format clamp style)))))
      else if tag = NODE_SWITCHER then
        rbind r_u8 (\<lambda>active. rbind r_bool (\<lambda>disabled. rbind r_u8 (\<lambda>count.
        rbind (r_many (unat count) r_tab) (\<lambda>tabs.
        rreturn (NSwitcher (unat active) disabled tabs)))))
      else if tag = NODE_SKELETON then
        rbind (r_discriminant ''skeleton kind'' (enum_from_u8 skeleton_kinds)) (\<lambda>kind.
        rbind r_f32 (\<lambda>chars. rbind r_extent (\<lambda>font_size. rbind r_extent (\<lambda>w. rbind r_extent (\<lambda>h.
        rbind r_color (\<lambda>c.
        rreturn (NSkeleton \<lparr>sk_kind = kind, sk_chars = chars, sk_font_size = font_size, sk_width = w,
          sk_height = h, sk_color = c\<rparr>)))))))
      else if tag = NODE_PROGRESS_BAR then
        rbind r_key (\<lambda>touch_key. rbind r_extent (\<lambda>track_h.
        rbind (r_discriminant ''progress kind'' (enum_from_u8 progress_kinds)) (\<lambda>kind.
        rbind r_f32 (\<lambda>fraction. rbind r_bool (\<lambda>active. rbind r_color (\<lambda>fc. rbind r_color (\<lambda>tc.
        rbind r_color (\<lambda>bg. rbind r_bool (\<lambda>has_skin. rbind (r_when has_skin r_slider_skin) (\<lambda>skin.
        rreturn (NProgressBar touch_key track_h (progress_mode_from_wire kind fraction) active fc tc
          bg skin)))))))))))
      else rfail (UnknownNode tag here))"

text \<open>The byte that names the type decides what is read; the containers come first.\<close>

definition r_node_tagged :: "node reader \<Rightarrow> nat \<Rightarrow> u8 \<Rightarrow> node reader" where
  "r_node_tagged self here tag =
     (if tag = NODE_COLUMN then
       rbind r_props (\<lambda>props. rbind (r_children self) (\<lambda>cs. rreturn (NColumn props cs)))
     else if tag = NODE_ROW then
       rbind r_props (\<lambda>props. rbind (r_children self) (\<lambda>cs. rreturn (NRow props cs)))
     else if tag = NODE_CENTER then
       rbind r_props (\<lambda>props. rbind (r_children self) (\<lambda>cs. rreturn (NCenter props cs)))
     else if tag = NODE_MODAL then r_modal self
     else if tag = NODE_SCROLL then
       rbind r_prefixed_string (\<lambda>key. rbind r_props (\<lambda>props. rbind (r_children self) (\<lambda>cs.
       rreturn (NScroll key props cs))))
     else if tag = NODE_TAG then
       rbind (r_discriminant ''tag kind'' (enum_from_u8 tag_kinds)) (\<lambda>kind.
       rbind (r_discriminant ''tag icon mode'' (enum_from_u8 tag_icon_modes)) (\<lambda>mode.
       rbind r_id (\<lambda>custom. rbind self (\<lambda>content.
       rreturn (NTag kind
         (case mode of
            TimHidden \<Rightarrow> TiHidden
          | TimCustom \<Rightarrow> (case custom of Some i \<Rightarrow> TiCustom i | None \<Rightarrow> TiHidden)
          | TimDefault \<Rightarrow> TiDefault) content)))))
     else if tag = NODE_DIMMED then
       rbind r_pos (\<lambda>value_pos. rbind r_f32 (\<lambda>brightness.
       if brightness_ok brightness
       then rbind self (\<lambda>child. rreturn (NDimmed brightness child))
       else rfail (InvalidBrightness brightness value_pos)))
     else r_node_leaf here tag)"

definition r_node_body :: "node reader \<Rightarrow> node reader" where
  "r_node_body self = rbind r_pos (\<lambda>here. rbind r_u8 (r_node_tagged self here))"

text \<open>A dynamic node replaces the ranges recorded inside it by one of its own, past its type byte.\<close>

definition r_mark_dynamic :: "node reader \<Rightarrow> node reader" where
  "r_mark_dynamic r s =
     (case r s of
        Inl e \<Rightarrow> Inl e
      | Inr (v, t) \<Rightarrow>
          if node_self_is_dynamic v
          then Inr (v, t\<lparr>rd_ranges := take (length (rd_ranges s)) (rd_ranges t) @
                         [(rd_pos s + 1, rd_pos t)]\<rparr>)
          else Inr (v, t))"

definition r_node_with :: "node reader \<Rightarrow> node reader" where
  "r_node_with self = r_mark_dynamic (r_node_body self)"

primrec r_node_fuel :: "nat \<Rightarrow> node reader" where
  "r_node_fuel 0 = (\<lambda>s. Inl (Truncated (rd_pos s)))"
| "r_node_fuel (Suc n) = r_node_with (r_node_fuel n)"

definition r_node :: "node reader" where
  "r_node s = r_node_fuel (remaining s) s"

record decoded =
  de_root :: node
  de_ranges :: "(nat \<times> nat) list"
  de_consumed :: nat

definition decode_tree :: "bytes \<Rightarrow> decode_error + decoded" where
  "decode_tree d =
     (if d = [] then Inl Empty
      else case r_node \<lparr>rd_data = d, rd_pos = 0, rd_ranges = []\<rparr> of
             Inl e \<Rightarrow> Inl e
           | Inr (tree, s) \<Rightarrow> Inr \<lparr>de_root = tree, de_ranges = rd_ranges s, de_consumed = rd_pos s\<rparr>)"

end
