(* ===== verification/Wire_Safety.thy ===== *)
theory Wire_Safety
  imports Ui_Tree
begin

text \<open>
  Two relations on readers that hold for any data, well formed or not. \<open>safe\<close>: a reader that
  accepts only moves forward, stays in the data, appends ordered and disjoint byte ranges inside
  what it read, and returns a value with a given property. \<open>same_upto\<close>: two readers agree
  wherever few enough bytes are left. Their rules, collected under the same names, follow the code
  of a reader.
\<close>

section \<open>Safe readers\<close>

fun ranges_in :: "nat \<Rightarrow> nat \<Rightarrow> (nat \<times> nat) list \<Rightarrow> bool" where
  "ranges_in lo hi [] = (lo \<le> hi)"
| "ranges_in lo hi ((a, b) # rs) = (lo \<le> a \<and> a \<le> b \<and> ranges_in b hi rs)"

lemma ranges_in_le: "ranges_in lo hi rs \<Longrightarrow> lo \<le> hi"
  by (induction lo hi rs rule: ranges_in.induct) auto

lemma ranges_in_append: "ranges_in a b xs \<Longrightarrow> ranges_in b c ys \<Longrightarrow> ranges_in a c (xs @ ys)"
proof (induction a b xs rule: ranges_in.induct)
  case (1 lo hi)
  then show ?case by (cases ys) auto
qed auto

definition in_data :: "rstate \<Rightarrow> bool" where
  "in_data s \<longleftrightarrow> rd_pos s \<le> length (rd_data s)"

definition moved :: "rstate \<Rightarrow> rstate \<Rightarrow> bool" where
  "moved s t \<longleftrightarrow> rd_data t = rd_data s \<and> in_data t \<and>
     (\<exists>new. rd_ranges t = rd_ranges s @ new \<and> ranges_in (rd_pos s) (rd_pos t) new)"

lemma moved_refl: "in_data s \<Longrightarrow> moved s s"
  by (simp add: moved_def)

lemma moved_trans: "moved s t \<Longrightarrow> moved t u \<Longrightarrow> moved s u"
  unfolding moved_def by (metis append_assoc ranges_in_append)

lemma moved_in_data: "moved s t \<Longrightarrow> in_data t"
  by (simp add: moved_def)

lemma moved_pos: "moved s t \<Longrightarrow> rd_pos s \<le> rd_pos t"
  by (auto simp: moved_def ranges_in_le)

lemma moved_remaining: "moved s t \<Longrightarrow> remaining t \<le> remaining s"
  by (auto simp: moved_def remaining_def dest: ranges_in_le)

definition safe :: "('a \<Rightarrow> bool) \<Rightarrow> 'a reader \<Rightarrow> bool" where
  "safe P r \<longleftrightarrow> (\<forall>s v t. in_data s \<longrightarrow> r s = Inr (v, t) \<longrightarrow> moved s t \<and> P v)"

named_theorems safe \<open>rules that follow a reader on any data\<close>

lemma safeD: "safe P r \<Longrightarrow> in_data s \<Longrightarrow> r s = Inr (v, t) \<Longrightarrow> moved s t \<and> P v"
  by (simp add: safe_def)

lemma safe_return [safe]: "P v \<Longrightarrow> safe P (rreturn v)"
  by (simp add: safe_def rreturn_def moved_refl)

lemma safe_fail [safe]: "safe P (rfail e)"
  by (simp add: safe_def rfail_def)

lemma safe_bind:
  assumes "safe P r" and "\<And>v. P v \<Longrightarrow> safe Q (f v)"
  shows "safe Q (rbind r f)"
  unfolding safe_def
proof (intro allI impI)
  fix s v t
  assume s: "in_data s" and "rbind r f s = Inr (v, t)"
  then obtain x u where x: "r s = Inr (x, u)" "f x u = Inr (v, t)"
    by (auto simp: rbind_def split: sum.splits)
  from safeD [OF assms(1) s x(1)] have u: "moved s u" "P x" by simp_all
  from safeD [OF assms(2) [OF u(2)] moved_in_data [OF u(1)] x(2)] u(1)
  show "moved s t \<and> Q v" by (auto intro: moved_trans)
qed

lemma safe_if [safe]: "(b \<Longrightarrow> safe P r) \<Longrightarrow> (\<not> b \<Longrightarrow> safe P q) \<Longrightarrow> safe P (if b then r else q)"
  by simp

lemma safe_mono: "safe P r \<Longrightarrow> (\<And>v. P v \<Longrightarrow> Q v) \<Longrightarrow> safe Q r"
  by (auto simp: safe_def)

lemma safe_pos: "safe (\<lambda>_. True) r_pos"
  by (simp add: safe_def r_pos_def moved_refl)

lemma safe_bytes: "safe (\<lambda>bs. length bs = n) (r_bytes n)"
  by (auto simp: safe_def r_bytes_def moved_def in_data_def split: if_splits)

text \<open>The option readers, on a position in the data.\<close>

definition osafe :: "('a \<Rightarrow> bool) \<Rightarrow> 'a oreader \<Rightarrow> bool" where
  "osafe P r \<longleftrightarrow> (\<forall>d p v q. p \<le> length d \<longrightarrow> r d p = Some (v, q) \<longrightarrow> p \<le> q \<and> q \<le> length d \<and> P v)"

named_theorems osafe \<open>rules that follow an option reader on any data\<close>

lemma osafe_return [osafe]: "P v \<Longrightarrow> osafe P (oreturn v)"
  by (simp add: osafe_def oreturn_def)

lemma osafe_fail [osafe]: "osafe P ofail"
  by (simp add: osafe_def ofail_def)

lemma osafe_bind:
  assumes "osafe P r" and "\<And>v. P v \<Longrightarrow> osafe Q (f v)"
  shows "osafe Q (obind r f)"
  unfolding osafe_def
proof (intro allI impI)
  fix d p v q
  assume p: "p \<le> length d" and "obind r f d p = Some (v, q)"
  then obtain x u where x: "r d p = Some (x, u)" "f x d u = Some (v, q)"
    by (auto simp: obind_def split: option.splits)
  from assms(1) p x(1) have u: "p \<le> u" "u \<le> length d" "P x" unfolding osafe_def by blast+
  from assms(2) [OF u(3)] u(2) x(2) have "u \<le> q \<and> q \<le> length d \<and> Q v" unfolding osafe_def by blast
  with u(1) show "p \<le> q \<and> q \<le> length d \<and> Q v" by simp
qed

lemma osafe_if [osafe]: "(b \<Longrightarrow> osafe P r) \<Longrightarrow> (\<not> b \<Longrightarrow> osafe P q) \<Longrightarrow> osafe P (if b then r else q)"
  by simp

lemma osafe_take: "osafe (\<lambda>bs. length bs = n) (otake n)"
  by (simp add: osafe_def otake_def)

lemma osafe_prims:
  "osafe (\<lambda>_. True) ow_u8" "osafe (\<lambda>_. True) ow_u16" "osafe (\<lambda>_. True) ow_u32"
  "osafe (\<lambda>_. True) ow_f32" "osafe (\<lambda>_. True) ow_color"
  unfolding ow_u8_def ow_u16_def ow_u32_def ow_f32_def ow_color_def
  by (rule osafe_bind [OF osafe_take] osafe_return TrueI)+

lemma osafe_finite: "osafe f32_is_finite ow_finite_f32"
  unfolding ow_finite_f32_def ofilter_def
  by (rule osafe_bind [OF osafe_prims(4)]) (simp add: osafe_return osafe_fail)

lemma osafe_extent: "osafe extent_ok ow_extent_f32"
  unfolding ow_extent_f32_def ofilter_def
  by (rule osafe_bind [OF osafe_finite]) (simp add: osafe_return osafe_fail extent_ok_def)

lemma osafe_many: "osafe P r \<Longrightarrow> osafe (\<lambda>xs. length xs = n \<and> list_all P xs) (omany n r)"
proof (induction n)
  case (Suc n)
  then show ?case
    by (auto intro!: osafe_bind [OF Suc.prems] osafe_bind [OF Suc.IH] osafe_return)
qed (simp add: osafe_return)

lemmas osafe_seq [osafe] =
  osafe_bind [OF osafe_prims(1)] osafe_bind [OF osafe_prims(2)] osafe_bind [OF osafe_prims(3)]
  osafe_bind [OF osafe_prims(4)] osafe_bind [OF osafe_prims(5)] osafe_bind [OF osafe_finite]
  osafe_bind [OF osafe_extent]

lemma moved_to: "in_data s \<Longrightarrow> rd_pos s \<le> p \<Longrightarrow> p \<le> length (rd_data s) \<Longrightarrow> moved s (s\<lparr>rd_pos := p\<rparr>)"
  by (simp add: moved_def in_data_def)

lemma safe_lift: "osafe P r \<Longrightarrow> safe P (r_lift err r)"
  unfolding safe_def
proof (intro allI impI)
  fix s v t
  assume r: "osafe P r" and s: "in_data s" and eq: "r_lift err r s = Inr (v, t)"
  then obtain p where p: "r (rd_data s) (rd_pos s) = Some (v, p)" "t = s\<lparr>rd_pos := p\<rparr>"
    by (auto simp: r_lift_def split: option.splits)
  with r s have "rd_pos s \<le> p \<and> p \<le> length (rd_data s) \<and> P v"
    unfolding osafe_def in_data_def by blast
  with p s show "moved s t \<and> P v" by (simp add: moved_to)
qed

text \<open>A fixed-size part read from the data behind the position.\<close>

lemma safe_struct:
  assumes "osafe P r" and "\<And>d v q. r d 0 = Some (v, q) \<Longrightarrow> q = len"
  shows "safe P (r_struct err len r)"
  unfolding safe_def
proof (intro allI impI)
  fix s v t
  assume s: "in_data s" and "r_struct err len r s = Inr (v, t)"
  then obtain q where q: "r (drop (rd_pos s) (rd_data s)) 0 = Some (v, q)"
      "t = s\<lparr>rd_pos := rd_pos s + len\<rparr>"
    by (auto simp: r_struct_def split: option.splits)
  have "q \<le> length (drop (rd_pos s) (rd_data s)) \<and> P v"
    using assms(1) q(1) unfolding osafe_def by blast
  with q assms(2) [OF q(1)] s show "moved s t \<and> P v"
    by (auto simp: in_data_def intro!: moved_to)
qed

lemma safe_prims:
  "safe (\<lambda>_. True) r_u8" "safe (\<lambda>_. True) r_u16" "safe (\<lambda>_. True) r_u32" "safe (\<lambda>_. True) r_i64"
  unfolding r_u8_def r_u16_def r_u32_def r_i64_def
  by (rule safe_bind [OF safe_bytes] safe_return TrueI)+

lemma safe_f32: "safe (\<lambda>_. True) r_f32"
  by (simp add: r_f32_def safe_prims)

lemma safe_color: "safe (\<lambda>_. True) r_color"
  by (simp add: r_color_def safe_prims)

lemma safe_bool: "safe (\<lambda>_. True) r_bool"
  unfolding r_bool_def by (rule safe_bind [OF safe_prims(1)]) (simp add: safe_return)

lemma safe_id: "safe id_ok r_id"
  unfolding r_id_def by (rule safe_bind [OF safe_prims(2)]) (simp add: safe_return id_ok_def)

lemma safe_extent: "safe extent_ok r_extent"
  unfolding r_extent_def
  by (rule safe_bind [OF safe_f32] safe_bind [OF safe_pos])+ (simp add: safe_return safe_fail extent_ok_def)

definition str_ok :: "bytes \<Rightarrow> bool" where
  "str_ok s \<longleftrightarrow> valid_utf8 s \<and> length s < 2 ^ 16"

lemma safe_string: "safe str_ok r_prefixed_string"
proof -
  have "safe str_ok (r_string n)" for n
    unfolding r_string_def
  proof (intro safe_bind [OF safe_pos] safe_bind [OF safe_bytes] safe_if safe_return safe_fail)
    fix bs :: bytes
    assume "length bs = unat n" "valid_utf8 bs"
    then show "str_ok bs" using unsigned_less [of n] by (simp add: str_ok_def)
  qed
  then show ?thesis unfolding r_prefixed_string_def by (intro safe_bind [OF safe_prims(2)])
qed

lemma safe_discriminant:
  "safe (\<lambda>_. True) (r_discriminant what g)" "safe (\<lambda>_. True) (r_animation_field what g)"
  unfolding r_discriminant_def r_animation_field_def
  by (rule safe_bind [OF safe_pos] safe_bind [OF safe_prims(1)],
      rule safe_bind [OF safe_prims(1)], simp add: safe_return safe_fail split: option.split)+

lemma safe_when:
  "safe P r \<Longrightarrow> safe (\<lambda>x. (x \<noteq> None \<longleftrightarrow> b) \<and> pred_option P x) (r_when b r)"
  unfolding r_when_def by (auto intro!: safe_bind [of P] safe_return)

lemma safe_many: "safe P r \<Longrightarrow> safe (\<lambda>xs. length xs = n \<and> list_all P xs) (r_many n r)"
proof (induction n)
  case (Suc n)
  then show ?case
    by (auto intro!: safe_bind [OF Suc.prems] safe_bind [OF Suc.IH] safe_return)
qed (simp add: safe_return)

lemmas safe_seq [safe] =
  safe_bind [OF safe_pos] safe_bind [OF safe_prims(1)] safe_bind [OF safe_prims(2)]
  safe_bind [OF safe_prims(3)] safe_bind [OF safe_prims(4)] safe_bind [OF safe_f32]
  safe_bind [OF safe_color] safe_bind [OF safe_bool] safe_bind [OF safe_id]
  safe_bind [OF safe_extent] safe_bind [OF safe_string] safe_bind [OF safe_discriminant(1)]
  safe_bind [OF safe_discriminant(2)]

section \<open>Readers that record no range\<close>

definition keeps :: "'a reader \<Rightarrow> bool" where
  "keeps r \<longleftrightarrow> (\<forall>s v t. r s = Inr (v, t) \<longrightarrow> rd_ranges t = rd_ranges s)"

named_theorems keeps \<open>rules for readers that record no range\<close>

lemma keeps_return [keeps]: "keeps (rreturn v)"
  by (simp add: keeps_def rreturn_def)

lemma keeps_fail [keeps]: "keeps (rfail e)"
  by (simp add: keeps_def rfail_def)

lemma keeps_bind [keeps]: "keeps r \<Longrightarrow> (\<And>v. keeps (f v)) \<Longrightarrow> keeps (rbind r f)"
  by (fastforce simp: keeps_def rbind_def split: sum.splits)

lemma keeps_if [keeps]: "keeps r \<Longrightarrow> keeps q \<Longrightarrow> keeps (if b then r else q)"
  by simp

lemma keeps_option [keeps]:
  "keeps r \<Longrightarrow> (\<And>x. keeps (f x)) \<Longrightarrow> keeps (case z of None \<Rightarrow> r | Some x \<Rightarrow> f x)"
  by (cases z) simp_all

lemma keeps_basic [keeps]: "keeps r_pos" "keeps (r_bytes n)" "keeps (r_lift err q)" "keeps (r_struct err n q)"
  by (auto simp: keeps_def r_pos_def r_bytes_def r_lift_def r_struct_def split: if_splits option.splits)

lemma keeps_many [keeps]: "keeps r \<Longrightarrow> keeps (r_many n r)"
  by (induction n) (auto intro!: keeps)

lemma keeps_when [keeps]: "keeps r \<Longrightarrow> keeps (r_when b r)"
  unfolding r_when_def by (auto intro!: keeps)

lemma keeps_prims [keeps]:
  "keeps r_u8" "keeps r_u16" "keeps r_u32" "keeps r_i64" "keeps r_f32" "keeps r_color" "keeps r_bool"
  "keeps r_id" "keeps r_extent" "keeps (r_string n)" "keeps r_prefixed_string"
  "keeps (r_discriminant w g)" "keeps (r_animation_field w g)"
  unfolding r_u8_def r_u16_def r_u32_def r_i64_def r_f32_def r_color_def r_bool_def r_id_def
    r_extent_def r_string_def r_prefixed_string_def r_discriminant_def r_animation_field_def
  by (intro keeps)+

section \<open>Readers that agree on short data\<close>

definition same_upto :: "nat \<Rightarrow> 'a reader \<Rightarrow> 'a reader \<Rightarrow> bool" where
  "same_upto k r q \<longleftrightarrow> (\<forall>s. in_data s \<longrightarrow> remaining s \<le> k \<longrightarrow> r s = q s)"

named_theorems same_upto \<open>rules that compare two readers step by step\<close>

lemma same_refl: "same_upto k r r"
  by (simp add: same_upto_def)

lemma same_bind:
  assumes "same_upto k r q" and "safe P r" and "\<And>v. P v \<Longrightarrow> same_upto k (f v) (g v)"
  shows "same_upto k (rbind r f) (rbind q g)"
  unfolding same_upto_def
proof (intro allI impI)
  fix s
  assume s: "in_data s" "remaining s \<le> k"
  then have eq: "r s = q s" using assms(1) by (simp add: same_upto_def)
  show "rbind r f s = rbind q g s"
  proof (cases "r s")
    case (Inr y)
    obtain v t where y: "r s = Inr (v, t)" using Inr by (cases y) simp
    from safeD [OF assms(2) s(1) y] have t: "moved s t" "P v" by simp_all
    then have "in_data t" "remaining t \<le> k"
      using moved_in_data moved_remaining [OF t(1)] s(2) by auto
    with assms(3) [OF t(2)] y eq show ?thesis by (simp add: rbind_def same_upto_def)
  qed (simp add: rbind_def eq)
qed

lemma same_bind_left:
  "safe P r \<Longrightarrow> (\<And>v. same_upto k (f v) (g v)) \<Longrightarrow> same_upto k (rbind r f) (rbind r g)"
  by (rule same_bind [OF same_refl]) auto

lemma same_if [same_upto]:
  "same_upto k r r' \<Longrightarrow> same_upto k q q' \<Longrightarrow> same_upto k (if b then r else q) (if b then r' else q')"
  by simp

text \<open>After the type byte one byte less is left.\<close>

lemma same_after_byte:
  assumes "\<And>v. same_upto k (f v) (g v)"
  shows "same_upto (Suc k) (rbind r_u8 f) (rbind r_u8 g)"
  unfolding same_upto_def
proof (intro allI impI)
  fix s
  assume s: "in_data s" "remaining s \<le> Suc k"
  show "rbind r_u8 f s = rbind r_u8 g s"
  proof (cases "r_u8 s")
    case (Inr y)
    then obtain v where y: "r_u8 s = Inr (v, s\<lparr>rd_pos := rd_pos s + 1\<rparr>)" "rd_pos s < length (rd_data s)"
      by (auto simp: r_u8_def rbind_def r_bytes_def rreturn_def split: if_splits)
    then have "in_data (s\<lparr>rd_pos := rd_pos s + 1\<rparr>)" "remaining (s\<lparr>rd_pos := rd_pos s + 1\<rparr>) \<le> k"
      using s by (auto simp: in_data_def remaining_def)
    with assms [of v] y show ?thesis by (simp add: rbind_def same_upto_def)
  qed (simp add: rbind_def)
qed

lemma same_many:
  "same_upto k r q \<Longrightarrow> safe P r \<Longrightarrow> same_upto k (r_many n r) (r_many n q)"
  by (induction n) (auto intro!: same_bind same_refl safe_many simp: safe_return)

lemma same_pos: "(\<And>p. same_upto k (f p) (g p)) \<Longrightarrow> same_upto k (rbind r_pos f) (rbind r_pos g)"
  by (rule same_bind_left [OF safe_pos])

end
