(* ===== verification/Tree_Parts.thy ===== *)
theory Tree_Parts
  imports Tree_Decode Wire_Safety
begin

unbundle bit_operations_syntax

text \<open>
  The parts of draws and nodes: what makes them well formed, what the wire keeps of them, and for
  each that its reader undoes its writer (a codec) and accepts only well-formed values.
\<close>

section \<open>Enumerations\<close>

lemma enum_roundtrip:
  assumes "v \<in> set vs" and "length vs \<le> 256"
  shows "enum_from_u8 vs (enum_u8 vs v) = Some v"
proof -
  obtain i where i: "position (\<lambda>x. x = v) vs = Some i"
    using assms(1) by (cases "position (\<lambda>x. x = v) vs") auto
  then have "i < length vs" "vs ! i = v" using position_SomeD by fastforce+
  with i assms(2) show ?thesis
    by (simp add: enum_u8_def enum_from_u8_def get_eq_Some unsigned_of_nat take_bit_nat_eq_self)
qed

lemma enum_lists [simp]:
  "enum_from_u8 anim_properties (enum_u8 anim_properties p) = Some p"
  "enum_from_u8 easings (enum_u8 easings e) = Some e"
  "enum_from_u8 loop_modes (enum_u8 loop_modes l) = Some l"
  "enum_from_u8 color_spaces (enum_u8 color_spaces c) = Some c"
  "enum_from_u8 tag_kinds (enum_u8 tag_kinds t) = Some t"
  "enum_from_u8 tag_icon_modes (enum_u8 tag_icon_modes m) = Some m"
  "enum_from_u8 rel_time_clamps (enum_u8 rel_time_clamps r) = Some r"
  "enum_from_u8 progress_kinds (enum_u8 progress_kinds k) = Some k"
  "enum_from_u8 skeleton_kinds (enum_u8 skeleton_kinds s) = Some s"
  subgoal by (rule enum_roundtrip; cases p; simp add: anim_properties_def)
  subgoal by (rule enum_roundtrip; cases e; simp add: easings_def)
  subgoal by (rule enum_roundtrip; cases l; simp add: loop_modes_def)
  subgoal by (rule enum_roundtrip; cases c; simp add: color_spaces_def)
  subgoal by (rule enum_roundtrip; cases t; simp add: tag_kinds_def)
  subgoal by (rule enum_roundtrip; cases m; simp add: tag_icon_modes_def)
  subgoal by (rule enum_roundtrip; cases r; simp add: rel_time_clamps_def)
  subgoal by (rule enum_roundtrip; cases k; simp add: progress_kinds_def)
  subgoal by (rule enum_roundtrip; cases s; simp add: skeleton_kinds_def)
  done

lemma small_enums [simp]:
  "arc_anchor_try_from (arc_anchor_u8 a) = Some a"
  "arc_text_facing_try_from (arc_text_facing_u8 f) = Some f"
  "auto_fit_from_u8 (auto_fit_u8 m) = m"
  "button_style_from (button_style_u8 b) = b"
  "button_size_from (button_size_u8 z) = z"
  "notification_kind_from (notification_kind_u8 n) = n"
  "progress_mode_from_wire (progress_mode_kind p) (progress_mode_fraction p) = p"
  subgoal by (cases a; simp add: arc_anchor_try_from_def)
  subgoal by (cases f; simp add: arc_text_facing_try_from_def)
  subgoal by (cases m; simp add: auto_fit_from_u8_def)
  subgoal by (cases b; simp add: button_style_from_def)
  subgoal by (cases z; simp add: button_size_from_def)
  subgoal by (cases n; simp add: notification_kind_from_def)
  subgoal by (cases p; simp)
  done

lemma rel_time_format_roundtrip [simp]: "rel_time_format_try_from (rel_time_format_u8 f) = Some f"
proof -
  obtain l g where "f = \<lparr>rt_length = l, rt_segments = g\<rparr>" by (cases f)
  then show ?thesis
    by (cases l; cases g; simp add: rel_time_format_u8_def rel_time_format_try_from_def)
qed

section \<open>Fills and arcs\<close>

lemma fill_ofits: "fill_ok f \<Longrightarrow> ofits decode_fill (encode_fill f) f"
  unfolding decode_fill_def by (cases f) (auto intro!: ofits)

lemma arc_fill_ofits: "ofits decode_arc_fill (encode_arc_fill f) f"
  unfolding decode_arc_fill_def by (cases f) (auto intro!: ofits)

lemma arc_cap_ofits: "ofits decode_arc_cap (encode_arc_cap c) c"
  unfolding decode_arc_cap_def by (cases c) (auto intro!: ofits)

lemma span_ofits:
  "f32_is_finite a \<Longrightarrow> f32_is_finite b \<Longrightarrow> ofits ospan (le32 a @ le32 b) (a, b)"
  unfolding ospan_def by (intro ofits)

lemma spans_ofits:
  "list_all (\<lambda>(a, b). f32_is_finite a \<and> f32_is_finite b) spans \<Longrightarrow>
   ofits (omany (length spans) ospan) (concat (map (\<lambda>(a, b). le32 a @ le32 b) spans)) spans"
  using ofits_many [of spans ospan "\<lambda>(a, b). le32 a @ le32 b" "\<lambda>x. x"]
  by (force simp: list_all_iff intro: span_ofits)

lemma length_spans: "length (concat (map (\<lambda>(a, b). le32 a @ le32 b) spans)) = 8 * length spans"
  by (induction spans) auto

lemma arc_segments_ofits:
  assumes "arc_segments_ok s"
  obtains bs where "encode_arc_segments s = Some bs" "ofits decode_arc_segments bs s"
proof (cases s)
  case SegContinuous
  have "ofits decode_arc_segments [0] SegContinuous"
    unfolding decode_arc_segments_def by (auto intro!: ofits)
  with SegContinuous show ?thesis by (intro that) auto
next
  case (SegExplicit spans)
  let ?n = "word_of_nat (length spans) :: u32" and ?w = "concat (map (\<lambda>(a, b). le32 a @ le32 b) spans)"
  have n: "unat ?n = length spans" and ok: "list_all (\<lambda>(a, b). f32_is_finite a \<and> f32_is_finite b) spans"
    using assms SegExplicit by (simp_all add: unsigned_of_nat take_bit_nat_eq_self)
  let ?body = "obind (omany (unat ?n) ospan) (\<lambda>spans. oreturn (SegExplicit spans))"
  have body: "ofits ?body ?w s"
    unfolding n SegExplicit by (rule ofits_bind_end [OF spans_ofits [OF ok]]) (rule ofits_return)
  have "ofits (obind osegments_left (\<lambda>left. if left < unat ?n then ofail else ?body)) ?w s"
    unfolding ofits_def
  proof (intro allI)
    fix pre post
    have "\<not> (length (pre @ ?w @ post) - length pre) div 8 < unat ?n"
      by (simp add: n length_spans)
    with body show "obind osegments_left (\<lambda>left. if left < unat ?n then ofail else ?body)
        (pre @ ?w @ post) (length pre) = Some (s, length pre + length ?w)"
      by (simp add: obind_def [of osegments_left] osegments_left_def ofits_def)
  qed
  then have "ofits decode_arc_segments ([1] @ le32 ?n @ ?w) s"
    unfolding decode_arc_segments_def by (auto intro!: ofits)
  with assms SegExplicit show ?thesis by (intro that) auto
qed

interpretation fill: exact_codec w_fill r_fill fill_ok
  by unfold_locales (simp add: w_fill_def r_fill_def fits_lift fill_ofits)

interpretation arc_fill: exact_codec w_arc_fill r_arc_fill "\<lambda>_. True"
  by unfold_locales (simp add: w_arc_fill_def r_arc_fill_def fits_lift arc_fill_ofits)

interpretation arc_cap: exact_codec w_arc_cap r_arc_cap "\<lambda>_. True"
  by unfold_locales (simp add: w_arc_cap_def r_arc_cap_def fits_lift arc_cap_ofits)

interpretation arc_segments: exact_codec w_arc_segments r_arc_segments arc_segments_ok
proof unfold_locales
  fix s
  assume "arc_segments_ok s"
  then obtain bs where "encode_arc_segments s = Some bs" "ofits decode_arc_segments bs s"
    by (rule arc_segments_ofits)
  then show "fits (w_arc_segments s) r_arc_segments s"
    by (simp add: w_arc_segments_def r_arc_segments_def fits_lift)
qed

section \<open>Skins, spans, animations, paths and meshes\<close>

definition np_ok :: "nine_patch \<Rightarrow> bool" where
  "np_ok np \<longleftrightarrow> id_ok (np_bitmap_id np)"

interpretation nine_patch: exact_codec w_nine_patch r_nine_patch np_ok
proof unfold_locales
  fix np
  assume "np_ok np"
  then show "fits (w_nine_patch np) r_nine_patch np"
    unfolding w_nine_patch_def r_nine_patch_def np_ok_def
    by (cases np) (auto intro!: fits)
qed

interpretation svg_fill: exact_codec w_svg_fill r_svg_fill "\<lambda>f. str_ok (fst f)"
proof unfold_locales
  fix f :: "bytes \<times> u32"
  assume "str_ok (fst f)"
  then show "fits (w_svg_fill f) r_svg_fill f"
    unfolding w_svg_fill_def r_svg_fill_def str_ok_def by (cases f) (auto intro!: fits)
qed

interpretation animation: exact_codec w_animation r_animation "\<lambda>_. True"
proof unfold_locales
  fix a
  show "fits (w_animation a) r_animation a"
    unfolding w_animation_def r_animation_def by (cases a) (auto intro!: fits)
qed

interpretation transition: exact_codec w_transition r_transition "\<lambda>_. True"
proof unfold_locales
  fix t :: transition_def
  show "fits (w_transition t) r_transition t"
    unfolding w_transition_def r_transition_def by (cases t) (auto intro!: fits)
qed

interpretation animations: exact_codec w_animations r_animations "\<lambda>as. length as < 2 ^ 8"
proof unfold_locales
  fix as :: "animation_def list"
  have "fits (wcat (map w_animation as)) (r_many (length as) r_animation) as"
    using animation.many [of as] by simp
  from fits_counted_u8 [OF this, where f = rreturn and ws = "[]" and u = as]
  show "fits (w_animations as) r_animations as"
    unfolding w_animations_def r_animations_def by (simp add: fits_return)
qed

interpretation point: exact_codec w_point r_point "\<lambda>_. True"
proof unfold_locales
  fix p
  show "fits (w_point p) r_point p"
    unfolding w_point_def r_point_def by (cases p) (auto intro!: fits)
qed

fun path_paint_ok :: "path_paint \<Rightarrow> bool" where
  "path_paint_ok (PaintFill f) = fill_ok f"
| "path_paint_ok (PaintStroke c w d) = extent_ok w"

fun path_paint_norm :: "path_paint \<Rightarrow> path_paint" where
  "path_paint_norm (PaintFill f) = PaintFill f"
| "path_paint_norm (PaintStroke c w d) =
     PaintStroke c w (Option.bind d (\<lambda>d. dash_new (dash_on d) (dash_off d)))"

lemma path_flags_bits:
  "(path_flags paint c ip AND 1 \<noteq> 0) = c"
  "(path_flags paint c ip AND 2 \<noteq> 0) = (ip = IpCatmullRom)"
  "(path_flags paint c ip AND 4 \<noteq> 0) = (\<exists>f. paint = PaintFill f)"
  "(path_flags paint c ip AND 8 \<noteq> 0) = (\<exists>k w d. paint = PaintStroke k w (Some d))"
proof -
  have "paint = PaintFill f \<or> paint = PaintStroke k w None \<or> paint = PaintStroke k w (Some d) \<Longrightarrow>
    (path_flags paint c ip AND 1 \<noteq> 0) = c \<and>
    (path_flags paint c ip AND 2 \<noteq> 0) = (ip = IpCatmullRom) \<and>
    (path_flags paint c ip AND 4 \<noteq> 0) = (\<exists>f. paint = PaintFill f) \<and>
    (path_flags paint c ip AND 8 \<noteq> 0) = (\<exists>k w d. paint = PaintStroke k w (Some d))" for f k w d
    by (cases c; cases ip) (auto simp: path_flags_def)
  moreover have "(\<exists>f. paint = PaintFill f) \<or> (\<exists>k w. paint = PaintStroke k w None) \<or>
      (\<exists>k w d. paint = PaintStroke k w (Some d))"
    by (cases paint; cases "case paint of PaintStroke k w d \<Rightarrow> d | _ \<Rightarrow> None") auto
  ultimately show "(path_flags paint c ip AND 1 \<noteq> 0) = c"
    "(path_flags paint c ip AND 2 \<noteq> 0) = (ip = IpCatmullRom)"
    "(path_flags paint c ip AND 4 \<noteq> 0) = (\<exists>f. paint = PaintFill f)"
    "(path_flags paint c ip AND 8 \<noteq> 0) = (\<exists>k w d. paint = PaintStroke k w (Some d))"
    by blast+
qed

lemma path_paint_fits:
  assumes "path_paint_ok paint"
  shows "fits (w_path_paint paint) (r_path_paint (path_flags paint c ip)) (path_paint_norm paint)"
proof (cases paint)
  case (PaintFill f)
  with assms fits_map [OF fill.get_put] show ?thesis
    by (simp add: r_path_paint_def path_flags_bits w_path_paint_def)
next
  case (PaintStroke k w d)
  with assms have w: "extent_ok w" by simp
  have "fits (wcat [w_color k, w_f32 w, w_option w_dash d])
      (rbind r_color (\<lambda>c. rbind r_extent (\<lambda>width.
        if d \<noteq> None then
          rbind r_f32 (\<lambda>on. rbind r_f32 (\<lambda>off. rreturn (PaintStroke c width (dash_new on off))))
        else rreturn (PaintStroke c width None)))) (path_paint_norm paint)"
  proof (intro fits w)
    show "fits (wcat [w_option w_dash d])
        (if d \<noteq> None then
          rbind r_f32 (\<lambda>on. rbind r_f32 (\<lambda>off. rreturn (PaintStroke k w (dash_new on off))))
        else rreturn (PaintStroke k w None)) (path_paint_norm paint)"
      unfolding PaintStroke
      by (cases d) (auto simp: w_option_def w_dash_def fits_wcat1 wcat_def [of "[]", symmetric] intro!: fits,
          auto simp: wcat_def fits_def rreturn_def)
  qed
  with PaintStroke show ?thesis
    by (cases d) (simp_all add: r_path_paint_def path_flags_bits w_path_paint_def)
qed

definition mesh_args_ok :: "mesh_draw_args \<Rightarrow> bool" where
  "mesh_args_ok a \<longleftrightarrow> length (mt_quat (ma_transform a)) = 4 \<and> length (mt_position (ma_transform a)) = 3"

lemma f32_many: "length xs = n \<Longrightarrow> fits (wcat (map w_f32 xs)) (r_many n r_f32) xs"
  using f32.many [of xs] by simp

interpretation mesh_args: exact_codec w_mesh_args r_mesh_args mesh_args_ok
proof unfold_locales
  fix a
  assume ok: "mesh_args_ok a"
  obtain t l h where a: "a = \<lparr>ma_transform = t, ma_lighting = l, ma_highlight = h\<rparr>" by (cases a)
  from ok show "fits (w_mesh_args a) r_mesh_args a"
    unfolding w_mesh_args_def r_mesh_args_def Let_def a mesh_args_ok_def
    by (cases t; cases l; cases h) (auto intro!: fits fits_bind [OF f32_many])
qed

section \<open>Optional parts and spans\<close>

text \<open>A presence byte and the part behind it.\<close>

lemma fits_present:
  assumes "fits (w_option p x) (r_when (x \<noteq> None) g) y" and "fits (wcat ws) (f y) u"
  shows "fits (wcat (w_present p x # ws)) (rbind r_bool (\<lambda>b. rbind (r_when b g) f)) u"
proof -
  have "fits (wcat (w_bool (x \<noteq> None) # w_option p x # ws)) (rbind r_bool (\<lambda>b. rbind (r_when b g) f)) u"
    by (rule boolean.bind [OF TrueI]) (rule fits_bind [OF assms(1)], rule assms(2))
  moreover have "wcat (w_bool (x \<noteq> None) # w_option p x # ws) = wcat (w_present p x # ws)"
    by (cases x) (auto simp: wcat_def w_present_def w_option_def w_bool_def w_u8_def split: option.split)
  ultimately show ?thesis by simp
qed

lemma fits_trailing_flag:
  assumes "fits w (rbind r_bool f) u" and "fst w \<noteq> []"
  shows "fits w (rbind r_trailing_flag f) u"
  using assms unfolding fits_def by (simp add: rbind_def r_trailing_flag_def remaining_def)

definition button_skin_ok :: "button_skin \<Rightarrow> bool" where
  "button_skin_ok k \<longleftrightarrow> np_ok (bs_normal k) \<and> pred_option np_ok (bs_pressed k)"

interpretation button_skin: exact_codec w_button_skin r_button_skin button_skin_ok
proof unfold_locales
  fix k
  assume ok: "button_skin_ok k"
  obtain n p t pt q where k: "k = \<lparr>bs_normal = n, bs_pressed = p, bs_text_color = t,
      bs_pressed_text_color = pt, bs_opaque = q\<rparr>" by (cases k)
  have w: "w_button_skin k = wcat [w_nine_patch n, w_present w_nine_patch p, w_color t, w_color pt, w_bool q]"
    by (simp add: k w_button_skin_def w_present_def)
  from ok show "fits (w_button_skin k) r_button_skin k"
    unfolding w r_button_skin_def unfolding k button_skin_ok_def
    by (auto intro!: fits nine_patch.bind fits_present nine_patch.optional [simplified option.map_ident])
qed

definition slider_skin_ok :: "slider_skin \<Rightarrow> bool" where
  "slider_skin_ok k \<longleftrightarrow> np_ok (ss_track k) \<and> id_ok (ss_thumb_id k) \<and> id_ok (ss_thumb_pressed_id k)"

interpretation slider_skin: exact_codec w_slider_skin r_slider_skin slider_skin_ok
proof unfold_locales
  fix k
  assume "slider_skin_ok k"
  then show "fits (w_slider_skin k) r_slider_skin k"
    unfolding w_slider_skin_def r_slider_skin_def slider_skin_ok_def
    by (cases k) (auto intro!: fits nine_patch.bind)
qed

text \<open>A span keeps twelve bits of its weight.\<close>

definition span_norm :: "span \<Rightarrow> span" where
  "span_norm s = s\<lparr>sp_weight := map_option (\<lambda>w. w AND 0xFFF) (sp_weight s)\<rparr>"

lemma span_unpack:
  "span_flags_unpack (fst (span_wire_flags s)) (snd (span_wire_flags s)) =
     \<lparr>sf_weight = map_option (\<lambda>w. w AND 0xFFF) (sp_weight s), sf_has_color = (sp_color s \<noteq> None),
      sf_has_size = (sp_size s \<noteq> None), sf_italic = sp_italic s, sf_underline = sp_underline s,
      sf_strikethrough = sp_strikethrough s\<rparr>"
  unfolding span_wire_flags_def span_flags_roundtrip by simp

interpretation span: wire_codec w_span r_span "\<lambda>s. str_ok (sp_text s)" span_norm
proof unfold_locales
  fix s :: span
  assume ok: "str_ok (sp_text s)"
  have norm: "span_norm s = \<lparr>sp_text = sp_text s, sp_weight = map_option (\<lambda>w. w AND 0xFFF) (sp_weight s),
      sp_color = sp_color s, sp_size = sp_size s, sp_italic = sp_italic s,
      sp_underline = sp_underline s, sp_strikethrough = sp_strikethrough s\<rparr>"
    by (cases s) (simp add: span_norm_def)
  show "fits (w_span s) r_span (span_norm s)"
    unfolding w_span_def r_span_def norm
  proof (intro fits)
    show "valid_utf8 (sp_text s)" using ok by (simp add: str_ok_def)
    show "fits (wcat [w_option w_color (sp_color s), w_option w_u32 (sp_size s)])
        (let flags = span_flags_unpack (fst (span_wire_flags s)) (snd (span_wire_flags s)) in
         rbind (r_when (sf_has_color flags) r_color) (\<lambda>color.
         rbind (r_when (sf_has_size flags) r_u32) (\<lambda>sz.
         rreturn \<lparr>sp_text = sp_text s, sp_weight = sf_weight flags, sp_color = color, sp_size = sz,
           sp_italic = sf_italic flags, sp_underline = sf_underline flags,
           sp_strikethrough = sf_strikethrough flags\<rparr>)))
        \<lparr>sp_text = sp_text s, sp_weight = map_option (\<lambda>w. w AND 0xFFF) (sp_weight s),
         sp_color = sp_color s, sp_size = sp_size s, sp_italic = sp_italic s,
         sp_underline = sp_underline s, sp_strikethrough = sp_strikethrough s\<rparr>"
      unfolding Let_def span_unpack span_flags.simps
      by (rule fits_bind [OF color.optional [simplified option.map_ident]], simp add: option.pred_True,
          rule fits_bind [OF u32.optional [simplified option.map_ident]], simp add: option.pred_True,
          rule fits_return)
  qed
qed

definition key_norm :: "bytes option \<Rightarrow> bytes option" where
  "key_norm k = (if key_bytes k = [] then None else k)"

interpretation key: wire_codec "\<lambda>k. w_str (key_bytes k) msg" r_key "\<lambda>k. str_ok (key_bytes k)"
  key_norm for msg
proof unfold_locales
  fix k
  assume "str_ok (key_bytes k)"
  then have "fits (w_str (key_bytes k) msg) r_prefixed_string (key_bytes k)"
    by (intro str.get_put) (simp add: str_ok_def)
  from fits_map [OF this, of "\<lambda>k. if k = [] then None else Some k"]
  show "fits (w_str (key_bytes k) msg) r_key (key_norm k)"
    unfolding r_key_def key_norm_def by (cases k) (simp_all add: key_bytes_def if_distrib cong: if_cong)
qed

interpretation tab: exact_codec w_tab r_tab "\<lambda>t. id_ok (tab_icon t) \<and> str_ok (tab_click_id t)"
proof unfold_locales
  fix t :: switcher_tab
  assume "id_ok (tab_icon t) \<and> str_ok (tab_click_id t)"
  then show "fits (w_tab t) r_tab t"
    unfolding w_tab_def r_tab_def str_ok_def by (cases t) (auto intro!: fits)
qed

lemmas fits_parts [fits] =
  fill.bind arc_fill.bind [simplified] arc_segments.bind arc_cap.bind [simplified] nine_patch.bind
  mesh_args.bind key.bind

end
