(* ===== verification/Tree_Safety.thy ===== *)
theory Tree_Safety
  imports Tree_Parts
begin

unbundle bit_operations_syntax

text \<open>
  The decoder of widget trees on arbitrary bytes. The well-formed draws and nodes are those whose
  extents are finite and not negative, whose strings are UTF-8 and short enough for their length
  prefix, whose lists fit their counts and whose resource ids are not zero. The readers only accept
  those, and move forward inside the data as they do. Since a node and a draw take at least one
  byte, the fuel of their readers is enough: they satisfy the recursion equations of the source.
\<close>

section \<open>Well-formed trees\<close>

primrec draw_ok :: "draw \<Rightarrow> bool" where
  "draw_ok (DrawRect x y w h f) = (extent_ok w \<and> extent_ok h \<and> fill_ok f)"
| "draw_ok (DrawCircle cx cy r f) = (extent_ok r \<and> fill_ok f)"
| "draw_ok (DrawArc cx cy radius a0 a1 width f segments cap) =
     (extent_ok radius \<and> extent_ok width \<and> arc_segments_ok segments)"
| "draw_ok (DrawCentered inner) = draw_ok inner"
| "draw_ok (DrawOrbit radius angle inner) = (extent_ok radius \<and> draw_ok inner)"
| "draw_ok (DrawRotated angle inner) = draw_ok inner"
| "draw_ok (DrawShadow dx dy blur c inner) = draw_ok inner"
| "draw_ok (DrawSvg x y w h c i anti_alias fills) =
     (extent_ok w \<and> extent_ok h \<and> id_ok i \<and> length fills < 2 ^ 16 \<and>
      list_all (\<lambda>f. str_ok (fst f)) fills)"
| "draw_ok (DrawBitmap x y w h i) = (extent_ok w \<and> extent_ok h \<and> id_ok i)"
| "draw_ok (DrawQr x y sz style txt) = str_ok txt"
| "draw_ok (DrawModified animations transition cs inner) =
     (length animations < 2 ^ 8 \<and> draw_ok inner)"
| "draw_ok (DrawPath points paint is_closed ip) = (length points < 2 ^ 16 \<and> path_paint_ok paint)"
| "draw_ok (DrawText x y txt style) = (str_ok txt \<and> text_style_ok style)"
| "draw_ok (DrawCurvedText cx cy radius angle anchor facing txt style) =
     (extent_ok radius \<and> str_ok txt \<and> text_style_ok style)"
| "draw_ok (DrawAutofitText x y w h mode min_size max_size txt style) =
     (extent_ok w \<and> extent_ok h \<and> str_ok txt \<and> text_style_ok style)"
| "draw_ok (DrawNinePatch x y w h np) = (extent_ok w \<and> extent_ok h \<and> np_ok np)"
| "draw_ok (DrawSphere x y w h i atmosphere c1 c2 zoom l1 l2) =
     (extent_ok w \<and> extent_ok h \<and> id_ok i)"
| "draw_ok (DrawMesh x y w h i args) = (extent_ok w \<and> extent_ok h \<and> id_ok i \<and> mesh_args_ok args)"

definition modal_ok :: "modal_head \<Rightarrow> modal_footer \<Rightarrow> bool" where
  "modal_ok head footer \<longleftrightarrow> str_ok (mo_id head) \<and> str_ok (mo_title head) \<and>
     str_ok (mf_primary_key footer) \<and> str_ok (mf_primary_label footer) \<and>
     str_ok (mf_secondary_key footer) \<and> str_ok (mf_secondary_label footer)"

definition children_ok :: "bool list \<Rightarrow> bool" where
  "children_ok oks \<longleftrightarrow> length oks < 2 ^ 16 \<and> list_all (\<lambda>b. b) oks"

primrec node_ok :: "node \<Rightarrow> bool" where
  "node_ok (NColumn props children) = (props_ok props \<and> children_ok (map node_ok children))"
| "node_ok (NRow props children) = (props_ok props \<and> children_ok (map node_ok children))"
| "node_ok (NCenter props children) = (props_ok props \<and> children_ok (map node_ok children))"
| "node_ok (NParagraph props base_style spans) =
     (props_ok props \<and> text_style_ok base_style \<and> length spans < 2 ^ 16 \<and>
      list_all (\<lambda>s. str_ok (sp_text s)) spans)"
| "node_ok (NButton bid label style sz icon_id disabled stretch skin) =
     (str_ok bid \<and> str_ok label \<and> id_ok icon_id \<and> pred_option button_skin_ok skin)"
| "node_ok (NSpacer flex) = extent_ok flex"
| "node_ok (NCanvas props touch_key draws) =
     (props_ok props \<and> str_ok (key_bytes touch_key) \<and> length draws < 2 ^ 16 \<and> list_all draw_ok draws)"
| "node_ok (NNotification kind title subtitle) = (str_ok title \<and> str_ok subtitle)"
| "node_ok (NRelTime anchor format clamp style) = text_style_ok style"
| "node_ok (NTag kind icon content) = (icon \<noteq> TiCustom 0 \<and> node_ok content)"
| "node_ok (NSwitcher active disabled tabs) =
     (active < 2 ^ 8 \<and> length tabs < 2 ^ 8 \<and>
      list_all (\<lambda>t. id_ok (tab_icon t) \<and> str_ok (tab_click_id t)) tabs)"
| "node_ok (NSkeleton d) =
     (extent_ok (sk_font_size d) \<and> extent_ok (sk_width d) \<and> extent_ok (sk_height d))"
| "node_ok (NScroll scroll_key props children) =
     (str_ok scroll_key \<and> props_ok props \<and> children_ok (map node_ok children))"
| "node_ok (NModal head body footer) = (modal_ok head footer \<and> children_ok (map node_ok body))"
| "node_ok (NProgressBar touch_key track_h mode active c1 c2 c3 skin) =
     (str_ok (key_bytes touch_key) \<and> extent_ok track_h \<and> pred_option slider_skin_ok skin)"
| "node_ok (NDimmed brightness child) = (brightness_ok brightness \<and> node_ok child)"

section \<open>Safe readers of the parts\<close>

lemma unat_bounds [simp]: "unat (c :: u8) < 256" "unat (n :: u16) < 65536" "unat (m :: u32) < 4294967296"
  using unsigned_less [of c] unsigned_less [of n] unsigned_less [of m] by simp_all

lemma safe_fill: "safe fill_ok r_fill"
  unfolding r_fill_def decode_fill_def by (rule safe_lift) (intro osafe; simp)

lemma safe_arc_fill: "safe (\<lambda>_. True) r_arc_fill"
  unfolding r_arc_fill_def decode_arc_fill_def by (rule safe_lift) (intro osafe TrueI)

lemma safe_arc_cap: "safe (\<lambda>_. True) r_arc_cap"
  unfolding r_arc_cap_def decode_arc_cap_def by (rule safe_lift) (intro osafe TrueI)

lemma osafe_segments_left: "osafe (\<lambda>_. True) osegments_left"
  by (auto simp: osafe_def osegments_left_def)

lemma osafe_span: "osafe (\<lambda>(a, b). f32_is_finite a \<and> f32_is_finite b) ospan"
  unfolding ospan_def by (intro osafe) simp

lemma safe_arc_segments: "safe arc_segments_ok r_arc_segments"
  unfolding r_arc_segments_def decode_arc_segments_def
  by (rule safe_lift)
    (intro osafe osafe_bind [OF osafe_segments_left] osafe_bind [OF osafe_many [OF osafe_span]]; simp)

lemma safe_nine_patch: "safe np_ok r_nine_patch"
  unfolding r_nine_patch_def by (intro safe) (simp add: np_ok_def)

lemma safe_svg_fill: "safe (\<lambda>f. str_ok (fst f)) r_svg_fill"
  unfolding r_svg_fill_def by (intro safe) simp

lemma safe_span: "safe (\<lambda>s. str_ok (sp_text s)) r_span"
  unfolding r_span_def Let_def
  by (intro safe safe_bind [OF safe_when [OF safe_color]] safe_bind [OF safe_when [OF safe_prims(3)]]) simp

lemma safe_animation: "safe (\<lambda>_. True) r_animation"
  unfolding r_animation_def by (intro safe TrueI)

lemma safe_animations: "safe (\<lambda>as. length as < 2 ^ 8) r_animations"
  unfolding r_animations_def by (intro safe safe_bind [OF safe_many [OF safe_animation]]) simp

lemma safe_transition: "safe (\<lambda>_. True) r_transition"
  unfolding r_transition_def by (intro safe TrueI)

lemma safe_point: "safe (\<lambda>_. True) r_point"
  unfolding r_point_def by (intro safe TrueI)

lemma safe_path_paint: "safe path_paint_ok (r_path_paint flags)"
  unfolding r_path_paint_def by (intro safe safe_bind [OF safe_fill]) simp_all

lemma safe_mesh_args: "safe mesh_args_ok r_mesh_args"
  unfolding r_mesh_args_def
  by (intro safe safe_bind [OF safe_many [OF safe_f32]]) (simp add: mesh_args_ok_def)

lemma safe_button_skin: "safe button_skin_ok r_button_skin"
  unfolding r_button_skin_def
  by (intro safe safe_bind [OF safe_nine_patch] safe_bind [OF safe_when [OF safe_nine_patch]])
    (simp add: button_skin_ok_def)

lemma safe_slider_skin: "safe slider_skin_ok r_slider_skin"
  unfolding r_slider_skin_def
  by (intro safe safe_bind [OF safe_nine_patch]) (simp add: slider_skin_ok_def)

lemma safe_trailing_flag: "safe (\<lambda>_. True) r_trailing_flag"
  using safe_bool by (auto simp: safe_def r_trailing_flag_def moved_refl)

lemma safe_key: "safe (\<lambda>k. str_ok (key_bytes k)) r_key"
  unfolding r_key_def by (intro safe) (auto simp: key_bytes_def)

lemma safe_tab: "safe (\<lambda>t. id_ok (tab_icon t) \<and> str_ok (tab_click_id t)) r_tab"
  unfolding r_tab_def by (intro safe) simp

text \<open>The fixed-size parts are read to their end.\<close>

lemma otake_end: "otake n d p = Some (v, q) \<Longrightarrow> q = p + n"
  by (auto simp: otake_def split: if_splits)

lemma prims_end:
  "ow_u16 d p = Some (a, q) \<Longrightarrow> q = p + 2" "ow_u32 d p = Some (b, q) \<Longrightarrow> q = p + 4"
  "ow_f32 d p = Some (b, q) \<Longrightarrow> q = p + 4" "ow_color d p = Some (b, q) \<Longrightarrow> q = p + 4"
  "ow_finite_f32 d p = Some (b, q) \<Longrightarrow> q = p + 4" "ow_extent_f32 d p = Some (b, q) \<Longrightarrow> q = p + 4"
  unfolding ow_extent_f32_def ow_finite_f32_def ow_f32_def ow_color_def ow_u32_def ow_u16_def ofilter_def
  by (auto simp: obind_def oreturn_def ofail_def dest!: otake_end split: option.splits if_splits)

lemma obind_SomeE:
  assumes "obind r f d p = Some (v, q)"
  obtains x m where "r d p = Some (x, m)" "f x d m = Some (v, q)"
  using assms by (auto simp: obind_def split: option.splits)

lemma props_end: "props_from_bytes d 0 = Some (v, q) \<Longrightarrow> q = 78"
  unfolding props_from_bytes_def by (elim obind_SomeE, (drule prims_end)+) (simp add: oreturn_def)

lemma text_style_end: "text_style_from_bytes d 0 = Some (v, q) \<Longrightarrow> q = 28"
  unfolding text_style_from_bytes_def by (elim obind_SomeE, (drule prims_end)+) (simp add: oreturn_def)

lemma safe_props: "safe props_ok r_props"
  unfolding r_props_def
proof (rule safe_struct [OF _ props_end])
  show "osafe props_ok props_from_bytes"
    unfolding props_from_bytes_def by (intro osafe) (simp add: props_ok_def id_ok_def)
qed

lemma safe_text_style: "safe text_style_ok r_text_style"
  unfolding r_text_style_def
proof (rule safe_struct [OF _ text_style_end])
  show "osafe text_style_ok text_style_from_bytes"
    unfolding text_style_from_bytes_def by (intro osafe) (simp add: text_style_ok_def)
qed

lemmas safe_parts [safe] =
  safe_bind [OF safe_fill] safe_bind [OF safe_arc_fill] safe_bind [OF safe_arc_cap]
  safe_bind [OF safe_arc_segments] safe_bind [OF safe_nine_patch] safe_bind [OF safe_path_paint]
  safe_bind [OF safe_mesh_args] safe_bind [OF safe_key] safe_bind [OF safe_trailing_flag]
  safe_bind [OF safe_props] safe_bind [OF safe_text_style]
  safe_bind [OF safe_many [OF safe_svg_fill]] safe_bind [OF safe_many [OF safe_point]]
  safe_bind [OF safe_many [OF safe_span]] safe_bind [OF safe_many [OF safe_tab]]
  safe_bind [OF safe_when [OF safe_animations]] safe_bind [OF safe_when [OF safe_transition]]
  safe_bind [OF safe_when [OF safe_button_skin]] safe_bind [OF safe_when [OF safe_slider_skin]]

end
