(* ===== verification/Tree_Fuel.thy ===== *)
theory Tree_Fuel
  imports Tree_Safety
begin

unbundle bit_operations_syntax

text \<open>
  The recursion of the decoder. A reader that calls itself only after it has read a byte is
  determined by its body: with as many unfoldings as there are bytes left it satisfies the
  recursion equation of the source. The locale \<open>fuelled\<close> states what its body has to promise; the
  readers of draws and of nodes are its instances.
\<close>

section \<open>Recursion on the bytes left\<close>

locale fuelled =
  fixes fuel :: "nat \<Rightarrow> 'a reader" and run :: "'a reader" and body :: "'a reader \<Rightarrow> 'a reader"
    and ok :: "'a \<Rightarrow> bool"
  assumes fuel_0: "fuel 0 = (\<lambda>s. Inl (Truncated (rd_pos s)))"
    and fuel_Suc: "fuel (Suc n) = body (fuel n)"
    and run: "run s = fuel (remaining s) s"
    and body_safe: "safe ok r \<Longrightarrow> safe ok (body r)"
    and body_same: "same_upto n r q \<Longrightarrow> safe ok r \<Longrightarrow> same_upto (Suc n) (body r) (body q)"
    and body_empty: "in_data s \<Longrightarrow> remaining s = 0 \<Longrightarrow> body r s = Inl (Truncated (rd_pos s))"
begin

lemma fuel_safe: "safe ok (fuel n)"
proof (induction n)
  case 0
  then show ?case by (simp add: fuel_0 safe_def)
next
  case (Suc n)
  then show ?case by (simp add: fuel_Suc body_safe)
qed

lemma fuel_mono: "n \<le> k \<Longrightarrow> same_upto n (fuel n) (fuel k)"
proof (induction n arbitrary: k)
  case 0
  then show ?case
    by (cases k) (simp_all add: same_upto_def fuel_0 fuel_Suc body_empty)
next
  case (Suc n)
  then obtain j where "k = Suc j" "n \<le> j" by (cases k) auto
  with Suc.IH [of j] show ?case by (simp add: fuel_Suc body_same fuel_safe)
qed

lemma run_safe: "safe ok run"
  using fuel_safe by (auto simp: safe_def run)

lemma fuel_run: "same_upto n (fuel n) run"
  unfolding same_upto_def run
proof (intro allI impI)
  fix s
  assume "in_data s" "remaining s \<le> n"
  with fuel_mono [of "remaining s" n] show "fuel n s = fuel (remaining s) s"
    by (simp add: same_upto_def)
qed

theorem run_unfold:
  assumes "in_data s"
  shows "run s = body run s"
proof (cases "remaining s")
  case 0
  with assms show ?thesis by (simp add: run fuel_0 body_empty)
next
  case (Suc n)
  have "same_upto (Suc n) (body (fuel n)) (body run)"
    by (rule body_same [OF fuel_run fuel_safe])
  with assms Suc show ?thesis by (simp add: run fuel_Suc same_upto_def)
qed

lemma fits_run: "fits w (body run) v \<Longrightarrow> fits w run v"
  unfolding fits_def by (simp add: run_unfold in_data_def)

end

lemma empty_byte:
  "in_data s \<Longrightarrow> remaining s = 0 \<Longrightarrow> rbind r_pos (\<lambda>p. rbind r_u8 (f p)) s = Inl (Truncated (rd_pos s))"
  by (simp add: rbind_def r_pos_def r_u8_def r_bytes_def in_data_def remaining_def)

section \<open>Draws\<close>

lemma safe_draw_wrapper: "safe draw_ok self \<Longrightarrow> safe draw_ok (r_draw_wrapper self here tag)"
  unfolding r_draw_wrapper_def
  by (intro safe safe_bind [of draw_ok self]) (auto split: option.split)

lemma safe_draw_text: "safe draw_ok self \<Longrightarrow> safe draw_ok (r_draw_text self here tag)"
  unfolding r_draw_text_def by (intro safe safe_draw_wrapper) simp_all

lemma safe_draw_with: "safe draw_ok self \<Longrightarrow> safe draw_ok (r_draw_with self)"
  unfolding r_draw_with_def by (intro safe safe_draw_text) simp_all

lemmas same_steps =
  safe_f32 [THEN same_bind_left] safe_extent [THEN same_bind_left] safe_color [THEN same_bind_left]
  safe_prims [THEN same_bind_left] safe_id [THEN same_bind_left] safe_bool [THEN same_bind_left]
  safe_string [THEN same_bind_left] safe_discriminant [THEN same_bind_left]
  safe_props [THEN same_bind_left] safe_when [OF safe_animations, THEN same_bind_left]
  safe_when [OF safe_transition, THEN same_bind_left] same_pos

lemma same_draw_wrapper:
  assumes "same_upto n r q" and "safe draw_ok r"
  shows "same_upto n (r_draw_wrapper r here tag) (r_draw_wrapper q here tag)"
  unfolding r_draw_wrapper_def
  by (intro same_if same_refl same_steps same_bind [OF assms])

lemma same_draw_with:
  assumes "same_upto n r q" and "safe draw_ok r"
  shows "same_upto (Suc n) (r_draw_with r) (r_draw_with q)"
  unfolding r_draw_with_def r_draw_text_def
  by (intro same_pos same_after_byte same_if same_refl same_draw_wrapper [OF assms])

interpretation draws: fuelled r_draw_fuel r_draw r_draw_with draw_ok
proof unfold_locales
  show "r_draw_with r s = Inl (Truncated (rd_pos s))" if "in_data s" "remaining s = 0" for r s
    unfolding r_draw_with_def by (rule empty_byte [OF that])
qed (simp_all add: r_draw_def safe_draw_with same_draw_with)

section \<open>Canvases\<close>

lemma keeps_parts [keeps]:
  "keeps r_fill" "keeps r_arc_fill" "keeps r_arc_cap" "keeps r_arc_segments" "keeps r_props"
  "keeps r_text_style" "keeps r_nine_patch" "keeps r_svg_fill" "keeps r_animations" "keeps r_transition"
  "keeps r_point" "keeps (r_path_paint flags)" "keeps r_mesh_args"
  unfolding r_fill_def r_arc_fill_def r_arc_cap_def r_arc_segments_def r_props_def r_text_style_def
    r_nine_patch_def r_svg_fill_def r_animations_def r_animation_def r_transition_def r_point_def
    r_path_paint_def r_mesh_args_def
  by (intro keeps)+

lemma keeps_draw_with: "keeps self \<Longrightarrow> keeps (r_draw_with self)"
  unfolding r_draw_with_def r_draw_text_def r_draw_wrapper_def by (intro keeps)

lemma keeps_draw: "keeps r_draw"
proof -
  have "keeps (r_draw_fuel n)" for n
    by (induction n) (simp_all add: keeps_draw_with, simp add: keeps_def)
  then show ?thesis by (auto simp: keeps_def r_draw_def)
qed

text \<open>The draws of a canvas record no range; the start of the first dynamic one lies among them.\<close>

lemma draws_read:
  assumes "r_draws n first s = Inr ((ds, fin), t)" and "in_data s"
  shows "moved s t \<and> rd_ranges t = rd_ranges s \<and> length ds = n \<and> list_all draw_ok ds \<and>
    (fin = first \<or> (\<exists>p. fin = Some p \<and> rd_pos s \<le> p \<and> p \<le> rd_pos t))"
  using assms
proof (induction n arbitrary: first s ds)
  case 0
  then show ?case by (simp add: rreturn_def moved_refl)
next
  case (Suc n)
  from Suc.prems(1) obtain d u ds' where d: "r_draw s = Inr (d, u)" "ds = d # ds'"
    and rest: "r_draws n (if first = None \<and> draw_is_dynamic d then Some (rd_pos s) else first) u = Inr ((ds', fin), t)"
    by (auto simp: rbind_def r_pos_def rreturn_def split: sum.splits)
  from safeD [OF draws.run_safe Suc.prems(2) d(1)] have u: "moved s u" "draw_ok d" by simp_all
  have "rd_ranges u = rd_ranges s" using keeps_draw d(1) by (simp add: keeps_def)
  with Suc.IH [OF rest moved_in_data [OF u(1)]] d(2) u moved_pos [OF u(1)] show ?case
    by (auto split: if_splits intro: moved_trans dest: moved_pos)
qed

lemma safe_draws_tail:
  assumes "props_ok props" "str_ok (key_bytes key)" "n < 2 ^ 16"
  shows "safe node_ok (rbind (r_draws n None) (\<lambda>(draws, first_dynamic).
     rbind (case first_dynamic of Some start \<Rightarrow> r_push_range start | None \<Rightarrow> rreturn ()) (\<lambda>_.
     rreturn (NCanvas props key draws))))"
  unfolding safe_def
proof (intro allI impI)
  fix s v t
  assume s: "in_data s" and eq: "rbind (r_draws n None) (\<lambda>(draws, first_dynamic).
     rbind (case first_dynamic of Some start \<Rightarrow> r_push_range start | None \<Rightarrow> rreturn ()) (\<lambda>_.
     rreturn (NCanvas props key draws))) s = Inr (v, t)"
  then obtain ds fin u where u: "r_draws n None s = Inr ((ds, fin), u)" "v = NCanvas props key ds"
      "t = (case fin of Some p \<Rightarrow> u\<lparr>rd_ranges := rd_ranges u @ [(p, rd_pos u)]\<rparr> | None \<Rightarrow> u)"
    by (auto simp: rbind_def rreturn_def r_push_range_def split: sum.splits option.splits)
  from draws_read [OF u(1) s] have d: "moved s u" "rd_ranges u = rd_ranges s" "length ds = n"
      "list_all draw_ok ds" "fin = None \<or> (\<exists>p. fin = Some p \<and> rd_pos s \<le> p \<and> p \<le> rd_pos u)" by auto
  then show "moved s t \<and> node_ok v"
    using assms u(2,3) by (auto simp: moved_def in_data_def)
qed

lemma safe_count_range:
  assumes "\<And>n. safe P (f n)"
  shows "safe P (rbind r_pos (\<lambda>start. rbind r_u16 (\<lambda>n. rbind (r_push_range start) (\<lambda>_. f n))))"
  unfolding safe_def
proof (intro allI impI)
  fix s v t
  assume s: "in_data s"
    and eq: "rbind r_pos (\<lambda>start. rbind r_u16 (\<lambda>n. rbind (r_push_range start) (\<lambda>_. f n))) s = Inr (v, t)"
  then obtain n u where u: "r_u16 s = Inr (n, u)"
      "f n (u\<lparr>rd_ranges := rd_ranges u @ [(rd_pos s, rd_pos u)]\<rparr>) = Inr (v, t)"
    by (auto simp: rbind_def r_pos_def r_push_range_def split: sum.splits)
  have "moved s u" using safeD [OF safe_prims(2) s u(1)] by simp
  moreover have "rd_ranges u = rd_ranges s" using keeps_prims(2) u(1) by (simp add: keeps_def)
  ultimately have "moved s (u\<lparr>rd_ranges := rd_ranges u @ [(rd_pos s, rd_pos u)]\<rparr>)"
    by (auto simp: moved_def in_data_def dest: ranges_in_le)
  moreover from safeD [OF assms moved_in_data [OF this] u(2)]
  have "moved (u\<lparr>rd_ranges := rd_ranges u @ [(rd_pos s, rd_pos u)]\<rparr>) t" "P v" by simp_all
  ultimately show "moved s t \<and> P v" by (auto intro: moved_trans)
qed

lemma safe_canvas: "safe node_ok r_canvas"
  unfolding r_canvas_def
  by (rule safe_bind [OF safe_props] safe_bind [OF safe_key] safe_count_range safe_draws_tail)+
    (simp_all add: unat_bounds)

section \<open>Nodes\<close>

lemma safe_children:
  "safe node_ok self \<Longrightarrow> safe (\<lambda>cs. children_ok (map node_ok cs)) (r_children self)"
  unfolding r_children_def
  by (intro safe safe_bind [OF safe_many [of node_ok self]])
    (auto simp: children_ok_def list.pred_map comp_def)

lemma safe_modal: "safe node_ok self \<Longrightarrow> safe node_ok (r_modal self)"
  unfolding r_modal_def
  by (intro safe safe_bind [OF safe_many [of node_ok self]])
    (auto simp: children_ok_def modal_ok_def list.pred_map comp_def)

lemma safe_node_leaf: "safe node_ok (r_node_leaf here tag)"
  unfolding r_node_leaf_def by (intro safe safe_canvas) simp_all

lemma safe_node_tagged:
  assumes "safe node_ok self"
  shows "safe node_ok (r_node_tagged self here tag)"
  unfolding r_node_tagged_def
  by (intro safe safe_bind [OF safe_children [OF assms]] safe_bind [OF assms] safe_modal [OF assms]
      safe_node_leaf)
    (auto simp: id_ok_def split: tag_icon_mode.split option.split)

text \<open>A body reads its type byte first, so the range of a dynamic node starts inside what was read.\<close>

lemma node_body_read:
  assumes "safe node_ok self" and s: "in_data s" and "r_node_body self s = Inr (v, t)"
  shows "moved s t \<and> rd_pos s < rd_pos t \<and> node_ok v"
proof -
  from assms(3) obtain tag u where u: "r_u8 s = Inr (tag, u)" "r_node_tagged self (rd_pos s) tag u = Inr (v, t)"
    by (auto simp: r_node_body_def rbind_def r_pos_def split: sum.splits)
  have su: "moved s u" using safeD [OF safe_prims(1) s u(1)] by simp
  have "rd_pos u = rd_pos s + 1"
    using u(1) by (auto simp: r_u8_def rbind_def r_bytes_def rreturn_def split: if_splits)
  with safeD [OF safe_node_tagged [OF assms(1)] moved_in_data [OF su] u(2)] su show ?thesis
    using moved_trans moved_pos by fastforce
qed

lemma safe_node_with:
  assumes "safe node_ok self"
  shows "safe node_ok (r_node_with self)"
  unfolding safe_def
proof (intro allI impI)
  fix s v t
  assume s: "in_data s" and "r_node_with self s = Inr (v, t)"
  then obtain u where u: "r_node_body self s = Inr (v, u)"
    and t: "t = (if node_self_is_dynamic v
      then u\<lparr>rd_ranges := take (length (rd_ranges s)) (rd_ranges u) @ [(rd_pos s + 1, rd_pos u)]\<rparr> else u)"
    by (auto simp: r_node_with_def r_mark_dynamic_def split: sum.splits if_splits)
  from node_body_read [OF assms s u] t show "moved s t \<and> node_ok v"
    by (auto simp: moved_def in_data_def)
qed

lemma same_children: "same_upto n r q \<Longrightarrow> safe node_ok r \<Longrightarrow> same_upto n (r_children r) (r_children q)"
  unfolding r_children_def
  by (intro same_steps same_bind [OF same_many safe_many] same_refl)

lemma same_modal: "same_upto n r q \<Longrightarrow> safe node_ok r \<Longrightarrow> same_upto n (r_modal r) (r_modal q)"
  unfolding r_modal_def
  by (intro same_steps same_bind [OF same_many safe_many] same_refl)

lemma same_node_tagged:
  assumes "same_upto n r q" and "safe node_ok r"
  shows "same_upto n (r_node_tagged r here tag) (r_node_tagged q here tag)"
  unfolding r_node_tagged_def
  by (intro same_if same_refl same_steps same_bind [OF assms] same_modal [OF assms]
      same_bind [OF same_children [OF assms] safe_children [OF assms(2)]])

lemma same_node_with:
  assumes "same_upto n r q" and "safe node_ok r"
  shows "same_upto (Suc n) (r_node_with r) (r_node_with q)"
proof -
  have "same_upto (Suc n) (r_node_body r) (r_node_body q)"
    unfolding r_node_body_def by (intro same_pos same_after_byte same_node_tagged [OF assms])
  then show ?thesis by (simp add: same_upto_def r_node_with_def r_mark_dynamic_def)
qed

interpretation nodes: fuelled r_node_fuel r_node r_node_with node_ok
proof unfold_locales
  show "r_node_with r s = Inl (Truncated (rd_pos s))" if "in_data s" "remaining s = 0" for r s
    using empty_byte [OF that, of "r_node_tagged r"]
    by (simp add: r_node_with_def r_mark_dynamic_def r_node_body_def)
qed (simp_all add: r_node_def safe_node_with same_node_with)

end
