(* ===== verification/Tree_Roundtrip.thy ===== *)
theory Tree_Roundtrip
  imports Tree_Fuel
begin

unbundle bit_operations_syntax

text \<open>
  Reading back what the encoder wrote. The wire keeps a tree up to \<open>node_norm\<close>: twelve bits of a font
  weight, hundredths of a line height, no dash too short to draw, no empty touch key. A well-formed
  tree is always encoded, and its encoding is read back anywhere in the data.
\<close>

section \<open>What the wire keeps\<close>

primrec draw_norm :: "draw \<Rightarrow> draw" where
  "draw_norm (DrawRect x y w h f) = DrawRect x y w h f"
| "draw_norm (DrawCircle cx cy r f) = DrawCircle cx cy r f"
| "draw_norm (DrawArc cx cy radius a0 a1 width f segments cap) =
     DrawArc cx cy radius a0 a1 width f segments cap"
| "draw_norm (DrawCentered inner) = DrawCentered (draw_norm inner)"
| "draw_norm (DrawOrbit radius angle inner) = DrawOrbit radius angle (draw_norm inner)"
| "draw_norm (DrawRotated angle inner) = DrawRotated angle (draw_norm inner)"
| "draw_norm (DrawShadow dx dy blur c inner) = DrawShadow dx dy blur c (draw_norm inner)"
| "draw_norm (DrawSvg x y w h c i anti_alias fills) = DrawSvg x y w h c i anti_alias fills"
| "draw_norm (DrawBitmap x y w h i) = DrawBitmap x y w h i"
| "draw_norm (DrawQr x y sz style txt) = DrawQr x y sz style txt"
| "draw_norm (DrawModified animations transition cs inner) =
     DrawModified animations transition cs (draw_norm inner)"
| "draw_norm (DrawPath points paint is_closed ip) =
     DrawPath points (path_paint_norm paint) is_closed ip"
| "draw_norm (DrawText x y txt style) = DrawText x y txt (text_style_norm style)"
| "draw_norm (DrawCurvedText cx cy radius angle anchor facing txt style) =
     DrawCurvedText cx cy radius angle anchor facing txt (text_style_norm style)"
| "draw_norm (DrawAutofitText x y w h mode min_size max_size txt style) =
     DrawAutofitText x y w h mode min_size max_size txt (text_style_norm style)"
| "draw_norm (DrawNinePatch x y w h np) = DrawNinePatch x y w h np"
| "draw_norm (DrawSphere x y w h i atmosphere c1 c2 zoom l1 l2) =
     DrawSphere x y w h i atmosphere c1 c2 zoom l1 l2"
| "draw_norm (DrawMesh x y w h i args) = DrawMesh x y w h i args"

primrec node_norm :: "node \<Rightarrow> node" where
  "node_norm (NColumn props children) = NColumn props (map node_norm children)"
| "node_norm (NRow props children) = NRow props (map node_norm children)"
| "node_norm (NCenter props children) = NCenter props (map node_norm children)"
| "node_norm (NParagraph props base_style spans) =
     NParagraph props (text_style_norm base_style) (map span_norm spans)"
| "node_norm (NButton bid label style sz icon_id disabled stretch skin) =
     NButton bid label style sz icon_id disabled stretch skin"
| "node_norm (NSpacer flex) = NSpacer flex"
| "node_norm (NCanvas props touch_key draws) = NCanvas props (key_norm touch_key) (map draw_norm draws)"
| "node_norm (NNotification kind title subtitle) = NNotification kind title subtitle"
| "node_norm (NRelTime anchor format clamp style) =
     NRelTime anchor format clamp (text_style_norm style)"
| "node_norm (NTag kind icon content) = NTag kind icon (node_norm content)"
| "node_norm (NSwitcher active disabled tabs) = NSwitcher active disabled tabs"
| "node_norm (NSkeleton d) = NSkeleton d"
| "node_norm (NScroll scroll_key props children) = NScroll scroll_key props (map node_norm children)"
| "node_norm (NModal head body footer) = NModal head (map node_norm body) footer"
| "node_norm (NProgressBar touch_key track_h mode active c1 c2 c3 skin) =
     NProgressBar (key_norm touch_key) track_h mode active c1 c2 c3 skin"
| "node_norm (NDimmed brightness child) = NDimmed brightness (node_norm child)"

section \<open>Well-formed trees are encoded\<close>

lemma wcat_None [simp]: "snd (wcat ws) = None \<longleftrightarrow> (\<forall>w \<in> set ws. snd w = None)"
  by (induction ws) (auto simp: wcat_def split: option.split)

lemma prims_None [simp]:
  "snd (w_u8 a) = None" "snd (w_u16 b) = None" "snd (w_u32 c) = None" "snd (w_f32 c) = None"
  "snd (w_i64 d) = None" "snd (w_color c) = None" "snd (w_bool e) = None" "snd (w_bytes bs) = None"
  "snd (w_id i) = None" "snd (w_props p) = None" "snd (w_text_style t) = None" "snd (w_fill f) = None"
  "snd (w_arc_fill g) = None" "snd (w_arc_cap k) = None"
  by (simp_all add: w_u8_def w_u16_def w_u32_def w_f32_def w_i64_def w_color_def w_bool_def w_bytes_def
      w_id_def w_props_def w_text_style_def w_fill_def w_arc_fill_def w_arc_cap_def)

lemma count_None [simp]:
  "snd (w_count_u16 n m) = None \<longleftrightarrow> n < 2 ^ 16" "snd (w_count_u8 k m) = None \<longleftrightarrow> k < 2 ^ 8"
  by (simp_all add: w_count_u16_def w_count_u8_def)

lemma str_None [simp]: "str_ok s \<Longrightarrow> snd (w_str s m) = None"
  by (simp add: w_str_def str_ok_def)

lemma option_None [simp]:
  "snd (w_option p x) = None \<longleftrightarrow> pred_option (\<lambda>v. snd (p v) = None) x"
  "snd (w_present p x) = None \<longleftrightarrow> pred_option (\<lambda>v. snd (p v) = None) x"
  by (cases x; simp add: w_option_def w_present_def)+

lemma parts_None [simp]:
  "snd (w_nine_patch np) = None" "snd (w_animation a) = None" "snd (w_transition t) = None"
  "snd (w_point p) = None" "snd (w_dash d) = None" "snd (w_mesh_args ma) = None"
  "snd (w_slider_skin sk) = None" "snd (w_path_paint pp) = None" "snd (w_button_skin k) = None"
  by (auto simp: w_nine_patch_def w_animation_def w_transition_def w_point_def w_dash_def
      w_mesh_args_def w_slider_skin_def w_path_paint_def w_button_skin_def Let_def option.pred_True
      split: path_paint.split option.split)

lemma arc_segments_None [simp]: "arc_segments_ok s \<Longrightarrow> snd (w_arc_segments s) = None"
  by (cases s) (auto simp: w_arc_segments_def)

lemma texts_None [simp]:
  "str_ok (fst f) \<Longrightarrow> snd (w_svg_fill f) = None" "str_ok (sp_text s) \<Longrightarrow> snd (w_span s) = None"
  "str_ok (tab_click_id t) \<Longrightarrow> snd (w_tab t) = None"
  by (simp_all add: w_svg_fill_def w_span_def w_tab_def option.pred_True)

lemma draw_encodes: "draw_ok d \<Longrightarrow> snd (w_draw d) = None"
  by (induction d) (auto simp: list_all_iff w_animations_def option.pred_True)

lemma node_encodes: "node_ok t \<Longrightarrow> snd (w_node t) = None"
  by (induction t)
    (auto simp: w_container_def children_ok_def list_all_iff modal_ok_def draw_encodes option.pred_True)

section \<open>Draws\<close>

lemma unat_count [simp]:
  "n < 65536 \<Longrightarrow> unat (word_of_nat n :: u16) = n" "k < 256 \<Longrightarrow> unat (word_of_nat k :: u8) = k"
  by (simp_all add: unsigned_of_nat take_bit_nat_eq_self)

lemma modified_bits:
  "(modified_flags as tr cs AND 1 \<noteq> 0) = (as \<noteq> [])"
  "(modified_flags as tr cs AND 2 \<noteq> 0) = (tr \<noteq> None)"
  "enum_from_u8 color_spaces (drop_bit 2 (modified_flags as tr cs) AND 3) = Some cs"
  by (cases "as = []"; cases tr; cases cs;
      simp add: modified_flags_def color_spaces_def enum_u8_def enum_from_u8_def position_def get_def)+

lemma modified_reader:
  "r_draw_wrapper self here DRAW_MODIFIED = rbind r_u8 (\<lambda>flags.
     rbind (r_when (flags AND 1 \<noteq> 0) r_animations) (\<lambda>animations.
     rbind (r_when (flags AND 2 \<noteq> 0) r_transition) (\<lambda>transition.
     rbind self (\<lambda>inner.
     rreturn (DrawModified (case animations of Some as \<Rightarrow> as | None \<Rightarrow> []) transition
       (case enum_from_u8 color_spaces (drop_bit 2 flags AND 3) of Some cs \<Rightarrow> cs | None \<Rightarrow> CsOklab)
       inner)))))"
  by (simp add: r_draw_wrapper_def)

lemma modified_fits:
  assumes "length as < 2 ^ 8" and "fits w self d"
  shows "fits (wcat [w_u8 (modified_flags as tr cs),
      w_option w_animations (if as \<noteq> [] then Some as else None), w_option w_transition tr, w])
    (r_draw_wrapper self here DRAW_MODIFIED) (DrawModified as tr cs d)"
proof -
  let ?as = "if as \<noteq> [] then Some as else None"
  have as: "fits (w_option w_animations ?as) (r_when (?as \<noteq> None) r_animations) ?as"
    using animations.optional [of ?as] assms(1) by (simp add: option.map_ident)
  have tr: "fits (w_option w_transition tr) (r_when (tr \<noteq> None) r_transition) tr"
    using transition.optional [of tr] by (simp add: option.map_ident option.pred_True)
  have eq: "DrawModified as tr cs d = DrawModified (case ?as of Some as \<Rightarrow> as | None \<Rightarrow> []) tr
      (case enum_from_u8 color_spaces (drop_bit 2 (modified_flags as tr cs) AND 3) of
         Some cs \<Rightarrow> cs | None \<Rightarrow> CsOklab) d"
    unfolding modified_bits by simp
  show ?thesis
    unfolding modified_reader eq
    by (rule u8.bind [OF TrueI], rule fits_when [OF as], simp add: modified_bits,
        rule fits_when [OF tr], simp add: modified_bits, rule fits_bind [OF assms(2)], rule fits_return)
qed

lemma modified_tag:
  "(\<And>here. fits (wcat ws) (r_draw_wrapper self here DRAW_MODIFIED) u) \<Longrightarrow>
   fits (wcat (w_u8 DRAW_MODIFIED # ws)) (r_draw_with self) u"
  unfolding r_draw_with_def r_draw_text_def by (intro fits_pos u8.bind TrueI) simp

lemma path_fits:
  assumes "path_paint_ok paint"
  shows "fits (wcat [w_u8 (path_flags paint c ip),
       w_count_u16 (length points) m, wcat (map w_point points), w_path_paint paint])
    (rbind r_u8 (\<lambda>flags. rbind r_u16 (\<lambda>count. rbind (r_many (unat count) r_point) (\<lambda>points.
       rbind (r_path_paint flags) (\<lambda>paint.
       rreturn (DrawPath points paint (flags AND 1 \<noteq> 0)
         (if flags AND 2 \<noteq> 0 then IpCatmullRom else IpLinear))))))) (DrawPath points (path_paint_norm paint) c ip)"
proof -
  have ip: "(if ip = IpCatmullRom then IpCatmullRom else IpLinear) = ip" by (cases ip) auto
  have pts: "fits (wcat (map w_point points)) (r_many (length points) r_point) points"
    using point.many [of points] by simp
  have "fits (wcat [w_u8 (path_flags paint c ip),
       w_count_u16 (length points) m, wcat (map w_point points), w_path_paint paint])
    (rbind r_u8 (\<lambda>flags. rbind r_u16 (\<lambda>count. rbind (r_many (unat count) r_point) (\<lambda>points.
       rbind (r_path_paint flags) (\<lambda>paint.
       rreturn (DrawPath points paint (flags AND 1 \<noteq> 0)
         (if flags AND 2 \<noteq> 0 then IpCatmullRom else IpLinear)))))))
    (DrawPath points (path_paint_norm paint) (path_flags paint c ip AND 1 \<noteq> 0)
         (if path_flags paint c ip AND 2 \<noteq> 0 then IpCatmullRom else IpLinear))"
    by (rule u8.bind [OF TrueI], rule fits_counted_u16 [OF pts],
        rule fits_bind [OF path_paint_fits [OF assms]], rule fits_return)
  then show ?thesis unfolding path_flags_bits ip .
qed

lemma svg_fills_fits:
  "list_all (\<lambda>f. str_ok (fst f)) fs \<Longrightarrow> fits (wcat (map w_svg_fill fs)) (r_many (length fs) r_svg_fill) fs"
  using svg_fill.many [of fs] by (simp add: list_all_iff)

lemmas enum_binds =
  fits_discriminant(1) [where try_from = arc_anchor_try_from, OF small_enums(1), THEN fits_bind]
  fits_discriminant(1) [where try_from = arc_text_facing_try_from, OF small_enums(2), THEN fits_bind]
  fits_discriminant(1) [where try_from = rel_time_format_try_from, OF rel_time_format_roundtrip, THEN fits_bind]
  fits_discriminant(1) [where try_from = "enum_from_u8 tag_kinds", OF enum_lists(5), THEN fits_bind]
  fits_discriminant(1) [where try_from = "enum_from_u8 tag_icon_modes", OF enum_lists(6), THEN fits_bind]
  fits_discriminant(1) [where try_from = "enum_from_u8 rel_time_clamps", OF enum_lists(7), THEN fits_bind]
  fits_discriminant(1) [where try_from = "enum_from_u8 progress_kinds", OF enum_lists(8), THEN fits_bind]
  fits_discriminant(1) [where try_from = "enum_from_u8 skeleton_kinds", OF enum_lists(9), THEN fits_bind]

lemmas draw_run = draws.fits_run [of "wcat (w_u8 tag # ws)" for tag ws]

lemma draw_bind:
  "fits (w_draw d) r (draw_norm d) \<Longrightarrow> fits (wcat ws) (f (draw_norm d)) u \<Longrightarrow>
   fits (wcat (w_draw d # ws)) (rbind r f) u"
  by (rule fits_bind)

lemma draw_fits: "draw_ok d \<Longrightarrow> fits (w_draw d) r_draw (draw_norm d)"
proof (induction d)
  case (DrawModified as tr cs inner)
  then have "fits (w_draw inner) r_draw (draw_norm inner)" "length as < 2 ^ 8" by simp_all
  then show ?case
    unfolding w_draw.simps draw_norm.simps
    by (intro draws.fits_run [OF modified_tag] modified_fits)
next
  case (DrawPath points paint c ip)
  then show ?case
    by (auto simp: r_draw_with_def intro!: draw_run fits path_fits)
next
  case (DrawSvg x y w h c i aa fs)
  then show ?case
    by (auto simp: r_draw_with_def intro!: draw_run fits fits_counted_u16 [OF svg_fills_fits])
next
  case (DrawQr x y sz style t)
  then show ?case
    by (cases style) (auto simp: r_draw_with_def str_ok_def intro!: draw_run fits)
next
  case (DrawCurvedText cx cy radius angle anchor facing t style)
  then show ?case
    by (auto simp: r_draw_with_def r_draw_text_def str_ok_def simp del: small_enums
        intro!: draw_run enum_binds fits)
next
  case (DrawSphere x1 x2 x3 x4 x5 x6 x7 x8 x9 x10 x11)
  then show ?case
    by (auto simp: r_draw_with_def w_bool_def intro!: draw_run fits)
qed (auto simp: r_draw_with_def r_draw_text_def r_draw_wrapper_def str_ok_def
    intro!: draw_run fits draw_bind)

section \<open>Canvases\<close>

lemma rbind_assoc: "rbind (rbind r f) g = rbind r (\<lambda>x. rbind (f x) g)"
  by (auto simp: rbind_def fun_eq_iff split: sum.split)

lemma rbind_return: "rbind (rreturn v) f = f v"
  by (simp add: rbind_def rreturn_def fun_eq_iff)

lemma draws_fits:
  assumes "list_all draw_ok ds" and "\<And>fin. fits (wcat ws) (g (map draw_norm ds, fin)) u"
  shows "fits (wcat (map w_draw ds @ ws)) (rbind (r_draws (length ds) first) g) u"
  using assms
proof (induction ds arbitrary: first g)
  case Nil
  then show ?case by (simp add: rbind_return)
next
  case (Cons d ds)
  have "fits (wcat (map w_draw ds @ ws)) (rbind (r_draws (length ds) first') (\<lambda>(ds, fin).
      rbind (rreturn (draw_norm d # ds, fin)) g)) u" for first'
    using Cons.prems by (intro Cons.IH) (simp_all add: rbind_return)
  then have "fits (wcat (w_draw d # map w_draw ds @ ws)) (rbind r_pos (\<lambda>start. rbind r_draw (\<lambda>d.
     rbind (r_draws (length ds) (if first = None \<and> draw_is_dynamic d then Some start else first))
       (\<lambda>(ds, fin). rbind (rreturn (d # ds, fin)) g)))) u"
    using Cons.prems by (intro fits_pos fits_bind [OF draw_fits]) simp_all
  then show ?case by (simp add: rbind_assoc case_prod_unfold)
qed

lemma canvas_fits:
  assumes "props_ok props" "str_ok (key_bytes key)" "list_all draw_ok ds"
  shows "fits (wcat [w_props props, w_str (key_bytes key) m, w_count_u16 (length ds) n, wcat (map w_draw ds)])
    r_canvas (NCanvas props (key_norm key) (map draw_norm ds))"
proof -
  have draws: "fits (wcat [wcat (map w_draw ds)]) (rbind (r_draws (length ds) None) (\<lambda>(draws, first_dynamic).
     rbind (case first_dynamic of Some start \<Rightarrow> r_push_range start | None \<Rightarrow> rreturn ()) (\<lambda>_.
     rreturn (NCanvas props (key_norm key) draws)))) (NCanvas props (key_norm key) (map draw_norm ds))"
    unfolding fits_wcat1
    by (rule draws_fits [OF assms(3), where ws = "[]", simplified])
      (auto simp: rbind_return intro!: fits_return fits_push_range split: option.split)
  show ?thesis
    unfolding r_canvas_def
    by (rule props.bind [OF assms(1)], rule key.bind [OF assms(2)], intro fits_pos fits_count_u16 fits_push_range)
      (use draws in simp)
qed

section \<open>Nodes\<close>

lemma fits_mark:
  assumes "fits w (r_node_body self) v"
  shows "fits w (r_node_with self) v"
  unfolding fits_def
proof (intro impI allI)
  fix pre post rs
  assume "snd w = None"
  let ?s = "\<lparr>rd_data = pre @ fst w @ post, rd_pos = length pre, rd_ranges = rs\<rparr>"
  from assms \<open>snd w = None\<close> obtain rs' where "r_node_body self ?s = Inr (v, \<lparr>rd_data = pre @ fst w @ post,
      rd_pos = length pre + length (fst w), rd_ranges = rs'\<rparr>)"
    unfolding fits_def by blast
  then show "\<exists>rs'. r_node_with self ?s = Inr (v, \<lparr>rd_data = pre @ fst w @ post,
      rd_pos = length pre + length (fst w), rd_ranges = rs'\<rparr>)"
    by (simp add: r_node_with_def r_mark_dynamic_def)
qed

lemma node_run:
  assumes "\<And>here. fits (wcat ws) (r_node_tagged r_node here tag) u"
  shows "fits (wcat (w_u8 tag # ws)) r_node u"
  by (intro nodes.fits_run fits_mark, unfold r_node_body_def, intro fits_pos u8.bind TrueI assms)

lemma children_many:
  assumes "children_ok (map node_ok cs)" and "\<And>c. c \<in> set cs \<Longrightarrow> node_ok c \<Longrightarrow> fits (w_node c) r_node (node_norm c)"
  shows "fits (wcat (map w_node cs)) (r_many (length cs) r_node) (map node_norm cs)"
  using fits_many [of cs w_node r_node node_norm] assms by (auto simp: children_ok_def list_all_iff)

lemma children_fits:
  assumes "children_ok (map node_ok cs)" and "\<And>c. c \<in> set cs \<Longrightarrow> node_ok c \<Longrightarrow> fits (w_node c) r_node (node_norm c)"
  shows "fits (wcat [w_count_u16 (length cs) m, wcat (map w_node cs)]) (r_children r_node) (map node_norm cs)"
  unfolding r_children_def by (rule fits_counted_u16 [OF children_many [OF assms]]) (simp_all add: fits_return)

lemma spans_fits:
  "list_all (\<lambda>s. str_ok (sp_text s)) ss \<Longrightarrow>
   fits (wcat (map w_span ss)) (r_many (length ss) r_span) (map span_norm ss)"
  using span.many [of ss] by (simp add: list_all_iff)

lemma tabs_fits:
  "list_all (\<lambda>t. id_ok (tab_icon t) \<and> str_ok (tab_click_id t)) ts \<Longrightarrow>
   fits (wcat (map w_tab ts)) (r_many (length ts) r_tab) ts"
  using tab.many [of ts] by (simp add: list_all_iff)

lemma button_fits:
  assumes "pred_option button_skin_ok skin" and "\<And>y. fits (wcat []) (f skin) u"
  shows "fits (wcat [w_present w_button_skin skin])
    (rbind r_trailing_flag (\<lambda>b. rbind (r_when b r_button_skin) f)) u"
proof (rule fits_trailing_flag)
  show "fits (wcat [w_present w_button_skin skin]) (rbind r_bool (\<lambda>b. rbind (r_when b r_button_skin) f)) u"
    using button_skin.optional [OF assms(1)] assms(2)
    by (intro fits_present [where y = skin]) (simp_all add: option.map_ident)
  show "fst (wcat [w_present w_button_skin skin]) \<noteq> []"
    by (cases skin) (simp_all add: wcat_def w_present_def w_u8_def)
qed

lemma node_bind:
  "fits (w_node t) r (node_norm t) \<Longrightarrow> fits (wcat ws) (f (node_norm t)) u \<Longrightarrow>
   fits (wcat (w_node t # ws)) (rbind r f) u"
  by (rule fits_bind)

lemma node_fits: "node_ok t \<Longrightarrow> fits (w_node t) r_node (node_norm t)"
proof (induction t)
  case (NColumn props cs)
  then show ?case
    by (auto simp: w_container_def r_node_tagged_def intro!: node_run fits fits_bind2 [OF children_fits])
next
  case (NRow props cs)
  then show ?case
    by (auto simp: w_container_def r_node_tagged_def intro!: node_run fits fits_bind2 [OF children_fits])
next
  case (NCenter props cs)
  then show ?case
    by (auto simp: w_container_def r_node_tagged_def intro!: node_run fits fits_bind2 [OF children_fits])
next
  case (NScroll k props cs)
  then show ?case
    by (auto simp: r_node_tagged_def str_ok_def intro!: node_run fits fits_bind2 [OF children_fits])
next
  case (NModal head cs footer)
  have many: "fits (wcat (map w_node cs)) (r_many (length cs) r_node) (map node_norm cs)"
    by (rule children_many) (use NModal in auto)
  obtain a b c d e f g h i j where head: "head = \<lparr>mo_id = a, mo_is_open = b, mo_title = c,
      mo_content_height = d, mo_padding = e, mo_backdrop_alpha = f, mo_bg_color = g,
      mo_header_color = h, mo_title_color = i, mo_max_width = j\<rparr>" by (cases head)
  obtain p q r s t where footer: "footer = \<lparr>mf_primary_key = p, mf_primary_label = q,
      mf_secondary_key = r, mf_secondary_label = s, mf_danger = t\<rparr>" by (cases footer)
  from NModal.prems show ?case
    by (auto simp: head footer r_node_tagged_def r_modal_def modal_ok_def str_ok_def
        intro!: node_run fits_count_u16 fits fits_bind [OF many])
next
  case (NCanvas props key ds)
  then show ?case
    by (auto simp: r_node_tagged_def r_node_leaf_def intro!: node_run canvas_fits)
next
  case (NParagraph props base ss)
  then show ?case
    by (auto simp: r_node_tagged_def r_node_leaf_def intro!: node_run fits fits_counted_u16 [OF spans_fits])
next
  case (NSwitcher active disabled ts)
  then show ?case
    by (auto simp: r_node_tagged_def r_node_leaf_def
        intro!: node_run fits_count_u8 fits fits_bind [OF tabs_fits])
next
  case (NButton bid label style sz icon_id disabled stretch skin)
  then show ?case
    by (auto simp: r_node_tagged_def r_node_leaf_def str_ok_def intro!: node_run fits button_fits)
next
  case (NTag kind icon content)
  then show ?case
    by (cases icon) (auto simp: r_node_tagged_def tag_icon_wire_def id_ok_def simp del: enum_lists
        intro!: node_run enum_binds fits node_bind)
next
  case (NRelTime anchor format clamp style)
  then show ?case
    by (auto simp: r_node_tagged_def r_node_leaf_def simp del: enum_lists rel_time_format_roundtrip
        intro!: node_run enum_binds fits)
next
  case (NProgressBar key h mode active c1 c2 c3 skin)
  then have "fits (w_option w_slider_skin skin) (r_when (skin \<noteq> None) r_slider_skin) skin"
    using slider_skin.optional [of skin] by (simp add: option.map_ident)
  note skin = fits_present [OF this]
  from NProgressBar show ?case
    by (auto simp: r_node_tagged_def r_node_leaf_def simp del: enum_lists
        intro!: node_run skin enum_binds fits)
next
  case (NSkeleton d)
  then show ?case 
    by (cases d) (auto simp: r_node_tagged_def r_node_leaf_def simp del: enum_lists
        intro!: node_run enum_binds fits)
qed (auto simp: r_node_tagged_def r_node_leaf_def str_ok_def intro!: node_run fits node_bind)

end
