(* ===== verification/Tree_Decode_Props.thy ===== *)
theory Tree_Decode_Props
  imports Tree_Roundtrip
begin

unbundle bit_operations_syntax

text \<open>
  The properties of the tree format as a whole: a well-formed tree survives encoding and decoding,
  whatever follows its bytes; the decoder accepts only well-formed trees, which can be encoded
  again, and the byte ranges it reports are ordered, disjoint and inside what it consumed; its
  recursion needs no bound. The last section shows on concrete line heights where the wire loses
  precision.
\<close>

section \<open>Round trip\<close>

lemma try_encode_ok: "node_ok t \<Longrightarrow> try_encode t = Inr (fst (w_node t))"
  by (simp add: try_encode_def try_encode_into_def node_encodes)

lemma encoding_nonempty: "fst (w_node t) \<noteq> []"
  by (cases t) (simp_all add: wcat_def w_u8_def w_container_def)

interpretation tree: wire_codec w_node r_node node_ok node_norm
  by unfold_locales (rule node_fits)

lemma decode_encoding:
  assumes "node_ok t"
  shows "\<exists>ranges. decode_tree (fst (w_node t) @ post) =
      Inr \<lparr>de_root = node_norm t, de_ranges = ranges, de_consumed = length (fst (w_node t))\<rparr>"
  using tree.decodes [OF assms node_encodes [OF assms], of post]
  by (auto simp: decode_tree_def encoding_nonempty)

text \<open>A tag with an icon of its own around a spacer of one share, and its ten bytes.\<close>

definition sample_tree :: node where
  "sample_tree = NTag TgWarning (TiCustom 7) (NSpacer 0x3F800000)"

lemma sample_ok: "node_ok sample_tree" "node_norm sample_tree = sample_tree"
  by (simp_all add: sample_tree_def extent_ok_def f32_is_finite_def f32_nonneg_def f32_is_nan_def
      f32_exponent_def f32_fraction_def bit_iff_odd_drop_bit)

lemma sample_bytes: "fst (w_node sample_tree) = [0x0C, 1, 2, 7, 0, 5, 0, 0, 0x80, 0x3F]"
  by (simp add: sample_tree_def wcat_def w_u8_def w_f32_def w_id_def w_u16_def le16_def le32_def
      tag_icon_wire_def enum_u8_def tag_kinds_def tag_icon_modes_def position_def)

text \<open>C1. A well-formed tree is encoded without error, and decoding its bytes, whatever follows them
  in the buffer, gives back the tree up to what the wire keeps of it and stops exactly after them.\<close>

theorem tree_roundtrip:
  assumes "node_ok t"
  shows "\<exists>bs. try_encode t = Inr bs \<and> (\<forall>post. \<exists>ranges.
    decode_tree (bs @ post) = Inr \<lparr>de_root = node_norm t, de_ranges = ranges, de_consumed = length bs\<rparr>)"
  using try_encode_ok [OF assms] decode_encoding [OF assms] by blast

theorem tree_roundtrip_witness:
  "\<exists>ranges. decode_tree ([0x0C, 1, 2, 7, 0, 5, 0, 0, 0x80, 0x3F] @ [0xFF]) =
     Inr \<lparr>de_root = sample_tree, de_ranges = ranges, de_consumed = 10\<rparr>"
proof -
  obtain bs where bs: "try_encode sample_tree = Inr bs" "\<forall>post. \<exists>ranges. decode_tree (bs @ post) =
      Inr \<lparr>de_root = node_norm sample_tree, de_ranges = ranges, de_consumed = length bs\<rparr>"
    using tree_roundtrip [OF sample_ok(1)] by blast
  then have "bs = [0x0C, 1, 2, 7, 0, 5, 0, 0, 0x80, 0x3F]"
    by (simp add: try_encode_ok sample_ok(1) sample_bytes)
  with spec [OF bs(2), of "[0xFF]"] show ?thesis by (simp add: sample_ok(2) eval_nat_numeral)
qed

section \<open>Arbitrary data\<close>

lemma decode_tree_read:
  assumes "decode_tree d = Inr x"
  shows "moved \<lparr>rd_data = d, rd_pos = 0, rd_ranges = []\<rparr>
      \<lparr>rd_data = d, rd_pos = de_consumed x, rd_ranges = de_ranges x\<rparr> \<and> node_ok (de_root x)"
proof -
  from assms obtain s where s: "r_node \<lparr>rd_data = d, rd_pos = 0, rd_ranges = []\<rparr> = Inr (de_root x, s)"
      "de_ranges x = rd_ranges s" "de_consumed x = rd_pos s"
    by (auto simp: decode_tree_def split: if_splits sum.splits)
  from safeD [OF nodes.run_safe _ s(1)] have "moved \<lparr>rd_data = d, rd_pos = 0, rd_ranges = []\<rparr> s"
      "node_ok (de_root x)" by (simp_all add: in_data_def)
  moreover from this(1) have "rd_data s = d" by (simp add: moved_def)
  ultimately show ?thesis using s(2,3) by (cases s) simp
qed

text \<open>C2. On arbitrary bytes the decoder returns only well-formed trees, consumes no more than it was
  given, and reports byte ranges that are ordered, disjoint and within what it consumed; a tree it
  returned can be encoded and decoded again.\<close>

theorem decode_tree_safe:
  assumes "decode_tree d = Inr x"
  shows "node_ok (de_root x) \<and> 0 < de_consumed x \<and> de_consumed x \<le> length d \<and>
    ranges_in 0 (de_consumed x) (de_ranges x) \<and> (\<exists>bs. try_encode (de_root x) = Inr bs)"
proof -
  let ?s = "\<lparr>rd_data = d, rd_pos = 0, rd_ranges = []\<rparr>"
  from assms obtain u where "r_node_with r_node ?s = Inr (de_root x, u)" "de_consumed x = rd_pos u"
    by (auto simp: decode_tree_def nodes.run_unfold in_data_def split: if_splits sum.splits)
  then obtain t where "r_node_body r_node ?s = Inr (de_root x, t)" "de_consumed x = rd_pos t"
    by (auto simp: r_node_with_def r_mark_dynamic_def split: sum.splits if_splits)
  with node_body_read [OF nodes.run_safe _ this(1)] have "0 < de_consumed x" by (simp add: in_data_def)
  with decode_tree_read [OF assms] try_encode_ok show ?thesis
    by (auto simp: moved_def in_data_def)
qed

theorem decode_tree_safe_witness:
  "\<exists>x. decode_tree [0x0C, 1, 2, 7, 0, 5, 0, 0, 0x80, 0x3F] = Inr x \<and> de_root x = sample_tree \<and>
     0 < de_consumed x \<and> de_consumed x \<le> 10 \<and> ranges_in 0 (de_consumed x) (de_ranges x)"
proof -
  obtain x where x: "decode_tree (fst (w_node sample_tree)) = Inr x" "de_root x = sample_tree"
    using decode_encoding [OF sample_ok(1), of "[]"] by (auto simp: sample_ok(2))
  from decode_tree_safe [OF x(1)] x show ?thesis unfolding sample_bytes by auto
qed

section \<open>Recursion\<close>

text \<open>The decoder's recursion ends on every input: from any position in the data the readers of
  nodes and of draws equal their bodies with themselves for what is nested inside, so the bound on
  the recursion is never what stops them.\<close>

lemma decoder_recursion:
  assumes "rd_pos s \<le> length (rd_data s)"
  shows "r_node s = r_node_with r_node s \<and> r_draw s = r_draw_with r_draw s"
  using assms nodes.run_unfold draws.run_unfold by (simp add: in_data_def)

section \<open>Line heights\<close>

text \<open>A line height of 1.05 (\<open>0x3F866666\<close>) is stored as 104 hundredths, since the product is truncated
  rather than rounded, and is read back as 1.04.\<close>

lemma line_height_drift:
  "line_height_from 105 = 0x3F866666" "line_height_bits 0x3F866666 = 104"
  "line_height_from 104 = 0x3F851EB8"
proof -
  have "bit_length 880803800 = 30" by (simp add: bit_length.simps)
  moreover have "f32_significand 0x3F866666 = 8808038" "f32_scale 0x3F866666 = - 23"
    "\<not> f32_is_nan 0x3F866666" "f32_is_finite 0x3F866666" "\<not> bit (0x3F866666 :: f32) 31"
    by (simp_all add: f32_significand_def f32_scale_def f32_exponent_def f32_fraction_def
        f32_is_nan_def f32_is_finite_def bit_iff_odd_drop_bit)
  ultimately show "line_height_bits 0x3F866666 = 104"
    by (simp add: line_height_bits_def round_shift_def)
  have up: "[0..<31] = [0, 1, 2, 3, 4, 5, 6, 7, 8, 9, 10, 11, 12, 13, 14, 15, 16, 17, 18, 19, 20, 21, 22,
      23, 24, 25, 26, 27, 28, 29, 30]" by (simp add: upt_rec)
  show "line_height_from 105 = 0x3F866666" "line_height_from 104 = 0x3F851EB8"
    by (simp_all add: line_height_from_def up)
qed

end
