(* ===== verification/Tree_Partition.thy ===== *)
theory Tree_Partition
  imports Tree_Decode_Props
begin

unbundle bit_operations_syntax

text \<open>
  What the guest and the host derive from a tree: the static and the dynamic half of its paint
  (\<^verbatim>\<open>bmc-render/ui/src/partition.rs\<close>), the key of the static half (\<^verbatim>\<open>bmc-render/src/partition/mod.rs\<close>,
  \<^verbatim>\<open>bmc-render/src/tree/decode.rs\<close>) and the keys of its interactions (\<^verbatim>\<open>bmc-render/ui/src/tree.rs\<close>). The
  hash function is a parameter: a key is the hash of the segments it is fed.
\<close>

section \<open>Bands\<close>

datatype band = Below | Dynamic | Above

definition is_in_layer :: "band \<Rightarrow> bool" where
  "is_in_layer b \<longleftrightarrow> b = Below"

fun canvas_bands_after :: "draw list \<Rightarrow> bool \<Rightarrow> band list" where
  "canvas_bands_after [] seen = []"
| "canvas_bands_after (d # ds) seen =
     (if draw_is_dynamic d then Dynamic # canvas_bands_after ds True
      else if seen then Above # canvas_bands_after ds seen
      else Below # canvas_bands_after ds seen)"

definition canvas_bands :: "draw list \<Rightarrow> band list" where
  "canvas_bands ds = canvas_bands_after ds False"

fun node_is_dynamic :: "node \<Rightarrow> bool" where
  "node_is_dynamic (NColumn p cs) = list_ex node_is_dynamic cs"
| "node_is_dynamic (NRow p cs) = list_ex node_is_dynamic cs"
| "node_is_dynamic (NCenter p cs) = list_ex node_is_dynamic cs"
| "node_is_dynamic (NScroll k p cs) = list_ex node_is_dynamic cs"
| "node_is_dynamic (NTag k i c) = node_is_dynamic c"
| "node_is_dynamic (NDimmed b c) = node_is_dynamic c"
| "node_is_dynamic (NCanvas p k ds) = list_ex draw_is_dynamic ds"
| "node_is_dynamic (NRelTime a f c s) = True"
| "node_is_dynamic (NProgressBar k t m a f tr bg s) = True"
| "node_is_dynamic (NModal h b f) = True"
| "node_is_dynamic _ = False"

text \<open>\<open>v > 0.0\<close> on a float.\<close>

definition f32_positive :: "f32 \<Rightarrow> bool" where
  "f32_positive v \<longleftrightarrow> \<not> f32_is_nan v \<and> \<not> bit v 31 \<and> v \<noteq> 0"

definition decoration_paints :: "u16 option \<Rightarrow> u32 \<Rightarrow> f32 \<Rightarrow> bool" where
  "decoration_paints np background border_width \<longleftrightarrow>
     np \<noteq> None \<or> background \<noteq> 0 \<or> f32_positive border_width"

definition props_paint :: "props_data \<Rightarrow> bool" where
  "props_paint p = decoration_paints (pd_bg_np_id p) (pd_background p) (pd_border_width p)"

fun has_static_content :: "node \<Rightarrow> bool" where
  "has_static_content (NColumn p cs) = (props_paint p \<or> list_ex has_static_content cs)"
| "has_static_content (NRow p cs) = (props_paint p \<or> list_ex has_static_content cs)"
| "has_static_content (NCenter p cs) = (props_paint p \<or> list_ex has_static_content cs)"
| "has_static_content (NScroll k p cs) = (props_paint p \<or> list_ex has_static_content cs)"
| "has_static_content (NCanvas p k ds) = (props_paint p \<or> list_ex is_in_layer (canvas_bands ds))"
| "has_static_content (NTag k i c) = has_static_content c"
| "has_static_content (NDimmed b c) = has_static_content c"
| "has_static_content (NRelTime a f c s) = False"
| "has_static_content (NProgressBar k t m a f tr bg s) = False"
| "has_static_content (NModal h b f) = False"
| "has_static_content (NSpacer f) = False"
| "has_static_content _ = True"

fun has_scroll_container :: "node \<Rightarrow> bool" where
  "has_scroll_container (NScroll k p cs) = True"
| "has_scroll_container (NModal h b f) = True"
| "has_scroll_container (NColumn p cs) = list_ex has_scroll_container cs"
| "has_scroll_container (NRow p cs) = list_ex has_scroll_container cs"
| "has_scroll_container (NCenter p cs) = list_ex has_scroll_container cs"
| "has_scroll_container (NTag k i c) = has_scroll_container c"
| "has_scroll_container (NDimmed b c) = has_scroll_container c"
| "has_scroll_container _ = False"

section \<open>The key of the static half\<close>

text \<open>\<open>data[a..b]\<close>, which panics when the bounds are not in order or not in the data.\<close>

definition slice :: "bytes \<Rightarrow> nat \<Rightarrow> nat \<Rightarrow> bytes option" where
  "slice d a b = (if a \<le> b \<and> b \<le> length d then Some (take (b - a) (drop a d)) else None)"

fun static_segments :: "bytes \<Rightarrow> nat \<Rightarrow> (nat \<times> nat) list \<Rightarrow> bytes list option" where
  "static_segments d start [] = map_option (\<lambda>s. [s]) (slice d start (length d))"
| "static_segments d start ((a, b) # rs) =
     (case slice d start a of
        None \<Rightarrow> None
      | Some s \<Rightarrow> map_option (\<lambda>ss. s # ss) (static_segments d b rs))"

text \<open>Each segment is written with its length before it; \<open>hash\<close> stands for the hasher.\<close>

definition static_bytes_key :: "((nat \<times> bytes) list \<Rightarrow> u64) \<Rightarrow> bytes \<Rightarrow> (nat \<times> nat) list \<Rightarrow> u64 option" where
  "static_bytes_key hash d rs =
     map_option (\<lambda>ss. hash (map (\<lambda>s. (length s, s)) ss)) (static_segments d 0 rs)"

definition deserialize_tree_keyed ::
  "((nat \<times> bytes) list \<Rightarrow> u64) \<Rightarrow> bytes \<Rightarrow> (decode_error + node \<times> u64) option" where
  "deserialize_tree_keyed hash d =
     (case decode_tree d of
        Inl e \<Rightarrow> Some (Inl e)
      | Inr x \<Rightarrow>
          (case slice d 0 (de_consumed x) of
             None \<Rightarrow> None
           | Some used \<Rightarrow>
               map_option (\<lambda>k. Inr (de_root x, k)) (static_bytes_key hash used (de_ranges x))))"

section \<open>Interaction keys\<close>

definition key_list :: "bytes option \<Rightarrow> bytes list" where
  "key_list k = (case k of Some s \<Rightarrow> if s \<noteq> [] then [s] else [] | None \<Rightarrow> [])"

text \<open>The characters of \<open>::close\<close>.\<close>

definition close_suffix :: bytes where
  "close_suffix = [0x3A, 0x3A, 0x63, 0x6C, 0x6F, 0x73, 0x65]"

fun interaction_keys :: "node \<Rightarrow> bytes list" where
  "interaction_keys (NButton bid label style sz icon disabled stretch skin) = [bid]"
| "interaction_keys (NCanvas p k ds) = key_list k"
| "interaction_keys (NProgressBar k t m a f tr bg s) = key_list k"
| "interaction_keys (NColumn p cs) = concat (map interaction_keys cs)"
| "interaction_keys (NRow p cs) = concat (map interaction_keys cs)"
| "interaction_keys (NCenter p cs) = concat (map interaction_keys cs)"
| "interaction_keys (NScroll k p cs) = k # concat (map interaction_keys cs)"
| "interaction_keys (NModal h body f) =
     (if mo_is_open h
      then concat (map interaction_keys body) @
           (if mf_primary_key f \<noteq> [] then [mf_primary_key f] else []) @
           (if mf_secondary_key f \<noteq> [] then [mf_secondary_key f] else []) @
           [mo_id h @ close_suffix]
      else [])"
| "interaction_keys (NSwitcher active disabled tabs) = (if disabled then [] else map tab_click_id tabs)"
| "interaction_keys (NDimmed b c) = interaction_keys c"
| "interaction_keys _ = []"

section \<open>What survives the wire\<close>

lemma draw_norm_dynamic [simp]: "draw_is_dynamic (draw_norm d) = draw_is_dynamic d"
  by (induction d) auto

lemma key_list_norm [simp]: "key_list (key_norm k) = key_list k"
  by (cases k) (auto simp: key_list_def key_norm_def key_bytes_def)

lemma interaction_keys_norm: "interaction_keys (node_norm t) = interaction_keys t"
  by (induction t) (auto simp: comp_def cong: map_cong)

lemma bands_norm: "canvas_bands_after (map draw_norm ds) seen = canvas_bands_after ds seen"
  by (induction ds seen rule: canvas_bands_after.induct) auto

lemma partition_norm:
  "node_is_dynamic (node_norm t) = node_is_dynamic t"
  "node_self_is_dynamic (node_norm t) = node_self_is_dynamic t"
  "has_static_content (node_norm t) = has_static_content t"
  "has_scroll_container (node_norm t) = has_scroll_container t"
  subgoal by (induction t) (auto simp: list_ex_iff)
  subgoal by (induction t) auto
  subgoal by (induction t) (auto simp: list_ex_iff canvas_bands_def bands_norm)
  subgoal by (induction t) (auto simp: list_ex_iff)
  done

text \<open>A scroll container with a button and a canvas of two circles that can be touched, the second of
  which has a transition.\<close>

definition sample_circle :: draw where
  "sample_circle = DrawCircle 0 0 0 (FillSolid 0)"

definition sample_moving :: draw where
  "sample_moving = DrawModified [] (Some \<lparr>tr_id_hash = 1, tr_duration_ms = 2, tr_easing = EzIn\<rparr>) CsSrgb sample_circle"

definition plain_props :: props_data where
  "plain_props = \<lparr>pd_padding = 0, pd_margin = 0, pd_gap = 0, pd_background = 0, pd_width = 0, pd_height = 0,
     pd_flex = 0, pd_max_width = 0, pd_max_height = 0, pd_cross_align = CaStretch, pd_justify_content = JsStart,
     pd_wrap = False, pd_bg_np_id = None, pd_bg_np_left = 0, pd_bg_np_top = 0, pd_bg_np_right = 0,
     pd_bg_np_bottom = 0, pd_inset_top = 0, pd_inset_right = 0, pd_inset_bottom = 0, pd_inset_left = 0,
     pd_border_radius = 0, pd_border_width = 0, pd_border_color = 0\<rparr>"

definition sample_screen :: node where
  "sample_screen = NScroll [0x73] plain_props
     [NButton [0x62] [0x4F, 0x4B] BtnPrimary BtnNormal None False False None,
      NCanvas plain_props (Some [0x63]) [sample_circle, sample_moving]]"

lemma sample_draws:
  "draw_ok sample_circle" "draw_ok sample_moving" "draw_norm sample_circle = sample_circle"
  "draw_norm sample_moving = sample_moving" "\<not> draw_is_dynamic sample_circle" "draw_is_dynamic sample_moving"
  "length (fst (w_draw sample_circle)) = 18"
  by (simp_all add: sample_circle_def sample_moving_def extent_ok_def f32_is_finite_def f32_nonneg_def
      f32_is_nan_def f32_exponent_def f32_fraction_def wcat_def w_u8_def w_f32_def w_fill_def w_bytes_def)

lemma plain_props_ok: "props_ok plain_props"
  by (simp add: plain_props_def props_ok_def extent_ok_def f32_is_finite_def f32_nonneg_def f32_is_nan_def
      f32_exponent_def f32_fraction_def id_ok_def)

lemma sample_screen_ok: "node_ok sample_screen"
  by (simp add: sample_screen_def plain_props_ok sample_draws children_ok_def str_ok_def key_bytes_def id_ok_def
      valid_utf8.simps)

text \<open>C27. Guest and host derive the same from a tree: a well-formed tree and the tree the host decodes
  from its bytes have the same interaction keys in the same order, the keys the guest polls; they
  are dynamic or not alike, and alike have static content and scroll containers. (Neither end counts
  a key inside a tag among the interaction keys, although a button there can be pressed; see the
  findings.)\<close>

theorem guest_and_host_agree:
  assumes "node_ok t" and "try_encode t = Inr bs" and "decode_tree (bs @ post) = Inr x"
  shows "interaction_keys (de_root x) = interaction_keys t \<and>
    node_is_dynamic (de_root x) = node_is_dynamic t \<and>
    has_static_content (de_root x) = has_static_content t \<and>
    has_scroll_container (de_root x) = has_scroll_container t"
proof -
  from decode_encoding [OF assms(1), of post] assms have "de_root x = node_norm t"
    by (auto simp: try_encode_ok)
  then show ?thesis by (simp add: interaction_keys_norm partition_norm)
qed

theorem guest_and_host_agree_witness:
  "\<exists>x. decode_tree (fst (w_node sample_screen) @ [1, 2, 3]) = Inr x \<and>
     interaction_keys (de_root x) = [[0x73], [0x62], [0x63]] \<and> node_is_dynamic (de_root x) \<and>
     has_static_content (de_root x) \<and> has_scroll_container (de_root x)"
proof -
  obtain x where x: "decode_tree (fst (w_node sample_screen) @ [1, 2, 3]) = Inr x"
    using decode_encoding [OF sample_screen_ok, of "[1, 2, 3]"] by blast
  from guest_and_host_agree [OF sample_screen_ok try_encode_ok [OF sample_screen_ok] x] x show ?thesis
    by (auto simp: sample_screen_def sample_draws key_list_def)
qed

text \<open>A button inside a tag is laid out and can be pressed, but the guest never asks for its key.\<close>

lemma tag_hides_keys: "interaction_keys (NTag kind icon content) = []"
  by simp

section \<open>The bytes the key covers\<close>

fun weave :: "bytes list \<Rightarrow> bytes list \<Rightarrow> bytes" where
  "weave (s # ss) (r # rs) = s @ r @ weave ss rs"
| "weave ss rs = concat ss @ concat rs"

lemma segments_cover:
  "ranges_in lo (length d) rs \<Longrightarrow> \<exists>segs. static_segments d lo rs = Some segs \<and>
     length segs = Suc (length rs) \<and>
     weave segs (map (\<lambda>(a, b). take (b - a) (drop a d)) rs) = drop lo d"
proof (induction rs arbitrary: lo)
  case Nil
  then show ?case by (simp add: slice_def)
next
  case (Cons r rs)
  obtain a b where r: "r = (a, b)" by (cases r)
  with Cons.prems have ab: "lo \<le> a" "a \<le> b" "ranges_in b (length d) rs" by simp_all
  then have "b \<le> length d" by (auto dest: ranges_in_le)
  from Cons.IH [OF ab(3)] obtain segs where segs: "static_segments d b rs = Some segs"
      "length segs = Suc (length rs)" "weave segs (map (\<lambda>(a, b). take (b - a) (drop a d)) rs) = drop b d"
    by blast
  have split: "drop lo d = take (a - lo) (drop lo d) @ drop a d" "drop a d = take (b - a) (drop a d) @ drop b d"
    using ab append_take_drop_id [of "a - lo" "drop lo d"] append_take_drop_id [of "b - a" "drop a d"] by simp_all
  have "weave (take (a - lo) (drop lo d) # segs) (map (\<lambda>(a, b). take (b - a) (drop a d)) (r # rs)) =
      take (a - lo) (drop lo d) @ take (b - a) (drop a d) @ drop b d"
    using segs(3) by (simp add: r)
  also have "\<dots> = drop lo d" using split by metis
  finally show ?case using ab segs \<open>b \<le> length d\<close> by (auto simp: r slice_def)
qed

text \<open>C25. Keying the static half of a received tree never panics on a slice, whatever the bytes, and
  covers every byte: the segments that are hashed and the dynamic ranges, woven together, are
  exactly the bytes the decoder consumed, so a byte outside the dynamic half cannot change without
  changing what is hashed.\<close>

theorem keyed_decode_covers:
  "case decode_tree d of
     Inl e \<Rightarrow> deserialize_tree_keyed hash d = Some (Inl e)
   | Inr x \<Rightarrow> (\<exists>segs.
       deserialize_tree_keyed hash d = Some (Inr (de_root x, hash (map (\<lambda>s. (length s, s)) segs))) \<and>
       length segs = Suc (length (de_ranges x)) \<and>
       weave segs (map (\<lambda>(a, b). take (b - a) (drop a (take (de_consumed x) d))) (de_ranges x)) =
         take (de_consumed x) d)"
proof (cases "decode_tree d")
  case (Inr x)
  let ?d = "take (de_consumed x) d"
  from decode_tree_read [OF Inr] have x: "de_consumed x \<le> length d" "ranges_in 0 (length ?d) (de_ranges x)"
    by (auto simp: moved_def in_data_def min_def)
  from segments_cover [OF x(2)] obtain segs where "static_segments ?d 0 (de_ranges x) = Some segs"
      "length segs = Suc (length (de_ranges x))"
      "weave segs (map (\<lambda>(a, b). take (b - a) (drop a ?d)) (de_ranges x)) = ?d"
    by auto
  with x(1) Inr show ?thesis
    by (auto simp: deserialize_tree_keyed_def slice_def static_bytes_key_def)
qed (simp add: deserialize_tree_keyed_def)

section \<open>The range of a canvas\<close>

lemma in_layer [simp]: "is_in_layer Below" "\<not> is_in_layer Dynamic" "\<not> is_in_layer Above"
  by (simp_all add: is_in_layer_def)

lemma bands_seen: "map is_in_layer (canvas_bands_after ds True) = replicate (length ds) False"
  by (induction ds) auto

lemma draws_SucE:
  assumes "r_draws (Suc n) first s = Inr ((ds, fin), t)"
  obtains d u ds' where "r_draw s = Inr (d, u)" "ds = d # ds'"
    "r_draws n (if first = None \<and> draw_is_dynamic d then Some (rd_pos s) else first) u = Inr ((ds', fin), t)"
  using assms by (auto simp: rbind_def r_pos_def rreturn_def split: sum.splits)

lemma draws_length: "r_draws n first s = Inr ((ds, fin), t) \<Longrightarrow> length ds = n"
proof (induction n arbitrary: first s ds)
  case (Suc n)
  from Suc.prems show ?case by (rule draws_SucE) (use Suc.IH in auto)
qed (simp add: rreturn_def)

lemma draws_first: "r_draws n (Some p) s = Inr ((ds, fin), t) \<Longrightarrow> fin = Some p"
proof (induction n arbitrary: s ds)
  case (Suc n)
  from Suc.prems show ?case by (rule draws_SucE) (use Suc.IH in auto)
qed (simp add: rreturn_def)

text \<open>The draws of the layer are a run at the front, and the first position the loop over the draws reports
  is where the first draw after them starts.\<close>

lemma draws_range:
  assumes "r_draws n None s = Inr ((ds, fin), t)"
  shows "\<exists>k \<le> n. map is_in_layer (canvas_bands ds) = replicate k True @ replicate (n - k) False \<and>
    (case fin of
       None \<Rightarrow> k = n
     | Some p \<Rightarrow> k < n \<and> (\<exists>u. r_draws k None s = Inr ((take k ds, None), u) \<and> rd_pos u = p))"
  using assms
proof (induction n arbitrary: s ds)
  case 0
  then show ?case by (auto simp: rreturn_def canvas_bands_def)
next
  case (Suc n)
  from Suc.prems obtain d u ds' where d: "r_draw s = Inr (d, u)" "ds = d # ds'"
    and rest: "r_draws n (if draw_is_dynamic d then Some (rd_pos s) else None) u = Inr ((ds', fin), t)"
    by (rule draws_SucE) auto
  show ?case
  proof (cases "draw_is_dynamic d")
    case True
    with rest draws_first draws_length have "fin = Some (rd_pos s)" "length ds' = n" by force+
    with True d(2) show ?thesis
      by (intro exI [of _ 0]) (simp add: canvas_bands_def bands_seen rreturn_def)
  next
    case False
    with rest Suc.IH obtain k where k: "k \<le> n"
        "map is_in_layer (canvas_bands ds') = replicate k True @ replicate (n - k) False"
        "case fin of None \<Rightarrow> k = n
         | Some p \<Rightarrow> k < n \<and> (\<exists>v. r_draws k None u = Inr ((take k ds', None), v) \<and> rd_pos v = p)"
      by force
    have "r_draws k None u = Inr ((take k ds', None), v) \<Longrightarrow>
        r_draws (Suc k) None s = Inr ((take (Suc k) ds, None), v)" for v
      using d False by (simp add: rbind_def r_pos_def rreturn_def)
    with k False d(2) show ?thesis
      by (intro exI [of _ "Suc k"]) (auto simp: canvas_bands_def simp del: r_draws.simps
          split: option.splits)
  qed
qed

lemma bands_in_layer: "is_in_layer (canvas_bands_after ds seen ! i) \<Longrightarrow> i < length ds \<Longrightarrow> is_in_layer (canvas_bands ds ! i)"
proof (induction ds seen arbitrary: i rule: canvas_bands_after.induct)
  case (2 d ds seen)
  show ?case
  proof (cases seen)
    case True
    have "\<not> is_in_layer (canvas_bands_after (d # ds) True ! i)"
      using bands_seen [of "d # ds"] 2(5) by (metis length_map length_replicate nth_map nth_replicate)
    with 2(4) True show ?thesis by simp
  qed (use 2 in \<open>simp add: canvas_bands_def\<close>)
qed simp

lemma canvas_reads:
  assumes "in_data s" "r_canvas s = Inr (c, t)"
  obtains props key ds fin v u where "c = NCanvas props key ds" "in_data v" "rd_data v = rd_data s"
    "r_draws (length ds) None v = Inr ((ds, fin), u)" "rd_ranges v = rd_ranges s @ [(rd_pos v - 2, rd_pos v)]"
    "t = (case fin of None \<Rightarrow> u | Some p \<Rightarrow> u\<lparr>rd_ranges := rd_ranges u @ [(p, rd_pos u)]\<rparr>)"
proof -
  from assms(2) obtain props key n ds fin s1 s2 s3 u where
    r: "r_props s = Inr (props, s1)" "r_key s1 = Inr (key, s2)" "r_u16 s2 = Inr (n, s3)"
    and d: "r_draws (unat n) None (s3\<lparr>rd_ranges := rd_ranges s3 @ [(rd_pos s2, rd_pos s3)]\<rparr>) = Inr ((ds, fin), u)"
    and c: "c = NCanvas props key ds"
      "t = (case fin of None \<Rightarrow> u | Some p \<Rightarrow> u\<lparr>rd_ranges := rd_ranges u @ [(p, rd_pos u)]\<rparr>)"
    by (auto simp: r_canvas_def rbind_def r_pos_def r_push_range_def rreturn_def split: sum.splits option.splits)
  have "moved s s1" using safeD [OF safe_props assms(1) r(1)] by simp
  moreover from this have "moved s1 s2" using safeD [OF safe_key moved_in_data r(2)] by simp
  moreover from this have "moved s2 s3" using safeD [OF safe_prims(2) moved_in_data r(3)] by simp
  ultimately have m: "in_data s3" "rd_data s3 = rd_data s" by (auto simp: moved_def)
  have "rd_pos s3 = rd_pos s2 + 2"
    using r(3) by (auto simp: r_u16_def rbind_def r_bytes_def rreturn_def split: if_splits)
  moreover have "keeps r_key" unfolding r_key_def by (intro keeps)
  then have "rd_ranges s3 = rd_ranges s"
    using r keeps_parts(5) keeps_prims(2) by (auto simp: keeps_def)
  ultimately show ?thesis
    using that [of props key ds "s3\<lparr>rd_ranges := rd_ranges s3 @ [(rd_pos s2, rd_pos s3)]\<rparr>" fin u]
      d c m draws_length [OF d] by (simp add: in_data_def)
qed

text \<open>C29. What a canvas leaves out of the bytes that are hashed. Decoding one marks exactly two ranges:
  the two bytes of the count of draws, and, when not all draws belong to the cached layer, the bytes
  from the start of the first that does not to the end of the canvas. The draws of the layer are a
  run at the front, so these are exactly the draws outside the layer of a canvas that is not
  above dynamic content; wherever the painter places the canvas, a draw it keeps in the layer is among
  the bytes that are hashed.\<close>

theorem canvas_range_exact:
  assumes "rd_pos s \<le> length (rd_data s)" and "r_canvas s = Inr (c, t)"
  shows "\<exists>props key ds k v u fin w. c = NCanvas props key ds \<and> k \<le> length ds \<and> rd_data v = rd_data s \<and>
    r_draws (length ds) None v = Inr ((ds, fin), w) \<and> rd_pos w = rd_pos t \<and>
    r_draws k None v = Inr ((take k ds, None), u) \<and>
    rd_ranges t = rd_ranges s @ (rd_pos v - 2, rd_pos v) # (if k < length ds then [(rd_pos u, rd_pos t)] else []) \<and>
    map is_in_layer (canvas_bands ds) = replicate k True @ replicate (length ds - k) False \<and>
    (\<forall>seen i. i < length ds \<and> is_in_layer (canvas_bands_after ds seen ! i) \<longrightarrow> i < k)"
proof -
  from assms obtain props key ds fin v w where r: "c = NCanvas props key ds" "in_data v" "rd_data v = rd_data s"
    "r_draws (length ds) None v = Inr ((ds, fin), w)" "rd_ranges v = rd_ranges s @ [(rd_pos v - 2, rd_pos v)]"
    "t = (case fin of None \<Rightarrow> w | Some p \<Rightarrow> w\<lparr>rd_ranges := rd_ranges w @ [(p, rd_pos w)]\<rparr>)"
    using canvas_reads [of s c t] unfolding in_data_def by metis
  from draws_range [OF r(4)] obtain k where k: "k \<le> length ds"
      "map is_in_layer (canvas_bands ds) = replicate k True @ replicate (length ds - k) False"
      "case fin of None \<Rightarrow> k = length ds
       | Some p \<Rightarrow> k < length ds \<and> (\<exists>u. r_draws k None v = Inr ((take k ds, None), u) \<and> rd_pos u = p)" by blast
  have w: "rd_ranges w = rd_ranges v" using draws_read [OF r(4,2)] by simp
  obtain u where u: "r_draws k None v = Inr ((take k ds, None), u)"
      "rd_ranges t = rd_ranges s @ (rd_pos v - 2, rd_pos v) # (if k < length ds then [(rd_pos u, rd_pos t)] else [])"
    using k(3) r(4-6) w by (cases fin) auto
  have "i < k" if "i < length ds" "is_in_layer (canvas_bands_after ds seen ! i)" for seen i
  proof -
    have len: "length (canvas_bands ds) = length ds" using arg_cong [OF k(2), of length] k(1) by simp
    from bands_in_layer [OF that(2,1)] have "map is_in_layer (canvas_bands ds) ! i" using that(1) len by simp
    then show ?thesis using that(1) unfolding k(2) by (simp add: nth_append split: if_splits)
  qed
  moreover have "rd_pos w = rd_pos t" using r(6) by (simp split: option.splits)
  ultimately show ?thesis using r(1,3,4) k(1,2) u by blast
qed

text \<open>The canvas of the sample screen: two ranges are marked, the count and the second draw.\<close>

definition canvas_bytes :: bytes where
  "canvas_bytes = tl (fst (w_node (NCanvas plain_props (Some [0x63]) [sample_circle, sample_moving])))"

lemma canvas_bytes_read:
  "\<exists>t. r_canvas \<lparr>rd_data = canvas_bytes, rd_pos = 0, rd_ranges = []\<rparr> =
     Inr (NCanvas plain_props (Some [0x63]) [sample_circle, sample_moving], t)"
proof -
  let ?ds = "[sample_circle, sample_moving]"
  let ?w = "wcat [w_props plain_props, w_str (key_bytes (Some [0x63])) ''touch key exceeds u16::MAX bytes'',
    w_count_u16 (length ?ds) ''canvas draws exceed u16::MAX'', wcat (map w_draw ?ds)]"
  have ok: "node_ok (NCanvas plain_props (Some [0x63]) ?ds)"
    by (simp add: plain_props_ok sample_draws str_ok_def key_bytes_def valid_utf8.simps)
  have w: "w_node (NCanvas plain_props (Some [0x63]) ?ds) = wcat [w_u8 NODE_CANVAS, ?w]"
    by (simp add: wcat_def prod_eq_iff split: option.splits)
  have "snd ?w = None" using node_encodes [OF ok] unfolding w by (simp add: wcat_def w_u8_def split: option.splits)
  moreover have "canvas_bytes = fst ?w" unfolding canvas_bytes_def w by (simp add: wcat_def w_u8_def)
  moreover have "fits ?w r_canvas (NCanvas plain_props (key_norm (Some [0x63])) (map draw_norm ?ds))"
    using ok by (intro canvas_fits) simp_all
  ultimately have "\<exists>rs. r_canvas \<lparr>rd_data = [] @ canvas_bytes @ [], rd_pos = length ([] :: bytes), rd_ranges = []\<rparr> =
      Inr (NCanvas plain_props (key_norm (Some [0x63])) (map draw_norm ?ds),
        \<lparr>rd_data = [] @ canvas_bytes @ [], rd_pos = length ([] :: bytes) + length canvas_bytes, rd_ranges = rs\<rparr>)"
    unfolding fits_def by (metis (no_types))
  then show ?thesis by (auto simp: sample_draws key_norm_def key_bytes_def)
qed

theorem canvas_range_exact_witness:
  "\<exists>t. r_canvas \<lparr>rd_data = canvas_bytes, rd_pos = 0, rd_ranges = []\<rparr> =
      Inr (NCanvas plain_props (Some [0x63]) [sample_circle, sample_moving], t) \<and>
    map is_in_layer (canvas_bands [sample_circle, sample_moving]) = [True, False] \<and> length (rd_ranges t) = 2"
proof -
  obtain t where t: "r_canvas \<lparr>rd_data = canvas_bytes, rd_pos = 0, rd_ranges = []\<rparr> =
      Inr (NCanvas plain_props (Some [0x63]) [sample_circle, sample_moving], t)" using canvas_bytes_read by blast
  have bands: "map is_in_layer (canvas_bands [sample_circle, sample_moving]) = [True, False]"
    by (simp add: canvas_bands_def sample_draws)
  let ?ds = "[sample_circle, sample_moving]"
  let ?s = "\<lparr>rd_data = canvas_bytes, rd_pos = 0, rd_ranges = []\<rparr>"
  have "rd_pos ?s \<le> length (rd_data ?s)" by simp
  from canvas_range_exact [OF this t] show ?thesis
  proof (elim exE conjE)
    fix props key ds k v u
    assume a: "NCanvas plain_props (Some [0x63]) ?ds = NCanvas props key ds" "k \<le> length ds"
      "rd_ranges t = rd_ranges ?s @ (rd_pos v - 2, rd_pos v) # (if k < length ds then [(rd_pos u, rd_pos t)] else [])"
      "map is_in_layer (canvas_bands ds) = replicate k True @ replicate (length ds - k) False"
    have ds: "?ds = ds" using a(1) by (simp only: node.inject)
    note k = a(2-4) [folded ds]
    have "k < length ?ds" using k(1,3) unfolding bands by (cases "k = length ?ds") (auto simp: numeral_2_eq_2)
    then have "length (rd_ranges t) = 2" using k(2) by (simp only: rstate.select_convs if_True list.size append_Nil)
    show ?thesis by (intro exI [of _ t] conjI t bands) fact
  qed
qed

end
