(* ===== verification/Lru_Queue.thy ===== *)
theory Lru_Queue
  imports Prelude "HOL-Library.Monad_Syntax"
begin

text \<open>
  The recency queue of the renderer's caches (\<^verbatim>\<open>bmc-render/src/gpu/lru.rs\<close>): a doubly linked list whose
  links live in the entries of a backing store. The operations take the store's own operations,
  the trait \<open>LruStore\<close>, as a record; a panic, also of a debug assertion, is \<open>None\<close>. The locale
  \<open>lru_storage\<close> states what the queue relies on, and there the queue is shown to implement a list of
  keys, hottest first.
\<close>

section \<open>The queue\<close>

record ('s, 'k) lru_store =
  st_links :: "'s \<Rightarrow> 'k \<Rightarrow> ('k option \<times> 'k option) option"
  st_set_links :: "'s \<Rightarrow> 'k \<Rightarrow> 'k option \<Rightarrow> 'k option \<Rightarrow> 's option"
  st_set_prev :: "'s \<Rightarrow> 'k \<Rightarrow> 'k option \<Rightarrow> 's option"
  st_set_next :: "'s \<Rightarrow> 'k \<Rightarrow> 'k option \<Rightarrow> 's option"

record 'k lru_queue =
  lru_head :: "'k option"
  lru_tail :: "'k option"

definition lru_new :: "'k lru_queue" where
  "lru_new = \<lparr>lru_head = None, lru_tail = None\<rparr>"

definition link_as_hot ::
  "('s, 'k) lru_store \<Rightarrow> 'k \<Rightarrow> 's \<Rightarrow> 'k lru_queue \<Rightarrow> ('s \<times> 'k lru_queue) option" where
  "link_as_hot S k s q = do {
     s \<leftarrow> st_set_links S s k None (lru_head q);
     (s, q) \<leftarrow> (case lru_head q of
        Some old \<Rightarrow> map_option (\<lambda>s. (s, q)) (st_set_prev S s old (Some k))
      | None \<Rightarrow> Some (s, q\<lparr>lru_tail := Some k\<rparr>));
     Some (s, q\<lparr>lru_head := Some k\<rparr>)
   }"

definition push_hot ::
  "('s, 'k) lru_store \<Rightarrow> 'k \<Rightarrow> 's \<Rightarrow> 'k lru_queue \<Rightarrow> ('s \<times> 'k lru_queue) option" where
  "push_hot S k s q = do {
     (prev, nxt) \<leftarrow> st_links S s k;
     if prev = None \<and> nxt = None \<and> lru_head q \<noteq> Some k \<and> lru_tail q \<noteq> Some k
     then link_as_hot S k s q else None
   }"

definition detach ::
  "('s, 'k) lru_store \<Rightarrow> 'k \<Rightarrow> 's \<Rightarrow> 'k lru_queue \<Rightarrow> ('s \<times> 'k lru_queue) option" where
  "detach S k s q = do {
     (prev, nxt) \<leftarrow> st_links S s k;
     if (prev \<noteq> None \<or> lru_head q = Some k) \<and> (nxt \<noteq> None \<or> lru_tail q = Some k) then do {
       (s, q) \<leftarrow> (case prev of
          Some p \<Rightarrow> map_option (\<lambda>s. (s, q)) (st_set_next S s p nxt)
        | None \<Rightarrow> Some (s, q\<lparr>lru_head := nxt\<rparr>));
       (case nxt of
          Some n \<Rightarrow> map_option (\<lambda>s. (s, q)) (st_set_prev S s n prev)
        | None \<Rightarrow> Some (s, q\<lparr>lru_tail := prev\<rparr>))
     } else None
   }"

definition unlink ::
  "('s, 'k) lru_store \<Rightarrow> 'k \<Rightarrow> 's \<Rightarrow> 'k lru_queue \<Rightarrow> ('s \<times> 'k lru_queue) option" where
  "unlink S k s q = do {
     (s, q) \<leftarrow> detach S k s q;
     s \<leftarrow> st_set_links S s k None None;
     Some (s, q)
   }"

definition promote ::
  "('s, 'k) lru_store \<Rightarrow> 'k \<Rightarrow> 's \<Rightarrow> 'k lru_queue \<Rightarrow> ('s \<times> 'k lru_queue) option" where
  "promote S k s q =
     (if lru_head q = Some k then Some (s, q)
      else do { (s, q) \<leftarrow> detach S k s q; link_as_hot S k s q })"

definition coldest :: "'k lru_queue \<Rightarrow> 'k option" where
  "coldest q = lru_tail q"

section \<open>Linked segments\<close>

definition first :: "'k list \<Rightarrow> 'k option \<Rightarrow> 'k option" where
  "first xs n = (case xs of [] \<Rightarrow> n | x # _ \<Rightarrow> Some x)"

definition final :: "'k list \<Rightarrow> 'k option \<Rightarrow> 'k option" where
  "final xs p = (if xs = [] then p else Some (last xs))"

lemma first_simps [simp]:
  "first [] n = n" "first (x # xs) n = Some x" "first (xs @ ys) n = first xs (first ys n)"
  by (simp_all add: first_def split: list.split)

lemma final_simps [simp]:
  "final [] p = p" "final (x # xs) p = final xs (Some x)" "final (xs @ ys) p = final ys (final xs p)"
  by (simp_all add: final_def)

lemma final_snoc: "final (xs @ [x]) p = Some x"
  by simp

text \<open>The links \<open>L\<close> of \<open>xs\<close> lead from \<open>p\<close> through the list to \<open>n\<close> and back.\<close>

fun lseg :: "('k \<Rightarrow> ('k option \<times> 'k option) option) \<Rightarrow> 'k option \<Rightarrow> 'k list \<Rightarrow> 'k option \<Rightarrow> bool" where
  "lseg L p [] n = True"
| "lseg L p (x # xs) n = (L x = Some (p, first xs n) \<and> lseg L (Some x) xs n)"

lemma lseg_append [simp]:
  "lseg L p (xs @ ys) n \<longleftrightarrow> lseg L p xs (first ys n) \<and> lseg L (final xs p) ys n"
  by (induction xs arbitrary: p) auto

lemma lseg_frame: "(\<And>x. x \<in> set xs \<Longrightarrow> L' x = L x) \<Longrightarrow> lseg L' p xs n = lseg L p xs n"
  by (induction xs arbitrary: p) auto

lemma lseg_fun_upd [simp]: "x \<notin> set xs \<Longrightarrow> lseg (L(x := v)) p xs n = lseg L p xs n"
  by (rule lseg_frame) auto

lemma lseg_dom: "lseg L p xs n \<Longrightarrow> x \<in> set xs \<Longrightarrow> \<exists>v. L x = Some v"
  by (induction xs arbitrary: p) auto

definition lru_repr ::
  "('k \<Rightarrow> ('k option \<times> 'k option) option) \<Rightarrow> 'k lru_queue \<Rightarrow> 'k list \<Rightarrow> bool" where
  "lru_repr L q xs \<longleftrightarrow> distinct xs \<and> lseg L None xs None \<and>
     lru_head q = first xs None \<and> lru_tail q = final xs None"

lemma lru_repr_new: "lru_repr L lru_new []"
  by (simp add: lru_repr_def lru_new_def)

lemma lru_repr_frame:
  "lru_repr L q xs \<Longrightarrow> (\<And>x. x \<in> set xs \<Longrightarrow> L' x = L x) \<Longrightarrow> lru_repr L' q xs"
  unfolding lru_repr_def using lseg_frame [of xs L' L] by simp

lemma repr_split:
  assumes "lru_repr L q xs" and "k \<in> set xs"
  shows "\<exists>as bs. xs = as @ k # bs \<and> k \<notin> set as \<and> k \<notin> set bs"
proof -
  from assms(2) obtain as bs where "xs = as @ k # bs" by (meson split_list)
  with assms(1) show ?thesis by (auto simp: lru_repr_def)
qed

text \<open>The list a queue represents, read from its head along the links.\<close>

fun hot_to_cold :: "nat \<Rightarrow> ('k \<Rightarrow> ('k option \<times> 'k option) option) \<Rightarrow> 'k option \<Rightarrow> 'k list" where
  "hot_to_cold 0 L c = []"
| "hot_to_cold (Suc n) L None = []"
| "hot_to_cold (Suc n) L (Some k) =
     k # (case L k of Some (p, c) \<Rightarrow> hot_to_cold n L c | None \<Rightarrow> [])"

lemma hot_to_cold_lseg: "lseg L p xs None \<Longrightarrow> length xs \<le> n \<Longrightarrow> hot_to_cold n L (first xs None) = xs"
proof (induction xs arbitrary: p n)
  case Nil
  then show ?case by (cases n) simp_all
next
  case (Cons x xs)
  then obtain m where "n = Suc m" by (cases n) auto
  with Cons show ?case by auto
qed

lemma hot_to_cold_repr: "lru_repr L q xs \<Longrightarrow> length xs \<le> n \<Longrightarrow> hot_to_cold n L (lru_head q) = xs"
  by (auto simp: lru_repr_def hot_to_cold_lseg)

section \<open>The queue implements a list\<close>

locale lru_storage =
  fixes S :: "('s, 'k) lru_store" and payload :: "'s \<Rightarrow> 'p"
  assumes set_links: "st_links S s k \<noteq> None \<Longrightarrow>
      \<exists>s'. st_set_links S s k p n = Some s' \<and> st_links S s' = (st_links S s)(k \<mapsto> (p, n)) \<and>
        payload s' = payload s"
    and set_prev: "st_links S s k = Some (p, n) \<Longrightarrow>
      \<exists>s'. st_set_prev S s k m = Some s' \<and> st_links S s' = (st_links S s)(k \<mapsto> (m, n)) \<and>
        payload s' = payload s"
    and set_next: "st_links S s k = Some (p, n) \<Longrightarrow>
      \<exists>s'. st_set_next S s k m = Some s' \<and> st_links S s' = (st_links S s)(k \<mapsto> (p, m)) \<and>
        payload s' = payload s"
begin

text \<open>What an operation leaves alone: the keys of the store, the links of keys that are neither in
  the queue nor the one it moves, and everything that is not a link.\<close>

definition frame :: "'k set \<Rightarrow> 's \<Rightarrow> 's \<Rightarrow> bool" where
  "frame A s s' \<longleftrightarrow> payload s' = payload s \<and> dom (st_links S s') = dom (st_links S s) \<and>
     (\<forall>k. k \<notin> A \<longrightarrow> st_links S s' k = st_links S s k)"

lemma frame_refl: "frame A s s"
  by (simp add: frame_def)

lemma frame_trans: "frame A s t \<Longrightarrow> frame A t u \<Longrightarrow> frame A s u"
  by (simp add: frame_def)

lemma frame_mono: "frame A s t \<Longrightarrow> A \<subseteq> B \<Longrightarrow> frame B s t"
  by (auto simp: frame_def)

lemma frame_update:
  "st_links S s' = (st_links S s)(k \<mapsto> v) \<Longrightarrow> st_links S s k \<noteq> None \<Longrightarrow> payload s' = payload s \<Longrightarrow>
   k \<in> A \<Longrightarrow> frame A s s'"
  by (auto simp: frame_def)

lemma link_as_hot_repr:
  assumes q: "lru_repr (st_links S s) q xs" and k: "k \<notin> set xs" "st_links S s k \<noteq> None"
  shows "\<exists>s' q'. link_as_hot S k s q = Some (s', q') \<and> lru_repr (st_links S s') q' (k # xs) \<and>
    frame (insert k (set xs)) s s'"
proof -
  from set_links [OF k(2)] obtain s1 where s1: "st_set_links S s k None (lru_head q) = Some s1"
      "st_links S s1 = (st_links S s)(k \<mapsto> (None, lru_head q))" "payload s1 = payload s" by blast
  have f1: "frame (insert k (set xs)) s s1" using frame_update [OF s1(2) k(2) s1(3)] by simp
  show ?thesis
  proof (cases xs)
    case Nil
    with q s1 f1 show ?thesis by (auto simp: link_as_hot_def lru_repr_def)
  next
    case (Cons h ys)
    with q k have h: "lru_head q = Some h" "st_links S s1 h = Some (None, first ys None)" "h \<noteq> k"
      by (auto simp: lru_repr_def s1(2))
    from set_prev [OF h(2)] obtain s2 where s2: "st_set_prev S s1 h (Some k) = Some s2"
        "st_links S s2 = (st_links S s1)(h \<mapsto> (Some k, first ys None))" "payload s2 = payload s1" by blast
    have "frame (insert k (set xs)) s1 s2" using frame_update [OF s2(2) _ s2(3)] h(2) Cons by simp
    then have "frame (insert k (set xs)) s s2" by (rule frame_trans [OF f1])
    moreover have "lru_repr (st_links S s2) (q\<lparr>lru_head := Some k\<rparr>) (k # xs)"
      using q k h Cons by (auto simp: lru_repr_def s1(2) s2(2))
    ultimately show ?thesis using s1 s2 h(1) by (simp add: link_as_hot_def)
  qed
qed

lemma push_hot_repr:
  assumes "lru_repr (st_links S s) q xs" and "k \<notin> set xs" and "st_links S s k = Some (None, None)"
  shows "\<exists>s' q'. push_hot S k s q = Some (s', q') \<and> lru_repr (st_links S s') q' (k # xs) \<and>
    frame (insert k (set xs)) s s'"
proof -
  have "lru_head q \<noteq> Some k" using assms(1,2) by (cases xs) (auto simp: lru_repr_def)
  moreover have "lru_tail q \<noteq> Some k"
    using assms(1,2) last_in_set [of xs] by (auto simp: lru_repr_def final_def)
  moreover note assms(3) link_as_hot_repr [OF assms(1,2)]
  ultimately show ?thesis by (simp add: push_hot_def)
qed
lemma set_next_segment:
  assumes "lseg (st_links S s) p (xs @ [x]) n" and "distinct (xs @ [x])"
  shows "\<exists>s'. st_set_next S s x m = Some s' \<and> lseg (st_links S s') p (xs @ [x]) m \<and> frame {x} s s'"
proof -
  from assms(1) have x: "st_links S s x = Some (final xs p, n)" by simp
  from set_next [OF x] obtain s' where s': "st_set_next S s x m = Some s'"
      "st_links S s' = (st_links S s)(x \<mapsto> (final xs p, m))" "payload s' = payload s" by blast
  moreover have "frame {x} s s'" using frame_update [OF s'(2) _ s'(3)] x by simp
  moreover have "lseg (st_links S s') p (xs @ [x]) m" using assms by (simp add: s'(2))
  ultimately show ?thesis by blast
qed

lemma set_prev_segment:
  assumes "lseg (st_links S s) p (x # xs) n" and "distinct (x # xs)"
  shows "\<exists>s'. st_set_prev S s x m = Some s' \<and> lseg (st_links S s') m (x # xs) n \<and> frame {x} s s'"
proof -
  from assms(1) have x: "st_links S s x = Some (p, first xs n)" by simp
  from set_prev [OF x] obtain s' where s': "st_set_prev S s x m = Some s'"
      "st_links S s' = (st_links S s)(x \<mapsto> (m, first xs n))" "payload s' = payload s" by blast
  moreover have "frame {x} s s'" using frame_update [OF s'(2) _ s'(3)] x by simp
  moreover have "lseg (st_links S s') m (x # xs) n" using assms by (simp add: s'(2))
  ultimately show ?thesis by blast
qed

lemma frame_lseg: "frame A s s' \<Longrightarrow> A \<inter> set xs = {} \<Longrightarrow> lseg (st_links S s') p xs n = lseg (st_links S s) p xs n"
  by (rule lseg_frame) (auto simp: frame_def)

text \<open>The two halves of \<open>detach\<close>: the part before the key and the part after it.\<close>

lemma detach_before:
  assumes "lseg (st_links S s) None xs n" "distinct xs" "lru_head q = first xs (Some k)"
  shows "\<exists>s' q'. (case final xs None of
       Some p \<Rightarrow> map_option (\<lambda>s. (s, q)) (st_set_next S s p m)
     | None \<Rightarrow> Some (s, q\<lparr>lru_head := m\<rparr>)) = Some (s', q') \<and>
     lseg (st_links S s') None xs m \<and> frame (set xs) s s' \<and>
     lru_head q' = first xs m \<and> lru_tail q' = lru_tail q"
proof (cases xs rule: rev_cases)
  case Nil
  then show ?thesis by (simp add: frame_refl)
next
  case (snoc ys y)
  with assms set_next_segment [of s None ys y n m] obtain s' where "st_set_next S s y m = Some s'"
      "lseg (st_links S s') None xs m" "frame {y} s s'" by auto
  with snoc assms(3) show ?thesis by (auto intro: frame_mono)
qed

lemma detach_after:
  assumes "lseg (st_links S s) p xs None" "distinct xs"
  shows "\<exists>s' q'. (case first xs None of
       Some n \<Rightarrow> map_option (\<lambda>s. (s, q)) (st_set_prev S s n m)
     | None \<Rightarrow> Some (s, q\<lparr>lru_tail := m\<rparr>)) = Some (s', q') \<and>
     lseg (st_links S s') m xs None \<and> frame (set xs) s s' \<and>
     lru_head q' = lru_head q \<and> lru_tail q' = (if xs = [] then m else lru_tail q)"
proof (cases xs)
  case Nil
  then show ?thesis by (simp add: frame_refl)
next
  case (Cons y ys)
  with assms set_prev_segment [of s p y ys None m] obtain s' where "st_set_prev S s y m = Some s'"
      "lseg (st_links S s') m xs None" "frame {y} s s'" by auto
  with Cons show ?thesis by (auto intro: frame_mono)
qed

lemma detach_repr:
  assumes "lru_repr (st_links S s) q (xs @ k # ys)"
  shows "\<exists>s' q'. detach S k s q = Some (s', q') \<and> lru_repr (st_links S s') q' (xs @ ys) \<and>
    frame (set (xs @ ys)) s s'"
proof -
  from assms have dist: "distinct xs" "distinct ys" "k \<notin> set xs" "k \<notin> set ys" "set xs \<inter> set ys = {}"
    and segs: "lseg (st_links S s) None xs (Some k)" "lseg (st_links S s) (Some k) ys None"
    and k: "st_links S s k = Some (final xs None, first ys None)"
    and ends: "lru_head q = first xs (Some k)" "lru_tail q = final ys (Some k)"
    by (auto simp: lru_repr_def)
  from detach_before [OF segs(1) dist(1) ends(1), where m = "first ys None"] obtain s1 q1 where
    one: "(case final xs None of
       Some p \<Rightarrow> map_option (\<lambda>s. (s, q)) (st_set_next S s p (first ys None))
     | None \<Rightarrow> Some (s, q\<lparr>lru_head := first ys None\<rparr>)) = Some (s1, q1)"
    "lseg (st_links S s1) None xs (first ys None)" "frame (set xs) s s1"
    "lru_head q1 = first xs (first ys None)" "lru_tail q1 = lru_tail q" by blast
  have "lseg (st_links S s1) (Some k) ys None" using frame_lseg [OF one(3)] dist(5) segs(2) by simp
  from detach_after [OF this dist(2), where q = q1 and m = "final xs None"] obtain s2 q2 where
    two: "(case first ys None of
       Some n \<Rightarrow> map_option (\<lambda>s. (s, q1)) (st_set_prev S s1 n (final xs None))
     | None \<Rightarrow> Some (s1, q1\<lparr>lru_tail := final xs None\<rparr>)) = Some (s2, q2)"
    "lseg (st_links S s2) (final xs None) ys None" "frame (set ys) s1 s2"
    "lru_head q2 = lru_head q1" "lru_tail q2 = (if ys = [] then final xs None else lru_tail q1)" by blast
  have "lseg (st_links S s2) None xs (first ys None)"
    using frame_lseg [OF two(3)] dist(5) one(2) by (simp add: Int_commute)
  with two one dist ends have "lru_repr (st_links S s2) q2 (xs @ ys)"
    by (auto simp: lru_repr_def final_def)
  moreover have "frame (set (xs @ ys)) s s2"
    using frame_trans [OF frame_mono [OF one(3)] frame_mono [OF two(3)]] by simp
  moreover have "(final xs None \<noteq> None \<or> lru_head q = Some k) \<and> (first ys None \<noteq> None \<or> lru_tail q = Some k)"
    using ends by (cases xs; cases ys) (auto simp: final_def)
  ultimately show ?thesis using k one(1) two(1) by (simp add: detach_def)
qed

lemma unlink_repr:
  assumes "lru_repr (st_links S s) q xs" and "k \<in> set xs"
  shows "\<exists>s' q'. unlink S k s q = Some (s', q') \<and> lru_repr (st_links S s') q' (remove1 k xs) \<and>
    frame (set xs) s s' \<and> st_links S s' k = Some (None, None)"
proof -
  from repr_split [OF assms] obtain as bs where xs: "xs = as @ k # bs" "k \<notin> set as" "k \<notin> set bs"
    by blast
  from detach_repr [OF assms(1) [unfolded xs(1)]] obtain s1 q1 where
    one: "detach S k s q = Some (s1, q1)" "lru_repr (st_links S s1) q1 (as @ bs)" "frame (set (as @ bs)) s s1"
    by blast
  have "st_links S s1 k \<noteq> None"
    using assms one(3) by (auto simp: lru_repr_def frame_def xs)
  from set_links [OF this] obtain s2 where two: "st_set_links S s1 k None None = Some s2"
      "st_links S s2 = (st_links S s1)(k \<mapsto> (None, None))" "payload s2 = payload s1" by blast
  have "frame {k} s1 s2" using frame_update [OF two(2) \<open>st_links S s1 k \<noteq> None\<close> two(3)] by simp
  with one(3) have "frame (set xs) s s2"
    by - (rule frame_trans [OF frame_mono frame_mono], assumption, auto simp: xs)
  moreover have "lru_repr (st_links S s2) q1 (remove1 k xs)"
    using one(2) xs by (simp add: lru_repr_def two(2) remove1_append)
  ultimately show ?thesis using one(1) two by (simp add: unlink_def)
qed

lemma promote_repr:
  assumes "lru_repr (st_links S s) q xs" and "k \<in> set xs"
  shows "\<exists>s' q'. promote S k s q = Some (s', q') \<and> lru_repr (st_links S s') q' (k # remove1 k xs) \<and>
    frame (set xs) s s'"
proof (cases "lru_head q = Some k")
  case True
  with assms have "k # remove1 k xs = xs" by (cases xs) (auto simp: lru_repr_def)
  with True assms(1) show ?thesis by (simp add: promote_def frame_refl)
next
  case False
  from repr_split [OF assms] obtain as bs where xs: "xs = as @ k # bs" "k \<notin> set as" "k \<notin> set bs"
    by blast
  from detach_repr [OF assms(1) [unfolded xs(1)]] obtain s1 q1 where
    one: "detach S k s q = Some (s1, q1)" "lru_repr (st_links S s1) q1 (as @ bs)" "frame (set (as @ bs)) s s1"
    by blast
  have "st_links S s1 k \<noteq> None" "k \<notin> set (as @ bs)"
    using assms one(3) xs by (auto simp: lru_repr_def frame_def)
  from link_as_hot_repr [OF one(2) this(2,1)] obtain s2 q2 where
    two: "link_as_hot S k s1 q1 = Some (s2, q2)" "lru_repr (st_links S s2) q2 (k # as @ bs)"
      "frame (insert k (set (as @ bs))) s1 s2" by blast
  have "frame (set xs) s s2"
    using one(3) two(3) by - (rule frame_trans [OF frame_mono frame_mono], assumption, auto simp: xs)
  with one(1) two False xs show ?thesis by (simp add: promote_def remove1_append)
qed

end

end
