(* ===== verification/Layout_Cache.thy ===== *)
theory Layout_Cache
  imports Lru_Queue "HOL-Library.Finite_Map"
begin

text \<open>
  The paragraph layout cache of the renderer (\<^verbatim>\<open>bmc-render/src/gpu/text/layout_cache.rs\<close>): shaped
  paragraphs by key, bounded in entries and in glyphs, evicted from the cold end of an intrusive
  queue that is threaded through the entries. The lines of a layout are any type; a frame's
  profile, which is only recorded in captures, is left out, and the counters do not wrap.

  The cache is shown to implement a list of keyed layouts, hottest first, of which an insertion
  keeps the longest hot run that fits beside the new one.
\<close>

section \<open>The cache\<close>

definition layout_cache_capacity :: nat where
  "layout_cache_capacity = 448"

definition layout_cache_glyph_capacity :: nat where
  "layout_cache_glyph_capacity = 12 * 1024"

record 'l layout_entry =
  le_lines :: "'l list"
  le_width :: u32
  le_height :: u32
  le_glyph_count :: nat
  le_prev :: "u64 option"
  le_next :: "u64 option"

text \<open>\<open>glyphs\<close> counts the glyphs of a line.\<close>

definition layout_entry_new :: "('l \<Rightarrow> nat) \<Rightarrow> 'l list \<Rightarrow> u32 \<Rightarrow> u32 \<Rightarrow> 'l layout_entry" where
  "layout_entry_new glyphs lines w h =
     \<lparr>le_lines = lines, le_width = w, le_height = h, le_glyph_count = sum_list (map glyphs lines),
      le_prev = None, le_next = None\<rparr>"

type_synonym 'l layout_map = "(u64, 'l layout_entry) fmap"

definition layout_store :: "('l layout_map, u64) lru_store" where
  "layout_store =
     \<lparr>st_links = (\<lambda>m k. map_option (\<lambda>e. (le_prev e, le_next e)) (fmlookup m k)),
      st_set_links = (\<lambda>m k p n.
        map_option (\<lambda>e. fmupd k (e\<lparr>le_prev := p, le_next := n\<rparr>) m) (fmlookup m k)),
      st_set_prev = (\<lambda>m k p. map_option (\<lambda>e. fmupd k (e\<lparr>le_prev := p\<rparr>) m) (fmlookup m k)),
      st_set_next = (\<lambda>m k n. map_option (\<lambda>e. fmupd k (e\<lparr>le_next := n\<rparr>) m) (fmlookup m k))\<rparr>"

record layout_counters =
  lk_hits :: nat
  lk_shapes :: nat
  lk_capacity_evictions :: nat
  lk_peak_entries :: nat

record 'l layout_cache =
  lc_entries :: "'l layout_map"
  lc_lru :: "u64 lru_queue"
  lc_transient :: "'l layout_entry option"
  lc_resident_glyphs :: nat
  lc_counters :: layout_counters
  lc_misses_this_frame :: nat

definition layout_cache_new :: "'l layout_cache" where
  "layout_cache_new =
     \<lparr>lc_entries = fmempty, lc_lru = lru_new, lc_transient = None, lc_resident_glyphs = 0,
      lc_counters = \<lparr>lk_hits = 0, lk_shapes = 0, lk_capacity_evictions = 0, lk_peak_entries = 0\<rparr>,
      lc_misses_this_frame = 0\<rparr>"

definition lc_len :: "'l layout_cache \<Rightarrow> nat" where
  "lc_len c = fcard (fmdom (lc_entries c))"

definition lc_begin_frame :: "'l layout_cache \<Rightarrow> 'l layout_cache" where
  "lc_begin_frame c = c\<lparr>lc_misses_this_frame := 0\<rparr>"

definition record_lookup :: "bool \<Rightarrow> 'l layout_cache \<Rightarrow> 'l layout_cache" where
  "record_lookup hit c =
     (let k = lc_counters c;
          k = (if hit then k\<lparr>lk_hits := lk_hits k + 1\<rparr> else k\<lparr>lk_shapes := lk_shapes k + 1\<rparr>)
      in c\<lparr>lc_counters := k\<lparr>lk_peak_entries := max (lk_peak_entries k) (lc_len c)\<rparr>,
           lc_misses_this_frame := lc_misses_this_frame c + (if hit then 0 else 1)\<rparr>)"

definition remove_resident :: "u64 \<Rightarrow> 'l layout_cache \<Rightarrow> ('l layout_entry \<times> 'l layout_cache) option" where
  "remove_resident k c = do {
     (m, q) \<leftarrow> unlink layout_store k (lc_entries c) (lc_lru c);
     e \<leftarrow> fmlookup m k;
     if le_glyph_count e \<le> lc_resident_glyphs c
     then Some (e, c\<lparr>lc_entries := fmdrop k m, lc_lru := q,
                     lc_resident_glyphs := lc_resident_glyphs c - le_glyph_count e\<rparr>)
     else None
   }"

definition count_eviction :: "'l layout_cache \<Rightarrow> 'l layout_cache" where
  "count_eviction c =
     c\<lparr>lc_counters := (lc_counters c)\<lparr>lk_capacity_evictions := lk_capacity_evictions (lc_counters c) + 1\<rparr>\<rparr>"

lemma store_dom:
  "st_set_links layout_store m k p n = Some m' \<Longrightarrow> fmdom m' = fmdom m"
  "st_set_prev layout_store m k p = Some m' \<Longrightarrow> fmdom m' = fmdom m"
  "st_set_next layout_store m k n = Some m' \<Longrightarrow> fmdom m' = fmdom m"
  by (auto simp: layout_store_def fmlookup_dom_iff)

lemma unlink_dom:
  assumes "unlink layout_store k m q = Some (m', q')"
  shows "fmdom m' = fmdom m"
proof -
  have detach: "fmdom n = fmdom m" if d: "detach layout_store k m q = Some (n, r)" for n r
  proof -
    from d obtain p x where px: "st_links layout_store m k = Some (p, x)"
      by (auto simp: detach_def bind_eq_Some_conv)
    show ?thesis
    proof (cases p; cases x)
      fix a b
      assume "p = Some a" "x = Some b"
      with d px obtain m1 where "st_set_next layout_store m a x = Some m1"
          "st_set_prev layout_store m1 b p = Some n"
        by (auto simp: detach_def bind_eq_Some_conv split: if_splits)
      then show ?thesis using store_dom by metis
    qed (use d px in \<open>auto simp: detach_def bind_eq_Some_conv store_dom split: if_splits\<close>)
  qed
  from assms obtain n r where "detach layout_store k m q = Some (n, r)"
      "st_set_links layout_store n k None None = Some m'"
    by (auto simp: unlink_def bind_eq_Some_conv)
  then show ?thesis using detach store_dom(1) by metis
qed

lemma remove_resident_len: "remove_resident k c = Some (e, c') \<Longrightarrow> lc_len c' < lc_len c"
proof -
  assume "remove_resident k c = Some (e, c')"
  then obtain m q where m: "unlink layout_store k (lc_entries c) (lc_lru c) = Some (m, q)"
      "fmlookup m k = Some e" "lc_entries c' = fmdrop k m"
    by (auto simp: remove_resident_def split: bind_splits if_splits)
  then have "k |\<in>| fmdom (lc_entries c)" "fmdom (lc_entries c') = fmdom (lc_entries c) - {|k|}"
    using unlink_dom [OF m(1)] by (auto intro: fmdomI)
  then show ?thesis unfolding lc_len_def by (metis fcard_fminus1_less)
qed

text \<open>The loop of \<open>evict_for\<close>: it ends because every turn removes an entry.\<close>

function evict_loop :: "nat \<Rightarrow> 'l layout_cache \<Rightarrow> 'l layout_cache option" where
  "evict_loop max_glyphs c =
     (if layout_cache_capacity \<le> lc_len c \<or> max_glyphs < lc_resident_glyphs c then
        (case coldest (lc_lru c) of
           None \<Rightarrow> None
         | Some k \<Rightarrow>
             (case remove_resident k c of
                None \<Rightarrow> None
              | Some (e, c') \<Rightarrow> evict_loop max_glyphs (count_eviction c')))
      else Some c)"
  by pat_completeness auto

termination
  by (relation "measure (\<lambda>(_, c). lc_len c)")
    (auto simp: count_eviction_def lc_len_def dest!: remove_resident_len)

declare evict_loop.simps [simp del]

definition evict_for :: "nat \<Rightarrow> 'l layout_cache \<Rightarrow> 'l layout_cache option" where
  "evict_for incoming c =
     (if incoming \<le> layout_cache_glyph_capacity
      then evict_loop (layout_cache_glyph_capacity - incoming) c else None)"

definition lookup_or_insert ::
  "u64 \<Rightarrow> 'l layout_entry \<Rightarrow> 'l layout_cache \<Rightarrow> ('l layout_entry \<times> 'l layout_cache) option" where
  "lookup_or_insert k entry c =
     (let c = c\<lparr>lc_transient := None\<rparr> in
      if fmlookup (lc_entries c) k \<noteq> None then do {
        (m, q) \<leftarrow> promote layout_store k (lc_entries c) (lc_lru c);
        let c = record_lookup True (c\<lparr>lc_entries := m, lc_lru := q\<rparr>);
        e \<leftarrow> fmlookup (lc_entries c) k;
        Some (e, c)
      }
      else if layout_cache_glyph_capacity < le_glyph_count entry then
        Some (entry, (record_lookup False c)\<lparr>lc_transient := Some entry\<rparr>)
      else do {
        c \<leftarrow> evict_for (le_glyph_count entry) c;
        c \<leftarrow> (if lc_resident_glyphs c + le_glyph_count entry < 2 ^ 32
              then Some (c\<lparr>lc_resident_glyphs := lc_resident_glyphs c + le_glyph_count entry\<rparr>) else None);
        c \<leftarrow> (if fmlookup (lc_entries c) k = None
              then Some (c\<lparr>lc_entries := fmupd k entry (lc_entries c)\<rparr>) else None);
        (m, q) \<leftarrow> push_hot layout_store k (lc_entries c) (lc_lru c);
        let c = record_lookup False (c\<lparr>lc_entries := m, lc_lru := q\<rparr>);
        e \<leftarrow> fmlookup (lc_entries c) k;
        Some (e, c)
      })"

section \<open>The store of the queue\<close>

type_synonym 'l layout = "'l list \<times> u32 \<times> u32 \<times> nat"

definition layout_of :: "'l layout_entry \<Rightarrow> 'l layout" where
  "layout_of e = (le_lines e, le_width e, le_height e, le_glyph_count e)"

definition layouts_of :: "'l layout_map \<Rightarrow> u64 \<Rightarrow> 'l layout option" where
  "layouts_of m k = map_option layout_of (fmlookup m k)"

abbreviation glyphs_of :: "'l layout \<Rightarrow> nat" where
  "glyphs_of v \<equiv> snd (snd (snd v))"

abbreviation "links_of \<equiv> st_links layout_store"

interpretation layout: lru_storage layout_store layouts_of
  by unfold_locales
    (auto simp: layout_store_def layouts_of_def layout_of_def fun_eq_iff split: option.splits)

section \<open>The abstract cache\<close>

text \<open>The longest run of hot layouts with at most \<open>slots\<close> entries and \<open>room\<close> glyphs.\<close>

fun keep_hot :: "nat \<Rightarrow> nat \<Rightarrow> (u64 \<times> 'l layout) list \<Rightarrow> (u64 \<times> 'l layout) list" where
  "keep_hot slots room [] = []"
| "keep_hot slots room ((k, v) # xs) =
     (if slots = 0 \<or> room < glyphs_of v then []
      else (k, v) # keep_hot (slots - 1) (room - glyphs_of v) xs)"

definition spec_lookup ::
  "u64 \<Rightarrow> 'l layout \<Rightarrow> (u64 \<times> 'l layout) list \<Rightarrow> 'l layout \<times> (u64 \<times> 'l layout) list" where
  "spec_lookup k v xs =
     (case map_of xs k of
        Some w \<Rightarrow> (w, (k, w) # filter (\<lambda>x. fst x \<noteq> k) xs)
      | None \<Rightarrow>
          if layout_cache_glyph_capacity < glyphs_of v then (v, xs)
          else (v, (k, v) # keep_hot (layout_cache_capacity - 1)
                              (layout_cache_glyph_capacity - glyphs_of v) xs))"

abbreviation "glyph_total xs \<equiv> (\<Sum>x\<leftarrow>xs. glyphs_of (snd x))"

lemma keep_hot_fits: "length xs \<le> slots \<Longrightarrow> glyph_total xs \<le> room \<Longrightarrow> keep_hot slots room xs = xs"
  by (induction slots room xs rule: keep_hot.induct) auto

lemma keep_hot_drop:
  "slots < length (xs @ [x]) \<or> room < glyph_total (xs @ [x]) \<Longrightarrow>
   keep_hot slots room (xs @ [x]) = keep_hot slots room xs"
proof (induction slots room xs rule: keep_hot.induct)
  case (1 slots room)
  then show ?case by (cases x) auto
next
  case (2 slots room k v xs)
  show ?case
  proof (cases "slots = 0 \<or> room < glyphs_of v")
    case False
    with "2.prems" have "slots - 1 < length (xs @ [x]) \<or> room - glyphs_of v < glyph_total (xs @ [x])"
      by auto
    with False "2.IH" show ?thesis by simp
  qed simp
qed

lemma keep_hot_bounds:
  "length (keep_hot slots room xs) \<le> slots \<and> glyph_total (keep_hot slots room xs) \<le> room \<and>
   (\<exists>ys. xs = keep_hot slots room xs @ ys)"
  by (induction slots room xs rule: keep_hot.induct) auto

section \<open>The cache implements it\<close>

definition cache_repr :: "'l layout_cache \<Rightarrow> (u64 \<times> 'l layout) list \<Rightarrow> bool" where
  "cache_repr c xs \<longleftrightarrow> lru_repr (links_of (lc_entries c)) (lc_lru c) (map fst xs) \<and>
     layouts_of (lc_entries c) = map_of xs \<and> lc_resident_glyphs c = glyph_total xs"

lemma cache_repr_distinct: "cache_repr c xs \<Longrightarrow> distinct (map fst xs)"
  by (simp add: cache_repr_def lru_repr_def)

lemma layouts_dom: "layouts_of m k = None \<longleftrightarrow> fmlookup m k = None"
  by (simp add: layouts_of_def)

lemma links_dom: "links_of m k = None \<longleftrightarrow> fmlookup m k = None"
  by (simp add: layout_store_def)

lemma cache_repr_len: "cache_repr c xs \<Longrightarrow> lc_len c = length xs"
proof -
  assume c: "cache_repr c xs"
  have "k |\<in>| fmdom (lc_entries c) \<longleftrightarrow> k \<in> set (map fst xs)" for k
    using c layouts_dom [of "lc_entries c" k]
    by (auto simp: cache_repr_def fmlookup_dom_iff map_of_eq_None_iff)
  then have "fset (fmdom (lc_entries c)) = set (map fst xs)" by blast
  then show ?thesis
    using distinct_card [OF cache_repr_distinct [OF c]] by (simp add: lc_len_def fcard.rep_eq)
qed

lemma cache_repr_lookup:
  "cache_repr c xs \<Longrightarrow> map_of xs k = Some v \<Longrightarrow> \<exists>e. fmlookup (lc_entries c) k = Some e \<and> layout_of e = v"
  by (metis cache_repr_def layouts_of_def map_option_eq_Some)

lemma remove_coldest:
  assumes "cache_repr c (xs @ [(k, v)])"
  shows "\<exists>e c'. remove_resident k c = Some (e, c') \<and> cache_repr c' xs"
proof -
  let ?m = "lc_entries c"
  from assms have repr: "lru_repr (links_of ?m) (lc_lru c) (map fst xs @ [k])"
      "layouts_of ?m = map_of (xs @ [(k, v)])" "lc_resident_glyphs c = glyph_total xs + glyphs_of v"
    by (simp_all add: cache_repr_def)
  have dist: "k \<notin> fst ` set xs" using cache_repr_distinct [OF assms] by auto
  from layout.unlink_repr [OF repr(1), of k] obtain m q where m:
      "unlink layout_store k ?m (lc_lru c) = Some (m, q)"
      "lru_repr (links_of m) q (map fst xs)" "layout.frame (set (map fst xs @ [k])) ?m m"
    using dist by (auto simp: remove1_append)
  then have lay: "layouts_of m = map_of (xs @ [(k, v)])" using repr(2) by (simp add: layout.frame_def)
  moreover have "map_of xs k = None" using dist by (simp add: map_of_eq_None_iff)
  ultimately have "layouts_of m k = Some v" by (simp add: map_add_def)
  then obtain e where e: "fmlookup m k = Some e" "layout_of e = v" by (auto simp: layouts_of_def)
  let ?c = "c\<lparr>lc_entries := fmdrop k m, lc_lru := q, lc_resident_glyphs := glyph_total xs\<rparr>"
  have g: "le_glyph_count e = glyphs_of v" using e(2) by (auto simp: layout_of_def)
  have "lru_repr (links_of (fmdrop k m)) q (map fst xs)"
    using dist by (intro lru_repr_frame [OF m(2)]) (auto simp: layout_store_def)
  moreover have "layouts_of (fmdrop k m) = map_of xs"
  proof (rule ext)
    fix j
    show "layouts_of (fmdrop k m) j = map_of xs j"
    proof (cases "j = k")
      case True
      have "map_of xs k = None" using dist by (simp add: map_of_eq_None_iff)
      with True show ?thesis by (simp add: layouts_of_def)
    next
      case False
      with fun_cong [OF lay, of j] show ?thesis by (simp add: layouts_of_def map_add_def split: option.splits)
    qed
  qed
  ultimately have "cache_repr ?c xs" by (simp add: cache_repr_def)
  with m(1) e(1) g repr(3) show ?thesis by (auto simp: remove_resident_def)
qed

lemma evict_loop_repr:
  "cache_repr c xs \<Longrightarrow> \<exists>c'. evict_loop room c = Some c' \<and>
     cache_repr c' (keep_hot (layout_cache_capacity - 1) room xs)"
proof (induction xs arbitrary: c rule: rev_induct)
  case Nil
  then have "lc_len c = 0" "lc_resident_glyphs c = 0"
    using cache_repr_len [OF Nil] by (simp_all add: cache_repr_def)
  with Nil show ?case by (auto simp: evict_loop.simps layout_cache_capacity_def)
next
  case (snoc x xs)
  obtain k v where x: "x = (k, v)" by (cases x)
  have len: "lc_len c = length (xs @ [x])" "lc_resident_glyphs c = glyph_total (xs @ [x])"
    using snoc.prems cache_repr_len [OF snoc.prems] by (simp_all add: cache_repr_def)
  show ?case
  proof (cases "layout_cache_capacity \<le> lc_len c \<or> room < lc_resident_glyphs c")
    case True
    from remove_coldest snoc.prems x obtain e c' where c': "remove_resident k c = Some (e, c')"
        "cache_repr c' xs" by blast
    from snoc.IH [of "count_eviction c'"] c'(2) obtain c2 where
      "evict_loop room (count_eviction c') = Some c2"
      "cache_repr c2 (keep_hot (layout_cache_capacity - 1) room xs)"
      by (auto simp: cache_repr_def count_eviction_def)
    moreover have "coldest (lc_lru c) = Some k"
      using snoc.prems by (simp add: cache_repr_def lru_repr_def coldest_def x)
    moreover have "layout_cache_capacity - 1 < length (xs @ [x]) \<or> room < glyph_total (xs @ [x])"
      using True len by (auto simp: layout_cache_capacity_def)
    ultimately show ?thesis
      using True c'(1) keep_hot_drop [of "layout_cache_capacity - 1" xs x room]
      by (subst evict_loop.simps) simp
  next
    case False
    with len have "keep_hot (layout_cache_capacity - 1) room (xs @ [x]) = xs @ [x]"
      by (intro keep_hot_fits) auto
    with False snoc.prems show ?thesis by (subst evict_loop.simps) simp
  qed
qed

text \<open>A hit moves the entry to the hot end; a miss inserts one there.\<close>

lemma cache_repr_record: "cache_repr (record_lookup b c) xs = cache_repr c xs"
  by (simp add: cache_repr_def record_lookup_def Let_def)

lemma entries_record [simp]: "lc_entries (record_lookup b c) = lc_entries c"
  by (simp add: record_lookup_def Let_def)

lemma map_of_other_key: "j \<noteq> k \<Longrightarrow> map_of (filter (\<lambda>x. fst x \<noteq> k) xs) j = map_of xs j"
  by (induction xs) auto

lemma other_keys: "k \<notin> fst ` set xs \<Longrightarrow> filter (\<lambda>x. fst x \<noteq> k) xs = xs"
  by (auto simp: filter_id_conv)

lemma glyph_total_remove:
  "distinct (map fst xs) \<Longrightarrow> map_of xs k = Some w \<Longrightarrow>
   glyph_total ((k, w) # filter (\<lambda>x. fst x \<noteq> k) xs) = glyph_total xs \<and>
   length ((k, w) # filter (\<lambda>x. fst x \<noteq> k) xs) = length xs"
proof (induction xs)
  case (Cons x xs)
  then show ?case by (cases "fst x = k") (auto simp: other_keys)
qed simp

lemma lookup_hit:
  assumes c: "cache_repr c xs" and k: "map_of xs k = Some w"
  shows "\<exists>e c'. lookup_or_insert k entry c = Some (e, c') \<and> layout_of e = w \<and>
    cache_repr c' ((k, w) # filter (\<lambda>x. fst x \<noteq> k) xs)"
proof -
  let ?m = "lc_entries c"
  have in_xs: "k \<in> set (map fst xs)" using k by (force dest: map_of_SomeD)
  from c have repr: "lru_repr (links_of ?m) (lc_lru c) (map fst xs)" "layouts_of ?m = map_of xs"
      "lc_resident_glyphs c = glyph_total xs" by (simp_all add: cache_repr_def)
  from layout.promote_repr [OF repr(1) in_xs] obtain m q where m:
      "promote layout_store k ?m (lc_lru c) = Some (m, q)"
      "lru_repr (links_of m) q (k # remove1 k (map fst xs))" "layout.frame (set (map fst xs)) ?m m" by blast
  then have lay: "layouts_of m = map_of xs" using repr(2) by (simp add: layout.frame_def)
  have rest: "remove1 k (map fst xs) = map fst (filter (\<lambda>x. fst x \<noteq> k) xs)"
    using cache_repr_distinct [OF c]
    by (auto simp: distinct_remove1_removeAll removeAll_filter_not_eq filter_map
        intro!: arg_cong [where f = "map fst"] filter_cong)
  have map: "map_of ((k, w) # filter (\<lambda>x. fst x \<noteq> k) xs) = map_of xs"
    using k by (simp add: fun_eq_iff map_of_other_key)
  have total: "glyph_total ((k, w) # filter (\<lambda>x. fst x \<noteq> k) xs) = glyph_total xs"
    using glyph_total_remove [OF cache_repr_distinct [OF c] k] by simp
  let ?c = "c\<lparr>lc_transient := None, lc_entries := m, lc_lru := q\<rparr>"
  have repr': "cache_repr ?c ((k, w) # filter (\<lambda>x. fst x \<noteq> k) xs)"
    using m(2) lay map total repr(3) by (simp add: cache_repr_def rest)
  moreover from cache_repr_lookup [OF repr', of k w] obtain e where "fmlookup m k = Some e" "layout_of e = w"
    by auto
  moreover have "fmlookup ?m k \<noteq> None" using cache_repr_lookup [OF c k] by auto
  ultimately show ?thesis
    using m(1) by (auto simp: lookup_or_insert_def cache_repr_record)
qed

lemma lookup_miss:
  assumes c: "cache_repr c xs" and k: "map_of xs k = None"
    and fits: "le_glyph_count entry \<le> layout_cache_glyph_capacity" and fresh: "le_prev entry = None" "le_next entry = None"
  shows "\<exists>e c'. lookup_or_insert k entry c = Some (e, c') \<and> layout_of e = layout_of entry \<and>
    cache_repr c' ((k, layout_of entry) # keep_hot (layout_cache_capacity - 1)
      (layout_cache_glyph_capacity - le_glyph_count entry) xs)"
proof -
  let ?g = "le_glyph_count entry"
  let ?ys = "keep_hot (layout_cache_capacity - 1) (layout_cache_glyph_capacity - ?g) xs"
  have c0: "cache_repr (c\<lparr>lc_transient := None\<rparr>) xs" using c by (simp add: cache_repr_def)
  from evict_loop_repr [OF this] obtain c1 where c1: "evict_for ?g (c\<lparr>lc_transient := None\<rparr>) = Some c1"
      "cache_repr c1 ?ys" using fits by (auto simp: evict_for_def)
  obtain zs where zs: "xs = ?ys @ zs" using keep_hot_bounds by blast
  have "map_of ?ys k = None" using k by (subst (asm) zs) (auto simp: map_add_def split: option.splits)
  then have absent: "fmlookup (lc_entries c1) k = None" "k \<notin> set (map fst ?ys)"
    using c1(2) layouts_dom [of "lc_entries c1" k] by (auto simp: cache_repr_def map_of_eq_None_iff)
  let ?m = "fmupd k entry (lc_entries c1)"
  have "lru_repr (links_of ?m) (lc_lru c1) (map fst ?ys)"
    using c1(2) absent(2) unfolding cache_repr_def
    by (elim conjE lru_repr_frame) (auto simp: layout_store_def)
  moreover have "links_of ?m k = Some (None, None)" using fresh by (simp add: layout_store_def)
  ultimately obtain m q where m: "push_hot layout_store k ?m (lc_lru c1) = Some (m, q)"
      "lru_repr (links_of m) q (k # map fst ?ys)" "layouts_of m = layouts_of ?m"
    using layout.push_hot_repr [OF _ absent(2)] by (fastforce simp: layout.frame_def)
  have lay: "layouts_of m = map_of ((k, layout_of entry) # ?ys)"
    using c1(2) unfolding m(3) by (auto simp: cache_repr_def layouts_of_def fun_eq_iff)
  have room: "glyph_total ?ys \<le> layout_cache_glyph_capacity - ?g" using keep_hot_bounds by blast
  let ?c = "c1\<lparr>lc_resident_glyphs := lc_resident_glyphs c1 + ?g, lc_entries := m, lc_lru := q\<rparr>"
  have repr: "cache_repr ?c ((k, layout_of entry) # ?ys)"
    using m(2) lay c1(2) by (simp add: cache_repr_def layout_of_def)
  then obtain e where e: "fmlookup m k = Some e" "layout_of e = layout_of entry"
    using cache_repr_lookup [OF repr, of k "layout_of entry"] by auto
  have small: "lc_resident_glyphs c1 + ?g < 2 ^ 32"
    using room c1(2) fits by (simp add: cache_repr_def layout_cache_glyph_capacity_def)
  have miss: "fmlookup (lc_entries c) k = None"
    using c k layouts_dom [of "lc_entries c" k] by (simp add: cache_repr_def)
  show ?thesis
    using c1(1) absent(1) m(1) e repr small miss fits
    by (auto simp: lookup_or_insert_def cache_repr_record)
qed

text \<open>A layout too large to be resident is handed out once and leaves the resident ones alone.\<close>

lemma lookup_oversized:
  assumes c: "cache_repr c xs" and k: "map_of xs k = None"
    and large: "layout_cache_glyph_capacity < le_glyph_count entry"
  shows "\<exists>c'. lookup_or_insert k entry c = Some (entry, c') \<and> cache_repr c' xs"
proof -
  have "fmlookup (lc_entries c) k = None"
    using c k layouts_dom [of "lc_entries c" k] by (simp add: cache_repr_def)
  moreover have "cache_repr (record_lookup False (c\<lparr>lc_transient := None\<rparr>)\<lparr>lc_transient := Some entry\<rparr>) xs"
    using c by (simp add: cache_repr_def record_lookup_def Let_def)
  ultimately show ?thesis using large by (simp add: lookup_or_insert_def)
qed

lemma lookup_refines:
  assumes c: "cache_repr c xs" and fresh: "le_prev entry = None" "le_next entry = None"
    and spec: "spec_lookup k (layout_of entry) xs = (w, ys)"
  shows "\<exists>e c'. lookup_or_insert k entry c = Some (e, c') \<and> layout_of e = w \<and> cache_repr c' ys"
proof (cases "map_of xs k")
  case None
  have g: "glyphs_of (layout_of entry) = le_glyph_count entry" by (simp add: layout_of_def)
  show ?thesis
  proof (cases "layout_cache_glyph_capacity < le_glyph_count entry")
    case True
    with lookup_oversized [OF c None True] spec None g show ?thesis by (auto simp: spec_lookup_def)
  next
    case False
    with lookup_miss [OF c None _ fresh] spec None g show ?thesis by (auto simp: spec_lookup_def)
  qed
next
  case (Some v)
  with lookup_hit [OF c Some, of entry] spec show ?thesis by (auto simp: spec_lookup_def)
qed

section \<open>Runs of lookups\<close>

text \<open>A lookup gives the key and the shaped paragraph that \<open>make_entry\<close> would build.\<close>

type_synonym 'l request = "u64 \<times> 'l list \<times> u32 \<times> u32"

fun run_lookups :: "('l \<Rightarrow> nat) \<Rightarrow> 'l request list \<Rightarrow> 'l layout_cache \<Rightarrow>
    ('l layout list \<times> 'l layout_cache) option" where
  "run_lookups glyphs [] c = Some ([], c)"
| "run_lookups glyphs ((k, lines, w, h) # rs) c = do {
     (e, c) \<leftarrow> lookup_or_insert k (layout_entry_new glyphs lines w h) c;
     (es, c) \<leftarrow> run_lookups glyphs rs c;
     Some (layout_of e # es, c)
   }"

fun spec_run :: "('l \<Rightarrow> nat) \<Rightarrow> 'l request list \<Rightarrow> (u64 \<times> 'l layout) list \<Rightarrow>
    'l layout list \<times> (u64 \<times> 'l layout) list" where
  "spec_run glyphs [] xs = ([], xs)"
| "spec_run glyphs ((k, lines, w, h) # rs) xs =
     (let (v, ys) = spec_lookup k (lines, w, h, sum_list (map glyphs lines)) xs;
          (vs, zs) = spec_run glyphs rs ys
      in (v # vs, zs))"

text \<open>The resident layouts, read from the hot end along the links.\<close>

definition contents :: "'l layout_cache \<Rightarrow> (u64 \<times> 'l layout) list" where
  "contents c = map (\<lambda>k. (k, the (layouts_of (lc_entries c) k)))
     (hot_to_cold (lc_len c) (links_of (lc_entries c)) (lru_head (lc_lru c)))"

lemma contents_repr:
  assumes "cache_repr c xs"
  shows "contents c = xs"
proof -
  have "hot_to_cold (lc_len c) (links_of (lc_entries c)) (lru_head (lc_lru c)) = map fst xs"
    using assms cache_repr_len [OF assms] by (intro hot_to_cold_repr) (simp_all add: cache_repr_def)
  moreover have "the (layouts_of (lc_entries c) (fst x)) = snd x" if "x \<in> set xs" for x
    using assms map_of_is_SomeI [OF cache_repr_distinct [OF assms], of "fst x" "snd x"] that
    by (cases x) (simp add: cache_repr_def)
  ultimately show ?thesis by (simp add: contents_def map_idI)
qed

definition within_limits :: "(u64 \<times> 'l layout) list \<Rightarrow> bool" where
  "within_limits xs \<longleftrightarrow> length xs \<le> layout_cache_capacity \<and> glyph_total xs \<le> layout_cache_glyph_capacity"

lemma spec_lookup_limits:
  assumes "within_limits xs" and "distinct (map fst xs)" and "spec_lookup k v xs = (w, ys)"
  shows "within_limits ys"
proof (cases "map_of xs k")
  case None
  with assms keep_hot_bounds [of "layout_cache_capacity - 1" "layout_cache_glyph_capacity - glyphs_of v" xs]
  show ?thesis
    by (auto simp: spec_lookup_def within_limits_def layout_cache_capacity_def split: if_splits)
next
  case (Some u)
  with assms glyph_total_remove [of xs k u] show ?thesis
    by (auto simp: spec_lookup_def within_limits_def)
qed

lemma run_refines:
  "cache_repr c xs \<Longrightarrow> within_limits xs \<Longrightarrow> spec_run glyphs rs xs = (vs, ys) \<Longrightarrow>
   \<exists>c'. run_lookups glyphs rs c = Some (vs, c') \<and> cache_repr c' ys \<and> within_limits ys"
proof (induction glyphs rs xs arbitrary: c vs rule: spec_run.induct)
  case (1 glyphs xs)
  then show ?case by simp
next
  case (2 glyphs k lines w h rs xs)
  let ?e = "layout_entry_new glyphs lines w h"
  have e: "layout_of ?e = (lines, w, h, sum_list (map glyphs lines))" "le_prev ?e = None" "le_next ?e = None"
    by (simp_all add: layout_entry_new_def layout_of_def)
  obtain v zs where v: "spec_lookup k (layout_of ?e) xs = (v, zs)" by fastforce
  with 2(4) e(1) obtain vs' where vs: "spec_run glyphs rs zs = (vs', ys)" "vs = v # vs'"
    by (auto split: prod.splits)
  from lookup_refines [OF 2(2) e(2,3) v] obtain a c' where a: "lookup_or_insert k ?e c = Some (a, c')"
      "layout_of a = v" "cache_repr c' zs" by blast
  have "within_limits zs" by (rule spec_lookup_limits [OF 2(3) cache_repr_distinct [OF 2(2)] v])
  from "2.IH" [OF v [unfolded e(1), symmetric] refl a(3) this vs(1)] a(1,2) vs(2) show ?case by auto
qed

text \<open>C3. A new cache refines the abstract one: every sequence of lookups returns, without a panic of an
  expectation or of a debug assertion, hands out the layouts the abstract cache hands out, and
  leaves the same resident layouts in the same order, within both limits.\<close>

theorem layout_cache_refines_lru:
  "\<exists>c. run_lookups glyphs rs layout_cache_new = Some (fst (spec_run glyphs rs []), c) \<and>
     contents c = snd (spec_run glyphs rs []) \<and>
     lc_len c \<le> layout_cache_capacity \<and>
     lc_resident_glyphs c = glyph_total (contents c) \<and>
     lc_resident_glyphs c \<le> layout_cache_glyph_capacity"
proof -
  have "cache_repr layout_cache_new []"
    by (simp add: cache_repr_def layout_cache_new_def lru_repr_new layouts_of_def fun_eq_iff)
  moreover have "within_limits []" by (simp add: within_limits_def)
  ultimately obtain c where c: "run_lookups glyphs rs layout_cache_new = Some (fst (spec_run glyphs rs []), c)"
      "cache_repr c (snd (spec_run glyphs rs []))" "within_limits (snd (spec_run glyphs rs []))"
    using run_refines [OF _ _ surjective_pairing] by blast
  with contents_repr [OF c(2)] cache_repr_len [OF c(2)] show ?thesis
    by (auto simp: within_limits_def cache_repr_def)
qed

end
