(* ===== verification/Pkg_Data.thy ===== *)
theory Pkg_Data
  imports Prelude
begin

text \<open>
  The data of the package manager (\<^verbatim>\<open>bmc-nix/src/types.rs\<close>): package indexes as servers publish them, the
  merged index, manifests of profile generations and upgrade plans. A string is its UTF-8 bytes, so
  that the order on strings is the one of Rust. A metadata value is any type.

  A \<open>BTreeMap\<close> whose iteration order the code observes is an association list that is sorted by
  its keys; the operations below keep it so.
\<close>

section \<open>Sorted association lists\<close>

fun btree_insert :: "'k::linorder \<Rightarrow> 'v \<Rightarrow> ('k \<times> 'v) list \<Rightarrow> ('k \<times> 'v) list" where
  "btree_insert k v [] = [(k, v)]"
| "btree_insert k v ((j, w) # xs) =
     (if k < j then (k, v) # (j, w) # xs
      else if k = j then (k, v) # xs
      else (j, w) # btree_insert k v xs)"

definition btree_of :: "('k::linorder \<times> 'v) list \<Rightarrow> ('k \<times> 'v) list" where
  "btree_of xs = fold (\<lambda>(k, v). btree_insert k v) xs []"

abbreviation btree :: "('k::linorder \<times> 'v) list \<Rightarrow> bool" where
  "btree xs \<equiv> sorted_wrt (<) (map fst xs)"

lemma keys_btree_insert [simp]: "fst ` set (btree_insert k v xs) = insert k (fst ` set xs)"
  by (induction k v xs rule: btree_insert.induct) auto

lemma btree_insert [simp]: "btree xs \<Longrightarrow> btree (btree_insert k v xs)"
proof (induction k v xs rule: btree_insert.induct)
  case (2 k v j w xs)
  then show ?case using keys_btree_insert [of k v xs] by (auto simp del: keys_btree_insert)
qed simp

lemma map_of_btree_insert [simp]: "map_of (btree_insert k v xs) = (map_of xs)(k \<mapsto> v)"
  by (induction k v xs rule: btree_insert.induct) auto

lemma btree_distinct: "btree xs \<Longrightarrow> distinct (map fst xs)"
  by (simp add: strict_sorted_iff)

lemma btree_mem: "btree xs \<Longrightarrow> (k, v) \<in> set xs \<longleftrightarrow> map_of xs k = Some v"
  using btree_distinct by (metis map_of_eq_Some_iff)

lemma btree_eqI:
  assumes "btree xs" "btree ys" "map_of xs = map_of ys"
  shows "xs = ys"
proof -
  have eq: "set xs = set ys" using assms by (metis btree_mem set_eqI surj_pair)
  then have "inj_on fst (set xs \<union> set ys)"
    using btree_distinct [OF assms(1)] by (simp add: distinct_map)
  then show ?thesis
    using assms(1,2) eq by (intro map_sorted_distinct_set_unique [of fst]) (simp_all add: strict_sorted_iff)
qed

lemma btree_of_append: "btree_of (xs @ ys) = fold (\<lambda>(k, v). btree_insert k v) ys (btree_of xs)"
  by (simp add: btree_of_def)

lemma btree_btree_of [simp]: "btree (btree_of xs)"
proof (induction xs rule: rev_induct)
  case Nil
  then show ?case by (simp add: btree_of_def)
next
  case (snoc x xs)
  then show ?case by (cases x) (simp add: btree_of_append)
qed

lemma map_of_btree_of: "map_of (btree_of xs) = map_of (rev xs)"
proof (induction xs rule: rev_induct)
  case Nil
  then show ?case by (simp add: btree_of_def)
next
  case (snoc x xs)
  then show ?case by (cases x) (simp add: btree_of_append)
qed

section \<open>Packages\<close>

datatype upgrade_strategy = UpgradeReboot | UpgradeUnknown
datatype install_strategy = InstallReboot | InstallUnknown
datatype installed_by = BySystem | ByUser

type_synonym 'j metadata = "(string \<times> 'j) list"

record cache_entry =
  ce_name :: string
  ce_cache_url :: string
  ce_cache_key :: string

record 'j package_entry =
  pe_name :: string
  pe_version :: string
  pe_cache :: "string option"
  pe_store_path :: string
  pe_category :: "string option"
  pe_description :: "string option"
  pe_upgrade_strategy :: "upgrade_strategy option"
  pe_install_strategy :: "install_strategy option"
  pe_metadata :: "'j metadata"

record 'j package_index =
  pi_version :: u32
  pi_provenance :: "string option"
  pi_indexes :: "string list"
  pi_caches :: "cache_entry list"
  pi_packages :: "'j package_entry list"

record 'j resolved_package =
  rp_name :: string
  rp_version :: string
  rp_store_path :: string
  rp_category :: "string option"
  rp_description :: "string option"
  rp_upgrade_strategy :: "upgrade_strategy option"
  rp_install_strategy :: "install_strategy option"
  rp_installed_by :: installed_by
  rp_installed_from :: string
  rp_pinned :: "string option"
  rp_metadata :: "'j metadata"

record manifest_package =
  mp_version :: string
  mp_store_path :: string
  mp_category :: "string option"
  mp_description :: "string option"
  mp_upgrade_strategy :: "upgrade_strategy option"
  mp_install_strategy :: "install_strategy option"
  mp_installed_by :: installed_by
  mp_installed_from :: string
  mp_pinned :: "string option"

type_synonym manifest = "(string \<times> manifest_package) list"

record 'j fetched_index =
  fi_server_id :: string
  fi_server_priority :: u32
  fi_index :: "'j package_index"

record ('v, 'j) merged_entry =
  me_name :: string
  me_version :: 'v
  me_store_path :: string
  me_category :: "string option"
  me_description :: "string option"
  me_upgrade_strategy :: "upgrade_strategy option"
  me_install_strategy :: "install_strategy option"
  me_server_id :: string
  me_server_priority :: u32
  me_metadata :: "'j metadata"

record ('v, 'j) merged_index =
  mi_packages :: "('v, 'j) merged_entry list"
  mi_by_name :: "string \<Rightarrow> nat list option"

record package_change =
  pc_name :: string
  pc_from_version :: string
  pc_to_version :: string
  pc_from_store_path :: string
  pc_to_store_path :: string

type_synonym package_version = "string \<times> string"

record 'j upgrade_plan =
  up_packages :: "'j resolved_package list"
  up_added :: "package_version list"
  up_removed :: "package_version list"
  up_changed :: "package_change list"
  up_stale :: "package_version list"

section \<open>Versions\<close>

text \<open>The crate \<open>semver\<close>: versions of a linearly ordered type with their parser and printer, and
  version requirements.\<close>

record ('v, 'r) semver =
  sv_parse :: "string \<Rightarrow> 'v option"
  sv_show :: "'v \<Rightarrow> string"
  sv_parse_req :: "string \<Rightarrow> 'r option"
  sv_matches :: "'r \<Rightarrow> 'v \<Rightarrow> bool"

end
