(* ===== verification/Pkg_Index.thy ===== *)
theory Pkg_Index
  imports Pkg_Data "HOL-Library.Monad_Syntax"
begin

text \<open>
  Merging indexes and resolving packages against them (\<^verbatim>\<open>bmc-nix/src/index.rs\<close>, from
  \<open>parse_package_version\<close> on). An access out of range, which would panic, is the outer \<open>None\<close>; it
  is shown never to happen in an index that \<open>merge_indexes\<close> builds. The lemmas characterise the
  candidate that is picked as the best one of a scope of entries.
\<close>

section \<open>Versions\<close>

fun split_on :: "char \<Rightarrow> string \<Rightarrow> string list" where
  "split_on c [] = [[]]"
| "split_on c (x # xs) =
     (if x = c then [] # split_on c xs
      else (case split_on c xs of p # ps \<Rightarrow> (x # p) # ps | [] \<Rightarrow> [[x]]))"

fun join_with :: "string \<Rightarrow> string list \<Rightarrow> string" where
  "join_with sep [] = []"
| "join_with sep [p] = p"
| "join_with sep (p # q # ps) = p @ sep @ join_with sep (q # ps)"

definition is_suffix_start :: "char \<Rightarrow> bool" where
  "is_suffix_start c \<longleftrightarrow> c = CHR ''-'' \<or> c = CHR ''+''"

definition parse_package_version :: "('v, 'r) semver \<Rightarrow> string \<Rightarrow> 'v option" where
  "parse_package_version sv raw =
     (case sv_parse sv raw of
        Some v \<Rightarrow> Some v
      | None \<Rightarrow>
          let core = takeWhile (\<lambda>c. \<not> is_suffix_start c) raw;
              suffix = dropWhile (\<lambda>c. \<not> is_suffix_start c) raw
          in if core = [] then None
             else let parts = split_on (CHR ''.'') core in
               if length parts \<ge> 3 then None
               else sv_parse sv (join_with ''.'' (parts @ replicate (3 - length parts) ''0'') @ suffix))"

datatype ('v, 'r) version_constraint = Exact 'v | Range 'r

datatype resolve_error =
    PackageNotFound string
  | VersionNotFound string string
  | InvalidVersionConstraint string
  | Ambiguous string

definition constraint_parse :: "('v, 'r) semver \<Rightarrow> string \<Rightarrow> resolve_error + ('v, 'r) version_constraint" where
  "constraint_parse sv s =
     (case sv_parse sv s of
        Some v \<Rightarrow> Inr (Exact v)
      | None \<Rightarrow> (case sv_parse_req sv s of Some r \<Rightarrow> Inr (Range r) | None \<Rightarrow> Inl (InvalidVersionConstraint s)))"

fun constraint_matches :: "('v, 'r) semver \<Rightarrow> ('v, 'r) version_constraint \<Rightarrow> 'v \<Rightarrow> bool" where
  "constraint_matches sv (Exact e) v = (v = e)"
| "constraint_matches sv (Range r) v = sv_matches sv r v"

section \<open>Merging\<close>

definition to_merged :: "string \<Rightarrow> u32 \<Rightarrow> 'v \<Rightarrow> 'j package_entry \<Rightarrow> ('v, 'j) merged_entry" where
  "to_merged sid prio v e =
     \<lparr>me_name = pe_name e, me_version = v, me_store_path = pe_store_path e,
      me_category = pe_category e, me_description = pe_description e,
      me_upgrade_strategy = pe_upgrade_strategy e, me_install_strategy = pe_install_strategy e,
      me_server_id = sid, me_server_priority = prio, me_metadata = pe_metadata e\<rparr>"

definition merge_entry ::
  "('v, 'r) semver \<Rightarrow> string \<Rightarrow> u32 \<Rightarrow> 'j package_entry \<Rightarrow> ('v, 'j) merged_index \<Rightarrow> ('v, 'j) merged_index" where
  "merge_entry sv sid prio e m =
     (case parse_package_version sv (pe_version e) of
        None \<Rightarrow> m
      | Some v \<Rightarrow>
          let i = length (mi_packages m) in
          m\<lparr>mi_packages := mi_packages m @ [to_merged sid prio v e],
            mi_by_name := (mi_by_name m)(pe_name e \<mapsto>
              (case mi_by_name m (pe_name e) of None \<Rightarrow> [i] | Some is \<Rightarrow> is @ [i]))\<rparr>)"

definition merge_fetched ::
  "('v, 'r) semver \<Rightarrow> 'j fetched_index \<Rightarrow> ('v, 'j) merged_index \<Rightarrow> ('v, 'j) merged_index" where
  "merge_fetched sv f m =
     fold (merge_entry sv (fi_server_id f) (fi_server_priority f)) (pi_packages (fi_index f)) m"

definition merge_indexes :: "('v, 'r) semver \<Rightarrow> 'j fetched_index list \<Rightarrow> ('v, 'j) merged_index" where
  "merge_indexes sv fs =
     fold (merge_fetched sv) fs \<lparr>mi_packages = [], mi_by_name = (\<lambda>_. None)\<rparr>"

section \<open>Resolving\<close>

text \<open>\<open>sort_by\<close> of the standard library is stable.\<close>

fun insert_by :: "('a \<Rightarrow> 'a \<Rightarrow> bool) \<Rightarrow> 'a \<Rightarrow> 'a list \<Rightarrow> 'a list" where
  "insert_by le x [] = [x]"
| "insert_by le x (y # ys) = (if le x y then x # y # ys else y # insert_by le x ys)"

definition sort_by :: "('a \<Rightarrow> 'a \<Rightarrow> bool) \<Rightarrow> 'a list \<Rightarrow> 'a list" where
  "sort_by le xs = foldr (insert_by le) xs []"

definition better :: "('v::linorder, 'j) merged_entry \<Rightarrow> ('v, 'j) merged_entry \<Rightarrow> bool" where
  "better a b \<longleftrightarrow> me_version b < me_version a \<or>
     (me_version a = me_version b \<and> me_server_priority a \<le> me_server_priority b)"

definition merged_entry_to_resolved ::
  "('v, 'r) semver \<Rightarrow> ('v, 'j) merged_entry \<Rightarrow> installed_by \<Rightarrow> string option \<Rightarrow> 'j resolved_package" where
  "merged_entry_to_resolved sv e installed_by pinned =
     \<lparr>rp_name = me_name e, rp_version = sv_show sv (me_version e), rp_store_path = me_store_path e,
      rp_category = me_category e, rp_description = me_description e,
      rp_upgrade_strategy = me_upgrade_strategy e, rp_install_strategy = me_install_strategy e,
      rp_installed_by = installed_by, rp_installed_from = me_server_id e, rp_pinned = pinned,
      rp_metadata = me_metadata e\<rparr>"

definition pick_best_candidate ::
  "('v::linorder, 'r) semver \<Rightarrow> string \<Rightarrow> ('v, 'j) merged_entry list \<Rightarrow> installed_by \<Rightarrow> string option \<Rightarrow>
     resolve_error + 'j resolved_package" where
  "pick_best_candidate sv name candidates installed_by pinned =
     (case sort_by better candidates of
        [] \<Rightarrow> Inl (VersionNotFound name ''no candidates available'')
      | best # rest \<Rightarrow>
          if (\<exists>e \<in> set (takeWhile (\<lambda>e. me_version e = me_version best \<and>
                me_server_priority e = me_server_priority best) rest). me_store_path e \<noteq> me_store_path best)
          then Inl (Ambiguous name)
          else Inr (merged_entry_to_resolved sv best installed_by pinned))"

text \<open>The entries of a name, or the panic of an index out of range.\<close>

definition entries_of :: "('v, 'j) merged_index \<Rightarrow> nat list \<Rightarrow> ('v, 'j) merged_entry list option" where
  "entries_of m is = those (map (get (mi_packages m)) is)"

definition resolve_new_package ::
  "('v::linorder, 'r) semver \<Rightarrow> ('v, 'j) merged_index \<Rightarrow> string \<Rightarrow> string option \<Rightarrow> installed_by \<Rightarrow>
     (resolve_error + 'j resolved_package) option" where
  "resolve_new_package sv m name version installed_by =
     (case mi_by_name m name of
        None \<Rightarrow> Some (Inl (PackageNotFound name))
      | Some is \<Rightarrow> do {
          candidates \<leftarrow> entries_of m is;
          Some (case version of
             None \<Rightarrow> pick_best_candidate sv name candidates installed_by None
           | Some s \<Rightarrow>
               (case constraint_parse sv s of
                  Inl e \<Rightarrow> Inl e
                | Inr c \<Rightarrow>
                    let kept = filter (\<lambda>e. constraint_matches sv c (me_version e)) candidates in
                    if kept = [] then Inl (VersionNotFound name s)
                    else pick_best_candidate sv name kept installed_by None))
        })"

definition star_or :: "string option \<Rightarrow> string" where
  "star_or p = (case p of None \<Rightarrow> ''*'' | Some s \<Rightarrow> s)"

definition resolve_installed_package ::
  "('v::linorder, 'r) semver \<Rightarrow> ('v, 'j) merged_index \<Rightarrow> string \<Rightarrow> manifest_package \<Rightarrow>
     (resolve_error + 'j resolved_package) option" where
  "resolve_installed_package sv m name cur =
     (case mi_by_name m name of
        None \<Rightarrow> Some (Inl (PackageNotFound name))
      | Some is \<Rightarrow> do {
          all_entries \<leftarrow> entries_of m is;
          Some (case (case mp_pinned cur of
                        None \<Rightarrow> Inr None
                      | Some s \<Rightarrow> map_sum id Some (constraint_parse sv s)) of
             Inl e \<Rightarrow> Inl e
           | Inr constraint \<Rightarrow>
               let origin = filter (\<lambda>e. me_server_id e = mp_installed_from cur) all_entries;
                   scoped = (if origin = [] then all_entries else origin);
                   no_downgrade = (case parse_package_version sv (mp_version cur) of
                      Some v \<Rightarrow> filter (\<lambda>e. me_version e \<ge> v) scoped
                    | None \<Rightarrow> scoped)
               in if no_downgrade = [] then Inl (VersionNotFound name (star_or (mp_pinned cur)))
                  else
                    let candidates = (case constraint of
                       Some c \<Rightarrow> filter (\<lambda>e. constraint_matches sv c (me_version e)) no_downgrade
                     | None \<Rightarrow> no_downgrade)
                    in if candidates = [] then Inl (VersionNotFound name (star_or (mp_pinned cur)))
                       else pick_best_candidate sv name candidates (mp_installed_by cur) (mp_pinned cur))
        })"

definition resolve_all_from_index ::
  "'j package_index \<Rightarrow> string list \<Rightarrow> string list + 'j resolved_package list" where
  "resolve_all_from_index idx system =
     (let names = map pe_name (pi_packages idx);
          missing = filter (\<lambda>n. n \<notin> set names) system
      in if missing \<noteq> [] then Inl (sorted_list_of_set (set missing))
         else Inr (map (\<lambda>e.
           \<lparr>rp_name = pe_name e, rp_version = pe_version e, rp_store_path = pe_store_path e,
            rp_category = pe_category e, rp_description = pe_description e,
            rp_upgrade_strategy = pe_upgrade_strategy e, rp_install_strategy = pe_install_strategy e,
            rp_installed_by = (if pe_name e \<in> set system then BySystem else ByUser),
            rp_installed_from = ''local'', rp_pinned = None, rp_metadata = pe_metadata e\<rparr>)
           (pi_packages idx)))"

section \<open>Sorting\<close>

lemma set_insert_by [simp]: "set (insert_by le x xs) = insert x (set xs)"
  by (induction xs) auto

lemma set_sort_by [simp]: "set (sort_by le xs) = set xs"
  by (induction xs) (auto simp: sort_by_def)

lemma sort_by_Nil [simp]: "sort_by le xs = [] \<longleftrightarrow> xs = []"
  by (metis set_empty set_sort_by)

lemma sorted_insert_by:
  assumes tot: "\<And>x y. le x y \<or> le y x" and trans: "\<And>x y z. le x y \<Longrightarrow> le y z \<Longrightarrow> le x z"
  shows "sorted_wrt le xs \<Longrightarrow> sorted_wrt le (insert_by le x xs)"
proof (induction xs)
  case (Cons y ys)
  then show ?case using tot [of x y] trans [of x y] by auto
qed simp

lemma sorted_sort_by:
  assumes "\<And>x y. le x y \<or> le y x" and "\<And>x y z. le x y \<Longrightarrow> le y z \<Longrightarrow> le x z"
  shows "sorted_wrt le (sort_by le xs)"
  unfolding sort_by_def by (induction xs) (simp_all add: sorted_insert_by [OF assms])

lemma better_total: "better a b \<or> better b a"
  by (auto simp: better_def)

lemma better_trans: "better a b \<Longrightarrow> better b c \<Longrightarrow> better a c"
  by (auto simp: better_def)

lemma better_refl [simp]: "better a a"
  by (simp add: better_def)

lemma better_both: "better a b \<Longrightarrow> better b a \<Longrightarrow>
    me_version a = me_version b \<and> me_server_priority a = me_server_priority b"
  by (auto simp: better_def)

lemma better_tied: "me_version a = me_version b \<Longrightarrow> me_server_priority a = me_server_priority b \<Longrightarrow> better a b"
  by (simp add: better_def)

section \<open>The best candidate\<close>

text \<open>A best entry of a list: none beats it, and those that tie with it have its store path.\<close>

definition best_of :: "('v::linorder, 'j) merged_entry list \<Rightarrow> ('v, 'j) merged_entry \<Rightarrow> bool" where
  "best_of cs e \<longleftrightarrow> e \<in> set cs \<and> (\<forall>c \<in> set cs. better e c) \<and>
     (\<forall>c \<in> set cs. better c e \<longrightarrow> me_store_path c = me_store_path e)"

lemma best_of_subset: "best_of cs e \<Longrightarrow> set ds \<subseteq> set cs \<Longrightarrow> e \<in> set ds \<Longrightarrow> best_of ds e"
  unfolding best_of_def by blast

lemma best_of_same: "best_of cs e \<Longrightarrow> best_of cs f \<Longrightarrow>
    me_version f = me_version e \<and> me_store_path f = me_store_path e"
  unfolding best_of_def by (metis better_both)

lemma takeWhile_sorted:
  assumes "sorted_wrt better (e # cs)"
  shows "set (takeWhile (\<lambda>c. me_version c = me_version e \<and> me_server_priority c = me_server_priority e) cs) =
    {c \<in> set cs. better c e}"
  using assms
proof (induction cs)
  case (Cons c cs)
  show ?case
  proof (cases "better c e")
    case True
    with Cons.prems have "me_version c = me_version e \<and> me_server_priority c = me_server_priority e"
      using better_both by auto
    with True Cons show ?thesis by (auto simp: better_tied)
  next
    case False
    then have "\<not> (me_version c = me_version e \<and> me_server_priority c = me_server_priority e)"
      using better_tied by blast
    moreover have "\<not> better d e" if "d \<in> set cs" for d
      using Cons.prems False that better_trans [of c d e] by auto
    ultimately show ?thesis using False by auto
  qed
qed simp

lemma pick_best_cases:
  assumes "cs \<noteq> []"
  shows "(\<exists>e. best_of cs e \<and> pick_best_candidate sv name cs inst pin = Inr (merged_entry_to_resolved sv e inst pin)) \<or>
    ((\<nexists>e. best_of cs e) \<and> pick_best_candidate sv name cs inst pin = Inl (Ambiguous name))"
proof -
  obtain e rest where er: "sort_by better cs = e # rest" using assms by (cases "sort_by better cs") auto
  have sorted: "sorted_wrt better (e # rest)"
    unfolding er [symmetric] by (rule sorted_sort_by [OF better_total better_trans])
  have set: "set cs = insert e (set rest)" using arg_cong [OF er, of set] by simp
  have le: "better e c" if "c \<in> set cs" for c using sorted set that by auto
  let ?clash = "\<exists>c \<in> set rest. better c e \<and> me_store_path c \<noteq> me_store_path e"
  have pick: "pick_best_candidate sv name cs inst pin =
      (if ?clash then Inl (Ambiguous name) else Inr (merged_entry_to_resolved sv e inst pin))"
    by (auto simp: pick_best_candidate_def er takeWhile_sorted [OF sorted])
  show ?thesis
  proof (cases ?clash)
    case True
    then obtain c where c: "c \<in> set cs" "better c e" "me_store_path c \<noteq> me_store_path e" using set by auto
    have "\<not> best_of cs f" for f
      using c le set better_trans unfolding best_of_def by (metis insertI1)
    with True pick show ?thesis by simp
  next
    case False
    then have "best_of cs e" using le set by (auto simp: best_of_def)
    with False pick show ?thesis by auto
  qed
qed

lemma pick_best_Inr:
  assumes "pick_best_candidate sv name cs inst pin = Inr r"
  obtains e where "best_of cs e" "r = merged_entry_to_resolved sv e inst pin"
proof -
  have "cs \<noteq> []" using assms by (auto simp: pick_best_candidate_def sort_by_def)
  from pick_best_cases [OF this, of sv name inst pin] assms that show ?thesis by auto
qed

lemma pick_best_of:
  assumes "best_of cs e"
  shows "\<exists>f. best_of cs f \<and> me_version f = me_version e \<and> me_store_path f = me_store_path e \<and>
    pick_best_candidate sv name cs inst pin = Inr (merged_entry_to_resolved sv f inst pin)"
proof -
  have "cs \<noteq> []" using assms by (auto simp: best_of_def)
  from pick_best_cases [OF this, of sv name inst pin] assms show ?thesis using best_of_same by blast
qed

section \<open>Merged indexes\<close>

definition named :: "('v, 'j) merged_index \<Rightarrow> string \<Rightarrow> ('v, 'j) merged_entry list" where
  "named m name = filter (\<lambda>e. me_name e = name) (mi_packages m)"

definition index_wf :: "('v, 'j) merged_index \<Rightarrow> bool" where
  "index_wf m \<longleftrightarrow> (\<forall>name. case mi_by_name m name of
     None \<Rightarrow> named m name = []
   | Some is \<Rightarrow> named m name \<noteq> [] \<and> entries_of m is = Some (named m name))"

lemma index_wf_None: "index_wf m \<Longrightarrow> mi_by_name m name = None \<Longrightarrow> named m name = []"
  unfolding index_wf_def by (drule spec [of _ name]) simp

lemma index_wf_Some:
  "index_wf m \<Longrightarrow> mi_by_name m name = Some is \<Longrightarrow> named m name \<noteq> [] \<and> entries_of m is = Some (named m name)"
  unfolding index_wf_def by (drule spec [of _ name]) simp

lemma those_eq_Some: "those xs = Some ys \<longleftrightarrow> xs = map Some ys"
  by (induction xs arbitrary: ys) (auto split: option.splits)

lemma entries_of_append:
  "entries_of m is = Some es \<Longrightarrow> entries_of (m\<lparr>mi_packages := mi_packages m @ ps, mi_by_name := b\<rparr>) is = Some es"
proof (induction "is" arbitrary: es)
  case (Cons i "is")
  then show ?case
    by (auto simp: entries_of_def those_eq_Some get_eq_Some nth_append split: option.splits)
qed (simp add: entries_of_def)

lemma entries_of_snoc:
  "entries_of m is = Some es \<Longrightarrow> get (mi_packages m) i = Some e \<Longrightarrow> entries_of m (is @ [i]) = Some (es @ [e])"
  by (simp add: entries_of_def those_eq_Some)

lemma merge_entry_wf:
  assumes "index_wf m"
  shows "index_wf (merge_entry sv sid prio e m)"
proof (cases "parse_package_version sv (pe_version e)")
  case None
  with assms show ?thesis by (simp add: merge_entry_def)
next
  case (Some v)
  let ?m = "merge_entry sv sid prio e m"
  let ?i = "length (mi_packages m)"
  obtain x b where m: "?m = m\<lparr>mi_packages := mi_packages m @ [x], mi_by_name := b\<rparr>" and x: "me_name x = pe_name e"
    and b: "b = (mi_by_name m)(pe_name e \<mapsto>
       (case mi_by_name m (pe_name e) of None \<Rightarrow> [?i] | Some is \<Rightarrow> is @ [?i]))"
    using Some by (simp add: merge_entry_def to_merged_def Let_def)
  have wf: "case mi_by_name m name of None \<Rightarrow> named m name = []
     | Some is \<Rightarrow> named m name \<noteq> [] \<and> entries_of m is = Some (named m name)" for name
    using assms by (simp add: index_wf_def)
  have last: "get (mi_packages ?m) ?i = Some x" by (simp add: m get_eq_Some)
  have "case mi_by_name ?m name of None \<Rightarrow> named ?m name = []
     | Some is \<Rightarrow> named ?m name \<noteq> [] \<and> entries_of ?m is = Some (named ?m name)" for name
  proof (cases "name = pe_name e")
    case False
    have "named ?m name = named m name" using False x by (simp add: m named_def)
    moreover have "mi_by_name ?m name = mi_by_name m name" using False by (simp add: m b)
    ultimately show ?thesis
      using wf [of name] entries_of_append [where ps = "[x]" and b = b] by (auto simp: m split: option.splits)
  next
    case True
    have named: "named ?m name = named m name @ [x]" using True x by (simp add: m named_def)
    show ?thesis
    proof (cases "mi_by_name m name")
      case None
      with wf [of name] True named last show ?thesis
        by (simp add: m b entries_of_def those_eq_Some)
    next
      case (Some "is")
      then have "entries_of ?m is = Some (named m name)"
        using wf [of name] entries_of_append [where ps = "[x]" and b = b] by (simp add: m)
      from entries_of_snoc [OF this last] named Some True show ?thesis by (simp add: m b)
    qed
  qed
  then show ?thesis by (simp add: index_wf_def)
qed

lemma merge_fetched_wf: "index_wf m \<Longrightarrow> index_wf (merge_fetched sv f m)"
proof -
  have "index_wf m \<Longrightarrow> index_wf (fold (merge_entry sv sid prio) es m)" for sid prio es m
    by (induction es arbitrary: m) (simp_all add: merge_entry_wf)
  then show "index_wf m \<Longrightarrow> ?thesis" by (simp add: merge_fetched_def)
qed

lemma merge_indexes_wf: "index_wf (merge_indexes sv fs)"
proof -
  have "index_wf m \<Longrightarrow> index_wf (fold (merge_fetched sv) fs m)" for m
    by (induction fs arbitrary: m) (simp_all add: merge_fetched_wf)
  moreover have "index_wf \<lparr>mi_packages = [], mi_by_name = (\<lambda>_. None)\<rparr>" by (simp add: index_wf_def named_def)
  ultimately show ?thesis by (simp add: merge_indexes_def)
qed

text \<open>The merged index holds what the servers publish under a version that can be read.\<close>

definition published ::
  "('v, 'r) semver \<Rightarrow> 'j fetched_index list \<Rightarrow> ('v, 'j) merged_entry \<Rightarrow> bool" where
  "published sv fs x \<longleftrightarrow> (\<exists>f \<in> set fs. \<exists>e \<in> set (pi_packages (fi_index f)). \<exists>v.
     parse_package_version sv (pe_version e) = Some v \<and>
     x = to_merged (fi_server_id f) (fi_server_priority f) v e)"

lemma published_Nil: "\<not> published sv [] x"
  by (simp add: published_def)

lemma published_Cons: "published sv (f # fs) x \<longleftrightarrow> published sv [f] x \<or> published sv fs x"
  by (simp add: published_def)

lemma merge_fetched_packages:
  "set (mi_packages (merge_fetched sv f m)) = set (mi_packages m) \<union> {x. published sv [f] x}"
proof -
  have "set (mi_packages (fold (merge_entry sv sid prio) es m)) = set (mi_packages m) \<union>
      {x. \<exists>e \<in> set es. \<exists>v. parse_package_version sv (pe_version e) = Some v \<and> x = to_merged sid prio v e}"
    for sid prio es m
    by (induction es arbitrary: m) (auto simp: merge_entry_def Let_def split: option.splits)
  then show ?thesis by (simp add: merge_fetched_def published_def)
qed

lemma merge_indexes_packages: "x \<in> set (mi_packages (merge_indexes sv fs)) \<longleftrightarrow> published sv fs x"
proof -
  have "set (mi_packages (fold (merge_fetched sv) fs m)) = set (mi_packages m) \<union> {x. published sv fs x}" for m
  proof (induction fs arbitrary: m)
    case (Cons f fs)
    have "{x. published sv (f # fs) x} = {x. published sv [f] x} \<union> {x. published sv fs x}"
      using published_Cons [of sv f fs] by blast
    with Cons.IH [of "merge_fetched sv f m"] merge_fetched_packages [of sv f m] show ?case by auto
  qed (auto simp: published_Nil)
  then show ?thesis by (simp add: merge_indexes_def)
qed

end
