(* ===== verification/Pkg_Plan.thy ===== *)
theory Pkg_Plan
  imports Pkg_Index
begin

text \<open>
  Upgrade plans (\<^verbatim>\<open>bmc-nix/src/manifest.rs\<close>): the current manifest is diffed against the packages to add
  and to remove, and every package that is kept is resolved against the merged index. The
  properties say what a plan installs, that nothing is downgraded, when planning fails, and that a
  device that has applied an upgrade has nothing to upgrade.
\<close>

section \<open>Manifests\<close>

definition to_manifest_package :: "'j resolved_package \<Rightarrow> manifest_package" where
  "to_manifest_package p =
     \<lparr>mp_version = rp_version p, mp_store_path = rp_store_path p, mp_category = rp_category p,
      mp_description = rp_description p, mp_upgrade_strategy = rp_upgrade_strategy p,
      mp_install_strategy = rp_install_strategy p, mp_installed_by = rp_installed_by p,
      mp_installed_from = rp_installed_from p, mp_pinned = rp_pinned p\<rparr>"

definition build_manifest :: "'j resolved_package list \<Rightarrow> manifest" where
  "build_manifest ps = btree_of (map (\<lambda>p. (rp_name p, to_manifest_package p)) ps)"

definition manifest_package_to_resolved :: "string \<Rightarrow> manifest_package \<Rightarrow> 'j resolved_package" where
  "manifest_package_to_resolved name mp =
     \<lparr>rp_name = name, rp_version = mp_version mp, rp_store_path = mp_store_path mp,
      rp_category = mp_category mp, rp_description = mp_description mp,
      rp_upgrade_strategy = mp_upgrade_strategy mp, rp_install_strategy = mp_install_strategy mp,
      rp_installed_by = mp_installed_by mp, rp_installed_from = mp_installed_from mp,
      rp_pinned = mp_pinned mp, rp_metadata = []\<rparr>"

section \<open>Conflicts\<close>

datatype plan_conflict =
    AddAndRemove string
  | DuplicateAddMismatch string string string string string
  | DuplicateRemove string
  | RemoveNotInstalled string

datatype plan_error =
    Conflict plan_conflict
  | MissingSystemPackages "string list"
  | Resolve string resolve_error

definition add_and_remove :: "'j resolved_package list \<Rightarrow> string list \<Rightarrow> plan_conflict option" where
  "add_and_remove adds removes =
     find_map (\<lambda>p. if rp_name p \<in> set removes then Some (AddAndRemove (rp_name p)) else None) adds"

fun collect_adds :: "'j resolved_package list \<Rightarrow> (string \<times> 'j resolved_package) list \<Rightarrow>
    plan_conflict + (string \<times> 'j resolved_package) list" where
  "collect_adds [] acc = Inr acc"
| "collect_adds (p # ps) acc =
     (case map_of acc (rp_name p) of
        Some prev \<Rightarrow>
          if rp_version prev \<noteq> rp_version p \<or> rp_store_path prev \<noteq> rp_store_path p
          then Inl (DuplicateAddMismatch (rp_name p) (rp_version prev) (rp_store_path prev)
                      (rp_version p) (rp_store_path p))
          else collect_adds ps acc
      | None \<Rightarrow> collect_adds ps (btree_insert (rp_name p) p acc))"

fun duplicate_remove :: "string list \<Rightarrow> string set \<Rightarrow> plan_conflict option" where
  "duplicate_remove [] seen = None"
| "duplicate_remove (n # ns) seen =
     (if n \<in> seen then Some (DuplicateRemove n) else duplicate_remove ns (insert n seen))"

definition remove_not_installed :: "manifest \<Rightarrow> string list \<Rightarrow> plan_conflict option" where
  "remove_not_installed cur removes =
     find_map (\<lambda>n. if map_of cur n = None then Some (RemoveNotInstalled n) else None) removes"

section \<open>The plan\<close>

record 'j plan_state =
  ps_packages :: "'j resolved_package list"
  ps_removed :: "package_version list"
  ps_changed :: "package_change list"
  ps_stale :: "package_version list"
  ps_missing :: "string list"

definition keep_package :: "string \<Rightarrow> manifest_package \<Rightarrow> 'j plan_state \<Rightarrow> 'j plan_state" where
  "keep_package name pkg st =
     st\<lparr>ps_packages := ps_packages st @ [manifest_package_to_resolved name pkg]\<rparr>"

definition carry_stale :: "string \<Rightarrow> manifest_package \<Rightarrow> 'j plan_state \<Rightarrow> 'j plan_state" where
  "carry_stale name pkg st = keep_package name pkg (st\<lparr>ps_stale := ps_stale st @ [(name, mp_version pkg)]\<rparr>)"

definition install_package ::
  "bool \<Rightarrow> string \<Rightarrow> manifest_package \<Rightarrow> 'j resolved_package \<Rightarrow> 'j plan_state \<Rightarrow> 'j plan_state" where
  "install_package differs name pkg new st =
     st\<lparr>ps_changed := (if differs then ps_changed st @
          [\<lparr>pc_name = name, pc_from_version = mp_version pkg, pc_to_version = rp_version new,
            pc_from_store_path = mp_store_path pkg, pc_to_store_path = rp_store_path new\<rparr>]
        else ps_changed st),
        ps_packages := ps_packages st @ [new]\<rparr>"

definition is_downgrade :: "('v::linorder, 'r) semver \<Rightarrow> string \<Rightarrow> string \<Rightarrow> bool" where
  "is_downgrade sv installed new =
     (case (parse_package_version sv installed, parse_package_version sv new) of
        (Some i, Some n) \<Rightarrow> n < i
      | _ \<Rightarrow> False)"

definition replace_package ::
  "('v::linorder, 'r) semver \<Rightarrow> string \<Rightarrow> manifest_package \<Rightarrow> 'j resolved_package \<Rightarrow>
     'j plan_state \<Rightarrow> 'j plan_state" where
  "replace_package sv name pkg new st =
     (if is_downgrade sv (mp_version pkg) (rp_version new) then keep_package name pkg st
      else let r = new\<lparr>rp_installed_by := mp_installed_by pkg, rp_category := mp_category pkg\<rparr>
        in install_package (rp_version r \<noteq> mp_version pkg \<or> rp_store_path r \<noteq> mp_store_path pkg) name pkg r st)"

definition upgrade_package ::
  "('v::linorder, 'r) semver \<Rightarrow> ('v, 'j) merged_index \<Rightarrow> string \<Rightarrow> manifest_package \<Rightarrow>
     'j plan_state \<Rightarrow> (plan_error + 'j plan_state) option" where
  "upgrade_package sv m name pkg st =
     map_option (\<lambda>r. case r of
        Inr new \<Rightarrow> Inr (install_package (rp_store_path new \<noteq> mp_store_path pkg) name pkg new st)
      | Inl (PackageNotFound _) \<Rightarrow>
          if mp_installed_by pkg = BySystem then Inr (st\<lparr>ps_missing := ps_missing st @ [name]\<rparr>)
          else Inr (carry_stale name pkg st)
      | Inl (VersionNotFound _ _) \<Rightarrow> Inr (carry_stale name pkg st)
      | Inl (InvalidVersionConstraint c) \<Rightarrow>
          if mp_installed_by pkg \<noteq> BySystem then Inr (carry_stale name pkg st)
          else Inl (Resolve name (InvalidVersionConstraint c))
      | Inl (Ambiguous n) \<Rightarrow> Inl (Resolve name (Ambiguous n)))
     (resolve_installed_package sv m name pkg)"

definition plan_package ::
  "('v::linorder, 'r) semver \<Rightarrow> ('v, 'j) merged_index option \<Rightarrow> (string \<times> 'j resolved_package) list \<Rightarrow>
     string list \<Rightarrow> string \<Rightarrow> manifest_package \<Rightarrow> 'j plan_state \<Rightarrow> (plan_error + 'j plan_state) option" where
  "plan_package sv merged adds removes name pkg st =
     (if name \<in> set removes then Some (Inr (st\<lparr>ps_removed := ps_removed st @ [(name, mp_version pkg)]\<rparr>))
      else case map_of adds name of
        Some new \<Rightarrow> Some (Inr (replace_package sv name pkg new st))
      | None \<Rightarrow>
          (case merged of
             Some m \<Rightarrow> upgrade_package sv m name pkg st
           | None \<Rightarrow> Some (Inr (keep_package name pkg st))))"

fun plan_loop ::
  "('v::linorder, 'r) semver \<Rightarrow> ('v, 'j) merged_index option \<Rightarrow> (string \<times> 'j resolved_package) list \<Rightarrow>
     string list \<Rightarrow> manifest \<Rightarrow> 'j plan_state \<Rightarrow> (plan_error + 'j plan_state) option" where
  "plan_loop sv merged adds removes [] st = Some (Inr st)"
| "plan_loop sv merged adds removes ((name, pkg) # cur) st =
     (case plan_package sv merged adds removes name pkg st of
        None \<Rightarrow> None
      | Some (Inl e) \<Rightarrow> Some (Inl e)
      | Some (Inr st') \<Rightarrow> plan_loop sv merged adds removes cur st')"

definition finish_plan ::
  "manifest \<Rightarrow> (string \<times> 'j resolved_package) list \<Rightarrow> 'j plan_state \<Rightarrow> plan_error + 'j upgrade_plan" where
  "finish_plan cur adds st =
     (if ps_missing st \<noteq> [] then Inl (MissingSystemPackages (sorted_list_of_set (set (ps_missing st))))
      else let new = filter (\<lambda>(n, p). map_of cur n = None) adds in
        Inr \<lparr>up_packages = ps_packages st @ map snd new,
             up_added = map (\<lambda>(n, p). (rp_name p, rp_version p)) new,
             up_removed = ps_removed st, up_changed = ps_changed st, up_stale = ps_stale st\<rparr>)"

definition compute_upgrade_plan ::
  "('v::linorder, 'r) semver \<Rightarrow> manifest \<Rightarrow> ('v, 'j) merged_index option \<Rightarrow> 'j resolved_package list \<Rightarrow>
     string list \<Rightarrow> (plan_error + 'j upgrade_plan) option" where
  "compute_upgrade_plan sv cur merged add_packages removes =
     (case add_and_remove add_packages removes of
        Some c \<Rightarrow> Some (Inl (Conflict c))
      | None \<Rightarrow>
     (case collect_adds add_packages [] of
        Inl c \<Rightarrow> Some (Inl (Conflict c))
      | Inr adds \<Rightarrow>
     (case duplicate_remove removes {} of
        Some c \<Rightarrow> Some (Inl (Conflict c))
      | None \<Rightarrow>
     (case remove_not_installed cur removes of
        Some c \<Rightarrow> Some (Inl (Conflict c))
      | None \<Rightarrow>
     (case plan_loop sv merged adds removes cur
             \<lparr>ps_packages = [], ps_removed = [], ps_changed = [], ps_stale = [], ps_missing = []\<rparr> of
        None \<Rightarrow> None
      | Some (Inl e) \<Rightarrow> Some (Inl e)
      | Some (Inr st) \<Rightarrow> Some (finish_plan cur adds st))))))"

definition should_skip_rebuild :: "bool \<Rightarrow> 'j upgrade_plan \<Rightarrow> bool" where
  "should_skip_rebuild explicit_base plan \<longleftrightarrow>
     \<not> explicit_base \<and> up_added plan = [] \<and> up_removed plan = [] \<and> up_changed plan = []"

end
