(* ===== verification/Pkg_Plan_Props.thy ===== *)
theory Pkg_Plan_Props
  imports Pkg_Plan
begin

text \<open>
  Lemmas on upgrade plans. The loop over the installed packages is split into what it decides
  for each package on its own, the plan it would make for that package alone; the plan of the whole
  manifest is the concatenation of these.
\<close>

section \<open>One package at a time\<close>

definition no_plan :: "'j plan_state" where
  "no_plan = \<lparr>ps_packages = [], ps_removed = [], ps_changed = [], ps_stale = [], ps_missing = []\<rparr>"

definition append_plan :: "'j plan_state \<Rightarrow> 'j plan_state \<Rightarrow> 'j plan_state" where
  "append_plan a b =
     \<lparr>ps_packages = ps_packages a @ ps_packages b, ps_removed = ps_removed a @ ps_removed b,
      ps_changed = ps_changed a @ ps_changed b, ps_stale = ps_stale a @ ps_stale b,
      ps_missing = ps_missing a @ ps_missing b\<rparr>"

lemma append_plan_simps [simp]:
  "ps_packages (append_plan a b) = ps_packages a @ ps_packages b"
  "ps_removed (append_plan a b) = ps_removed a @ ps_removed b"
  "ps_changed (append_plan a b) = ps_changed a @ ps_changed b"
  "ps_stale (append_plan a b) = ps_stale a @ ps_stale b"
  "ps_missing (append_plan a b) = ps_missing a @ ps_missing b"
  by (simp_all add: append_plan_def)

lemma no_plan_simps [simp]:
  "ps_packages no_plan = []" "ps_removed no_plan = []" "ps_changed no_plan = []"
  "ps_stale no_plan = []" "ps_missing no_plan = []"
  by (simp_all add: no_plan_def)

lemma append_plan_no_plan [simp]: "append_plan no_plan a = a" "append_plan a no_plan = a"
  by (simp_all add: append_plan_def)

lemma append_plan_assoc [simp]: "append_plan (append_plan a b) c = append_plan a (append_plan b c)"
  by (simp add: append_plan_def)

lemma plan_package_append:
  "plan_package sv m adds removes n p st =
     map_option (map_sum id (append_plan st)) (plan_package sv m adds removes n p no_plan)"
proof -
  have keep: "keep_package n p st = append_plan st (keep_package n p no_plan)"
    "carry_stale n p st = append_plan st (carry_stale n p no_plan)"
    "install_package d n p q st = append_plan st (install_package d n p q no_plan)" for d q
    by (simp_all add: keep_package_def carry_stale_def install_package_def append_plan_def no_plan_def)
  have "upgrade_package sv x n p st =
      map_option (map_sum id (append_plan st)) (upgrade_package sv x n p no_plan)" for x
    by (cases "resolve_installed_package sv x n p")
      (auto simp: upgrade_package_def keep append_plan_def no_plan_def split: sum.split resolve_error.split)
  moreover have "replace_package sv n p q st = append_plan st (replace_package sv n p q no_plan)" for q
    by (simp add: replace_package_def keep Let_def)
  ultimately show ?thesis
    by (auto simp: plan_package_def keep append_plan_def no_plan_def split: option.split)
qed

text \<open>What the loop decides for one package, and the plan of a list of them.\<close>

abbreviation decide ::
  "('v::linorder, 'r) semver \<Rightarrow> ('v, 'j) merged_index option \<Rightarrow> (string \<times> 'j resolved_package) list \<Rightarrow>
     string list \<Rightarrow> string \<times> manifest_package \<Rightarrow> (plan_error + 'j plan_state) option" where
  "decide sv m adds removes x \<equiv> plan_package sv m adds removes (fst x) (snd x) no_plan"

lemma plan_loop_ok:
  "plan_loop sv m adds removes cur st = Some (Inr st') \<longleftrightarrow>
     (\<exists>ds. map (decide sv m adds removes) cur = map (Some \<circ> Inr) ds \<and>
        st' = append_plan st (foldr append_plan ds no_plan))"
proof (induction cur arbitrary: st)
  case (Cons x cur)
  obtain n p where x: "x = (n, p)" by (cases x)
  show ?case
  proof (cases "plan_package sv m adds removes n p no_plan")
    case None
    then show ?thesis by (auto simp: x plan_package_append [of _ _ _ _ _ _ st] Cons_eq_map_conv)
  next
    case (Some r)
    show ?thesis
    proof (cases r)
      case (Inl e)
      with Some show ?thesis by (auto simp: x plan_package_append [of _ _ _ _ _ _ st] Cons_eq_map_conv)
    next
      case (Inr d)
      then have "plan_package sv m adds removes n p st = Some (Inr (append_plan st d))"
        using Some by (simp add: plan_package_append [of _ _ _ _ _ _ st])
      then show ?thesis
        using Some Inr Cons.IH [of "append_plan st d"] by (auto simp: x Cons_eq_map_conv)
    qed
  qed
qed auto

lemma plan_loop_None:
  "plan_loop sv m adds removes cur st = None \<Longrightarrow> \<exists>x \<in> set cur. decide sv m adds removes x = None"
proof (induction sv m adds removes cur st rule: plan_loop.induct)
  case (2 sv m adds removes n p cur st)
  then show ?case
    by (auto simp: plan_package_append [of _ _ _ _ _ _ st] split: option.splits sum.splits)
qed simp

lemma foldr_append_plan:
  "ps_packages (foldr append_plan ds no_plan) = concat (map ps_packages ds)"
  "ps_removed (foldr append_plan ds no_plan) = concat (map ps_removed ds)"
  "ps_changed (foldr append_plan ds no_plan) = concat (map ps_changed ds)"
  "ps_stale (foldr append_plan ds no_plan) = concat (map ps_stale ds)"
  "ps_missing (foldr append_plan ds no_plan) = concat (map ps_missing ds)"
  by (induction ds) simp_all

section \<open>Resolving an installed package\<close>

text \<open>The entries an installed package may move to: those of the server it came from, or of every
  server when that one lists it no more, at least as new as the installed one and within the pin.\<close>

definition scope :: "('v, 'j) merged_index \<Rightarrow> string \<Rightarrow> manifest_package \<Rightarrow> ('v, 'j) merged_entry list" where
  "scope m n p = (let origin = filter (\<lambda>e. me_server_id e = mp_installed_from p) (named m n)
     in if origin = [] then named m n else origin)"

definition pin_allows :: "('v, 'r) semver \<Rightarrow> manifest_package \<Rightarrow> 'v \<Rightarrow> bool" where
  "pin_allows sv p v = (case mp_pinned p of
     None \<Rightarrow> True
   | Some s \<Rightarrow> (case constraint_parse sv s of Inr c \<Rightarrow> constraint_matches sv c v | Inl _ \<Rightarrow> False))"

definition not_older :: "('v::linorder, 'r) semver \<Rightarrow> manifest_package \<Rightarrow> 'v \<Rightarrow> bool" where
  "not_older sv p v = (case parse_package_version sv (mp_version p) of Some i \<Rightarrow> i \<le> v | None \<Rightarrow> True)"

definition pin_valid :: "('v, 'r) semver \<Rightarrow> manifest_package \<Rightarrow> bool" where
  "pin_valid sv p = (case mp_pinned p of None \<Rightarrow> True | Some s \<Rightarrow> (\<exists>c. constraint_parse sv s = Inr c))"

definition eligible ::
  "('v::linorder, 'r) semver \<Rightarrow> ('v, 'j) merged_index \<Rightarrow> string \<Rightarrow> manifest_package \<Rightarrow> ('v, 'j) merged_entry list" where
  "eligible sv m n p =
     filter (\<lambda>e. not_older sv p (me_version e) \<and> pin_allows sv p (me_version e)) (scope m n p)"

lemma constraint_parse_Inl: "constraint_parse sv s = Inl e \<Longrightarrow> e = InvalidVersionConstraint s"
  by (auto simp: constraint_parse_def split: option.splits)

lemma resolve_installed_eq:
  assumes "index_wf m"
  shows "resolve_installed_package sv m n p = Some (
     if named m n = [] then Inl (PackageNotFound n)
     else if \<not> pin_valid sv p then Inl (InvalidVersionConstraint (the (mp_pinned p)))
     else if eligible sv m n p = [] then Inl (VersionNotFound n (star_or (mp_pinned p)))
     else pick_best_candidate sv n (eligible sv m n p) (mp_installed_by p) (mp_pinned p))"
proof (cases "mi_by_name m n")
  case None
  with index_wf_None [OF assms] None show ?thesis by (simp add: resolve_installed_package_def)
next
  case (Some "is")
  with assms have wf: "named m n \<noteq> []" "entries_of m is = Some (named m n)"
    using index_wf_Some by blast+
  let ?sc = "scope m n p"
  have sc: "(if filter (\<lambda>e. me_server_id e = mp_installed_from p) (named m n) = [] then named m n
     else filter (\<lambda>e. me_server_id e = mp_installed_from p) (named m n)) = ?sc"
    by (simp add: scope_def Let_def)
  have nd: "(case parse_package_version sv (mp_version p) of
      Some v \<Rightarrow> filter (\<lambda>e. me_version e \<ge> v) ?sc | None \<Rightarrow> ?sc) = filter (\<lambda>e. not_older sv p (me_version e)) ?sc"
    by (auto simp: not_older_def split: option.splits)
  note eq = resolve_installed_package_def [of sv m n p, unfolded Some option.case wf(2) bind.bind_lunit Let_def sc nd]
  show ?thesis
  proof (cases "mp_pinned p")
    case None
    then have "eligible sv m n p = filter (\<lambda>e. not_older sv p (me_version e)) ?sc"
      by (simp add: eligible_def pin_allows_def)
    then show ?thesis unfolding eq by (simp add: None wf pin_valid_def)
  next
    case (Some s)
    show ?thesis
    proof (cases "constraint_parse sv s")
      case (Inl e)
      then show ?thesis
        unfolding eq using constraint_parse_Inl [OF Inl] by (simp add: wf Some pin_valid_def)
    next
      case (Inr c)
      have el: "eligible sv m n p = filter (\<lambda>e. constraint_matches sv c (me_version e))
          (filter (\<lambda>e. not_older sv p (me_version e)) ?sc)"
        by (auto simp: eligible_def pin_allows_def Some Inr intro: filter_cong)
      show ?thesis unfolding eq el by (simp add: wf Some Inr pin_valid_def del: filter_filter)
    qed
  qed
qed

section \<open>The packages to add\<close>

definition same_spec :: "'j resolved_package \<Rightarrow> 'j resolved_package \<Rightarrow> bool" where
  "same_spec p q \<longleftrightarrow> rp_version p = rp_version q \<and> rp_store_path p = rp_store_path q"

definition keyed :: "(string \<times> 'j resolved_package) list \<Rightarrow> bool" where
  "keyed adds \<longleftrightarrow> btree adds \<and> (\<forall>n p. map_of adds n = Some p \<longrightarrow> rp_name p = n)"

lemma same_spec_sym: "same_spec p q \<Longrightarrow> same_spec q p"
  by (simp add: same_spec_def)

lemma same_spec_trans: "same_spec p q \<Longrightarrow> same_spec q r \<Longrightarrow> same_spec p r"
  by (simp add: same_spec_def)

lemma same_spec_refl: "same_spec p p"
  by (simp add: same_spec_def)

lemma keyed_insert: "keyed acc \<Longrightarrow> keyed (btree_insert (rp_name p) p acc)"
  by (auto simp: keyed_def)

lemma collect_adds_keyed:
  "collect_adds ps acc = Inr adds \<Longrightarrow> keyed acc \<Longrightarrow>
   keyed adds \<and> dom (map_of adds) = dom (map_of acc) \<union> rp_name ` set ps \<and>
   (\<forall>n p. map_of adds n = Some p \<longrightarrow> p \<in> set ps \<or> map_of acc n = Some p)"
proof (induction ps acc rule: collect_adds.induct)
  case (2 p ps acc)
  show ?case
  proof (cases "map_of acc (rp_name p)")
    case None
    with "2.prems"(1) have "collect_adds ps (btree_insert (rp_name p) p acc) = Inr adds" by simp
    from "2.IH"(1) [OF None this keyed_insert [OF "2.prems"(2)]] show ?thesis
      by (auto split: if_splits)
  next
    case (Some q)
    with 2 show ?thesis by (auto split: if_splits)
  qed
qed simp

lemma collect_adds_first:
  "collect_adds ps acc = Inr adds \<Longrightarrow>
   map_of adds n = (case map_of acc n of Some q \<Rightarrow> Some q | None \<Rightarrow> find (\<lambda>p. rp_name p = n) ps)"
  by (induction ps acc rule: collect_adds.induct) (auto split: option.splits if_splits)

lemma collect_adds_ok_iff:
  "(\<exists>adds. collect_adds ps acc = Inr adds) \<longleftrightarrow>
     (\<forall>p \<in> set ps. \<forall>q. map_of acc (rp_name p) = Some q \<longrightarrow> same_spec q p) \<and>
     (\<forall>p \<in> set ps. \<forall>q \<in> set ps. rp_name p = rp_name q \<longrightarrow> same_spec p q)"
proof (induction ps acc rule: collect_adds.induct)
  case (2 p ps acc)
  show ?case
  proof (cases "map_of acc (rp_name p)")
    case None
    then have "(\<exists>adds. collect_adds (p # ps) acc = Inr adds) \<longleftrightarrow>
        (\<exists>adds. collect_adds ps (btree_insert (rp_name p) p acc) = Inr adds)" by simp
    also have "\<dots> \<longleftrightarrow> (\<forall>r \<in> set ps. (rp_name r = rp_name p \<longrightarrow> same_spec p r) \<and>
          (\<forall>q. rp_name r \<noteq> rp_name p \<longrightarrow> map_of acc (rp_name r) = Some q \<longrightarrow> same_spec q r)) \<and>
        (\<forall>r \<in> set ps. \<forall>q \<in> set ps. rp_name r = rp_name q \<longrightarrow> same_spec r q)"
      unfolding 2(1) [OF None] by auto
    also have "\<dots> \<longleftrightarrow> (\<forall>r \<in> set (p # ps). \<forall>q. map_of acc (rp_name r) = Some q \<longrightarrow> same_spec q r) \<and>
        (\<forall>r \<in> set (p # ps). \<forall>q \<in> set (p # ps). rp_name r = rp_name q \<longrightarrow> same_spec r q)"
      (is "?lhs \<longleftrightarrow> ?rhs")
    proof
      have other: "rp_name r \<noteq> rp_name p" if "map_of acc (rp_name r) = Some q" for r q
        using that None by auto
      show ?rhs if ?lhs
        using that None by (auto simp: same_spec_refl dest: other intro: same_spec_sym)
      show ?lhs if ?rhs using that by simp
    qed
    finally show ?thesis .
  next
    case (Some q)
    show ?thesis
    proof (cases "same_spec q p")
      case True
      with Some have "(\<exists>adds. collect_adds (p # ps) acc = Inr adds) \<longleftrightarrow> (\<exists>adds. collect_adds ps acc = Inr adds)"
        by (simp add: same_spec_def)
      also have "\<dots> \<longleftrightarrow> (\<forall>r \<in> set ps. \<forall>q. map_of acc (rp_name r) = Some q \<longrightarrow> same_spec q r) \<and>
          (\<forall>r \<in> set ps. \<forall>q \<in> set ps. rp_name r = rp_name q \<longrightarrow> same_spec r q)"
        using 2(2) [OF Some] True by (simp add: same_spec_def)
      also have "\<dots> \<longleftrightarrow> (\<forall>r \<in> set (p # ps). \<forall>q. map_of acc (rp_name r) = Some q \<longrightarrow> same_spec q r) \<and>
          (\<forall>r \<in> set (p # ps). \<forall>q \<in> set (p # ps). rp_name r = rp_name q \<longrightarrow> same_spec r q)"
        (is "?lhs \<longleftrightarrow> ?rhs")
      proof
        show ?rhs if ?lhs
        proof -
          have "same_spec p r" if "r \<in> set ps" "rp_name p = rp_name r" for r
            using \<open>?lhs\<close> that Some True same_spec_sym same_spec_trans by metis
          with \<open>?lhs\<close> Some True show ?thesis by (auto simp: same_spec_refl intro: same_spec_sym)
        qed
        show ?lhs if ?rhs using that by simp
      qed
      finally show ?thesis .
    next
      case False
      with Some show ?thesis by (auto simp: same_spec_def)
    qed
  qed
qed simp

lemma find_map_None: "find_map (\<lambda>x. if P x then Some (f x) else None) xs = None \<longleftrightarrow> (\<forall>x \<in> set xs. \<not> P x)"
  by auto

lemma duplicate_remove_None: "duplicate_remove ns seen = None \<longleftrightarrow> distinct ns \<and> set ns \<inter> seen = {}"
  by (induction ns seen rule: duplicate_remove.induct) auto

section \<open>What becomes of an installed package\<close>

definition index_ok :: "('v, 'j) merged_index option \<Rightarrow> bool" where
  "index_ok m \<longleftrightarrow> (\<forall>i. m = Some i \<longrightarrow> index_wf i)"

text \<open>A package of the plan is the installed one, an explicit replacement that is no downgrade, or
  the best entry it may move to.\<close>

inductive planned ::
  "('v::linorder, 'r) semver \<Rightarrow> ('v, 'j) merged_index option \<Rightarrow> (string \<times> 'j resolved_package) list \<Rightarrow>
     string \<Rightarrow> manifest_package \<Rightarrow> 'j resolved_package \<Rightarrow> bool"
  for sv m adds n p where
  kept: "(\<And>new. map_of adds n = Some new \<Longrightarrow> is_downgrade sv (mp_version p) (rp_version new)) \<Longrightarrow>
    planned sv m adds n p (manifest_package_to_resolved n p)"
| replaced: "map_of adds n = Some new \<Longrightarrow> \<not> is_downgrade sv (mp_version p) (rp_version new) \<Longrightarrow>
    planned sv m adds n p (new\<lparr>rp_installed_by := mp_installed_by p, rp_category := mp_category p\<rparr>)"
| upgraded: "map_of adds n = None \<Longrightarrow> m = Some i \<Longrightarrow> best_of (eligible sv i n p) e \<Longrightarrow>
    planned sv m adds n p (merged_entry_to_resolved sv e (mp_installed_by p) (mp_pinned p))"

definition change_of :: "string \<Rightarrow> manifest_package \<Rightarrow> 'j resolved_package \<Rightarrow> package_change" where
  "change_of n p q = \<lparr>pc_name = n, pc_from_version = mp_version p, pc_to_version = rp_version q,
     pc_from_store_path = mp_store_path p, pc_to_store_path = rp_store_path q\<rparr>"

text \<open>A package is reported as changed when its store path differs, and one that was asked for also
  when only its version does.\<close>

definition differs :: "(string \<times> 'j resolved_package) list \<Rightarrow> string \<Rightarrow> manifest_package \<Rightarrow> 'j resolved_package \<Rightarrow> bool" where
  "differs adds n p q \<longleftrightarrow>
     rp_store_path q \<noteq> mp_store_path p \<or> map_of adds n \<noteq> None \<and> rp_version q \<noteq> mp_version p"

definition one_package ::
  "('v::linorder, 'r) semver \<Rightarrow> ('v, 'j) merged_index option \<Rightarrow> (string \<times> 'j resolved_package) list \<Rightarrow>
     string \<Rightarrow> manifest_package \<Rightarrow> 'j plan_state \<Rightarrow> bool" where
  "one_package sv m adds n p d \<longleftrightarrow> ps_removed d = [] \<and> ps_missing d = [] \<and>
     (\<exists>q. ps_packages d = [q] \<and> planned sv m adds n p q \<and>
        ps_changed d = (if differs adds n p q then [change_of n p q] else []))"

lemma one_package_kept:
  assumes "\<And>new. map_of adds n = Some new \<Longrightarrow> is_downgrade sv (mp_version p) (rp_version new)"
  shows "one_package sv m adds n p (keep_package n p no_plan)" "one_package sv m adds n p (carry_stale n p no_plan)"
  using planned.kept [OF assms]
  by (auto simp: one_package_def keep_package_def carry_stale_def no_plan_def manifest_package_to_resolved_def
    differs_def)

lemma one_package_install:
  "planned sv m adds n p q \<Longrightarrow> b = differs adds n p q \<Longrightarrow>
   one_package sv m adds n p (install_package b n p q no_plan)"
  by (auto simp: one_package_def install_package_def no_plan_def change_of_def)

lemma decide_removed:
  "n \<in> set removes \<Longrightarrow> decide sv m adds removes (n, p) = Some (Inr (no_plan\<lparr>ps_removed := [(n, mp_version p)]\<rparr>))"
  by (simp add: plan_package_def)

text \<open>The installed package whose resolution is fatal to the plan.\<close>

definition fatal :: "('v::linorder, 'r) semver \<Rightarrow> ('v, 'j) merged_index \<Rightarrow> string \<Rightarrow> manifest_package \<Rightarrow> bool" where
  "fatal sv i n p \<longleftrightarrow> named i n \<noteq> [] \<and>
     (if pin_valid sv p then eligible sv i n p \<noteq> [] \<and> (\<nexists>e. best_of (eligible sv i n p) e)
      else mp_installed_by p = BySystem)"

lemma decide_kept:
  assumes "index_ok m" and "n \<notin> set removes"
  shows "(\<exists>d. decide sv m adds removes (n, p) = Some (Inr d) \<and>
       (one_package sv m adds n p d \<or>
        map_of adds n = None \<and> (\<exists>i. m = Some i \<and> named i n = []) \<and> mp_installed_by p = BySystem \<and>
          d = no_plan\<lparr>ps_missing := [n]\<rparr>)) \<or>
     (\<exists>e i. decide sv m adds removes (n, p) = Some (Inl e) \<and> map_of adds n = None \<and> m = Some i \<and> fatal sv i n p)"
proof (cases "map_of adds n")
  case (Some new)
  have "one_package sv m adds n p (replace_package sv n p new no_plan)"
    using planned.replaced [OF Some, of sv p m] Some one_package_kept(1) [of adds n sv p m]
    by (auto simp: replace_package_def Let_def differs_def
      intro!: one_package_install)
  with Some assms(2) show ?thesis by (simp add: plan_package_def)
next
  case None
  show ?thesis
  proof (cases m)
    case None
    with \<open>map_of adds n = None\<close> assms(2) one_package_kept(1) [of adds n sv p m] show ?thesis by (auto simp: plan_package_def)
  next
    case (Some i)
    with assms(1) have wf: "index_wf i" by (simp add: index_ok_def)
    show ?thesis
    proof (cases "\<exists>e. best_of (eligible sv i n p) e \<and> named i n \<noteq> [] \<and> pin_valid sv p")
      case True
      then obtain e where e: "best_of (eligible sv i n p) e" "named i n \<noteq> []" "pin_valid sv p" by blast
      then have "eligible sv i n p \<noteq> []" by (auto simp: best_of_def)
      from pick_best_of [OF e(1), of sv n "mp_installed_by p" "mp_pinned p"] obtain f where f:
          "best_of (eligible sv i n p) f" "resolve_installed_package sv i n p =
             Some (Inr (merged_entry_to_resolved sv f (mp_installed_by p) (mp_pinned p)))"
        using e \<open>eligible sv i n p \<noteq> []\<close> by (auto simp: resolve_installed_eq [OF wf])
      let ?q = "merged_entry_to_resolved sv f (mp_installed_by p) (mp_pinned p)"
      have "one_package sv m adds n p (install_package (rp_store_path ?q \<noteq> mp_store_path p) n p ?q no_plan)"
        using planned.upgraded [OF None Some f(1)] None by (intro one_package_install) (auto simp: differs_def)
      with None Some assms(2) f(2) show ?thesis by (auto simp: plan_package_def upgrade_package_def)
    next
      case False
      then have pick: "eligible sv i n p \<noteq> [] \<Longrightarrow> named i n \<noteq> [] \<Longrightarrow> pin_valid sv p \<Longrightarrow>
          pick_best_candidate sv n (eligible sv i n p) (mp_installed_by p) (mp_pinned p) = Inl (Ambiguous n)"
        using pick_best_cases by blast
      show ?thesis
        using None Some assms(2) False pick one_package_kept(2) [of adds n sv p m]
        by (cases "mp_installed_by p")
          (auto simp: plan_package_def upgrade_package_def resolve_installed_eq [OF wf] fatal_def no_plan_def)
    qed
  qed
qed

lemma best_of_mem: "best_of cs e \<Longrightarrow> e \<in> set cs"
  by (simp add: best_of_def)

lemma eligible_scope: "e \<in> set (eligible sv i n p) \<Longrightarrow> e \<in> set (scope i n p)"
  by (simp add: eligible_def)

lemma scope_named: "e \<in> set (scope i n p) \<Longrightarrow> e \<in> set (mi_packages i) \<and> me_name e = n"
  by (auto simp: scope_def named_def Let_def split: if_splits)

lemma planned_name: "keyed adds \<Longrightarrow> planned sv m adds n p q \<Longrightarrow> rp_name q = n"
proof (erule planned.cases)
  fix i e assume e: "best_of (eligible sv i n p) e"
    and "q = merged_entry_to_resolved sv e (mp_installed_by p) (mp_pinned p)"
  then show ?thesis
    using scope_named [OF eligible_scope [OF best_of_mem [OF e]]] by (simp add: merged_entry_to_resolved_def)
qed (simp_all add: manifest_package_to_resolved_def keyed_def)

section \<open>The plan of a manifest\<close>

definition decided ::
  "('v::linorder, 'r) semver \<Rightarrow> ('v, 'j) merged_index option \<Rightarrow> (string \<times> 'j resolved_package) list \<Rightarrow>
     string list \<Rightarrow> string \<times> manifest_package \<Rightarrow> 'j plan_state \<Rightarrow> bool" where
  "decided sv m adds removes x d \<longleftrightarrow> decide sv m adds removes x = Some (Inr d) \<and>
     (if fst x \<in> set removes then d = no_plan\<lparr>ps_removed := [(fst x, mp_version (snd x))]\<rparr>
      else one_package sv m adds (fst x) (snd x) d)"

lemma decided_intro:
  assumes "index_ok m" "decide sv m adds removes x = Some (Inr d)" "ps_missing d = []"
  shows "decided sv m adds removes x d"
proof (cases "fst x \<in> set removes")
  case True
  with assms(2) decide_removed [OF True, of sv m adds "snd x"] show ?thesis by (simp add: decided_def)
next
  case False
  with decide_kept [OF assms(1) False, of sv adds "snd x"] assms(2,3) show ?thesis
    by (auto simp: decided_def)
qed

lemma compute_okE:
  assumes "compute_upgrade_plan sv cur m add_packages removes = Some (Inr plan)" and "index_ok m"
  obtains adds ds where "\<And>p. p \<in> set add_packages \<Longrightarrow> rp_name p \<notin> set removes"
    "collect_adds add_packages [] = Inr adds" "keyed adds" "fst ` set adds = rp_name ` set add_packages"
    "set adds \<subseteq> (\<lambda>p. (rp_name p, p)) ` set add_packages"
    "distinct removes" "set removes \<subseteq> fst ` set cur" "list_all2 (decided sv m adds removes) cur ds"
    "plan = \<lparr>up_packages = concat (map ps_packages ds) @ map snd (filter (\<lambda>(n, p). map_of cur n = None) adds),
       up_added = map (\<lambda>(n, p). (rp_name p, rp_version p)) (filter (\<lambda>(n, p). map_of cur n = None) adds),
       up_removed = concat (map ps_removed ds), up_changed = concat (map ps_changed ds),
       up_stale = concat (map ps_stale ds)\<rparr>"
proof -
  from assms(1) obtain adds st where c: "add_and_remove add_packages removes = None"
      "collect_adds add_packages [] = Inr adds" "duplicate_remove removes {} = None"
      "remove_not_installed cur removes = None" "plan_loop sv m adds removes cur no_plan = Some (Inr st)"
      "finish_plan cur adds st = Inr plan"
    by (auto simp: compute_upgrade_plan_def no_plan_def split: option.splits sum.splits)
  have keyed: "keyed adds" "dom (map_of adds) = rp_name ` set add_packages"
      "\<And>n p. map_of adds n = Some p \<Longrightarrow> p \<in> set add_packages"
    using collect_adds_keyed [OF c(2)] by (auto simp: keyed_def)
  from c(5) obtain ds where ds: "map (decide sv m adds removes) cur = map (Some \<circ> Inr) ds"
      "st = foldr append_plan ds no_plan" by (auto simp: plan_loop_ok)
  have fin: "concat (map ps_missing ds) = []"
      "plan = \<lparr>up_packages = concat (map ps_packages ds) @ map snd (filter (\<lambda>(n, p). map_of cur n = None) adds),
       up_added = map (\<lambda>(n, p). (rp_name p, rp_version p)) (filter (\<lambda>(n, p). map_of cur n = None) adds),
       up_removed = concat (map ps_removed ds), up_changed = concat (map ps_changed ds),
       up_stale = concat (map ps_stale ds)\<rparr>"
    using c(6) by (auto simp: finish_plan_def ds(2) foldr_append_plan Let_def split: if_splits)
  have len: "length cur = length ds" using arg_cong [OF ds(1), of length] by simp
  have "decided sv m adds removes (cur ! i) (ds ! i)" if "i < length cur" for i
  proof (rule decided_intro [OF assms(2)])
    show "decide sv m adds removes (cur ! i) = Some (Inr (ds ! i))"
      using that len arg_cong [OF ds(1), of "\<lambda>xs. xs ! i"] by simp
    show "ps_missing (ds ! i) = []" using that len fin(1) by simp
  qed
  then have "list_all2 (decided sv m adds removes) cur ds" by (auto simp: list_all2_conv_all_nth len)
  moreover have "set adds \<subseteq> (\<lambda>p. (rp_name p, p)) ` set add_packages"
  proof
    fix x assume "x \<in> set adds"
    then have "map_of adds (fst x) = Some (snd x)" using keyed(1) btree_mem [of adds "fst x" "snd x"]
      by (simp add: keyed_def)
    then have "snd x \<in> set add_packages" "rp_name (snd x) = fst x"
      using keyed(3) keyed(1) by (simp_all add: keyed_def)
    then show "x \<in> (\<lambda>p. (rp_name p, p)) ` set add_packages" by (intro image_eqI [of _ _ "snd x"]) simp_all
  qed
  moreover have "rp_name p \<notin> set removes" if "p \<in> set add_packages" for p
    using c(1) that by (auto simp: add_and_remove_def split: if_splits)
  moreover have "fst ` set adds = rp_name ` set add_packages"
    using keyed(2) by (simp add: dom_map_of_conv_image_fst)
  moreover have "distinct removes" using c(3) by (simp add: duplicate_remove_None)
  moreover have "set removes \<subseteq> fst ` set cur"
    using c(4) by (auto simp: remove_not_installed_def map_of_eq_None_iff split: if_splits)
  ultimately show ?thesis using that [OF _ c(2) keyed(1)] fin(2) by blast
qed

lemma decided_names:
  "list_all2 (decided sv m adds removes) cur ds \<Longrightarrow> keyed adds \<Longrightarrow>
   map rp_name (concat (map ps_packages ds)) = filter (\<lambda>n. n \<notin> set removes) (map fst cur)"
  by (induction rule: list_all2_induct) (auto simp: decided_def one_package_def planned_name)

lemma decided_removed:
  "list_all2 (decided sv m adds removes) cur ds \<Longrightarrow>
   concat (map ps_removed ds) = map (\<lambda>(n, p). (n, mp_version p)) (filter (\<lambda>(n, p). n \<in> set removes) cur)"
  by (induction rule: list_all2_induct) (auto simp: decided_def one_package_def)

lemma decided_package:
  "list_all2 (decided sv m adds removes) cur ds \<Longrightarrow> q \<in> set (concat (map ps_packages ds)) \<Longrightarrow>
   \<exists>n p. (n, p) \<in> set cur \<and> n \<notin> set removes \<and> planned sv m adds n p q \<and>
     (differs adds n p q \<longrightarrow> change_of n p q \<in> set (concat (map ps_changed ds)))"
proof (induction rule: list_all2_induct)
  case (Cons x xs d ds)
  then show ?case
    by (cases x) (fastforce simp: decided_def one_package_def split: if_splits)
qed simp

lemma decided_changed:
  "list_all2 (decided sv m adds removes) cur ds \<Longrightarrow> c \<in> set (concat (map ps_changed ds)) \<Longrightarrow>
   \<exists>n p q. (n, p) \<in> set cur \<and> q \<in> set (concat (map ps_packages ds)) \<and> planned sv m adds n p q \<and>
     differs adds n p q \<and> c = change_of n p q"
proof (induction rule: list_all2_induct)
  case (Cons x xs d ds)
  show ?case
  proof (cases "c \<in> set (ps_changed d)")
    case True
    with Cons.hyps(1) have "fst x \<notin> set removes" by (auto simp: decided_def no_plan_def)
    with Cons.hyps(1) obtain q where "ps_packages d = [q]" "planned sv m adds (fst x) (snd x) q"
        "ps_changed d = (if differs adds (fst x) (snd x) q then [change_of (fst x) (snd x) q] else [])"
      by (auto simp: decided_def one_package_def)
    with True show ?thesis by (intro exI [of _ "fst x"] exI [of _ "snd x"] exI [of _ q]) (auto split: if_splits)
  next
    case False
    with Cons.prems have "c \<in> set (concat (map ps_changed ds))" by simp
    from Cons.IH [OF this] obtain n p q where "(n, p) \<in> set xs" "q \<in> set (concat (map ps_packages ds))"
        "planned sv m adds n p q" "differs adds n p q" "c = change_of n p q" by blast
    then show ?thesis by (intro exI [of _ n] exI [of _ p] exI [of _ q]) simp
  qed
qed simp

lemma decided_changed_once:
  "list_all2 (decided sv m adds removes) cur ds \<Longrightarrow> distinct (map fst cur) \<Longrightarrow>
   distinct (map pc_name (concat (map ps_changed ds))) \<and>
   pc_name ` set (concat (map ps_changed ds)) \<subseteq> fst ` set cur"
proof (induction rule: list_all2_induct)
  case (Cons x xs d ds)
  from Cons.hyps(1) have "ps_changed d = [] \<or> (\<exists>c. ps_changed d = [c] \<and> pc_name c = fst x)"
    by (auto simp: decided_def one_package_def no_plan_def change_of_def split: if_splits)
  moreover from Cons.prems have "fst x \<notin> fst ` set xs" "distinct (map fst xs)" by auto
  moreover from Cons.IH [OF this(2)] this(1) have "fst x \<notin> pc_name ` set (concat (map ps_changed ds))"
      "distinct (map pc_name (concat (map ps_changed ds)))"
      "pc_name ` set (concat (map ps_changed ds)) \<subseteq> fst ` set xs" by blast+
  ultimately show ?case by (elim disjE exE conjE) (simp_all add: subset_insertI2)
qed simp

lemma index_ok_merge: "index_ok (map_option (merge_indexes sv) fs)"
  by (auto simp: index_ok_def merge_indexes_wf)

lemma sorted_filter_distinct: "btree cur \<Longrightarrow> distinct (filter P (map fst cur))"
  using btree_distinct [of cur] by simp

text \<open>What a plan holds for a package that was installed.\<close>

lemma plan_installed:
  assumes plan: "compute_upgrade_plan sv cur m adds removes = Some (Inr plan)" and "index_ok m" "btree cur"
    and n: "(n, p) \<in> set cur" "q \<in> set (up_packages plan)" "rp_name q = n"
  shows "\<exists>as. collect_adds adds [] = Inr as \<and> keyed as \<and> fst ` set as = rp_name ` set adds \<and>
    planned sv m as n p q \<and> (differs as n p q \<longrightarrow> change_of n p q \<in> set (up_changed plan))"
proof -
  from compute_okE [OF plan \<open>index_ok m\<close>] obtain as ds where a: "keyed as" "fst ` set as = rp_name ` set adds"
    "list_all2 (decided sv m as removes) cur ds" "collect_adds adds [] = Inr as"
    and p: "up_packages plan = concat (map ps_packages ds) @ map snd (filter (\<lambda>(n, p). map_of cur n = None) as)"
      "up_changed plan = concat (map ps_changed ds)"
    by (metis (no_types, lifting) upgrade_plan.select_convs(1,4))
  have "q \<notin> snd ` set (filter (\<lambda>(n, p). map_of cur n = None) as)"
  proof
    assume "q \<in> snd ` set (filter (\<lambda>(n, p). map_of cur n = None) as)"
    then obtain k where "(k, q) \<in> set as" "map_of cur k = None" by auto
    moreover from this a(1) have "rp_name q = k" using btree_mem [of as k q] by (simp add: keyed_def)
    ultimately show False using n(1,3) by (force simp: map_of_eq_None_iff)
  qed
  with n(2) have "q \<in> set (concat (map ps_packages ds))" unfolding p(1) by simp
  from decided_package [OF a(3) this] obtain n' p' where q: "(n', p') \<in> set cur" "planned sv m as n' p' q"
      "differs as n' p' q \<longrightarrow> change_of n' p' q \<in> set (up_changed plan)"
    unfolding p(2) by blast
  moreover have "n' = n" using planned_name [OF a(1) q(2)] n(3) by simp
  moreover have "p' = p" using q(1) n(1) btree_mem [OF \<open>btree cur\<close>] \<open>n' = n\<close> by simp
  ultimately show ?thesis using a(1,2,4) by blast
qed

section \<open>When planning succeeds\<close>

text \<open>An installed package that keeps the plan from being made: a system package no server
  publishes, a system package with a pin that cannot be read, or a package for which the best
  entries disagree.\<close>

definition blocked :: "('v::linorder, 'r) semver \<Rightarrow> ('v, 'j) merged_index option \<Rightarrow> string \<Rightarrow> manifest_package \<Rightarrow> bool" where
  "blocked sv m n p \<longleftrightarrow> (\<exists>i. m = Some i \<and> (fatal sv i n p \<or> named i n = [] \<and> mp_installed_by p = BySystem))"

lemma decide_blocked:
  assumes "index_ok m" "n \<notin> set removes" "map_of adds n = None" "blocked sv m n p"
  shows "\<nexists>d. decide sv m adds removes (n, p) = Some (Inr d) \<and> ps_missing d = []"
proof -
  from assms(4) obtain i where i: "m = Some i" "fatal sv i n p \<or> named i n = [] \<and> mp_installed_by p = BySystem"
    by (auto simp: blocked_def)
  with assms(1) have wf: "index_wf i" by (simp add: index_ok_def)
  have "pick_best_candidate sv n (eligible sv i n p) b c = Inl (Ambiguous n)"
    if "eligible sv i n p \<noteq> []" "\<nexists>e. best_of (eligible sv i n p) e" for b c
    using pick_best_cases [OF that(1)] that(2) by blast
  with assms(2,3) i show ?thesis
    by (auto simp: plan_package_def upgrade_package_def resolve_installed_eq [OF wf] fatal_def split: if_splits)
qed

lemma decide_total: "index_ok m \<Longrightarrow> decide sv m adds removes x \<noteq> None"
  using decide_kept [of m "fst x" removes sv adds "snd x"] decide_removed [of "fst x" removes sv m adds "snd x"]
  by (cases "fst x \<in> set removes") auto

lemma decide_ok_iff:
  assumes "index_ok m" "n \<notin> set removes"
  shows "(\<exists>d. decide sv m adds removes (n, p) = Some (Inr d) \<and> ps_missing d = []) \<longleftrightarrow>
    map_of adds n \<noteq> None \<or> \<not> blocked sv m n p"
  using decide_kept [OF assms, of sv adds p] decide_blocked [OF assms, of adds sv p]
  by (auto simp: one_package_def blocked_def)

lemma plan_loop_missing:
  "(\<exists>st. plan_loop sv m adds removes cur no_plan = Some (Inr st) \<and> ps_missing st = []) \<longleftrightarrow>
   (\<forall>x \<in> set cur. \<exists>d. decide sv m adds removes x = Some (Inr d) \<and> ps_missing d = [])"
  (is "?lhs \<longleftrightarrow> ?rhs")
proof
  assume ?lhs
  then obtain ds where ds: "map (decide sv m adds removes) cur = map (Some \<circ> Inr) ds"
      "concat (map ps_missing ds) = []" by (auto simp: plan_loop_ok foldr_append_plan)
  show ?rhs
  proof
    fix x assume "x \<in> set cur"
    then have "decide sv m adds removes x \<in> set (map (Some \<circ> Inr) ds)" unfolding ds(1) [symmetric] by simp
    with ds(2) show "\<exists>d. decide sv m adds removes x = Some (Inr d) \<and> ps_missing d = []" by auto
  qed
next
  assume ?rhs
  then obtain f where f: "\<And>x. x \<in> set cur \<Longrightarrow> decide sv m adds removes x = Some (Inr (f x)) \<and> ps_missing (f x) = []"
    by metis
  then have "map (decide sv m adds removes) cur = map (Some \<circ> Inr) (map f cur)" by simp
  then have "plan_loop sv m adds removes cur no_plan = Some (Inr (foldr append_plan (map f cur) no_plan))"
    unfolding plan_loop_ok by (intro exI [of _ "map f cur"]) simp
  moreover have "ps_missing (foldr append_plan (map f cur) no_plan) = []" using f by (auto simp: foldr_append_plan)
  ultimately show ?lhs by blast
qed

lemma finish_plan_ok: "(\<exists>plan. finish_plan cur adds st = Inr plan) \<longleftrightarrow> ps_missing st = []"
  by (simp add: finish_plan_def Let_def)

lemma compute_ok_iff:
  "(\<exists>plan. compute_upgrade_plan sv cur m add_packages removes = Some (Inr plan)) \<longleftrightarrow>
     add_and_remove add_packages removes = None \<and> duplicate_remove removes {} = None \<and>
     remove_not_installed cur removes = None \<and>
     (\<exists>adds. collect_adds add_packages [] = Inr adds \<and>
       (\<forall>x \<in> set cur. \<exists>d. decide sv m adds removes x = Some (Inr d) \<and> ps_missing d = []))"
  unfolding plan_loop_missing [symmetric]
  by (auto simp: compute_upgrade_plan_def no_plan_def finish_plan_ok split: option.splits sum.splits)

section \<open>A second upgrade\<close>

lemma btree_of_btree: "btree xs \<Longrightarrow> btree_of xs = xs"
  using btree_distinct [of xs] map_of_inject_set [of "rev xs" xs]
  by (intro btree_eqI) (simp_all add: map_of_btree_of flip: rev_map)

lemma to_manifest_kept [simp]: "to_manifest_package (manifest_package_to_resolved n p) = p"
  by (simp add: to_manifest_package_def manifest_package_to_resolved_def)

lemma decide_upgrade_cases:
  assumes "index_wf i" "n \<notin> set removes" "decide sv (Some i) [] removes (n, p) = Some (Inr d)" "ps_missing d = []"
  obtains "d = carry_stale n p no_plan"
  | e where "best_of (eligible sv i n p) e" "named i n \<noteq> []" "pin_valid sv p"
      "d = install_package (me_store_path e \<noteq> mp_store_path p) n p
             (merged_entry_to_resolved sv e (mp_installed_by p) (mp_pinned p)) no_plan"
proof -
  from assms(2,3) have up: "upgrade_package sv i n p no_plan = Some (Inr d)" by (simp add: plan_package_def)
  show ?thesis
  proof (cases "resolve_installed_package sv i n p")
    case None
    with up show ?thesis by (simp add: upgrade_package_def)
  next
    case (Some r)
    show ?thesis
    proof (cases r)
      case (Inl err)
      with up Some assms(4) show ?thesis
        by (auto simp: upgrade_package_def intro!: that(1) split: resolve_error.splits if_splits)
    next
      case (Inr q)
      then have ok: "named i n \<noteq> []" "pin_valid sv p"
          "pick_best_candidate sv n (eligible sv i n p) (mp_installed_by p) (mp_pinned p) = Inr q"
        using Some by (auto simp: resolve_installed_eq [OF assms(1)] split: if_splits)
      from pick_best_Inr [OF ok(3)] obtain e where e: "best_of (eligible sv i n p) e"
          "q = merged_entry_to_resolved sv e (mp_installed_by p) (mp_pinned p)" by blast
      have "d = install_package (rp_store_path q \<noteq> mp_store_path p) n p q no_plan"
        using up Some Inr by (simp add: upgrade_package_def)
      then show ?thesis using that(2) [OF e(1) ok(1,2)] e(2) by (simp add: merged_entry_to_resolved_def)
    qed
  qed
qed

lemma decide_upgraded:
  assumes "index_wf i" "named i n \<noteq> []" "pin_valid sv p" "best_of (eligible sv i n p) e"
  shows "\<exists>f. me_name f = n \<and> me_version f = me_version e \<and> me_store_path f = me_store_path e \<and>
    decide sv (Some i) [] [] (n, p) = Some (Inr (install_package (me_store_path f \<noteq> mp_store_path p) n p
      (merged_entry_to_resolved sv f (mp_installed_by p) (mp_pinned p)) no_plan))"
proof -
  have "eligible sv i n p \<noteq> []" using best_of_mem [OF assms(4)] by auto
  moreover from pick_best_of [OF assms(4), of sv n "mp_installed_by p" "mp_pinned p"] obtain f where
    "best_of (eligible sv i n p) f" "me_version f = me_version e" "me_store_path f = me_store_path e"
    "pick_best_candidate sv n (eligible sv i n p) (mp_installed_by p) (mp_pinned p) =
       Inr (merged_entry_to_resolved sv f (mp_installed_by p) (mp_pinned p))" by blast
  moreover from this have "me_name f = n"
    using scope_named [OF eligible_scope [OF best_of_mem]] by blast
  ultimately show ?thesis
    using assms(2,3) by (intro exI [of _ f]) (simp add: plan_package_def upgrade_package_def
      resolve_installed_eq [OF assms(1)] merged_entry_to_resolved_def)
qed

text \<open>The best entry of a package is still the best one once it is installed.\<close>

lemma eligible_again:
  assumes semver: "sv_parse sv (sv_show sv (me_version e)) = Some (me_version e)"
    and e: "best_of (eligible sv i n p) e"
  shows "best_of (eligible sv i n (to_manifest_package
    (merged_entry_to_resolved sv e (mp_installed_by p) (mp_pinned p)))) e"
proof (rule best_of_subset [OF e])
  let ?p = "to_manifest_package (merged_entry_to_resolved sv e (mp_installed_by p) (mp_pinned p))"
  have fields: "mp_installed_from ?p = me_server_id e" "mp_pinned ?p = mp_pinned p"
      "mp_version ?p = sv_show sv (me_version e)"
    by (simp_all add: to_manifest_package_def merged_entry_to_resolved_def)
  have parse: "parse_package_version sv (mp_version ?p) = Some (me_version e)"
    by (simp add: fields parse_package_version_def semver)
  have in_e: "e \<in> set (scope i n p)" "not_older sv p (me_version e)" "pin_allows sv p (me_version e)"
    using best_of_mem [OF e] by (simp_all add: eligible_def)
  have named: "e \<in> set (named i n)" using scope_named [OF in_e(1)] by (simp add: named_def)
  then have scope': "scope i n ?p = filter (\<lambda>x. me_server_id x = me_server_id e) (named i n)"
    by (auto simp: scope_def fields Let_def filter_empty_conv)
  have "set (scope i n ?p) \<subseteq> set (scope i n p)"
    using in_e(1) unfolding scope' by (auto simp: scope_def Let_def split: if_splits)
  moreover have "not_older sv p (me_version x)" if "not_older sv ?p (me_version x)" for x
    using in_e(2) that parse by (auto simp: not_older_def split: option.splits)
  ultimately show "set (eligible sv i n ?p) \<subseteq> set (eligible sv i n p)"
    by (auto simp: eligible_def pin_allows_def fields(2))
  show "e \<in> set (eligible sv i n ?p)"
    using in_e(3) named parse by (simp add: eligible_def scope' not_older_def pin_allows_def fields(2))
qed

abbreviation spec_of :: "'j resolved_package \<Rightarrow> string \<times> string \<times> string" where
  "spec_of q \<equiv> (rp_name q, rp_version q, rp_store_path q)"

lemma decide_again:
  assumes semver: "\<And>v. sv_parse sv (sv_show sv v) = Some v" and wf: "index_wf i"
    and d: "decided sv (Some i) [] removes (n, p) d" "n \<notin> set removes"
  shows "\<exists>q d'. ps_packages d = [q] \<and> decide sv (Some i) [] [] (n, to_manifest_package q) = Some (Inr d') \<and>
    map spec_of (ps_packages d') = [spec_of q] \<and> ps_changed d' = [] \<and> ps_removed d' = [] \<and>
    ps_missing d' = [] \<and> ps_stale d' = ps_stale d"
proof -
  have "decide sv (Some i) [] removes (n, p) = Some (Inr d)" "ps_missing d = []"
    using d by (simp_all add: decided_def one_package_def)
  from decide_upgrade_cases [OF wf d(2) this] show ?thesis
  proof cases
    case 1
    have "decide sv (Some i) [] [] (n, p) = Some (Inr d)"
      using d by (simp add: decided_def plan_package_def)
    with 1 show ?thesis by (auto simp: carry_stale_def keep_package_def)
  next
    case (2 e)
    let ?q = "merged_entry_to_resolved sv e (mp_installed_by p) (mp_pinned p)"
    let ?p = "to_manifest_package ?q"
    have "pin_valid sv ?p"
      using 2(3) by (simp add: pin_valid_def to_manifest_package_def merged_entry_to_resolved_def)
    from decide_upgraded [OF wf 2(2) this eligible_again [OF semver 2(1)]] obtain f where f:
      "me_name f = n" "me_version f = me_version e" "me_store_path f = me_store_path e"
      "decide sv (Some i) [] [] (n, ?p) = Some (Inr (install_package (me_store_path f \<noteq> mp_store_path ?p) n ?p
        (merged_entry_to_resolved sv f (mp_installed_by ?p) (mp_pinned ?p)) no_plan))" by blast
    moreover have "me_name e = n" using scope_named [OF eligible_scope [OF best_of_mem [OF 2(1)]]] by simp
    ultimately show ?thesis using 2(4)
      by (auto simp: install_package_def merged_entry_to_resolved_def to_manifest_package_def)
  qed
qed

lemma decided_again:
  assumes semver: "\<And>v. sv_parse sv (sv_show sv v) = Some v" and wf: "index_wf i"
  shows "list_all2 (decided sv (Some i) [] removes) cur ds \<Longrightarrow>
    \<exists>ds'. map (decide sv (Some i) [] []) (map (\<lambda>q. (rp_name q, to_manifest_package q)) (concat (map ps_packages ds))) =
        map (Some \<circ> Inr) ds' \<and>
      map spec_of (concat (map ps_packages ds')) = map spec_of (concat (map ps_packages ds)) \<and>
      concat (map ps_changed ds') = [] \<and> concat (map ps_removed ds') = [] \<and> concat (map ps_missing ds') = [] \<and>
      concat (map ps_stale ds') = concat (map ps_stale ds)"
proof (induction rule: list_all2_induct)
  case (Cons x xs d ds)
  obtain n p where x: "x = (n, p)" by (cases x)
  from Cons.IH obtain ds' where ih:
    "map (decide sv (Some i) [] []) (map (\<lambda>q. (rp_name q, to_manifest_package q)) (concat (map ps_packages ds))) =
        map (Some \<circ> Inr) ds'"
    "map spec_of (concat (map ps_packages ds')) = map spec_of (concat (map ps_packages ds))"
    "concat (map ps_changed ds') = []" "concat (map ps_removed ds') = []" "concat (map ps_missing ds') = []"
    "concat (map ps_stale ds') = concat (map ps_stale ds)" by blast
  show ?case
  proof (cases "n \<in> set removes")
    case True
    with Cons.hyps(1) x have "ps_packages d = []" "ps_stale d = []" by (simp_all add: decided_def)
    with ih show ?thesis by (intro exI [of _ ds']) simp
  next
    case False
    from decide_again [OF semver wf Cons.hyps(1) [unfolded x] False] obtain q d' where d':
      "ps_packages d = [q]" "decide sv (Some i) [] [] (n, to_manifest_package q) = Some (Inr d')"
      "map spec_of (ps_packages d') = [spec_of q]" "ps_changed d' = []" "ps_removed d' = []"
      "ps_missing d' = []" "ps_stale d' = ps_stale d" by (elim exE conjE) (rule that)
    have "rp_name q = n"
      using Cons.hyps(1) False d'(1) planned_name [of "[]" sv "Some i" n p q]
      by (auto simp: x decided_def one_package_def keyed_def)
    with ih d' show ?thesis by (intro exI [of _ "d' # ds'"]) simp
  qed
qed simp

end
