(* ===== verification/Pkg_Plan_Thms.thy ===== *)
theory Pkg_Plan_Thms
  imports Pkg_Plan_Props
begin

text \<open>
  The properties of upgrade plans: what a plan installs, that nothing is downgraded or moved away
  from the server it came from, when planning fails, and that a second upgrade changes nothing.
\<close>

section \<open>A device with one package\<close>

text \<open>Versions written in unary, for an example.\<close>

definition unary :: "(nat, unit) semver" where
  "unary = \<lparr>sv_parse = (\<lambda>s. if list_all (\<lambda>c. c = CHR ''1'') s then Some (length s) else None),
     sv_show = (\<lambda>n. replicate n (CHR ''1'')),
     sv_parse_req = (\<lambda>s. if s = ''*'' then Some () else None), sv_matches = (\<lambda>_ _. True)\<rparr>"

lemma unary_semver: "sv_parse unary (sv_show unary v) = Some v"
  by (simp add: unary_def list_all_iff)

definition sample_entry :: "string \<Rightarrow> string \<Rightarrow> unit package_entry" where
  "sample_entry version path = \<lparr>pe_name = ''app'', pe_version = version, pe_cache = None,
     pe_store_path = path, pe_category = None, pe_description = None, pe_upgrade_strategy = None,
     pe_install_strategy = None, pe_metadata = []\<rparr>"

definition sample_indexes :: "unit fetched_index list" where
  "sample_indexes = [\<lparr>fi_server_id = ''s'', fi_server_priority = 1, fi_index = \<lparr>pi_version = 1,
     pi_provenance = None, pi_indexes = [], pi_caches = [],
     pi_packages = [sample_entry ''1'' ''/a'', sample_entry ''11'' ''/b'']\<rparr>\<rparr>]"

definition sample_installed :: manifest_package where
  "sample_installed = \<lparr>mp_version = ''1'', mp_store_path = ''/a'', mp_category = None,
     mp_description = None, mp_upgrade_strategy = None, mp_install_strategy = None,
     mp_installed_by = BySystem, mp_installed_from = ''s'', mp_pinned = None\<rparr>"

definition sample_target :: "unit resolved_package" where
  "sample_target = \<lparr>rp_name = ''app'', rp_version = ''11'', rp_store_path = ''/b'', rp_category = None,
     rp_description = None, rp_upgrade_strategy = None, rp_install_strategy = None,
     rp_installed_by = BySystem, rp_installed_from = ''s'', rp_pinned = None, rp_metadata = []\<rparr>"

definition sample_plan :: "unit upgrade_plan" where
  "sample_plan = \<lparr>up_packages = [sample_target], up_added = [], up_removed = [],
     up_changed = [change_of ''app'' sample_installed sample_target], up_stale = []\<rparr>"

lemma sample_plan_value:
  "compute_upgrade_plan unary [(''app'', sample_installed)] (Some (merge_indexes unary sample_indexes)) [] [] =
     Some (Inr sample_plan)"
  by code_simp

definition requested_plan :: "unit upgrade_plan" where
  "requested_plan = \<lparr>up_packages = [sample_target, sample_target\<lparr>rp_name := ''new'', rp_version := ''1''\<rparr>],
     up_added = [(''new'', ''1'')], up_removed = [],
     up_changed = [change_of ''app'' sample_installed sample_target], up_stale = []\<rparr>"

lemma requested_plan_value:
  "compute_upgrade_plan unary [(''app'', sample_installed)] None
     [sample_target, sample_target\<lparr>rp_name := ''new'', rp_version := ''1''\<rparr>] [] = Some (Inr requested_plan)"
  by code_simp

section \<open>Properties\<close>

text \<open>C4. Upgrading converges: on a device that has applied an upgrade, upgrading again from the same
  indexes plans exactly the packages that are installed, with the same stale ones, changes nothing
  and skips the rebuild.\<close>

theorem upgrade_converges:
  assumes semver: "\<And>v. sv_parse sv (sv_show sv v) = Some v"
    and cur: "btree cur"
    and plan: "compute_upgrade_plan sv cur (Some (merge_indexes sv fs)) [] removes = Some (Inr plan)"
  shows "\<exists>again. compute_upgrade_plan sv (build_manifest (up_packages plan)) (Some (merge_indexes sv fs)) [] [] =
       Some (Inr again) \<and>
     should_skip_rebuild False again \<and> up_stale again = up_stale plan \<and>
     map spec_of (up_packages again) = map spec_of (up_packages plan)"
proof -
  have ok: "index_ok (Some (merge_indexes sv fs))" by (simp add: index_ok_def merge_indexes_wf)
  from compute_okE [OF plan ok] obtain as ds where as: "collect_adds [] [] = Inr as"
    "list_all2 (decided sv (Some (merge_indexes sv fs)) as removes) cur ds"
    and p: "up_packages plan = concat (map ps_packages ds) @ map snd (filter (\<lambda>(n, p). map_of cur n = None) as)"
      "up_stale plan = concat (map ps_stale ds)"
    by (metis (no_types, lifting) upgrade_plan.select_convs(1,5))
  then have ds: "list_all2 (decided sv (Some (merge_indexes sv fs)) [] removes) cur ds"
    and p: "up_packages plan = concat (map ps_packages ds)" "up_stale plan = concat (map ps_stale ds)" by simp_all
  let ?cur = "map (\<lambda>q. (rp_name q, to_manifest_package q)) (up_packages plan)"
  have "map fst ?cur = filter (\<lambda>n. n \<notin> set removes) (map fst cur)"
    using decided_names [OF ds] by (simp add: p(1) keyed_def comp_def)
  then have "btree ?cur" using cur by (simp add: sorted_wrt_filter)
  then have man: "build_manifest (up_packages plan) = ?cur" by (simp add: build_manifest_def btree_of_btree)
  from decided_again [OF semver merge_indexes_wf ds] obtain ds' where ds':
    "map (decide sv (Some (merge_indexes sv fs)) [] []) ?cur = map (Some \<circ> Inr) ds'"
    "map spec_of (concat (map ps_packages ds')) = map spec_of (up_packages plan)"
    "concat (map ps_changed ds') = []" "concat (map ps_removed ds') = []" "concat (map ps_missing ds') = []"
    "concat (map ps_stale ds') = up_stale plan" unfolding p by blast
  from ds'(1) have "plan_loop sv (Some (merge_indexes sv fs)) [] [] ?cur no_plan =
      Some (Inr (foldr append_plan ds' no_plan))" unfolding plan_loop_ok by auto
  then show ?thesis
    unfolding man using ds'(2-)
    by (simp add: compute_upgrade_plan_def add_and_remove_def remove_not_installed_def finish_plan_def
      foldr_append_plan should_skip_rebuild_def flip: no_plan_def)
qed


theorem upgrade_converges_witness:
  "\<exists>again. compute_upgrade_plan unary (build_manifest [sample_target]) (Some (merge_indexes unary sample_indexes)) [] [] =
     Some (Inr again) \<and> should_skip_rebuild False again"
  using upgrade_converges [OF unary_semver _ sample_plan_value] by (auto simp: sample_plan_def)

text \<open>C5. Planning never downgrades: every installed package that stays is planned at the installed
  version or a newer one, whatever the servers publish and whatever is asked for, as far as the
  versions can be compared; it keeps its owner, so a system package stays one, and unless it is
  asked for explicitly it keeps its pin.\<close>

theorem plan_never_downgrades:
  assumes semver: "\<And>v. sv_parse sv (sv_show sv v) = Some v"
    and cur: "btree cur"
    and plan: "compute_upgrade_plan sv cur (map_option (merge_indexes sv) fs) adds removes = Some (Inr plan)"
    and n: "(n, p) \<in> set cur" "q \<in> set (up_packages plan)" "rp_name q = n"
  shows "rp_installed_by q = mp_installed_by p \<and>
    (\<forall>i v. parse_package_version sv (mp_version p) = Some i \<longrightarrow>
       parse_package_version sv (rp_version q) = Some v \<longrightarrow> i \<le> v) \<and>
    (n \<notin> rp_name ` set adds \<longrightarrow> rp_pinned q = mp_pinned p)"
proof -
  from plan_installed [OF plan index_ok_merge cur n] obtain as where
    as: "keyed as" "fst ` set as = rp_name ` set adds" and q: "planned sv (map_option (merge_indexes sv) fs) as n p q"
    by blast
  from q show ?thesis
  proof cases
    case kept
    then show ?thesis by (simp add: manifest_package_to_resolved_def)
  next
    case (replaced new)
    then have "n \<in> rp_name ` set adds" using as(2) by (metis fst_conv image_eqI map_of_SomeD)
    with replaced show ?thesis by (auto simp: is_downgrade_def)
  next
    case (upgraded i e)
    from best_of_mem [OF upgraded(4)] have "not_older sv p (me_version e)" by (simp add: eligible_def)
    moreover have "parse_package_version sv (sv_show sv (me_version e)) = Some (me_version e)"
      by (simp add: parse_package_version_def semver)
    ultimately show ?thesis
      using upgraded(1) by (auto simp: merged_entry_to_resolved_def not_older_def)
  qed
qed

theorem plan_never_downgrades_witness:
  "rp_installed_by sample_target = BySystem \<and> rp_pinned sample_target = None"
  using plan_never_downgrades [of unary "[(''app'', sample_installed)]" "Some sample_indexes" "[]" "[]" sample_plan
    "''app''" sample_installed sample_target]
  by (simp add: unary_semver sample_plan_value) (simp add: sample_plan_def sample_target_def sample_installed_def)

text \<open>What a request for a package comes to: a package that is not installed is taken as it was
  asked for; an installed one is replaced by it but keeps its owner and category, unless both
  versions can be read and the requested one is older, when it stays as it is.\<close>

definition version_below :: "('v::linorder, 'r) semver \<Rightarrow> string \<Rightarrow> string \<Rightarrow> bool" where
  "version_below sv a b \<longleftrightarrow>
     (\<exists>v w. parse_package_version sv a = Some v \<and> parse_package_version sv b = Some w \<and> v < w)"

definition granted ::
  "('v::linorder, 'r) semver \<Rightarrow> manifest \<Rightarrow> 'j resolved_package \<Rightarrow> 'j resolved_package" where
  "granted sv cur a =
     (case map_of cur (rp_name a) of
        None \<Rightarrow> a
      | Some p \<Rightarrow>
          if version_below sv (rp_version a) (mp_version p) then manifest_package_to_resolved (rp_name a) p
          else a\<lparr>rp_installed_by := mp_installed_by p, rp_category := mp_category p\<rparr>)"

lemma is_downgrade_iff: "is_downgrade sv i n \<longleftrightarrow> version_below sv n i"
  by (auto simp: is_downgrade_def version_below_def split: option.splits)

lemma planned_granted:
  assumes "planned sv m as n p q" "map_of as n = Some a" "map_of cur n = Some p" "rp_name a = n"
  shows "q = granted sv cur a"
  using assms by cases (auto simp: granted_def is_downgrade_iff)

lemma plan_requested:
  assumes plan: "compute_upgrade_plan sv cur m adds removes = Some (Inr plan)" and m: "index_ok m" and cur: "btree cur"
    and q: "q \<in> set (up_packages plan)" "find (\<lambda>a. rp_name a = rp_name q) adds = Some a"
  shows "q = granted sv cur a"
proof (cases "map_of cur (rp_name q)")
  case (Some p)
  then have "(rp_name q, p) \<in> set cur" by (rule map_of_SomeD)
  from plan_installed [OF plan m cur this q(1) refl] obtain as where
    as: "collect_adds adds [] = Inr as" "planned sv m as (rp_name q) p q" by blast
  have "map_of as (rp_name q) = Some a" using collect_adds_first [OF as(1)] q(2) by simp
  with planned_granted [OF as(2) _ Some] q(2) show ?thesis by (auto simp: find_Some_iff)
next
  case None
  from compute_okE [OF plan m] obtain as ds where a: "collect_adds adds [] = Inr as" "keyed as"
    "list_all2 (decided sv m as removes) cur ds"
    and p: "up_packages plan = concat (map ps_packages ds) @ map snd (filter (\<lambda>(n, p). map_of cur n = None) as)"
    by (metis (no_types, lifting) upgrade_plan.select_convs(1))
  have "q \<notin> set (concat (map ps_packages ds))"
    using None arg_cong [OF decided_names [OF a(3,2)], of set] by (force simp: map_of_eq_None_iff)
  with q(1) obtain k where k: "(k, q) \<in> set as" unfolding p by auto
  with a(2) have "map_of as k = Some q" "rp_name q = k" using btree_mem [of as k q] by (auto simp: keyed_def)
  with collect_adds_first [OF a(1), of k] q(2) None show ?thesis by (auto simp: granted_def)
qed

lemma plan_changed:
  assumes plan: "compute_upgrade_plan sv cur m adds removes = Some (Inr plan)" and m: "index_ok m" and cur: "btree cur"
  shows "set (up_changed plan) = {change_of n p q | n p q. (n, p) \<in> set cur \<and> q \<in> set (up_packages plan) \<and>
    rp_name q = n \<and> (rp_store_path q \<noteq> mp_store_path p \<or> n \<in> rp_name ` set adds \<and> rp_version q \<noteq> mp_version p)}"
    (is "_ = ?changes")
proof
  from compute_okE [OF plan m] obtain as ds where a: "keyed as" "fst ` set as = rp_name ` set adds"
    "list_all2 (decided sv m as removes) cur ds"
    and p: "up_packages plan = concat (map ps_packages ds) @ map snd (filter (\<lambda>(n, p). map_of cur n = None) as)"
      "up_changed plan = concat (map ps_changed ds)"
    by (metis (no_types, lifting) upgrade_plan.select_convs(1,4))
  show "set (up_changed plan) \<subseteq> ?changes"
  proof
    fix c assume "c \<in> set (up_changed plan)"
    then obtain n p q where c: "(n, p) \<in> set cur" "q \<in> set (concat (map ps_packages ds))"
        "planned sv m as n p q" "differs as n p q" "c = change_of n p q"
      unfolding p using decided_changed [OF a(3)] by blast
    moreover have "q \<in> set (up_packages plan)" unfolding p(1) using c(2) by simp
    moreover have "rp_name q = n" by (rule planned_name [OF a(1) c(3)])
    moreover have "rp_store_path q \<noteq> mp_store_path p \<or> n \<in> rp_name ` set adds \<and> rp_version q \<noteq> mp_version p"
      using c(4) unfolding a(2) [symmetric] by (auto simp: differs_def map_of_eq_None_iff simp del: not_None_eq)
    ultimately show "c \<in> ?changes" by blast
  qed
  show "?changes \<subseteq> set (up_changed plan)"
  proof safe
    fix p q assume c: "(rp_name q, p) \<in> set cur" "q \<in> set (up_packages plan)"
    from plan_installed [OF plan m cur c refl] obtain as where as: "fst ` set as = rp_name ` set adds"
      "differs as (rp_name q) p q \<longrightarrow> change_of (rp_name q) p q \<in> set (up_changed plan)" by blast
    then show "change_of (rp_name q) p q \<in> set (up_changed plan)" if "rp_store_path q \<noteq> mp_store_path p"
      using that by (simp add: differs_def)
    show "change_of (rp_name q) p q \<in> set (up_changed plan)"
      if "rp_name q = rp_name x" "x \<in> set adds" "rp_version q \<noteq> mp_version p" for x
    proof -
      have "rp_name q \<in> fst ` set as" unfolding as(1) using that(1,2) by (rule image_eqI)
      then show ?thesis using as(2) that(3) by (simp add: differs_def map_of_eq_None_iff)
    qed
  qed
qed

text \<open>C6. A plan installs exactly what was asked for: the packages installed before that are not
  removed, and the ones to add, each once. A package that was asked for is planned as requested,
  with the requested version and store path, except that a replaced package keeps its owner and
  category and is left as it is when the request is for an older version; requests for the same
  package agree on both, and without an index nothing else moves. What the plan reports is what
  happens: exactly the removed packages with their installed versions, exactly the new ones, and
  exactly the packages whose store path differs from the installed one, or that were asked for at
  another version, each once with both versions and paths.\<close>

theorem plan_target_exact:
  assumes cur: "btree cur"
    and plan: "compute_upgrade_plan sv cur (map_option (merge_indexes sv) fs) adds removes = Some (Inr plan)"
  shows "distinct (map rp_name (up_packages plan)) \<and>
    rp_name ` set (up_packages plan) = (fst ` set cur - set removes) \<union> rp_name ` set adds \<and>
    (\<forall>q \<in> set (up_packages plan). \<forall>a. find (\<lambda>a. rp_name a = rp_name q) adds = Some a \<longrightarrow> q = granted sv cur a) \<and>
    (\<forall>a \<in> set adds. \<forall>b \<in> set adds. rp_name a = rp_name b \<longrightarrow>
       rp_version a = rp_version b \<and> rp_store_path a = rp_store_path b) \<and>
    (fs = None \<longrightarrow> (\<forall>(n, p) \<in> set cur. n \<notin> set removes \<longrightarrow> n \<notin> rp_name ` set adds \<longrightarrow>
       manifest_package_to_resolved n p \<in> set (up_packages plan))) \<and>
    up_added plan = map (\<lambda>q. (rp_name q, rp_version q))
      (filter (\<lambda>q. rp_name q \<notin> fst ` set cur) (up_packages plan)) \<and>
    up_removed plan = map (\<lambda>(n, p). (n, mp_version p)) (filter (\<lambda>(n, p). n \<in> set removes) cur) \<and>
    distinct (map pc_name (up_changed plan)) \<and>
    set (up_changed plan) = {change_of n p q | n p q. (n, p) \<in> set cur \<and> q \<in> set (up_packages plan) \<and>
      rp_name q = n \<and> (rp_store_path q \<noteq> mp_store_path p \<or> n \<in> rp_name ` set adds \<and> rp_version q \<noteq> mp_version p)}"
proof -
  from compute_okE [OF plan index_ok_merge] obtain as ds where a:
    "\<And>p. p \<in> set adds \<Longrightarrow> rp_name p \<notin> set removes" "keyed as" "fst ` set as = rp_name ` set adds"
    "list_all2 (decided sv (map_option (merge_indexes sv) fs) as removes) cur ds" "collect_adds adds [] = Inr as"
    and p: "up_packages plan = concat (map ps_packages ds) @ map snd (filter (\<lambda>(n, p). map_of cur n = None) as)"
      "up_added plan = map (\<lambda>(n, p). (rp_name p, rp_version p)) (filter (\<lambda>(n, p). map_of cur n = None) as)"
      "up_removed plan = concat (map ps_removed ds)" "up_changed plan = concat (map ps_changed ds)"
    by (metis (no_types, lifting) upgrade_plan.select_convs(1-4))
  let ?fresh = "filter (\<lambda>(n, p). map_of cur n = None) as"
  let ?new = "map fst ?fresh"
  have keys: "map rp_name (map snd ?fresh) = ?new"
    using a(2) btree_mem [of as] by (auto simp: keyed_def)
  have names: "map rp_name (up_packages plan) = filter (\<lambda>n. n \<notin> set removes) (map fst cur) @ ?new"
    using decided_names [OF a(4,2)] keys unfolding p(1) by simp
  have new: "set ?new = rp_name ` set adds - fst ` set cur"
    unfolding a(3) [symmetric] by (force simp: map_of_eq_None_iff)
  have "distinct (map fst as)" using a(2) btree_distinct by (auto simp: keyed_def)
  then have "distinct ?new" using distinct_map_filter [of fst as "\<lambda>(n, p). map_of cur n = None"] by simp
  then have 1: "distinct (map rp_name (up_packages plan))"
    unfolding names using sorted_filter_distinct [OF cur] new by auto
  have 2: "rp_name ` set (up_packages plan) = (fst ` set cur - set removes) \<union> rp_name ` set adds"
    using arg_cong [OF names, of set] new a(1) by auto
  have 3: "\<forall>a \<in> set adds. \<forall>b \<in> set adds. rp_name a = rp_name b \<longrightarrow>
       rp_version a = rp_version b \<and> rp_store_path a = rp_store_path b"
    unfolding same_spec_def [symmetric] using collect_adds_ok_iff [of adds "[]"] a(5) by blast
  have 4: "manifest_package_to_resolved n p \<in> set (up_packages plan)"
    if "fs = None" "(n, p) \<in> set cur" "n \<notin> set removes" "n \<notin> rp_name ` set adds" for n p
  proof -
    have "n \<in> rp_name ` set (up_packages plan)" unfolding 2 using that(2,3) by force
    then obtain q where q: "q \<in> set (up_packages plan)" "rp_name q = n" by blast
    from plan_installed [OF plan index_ok_merge cur that(2) q] obtain as' where
      as': "fst ` set as' = rp_name ` set adds" "planned sv (map_option (merge_indexes sv) fs) as' n p q" by blast
    from as'(2) have "q = manifest_package_to_resolved n p"
    proof cases
      case (replaced new)
      then have "n \<in> fst ` set as'" using map_of_eq_None_iff [of as' n] by simp
      with as'(1) that(4) show ?thesis by blast
    qed (use that(1) in simp_all)
    with q(1) show ?thesis by simp
  qed
  have old: "filter (\<lambda>q. rp_name q \<notin> fst ` set cur) (concat (map ps_packages ds)) = []"
    using arg_cong [OF decided_names [OF a(4,2)], of set] by (force simp: filter_empty_conv)
  have fresh: "filter (\<lambda>q. rp_name q \<notin> fst ` set cur) (map snd ?fresh) = map snd ?fresh"
    using keys new by (intro filter_True) (metis (mono_tags) DiffE image_eqI set_map)
  have 5: "up_added plan = map (\<lambda>q. (rp_name q, rp_version q))
      (filter (\<lambda>q. rp_name q \<notin> fst ` set cur) (up_packages plan))"
    unfolding p(1,2) filter_append old fresh by (simp add: case_prod_beta)
  have 6: "distinct (map pc_name (up_changed plan))"
    unfolding p(4) using decided_changed_once [OF a(4)] btree_distinct [OF cur] by simp
  have 7: "\<forall>q \<in> set (up_packages plan). \<forall>a. find (\<lambda>a. rp_name a = rp_name q) adds = Some a \<longrightarrow> q = granted sv cur a"
    using plan_requested [OF plan index_ok_merge cur] by blast
  have 8: "up_removed plan = map (\<lambda>(n, p). (n, mp_version p)) (filter (\<lambda>(n, p). n \<in> set removes) cur)"
    using decided_removed [OF a(4)] p(3) by simp
  have 9: "fs = None \<longrightarrow> (\<forall>(n, p) \<in> set cur. n \<notin> set removes \<longrightarrow> n \<notin> rp_name ` set adds \<longrightarrow>
       manifest_package_to_resolved n p \<in> set (up_packages plan))" using 4 by blast
  show ?thesis by (intro conjI 1 2 3 5 6 7 8 9 plan_changed [OF plan index_ok_merge cur])
qed

theorem plan_target_exact_witness:
  "rp_name ` set (up_packages requested_plan) = {''app'', ''new''} \<and>
   rp_store_path (the (find (\<lambda>q. rp_name q = ''app'') (up_packages requested_plan))) = ''/b'' \<and>
   up_added requested_plan = [(''new'', ''1'')] \<and>
   set (up_changed requested_plan) = {change_of ''app'' sample_installed sample_target}"
  using plan_target_exact [of "[(''app'', sample_installed)]" unary None "[sample_target, sample_target\<lparr>rp_name := ''new'', rp_version := ''1''\<rparr>]" "[]" requested_plan]
  by (simp add: requested_plan_value)
    (auto simp: requested_plan_def sample_target_def sample_installed_def change_of_def)

text \<open>C31. An upgrade moves an installed package only to what a server publishes for it, within its
  pin, and stays with the server the package came from: another server is used only when that one
  publishes no readable version of the package any more.\<close>

theorem plan_stays_at_origin:
  assumes cur: "btree cur"
    and plan: "compute_upgrade_plan sv cur (Some (merge_indexes sv fs)) adds removes = Some (Inr plan)"
    and n: "(n, p) \<in> set cur" "q \<in> set (up_packages plan)" "rp_name q = n" "n \<notin> rp_name ` set adds"
  shows "q = manifest_package_to_resolved n p \<or>
    (\<exists>x. published sv fs x \<and> me_name x = n \<and> rp_store_path q = me_store_path x \<and>
       rp_installed_from q = me_server_id x \<and> rp_version q = sv_show sv (me_version x) \<and>
       pin_allows sv p (me_version x) \<and>
       (me_server_id x = mp_installed_from p \<or>
        (\<forall>y. published sv fs y \<and> me_name y = n \<longrightarrow> me_server_id y \<noteq> mp_installed_from p)))"
proof -
  have "index_ok (Some (merge_indexes sv fs))" by (simp add: index_ok_def merge_indexes_wf)
  from plan_installed [OF plan this cur n(1-3)] obtain as where
    as: "fst ` set as = rp_name ` set adds" and q: "planned sv (Some (merge_indexes sv fs)) as n p q"
    by blast
  from q show ?thesis
  proof cases
    case (replaced new)
    then show ?thesis using as n(4) by (metis fst_conv image_eqI map_of_SomeD)
  next
    case (upgraded i e)
    let ?m = "merge_indexes sv fs"
    have e: "e \<in> set (scope ?m n p)" "pin_allows sv p (me_version e)"
      using best_of_mem [OF upgraded(4)] upgraded(3) by (simp_all add: eligible_def)
    have "me_server_id e = mp_installed_from p \<or> (\<forall>y \<in> set (named ?m n). me_server_id y \<noteq> mp_installed_from p)"
      using e(1) by (auto simp: scope_def Let_def filter_empty_conv split: if_splits)
    then have "me_server_id e = mp_installed_from p \<or>
        (\<forall>y. published sv fs y \<and> me_name y = n \<longrightarrow> me_server_id y \<noteq> mp_installed_from p)"
      by (auto simp: named_def merge_indexes_packages)
    moreover have "published sv fs e" "me_name e = n"
      using scope_named [OF e(1)] by (simp_all add: merge_indexes_packages)
    ultimately show ?thesis using e(2) upgraded(1) by (auto simp: merged_entry_to_resolved_def)
  qed simp
qed

theorem plan_stays_at_origin_witness:
  "\<exists>x. published unary sample_indexes x \<and> me_store_path x = ''/b'' \<and> me_server_id x = ''s''"
  using plan_stays_at_origin [of "[(''app'', sample_installed)]" unary sample_indexes "[]" "[]" sample_plan
    "''app''" sample_installed sample_target]
  by (simp add: sample_plan_value)
    (auto simp: sample_plan_def sample_target_def sample_installed_def manifest_package_to_resolved_def)



end
