(* ===== verification/Pkg_Feed.thy ===== *)
theory Pkg_Feed
  imports Pkg_Index
begin

text \<open>
  The package feed (\<^verbatim>\<open>bmc-nix/src/feed.rs\<close>): entries keyed by a full firmware version or by the release name
  that several versions share, and how the entry of a firmware is chosen.
\<close>

definition package_feed_version :: u32 where
  "package_feed_version = 1"

record feed_entry =
  fe_bos_version :: string
  fe_download_url :: string
  fe_profile_path :: string
  fe_index_url :: "string option"
  fe_signature :: "string option"

record package_feed =
  pf_version :: u32
  pf_entries :: "feed_entry list"

datatype feed_error =
    FeedUnsupportedVersion string u32
  | FeedDuplicateEntry string string
  | FeedMissingEntry string string
  | FeedMissingIndexUrl string string

fun duplicate_entry :: "feed_entry list \<Rightarrow> string set \<Rightarrow> string option" where
  "duplicate_entry [] seen = None"
| "duplicate_entry (e # es) seen =
     (if fe_bos_version e \<in> seen then Some (fe_bos_version e)
      else duplicate_entry es (insert (fe_bos_version e) seen))"

definition validate_feed :: "string \<Rightarrow> package_feed \<Rightarrow> feed_error + unit" where
  "validate_feed url feed =
     (if pf_version feed \<noteq> package_feed_version then Inl (FeedUnsupportedVersion url (pf_version feed))
      else case duplicate_entry (pf_entries feed) {} of
        Some v \<Rightarrow> Inl (FeedDuplicateEntry url v)
      | None \<Rightarrow> Inr ())"

text \<open>\<open>splitn\<close>: at most \<open>n\<close> pieces, the last one with the separators that are left.\<close>

fun splitn :: "nat \<Rightarrow> char \<Rightarrow> string \<Rightarrow> string list" where
  "splitn 0 c s = []"
| "splitn (Suc 0) c s = [s]"
| "splitn (Suc (Suc n)) c s =
     (if c \<in> set s then takeWhile (\<lambda>x. x \<noteq> c) s # splitn (Suc n) c (tl (dropWhile (\<lambda>x. x \<noteq> c) s)) else [s])"

definition is_ascii_digit :: "char \<Rightarrow> bool" where
  "is_ascii_digit c \<longleftrightarrow> CHR ''0'' \<le> c \<and> c \<le> CHR ''9''"

definition is_ascii_hexdigit :: "char \<Rightarrow> bool" where
  "is_ascii_hexdigit c \<longleftrightarrow> is_ascii_digit c \<or> CHR ''a'' \<le> c \<and> c \<le> CHR ''f'' \<or> CHR ''A'' \<le> c \<and> c \<le> CHR ''F''"

definition digits_of_width :: "nat \<Rightarrow> string \<Rightarrow> bool" where
  "digits_of_width w s \<longleftrightarrow> length s = w \<and> list_all is_ascii_digit s"

definition shared_release_name :: "string \<Rightarrow> string option" where
  "shared_release_name v =
     (case splitn 6 (CHR ''-'') v of
        [year, month, day, index, commit, release] \<Rightarrow>
          if digits_of_width 4 year \<and> digits_of_width 2 month \<and> digits_of_width 2 day \<and>
             index \<noteq> [] \<and> list_all is_ascii_digit index \<and>
             length commit = 8 \<and> list_all is_ascii_hexdigit commit \<and> release \<noteq> []
          then Some release else None
      | _ \<Rightarrow> None)"

definition find_entry :: "package_feed \<Rightarrow> string \<Rightarrow> feed_entry option" where
  "find_entry feed v = find (\<lambda>e. fe_bos_version e = v) (pf_entries feed)"

definition select_entry :: "string \<Rightarrow> package_feed \<Rightarrow> string \<Rightarrow> feed_error + feed_entry" where
  "select_entry url feed v =
     (case (case find_entry feed v of
              Some e \<Rightarrow> Some e
            | None \<Rightarrow> (case shared_release_name v of None \<Rightarrow> None | Some r \<Rightarrow> find_entry feed r)) of
        Some e \<Rightarrow> Inr e
      | None \<Rightarrow> Inl (FeedMissingEntry url v))"

definition require_index_url :: "string \<Rightarrow> feed_entry \<Rightarrow> feed_error + string" where
  "require_index_url url e =
     (case fe_index_url e of
        Some u \<Rightarrow> Inr u
      | None \<Rightarrow> Inl (FeedMissingIndexUrl url (fe_bos_version e)))"

section \<open>The entry of a firmware\<close>

lemma duplicate_entry_None:
  "duplicate_entry es seen = None \<longleftrightarrow> distinct (map fe_bos_version es) \<and> fe_bos_version ` set es \<inter> seen = {}"
  by (induction es seen rule: duplicate_entry.induct) auto

lemma validate_feed_ok:
  "validate_feed url feed = Inr () \<longleftrightarrow>
     pf_version feed = package_feed_version \<and> distinct (map fe_bos_version (pf_entries feed))"
  by (simp add: validate_feed_def duplicate_entry_None split: option.split)
    (metis duplicate_entry_None inf_bot_right option.distinct(1))

lemma find_entry_valid:
  assumes "validate_feed url feed = Inr ()"
  shows "find_entry feed v = Some e \<longleftrightarrow> e \<in> set (pf_entries feed) \<and> fe_bos_version e = v"
proof -
  have "distinct (map fe_bos_version es) \<Longrightarrow>
      find (\<lambda>e. fe_bos_version e = v) es = Some e \<longleftrightarrow> e \<in> set es \<and> fe_bos_version e = v" for es
    by (induction es) auto
  then show ?thesis using assms by (simp add: validate_feed_ok find_entry_def)
qed

end
