(* ===== verification/Pkg_Fetch.thy ===== *)
theory Pkg_Fetch
  imports Pkg_Feed
begin

text \<open>
  Fetching indexes (\<^verbatim>\<open>bmc-nix/src/index.rs\<close>, up to \<open>fetch_and_merge_indexes\<close>): the documents of the
  configured servers, directly or through a feed, and the walk over the indexes they refer to. The
  outside is a parameter, the record \<open>net\<close>: what an HTTP request and a file give, and what
  \<open>serde_json\<close> makes of the bytes; it answers a request for the same address alike throughout one
  call. The walk returns the addresses it requests beside its result.
\<close>

section \<open>The outside\<close>

datatype 'e file_status = NotFound | Unreadable 'e | Status bool nat

record ('e, 'j) net =
  http_get :: "string \<Rightarrow> 'e + nat option \<times> ('e + u8 list) list"
  file_metadata :: "string \<Rightarrow> 'e file_status"
  file_read :: "string \<Rightarrow> 'e file_status + u8 list"
  json_index :: "u8 list \<Rightarrow> 'j package_index option"
  json_feed :: "u8 list \<Rightarrow> package_feed option"

datatype 'e fetch_error =
    Fetch string 'e
  | InvalidJson string
  | UnsupportedVersion string u32
  | FileNotFound string
  | FileRead string
  | IndexTooLarge string nat
  | TooManyIndexes nat
  | InvalidFeedJson string
  | FeedFetch string string "'e fetch_error"
  | FeedResolution string string feed_error
  | MissingFirmwareScope string

section \<open>Addresses\<close>

definition starts_with :: "string \<Rightarrow> string \<Rightarrow> bool" where
  "starts_with p s \<longleftrightarrow> take (length p) s = p"

definition trim_slashes :: "string \<Rightarrow> string" where
  "trim_slashes s = rev (dropWhile (\<lambda>c. c = CHR ''/'') (rev s))"

definition package_index_version :: u32 where
  "package_index_version = 1"

definition make_index_url :: "string \<Rightarrow> string" where
  "make_index_url base = trim_slashes base @ ''/nix-package-index.v1.json''"

definition canonical_base_url :: "string \<Rightarrow> string" where
  "canonical_base_url base = trim_slashes base"

definition is_http :: "string \<Rightarrow> bool" where
  "is_http url \<longleftrightarrow> starts_with ''http://'' url \<or> starts_with ''https://'' url"

section \<open>Documents\<close>

definition max_index_bytes :: nat where
  "max_index_bytes = 16 * 1024 * 1024"

definition check_index_size :: "string \<Rightarrow> nat \<Rightarrow> nat \<Rightarrow> 'e fetch_error + unit" where
  "check_index_size location len cap = (if cap < len then Inl (IndexTooLarge location len) else Inr ())"

fun read_chunks :: "string \<Rightarrow> nat \<Rightarrow> u8 list \<Rightarrow> ('e + u8 list) list \<Rightarrow> 'e fetch_error + u8 list" where
  "read_chunks url cap bytes [] = Inr bytes"
| "read_chunks url cap bytes (Inl e # cs) = Inl (Fetch url e)"
| "read_chunks url cap bytes (Inr c # cs) =
     (case check_index_size url (length bytes + length c) cap of
        Inl e \<Rightarrow> Inl e
      | Inr _ \<Rightarrow> read_chunks url cap (bytes @ c) cs)"

definition fetch_http_bytes ::
  "('e, 'j) net \<Rightarrow> string \<Rightarrow> nat \<Rightarrow> 'e fetch_error + string \<times> u8 list" where
  "fetch_http_bytes net url cap =
     (case http_get net url of
        Inl e \<Rightarrow> Inl (Fetch url e)
      | Inr (len, chunks) \<Rightarrow>
          (case (case len of None \<Rightarrow> Inr () | Some n \<Rightarrow> check_index_size url n cap) of
             Inl e \<Rightarrow> Inl e
           | Inr _ \<Rightarrow> map_sum id (\<lambda>bytes. (url, bytes)) (read_chunks url cap [] chunks)))"

definition file_error :: "string \<Rightarrow> 'e file_status \<Rightarrow> 'e fetch_error" where
  "file_error path s = (case s of NotFound \<Rightarrow> FileNotFound path | _ \<Rightarrow> FileRead path)"

definition fetch_file_bytes ::
  "('e, 'j) net \<Rightarrow> string \<Rightarrow> nat \<Rightarrow> 'e fetch_error + string \<times> u8 list" where
  "fetch_file_bytes net path cap =
     (case file_metadata net path of
        Status regular len \<Rightarrow>
          if \<not> regular then Inl (FileRead path)
          else (case check_index_size path len cap of
             Inl e \<Rightarrow> Inl e
           | Inr _ \<Rightarrow>
               (case file_read net path of
                  Inl s \<Rightarrow> Inl (file_error path s)
                | Inr bytes \<Rightarrow> Inr (path, bytes)))
      | s \<Rightarrow> Inl (file_error path s))"

definition fetch_document_bytes ::
  "('e, 'j) net \<Rightarrow> string \<Rightarrow> nat \<Rightarrow> 'e fetch_error + string \<times> u8 list" where
  "fetch_document_bytes net url cap =
     (if starts_with ''file://'' url then fetch_file_bytes net (drop 7 url) cap
      else fetch_http_bytes net url cap)"

definition fetch_index_bytes :: "('e, 'j) net \<Rightarrow> string \<Rightarrow> 'e fetch_error + string \<times> u8 list" where
  "fetch_index_bytes net reference =
     (if starts_with ''file://'' reference then fetch_document_bytes net reference max_index_bytes
      else fetch_http_bytes net (make_index_url reference) max_index_bytes)"

definition parse_and_validate_index ::
  "('e, 'j) net \<Rightarrow> string \<times> u8 list \<Rightarrow> 'e fetch_error + 'j package_index" where
  "parse_and_validate_index net doc =
     (case json_index net (snd doc) of
        None \<Rightarrow> Inl (InvalidJson (fst doc))
      | Some index \<Rightarrow>
          if pi_version index \<noteq> package_index_version then Inl (UnsupportedVersion (fst doc) (pi_version index))
          else Inr index)"

definition fetch_index :: "('e, 'j) net \<Rightarrow> string \<Rightarrow> 'e fetch_error + 'j package_index" where
  "fetch_index net base =
     (case fetch_index_bytes net base of Inl e \<Rightarrow> Inl e | Inr doc \<Rightarrow> parse_and_validate_index net doc)"

definition fetch_index_document :: "('e, 'j) net \<Rightarrow> string \<Rightarrow> 'e fetch_error + 'j package_index" where
  "fetch_index_document net url =
     (case fetch_document_bytes net url max_index_bytes of
        Inl e \<Rightarrow> Inl e
      | Inr doc \<Rightarrow> parse_and_validate_index net doc)"

definition fetch_package_feed :: "('e, 'j) net \<Rightarrow> string \<Rightarrow> 'e fetch_error + package_feed" where
  "fetch_package_feed net url =
     (case fetch_document_bytes net url max_index_bytes of
        Inl e \<Rightarrow> Inl e
      | Inr (location, body) \<Rightarrow>
          (case json_feed net body of None \<Rightarrow> Inl (InvalidFeedJson location) | Some feed \<Rightarrow> Inr feed))"

section \<open>Servers\<close>

datatype server_source = Feed string | Index string

record server_entry =
  se_id :: string
  se_source :: server_source
  se_known_public_key :: string
  se_priority :: u32
  se_enabled :: bool
  se_required :: bool

record ad_hoc_index_ref =
  ah_id :: string
  ah_reference :: string

definition ad_hoc_index_priority :: u32 where
  "ad_hoc_index_priority = 0"

definition fetch_server_index ::
  "('e, 'j) net \<Rightarrow> string option \<Rightarrow> server_entry \<Rightarrow> 'e fetch_error + 'j package_index" where
  "fetch_server_index net firmware server =
     (case se_source server of
        Index url \<Rightarrow> fetch_index_document net url
      | Feed url \<Rightarrow>
          (case firmware of
             None \<Rightarrow> Inl (MissingFirmwareScope (se_id server))
           | Some fw \<Rightarrow>
               let wrap_feed = FeedResolution (se_id server) fw; wrap_fetch = FeedFetch (se_id server) fw in
               (case fetch_package_feed net url of
                  Inl e \<Rightarrow> Inl (wrap_fetch e)
                | Inr feed \<Rightarrow>
               (case validate_feed url feed of
                  Inl e \<Rightarrow> Inl (wrap_feed e)
                | Inr _ \<Rightarrow>
               (case select_entry url feed fw of
                  Inl e \<Rightarrow> Inl (wrap_feed e)
                | Inr entry \<Rightarrow>
               (case require_index_url url entry of
                  Inl e \<Rightarrow> Inl (wrap_feed e)
                | Inr index_url \<Rightarrow> map_sum wrap_fetch id (fetch_index_document net index_url)))))))"

fun reduce_primaries ::
  "(server_entry \<times> ('e fetch_error + 'j fetched_index)) list \<Rightarrow> 'j fetched_index list \<Rightarrow> 'e fetch_error option \<Rightarrow>
     'e fetch_error + 'j fetched_index list \<times> 'e fetch_error option" where
  "reduce_primaries [] oks first = Inr (oks, first)"
| "reduce_primaries ((server, Inr f) # rs) oks first = reduce_primaries rs (oks @ [f]) first"
| "reduce_primaries ((server, Inl e) # rs) oks first =
     (if se_required server then Inl e
      else reduce_primaries rs oks (case first of None \<Rightarrow> Some e | Some x \<Rightarrow> Some x))"

text \<open>The expectation that a failure was recorded is the outer option.\<close>

definition select_primary_indexes ::
  "(server_entry \<times> ('e fetch_error + 'j fetched_index)) list \<Rightarrow> bool \<Rightarrow>
     ('e fetch_error + 'j fetched_index list) option" where
  "select_primary_indexes results has_ad_hoc =
     (case reduce_primaries results [] None of
        Inl e \<Rightarrow> Some (Inl e)
      | Inr (oks, first) \<Rightarrow>
          if oks = [] \<and> results \<noteq> [] \<and> \<not> has_ad_hoc then map_option Inl first
          else Some (Inr oks))"

fun collect_ad_hoc ::
  "('e, 'j) net \<Rightarrow> ad_hoc_index_ref list \<Rightarrow> 'j fetched_index list \<Rightarrow> 'e fetch_error + 'j fetched_index list" where
  "collect_ad_hoc net [] oks = Inr oks"
| "collect_ad_hoc net (r # rs) oks =
     (case fetch_index net (ah_reference r) of
        Inl e \<Rightarrow> Inl e
      | Inr index \<Rightarrow> collect_ad_hoc net rs (oks @
          [\<lparr>fi_server_id = ah_id r, fi_server_priority = ad_hoc_index_priority, fi_index = index\<rparr>]))"

definition fetch_primary_indexes ::
  "('e, 'j) net \<Rightarrow> server_entry list \<Rightarrow> ad_hoc_index_ref list \<Rightarrow> string option \<Rightarrow>
     ('e fetch_error + 'j fetched_index list) option" where
  "fetch_primary_indexes net servers ad_hoc firmware =
     (case select_primary_indexes (map (\<lambda>s. (s, map_sum id (\<lambda>index.
             \<lparr>fi_server_id = se_id s, fi_server_priority = se_priority s, fi_index = index\<rparr>)
             (fetch_server_index net firmware s))) servers) (ad_hoc \<noteq> []) of
        None \<Rightarrow> None
      | Some (Inl e) \<Rightarrow> Some (Inl e)
      | Some (Inr oks) \<Rightarrow> Some (collect_ad_hoc net ad_hoc oks))"

section \<open>The walk\<close>

type_synonym reference = "string \<times> u32 \<times> string"

definition children_of :: "string \<Rightarrow> u32 \<Rightarrow> 'j package_index \<Rightarrow> reference list" where
  "children_of sid prio index = map (\<lambda>url. (sid, prio, url)) (pi_indexes index)"

function walk ::
  "('e, 'j) net \<Rightarrow> nat \<Rightarrow> reference list \<Rightarrow> string set \<Rightarrow> nat \<Rightarrow> 'j fetched_index list \<Rightarrow>
     string list \<times> ('e fetch_error + 'j fetched_index list)" where
  "walk net cap [] visited attempted fetched = ([], Inr fetched)"
| "walk net cap ((sid, prio, url) # queue) visited attempted fetched =
     (if canonical_base_url url \<in> visited then walk net cap queue visited attempted fetched
      else if cap < attempted + 1 then ([], Inl (TooManyIndexes cap))
      else
        let visited' = insert (canonical_base_url url) visited in
        if \<not> is_http url then walk net cap queue visited' (attempted + 1) fetched
        else case fetch_index net url of
          Inr child \<Rightarrow> map_prod (Cons url) id
            (walk net cap (queue @ children_of sid prio child) visited' (attempted + 1)
              (fetched @ [\<lparr>fi_server_id = sid, fi_server_priority = prio, fi_index = child\<rparr>]))
        | Inl _ \<Rightarrow> map_prod (Cons url) id (walk net cap queue visited' (attempted + 1) fetched))"
  by pat_completeness auto

text \<open>It ends: a reference is either dropped or counts against the cap.\<close>

termination
  by (relation "measures [\<lambda>(net, cap, queue, visited, attempted, fetched). Suc cap - attempted,
      \<lambda>(net, cap, queue, visited, attempted, fetched). length queue]") auto

definition max_total_indexes :: nat where
  "max_total_indexes = 256"

definition source_url :: "server_entry \<Rightarrow> string" where
  "source_url s = (case se_source s of Feed url \<Rightarrow> url | Index url \<Rightarrow> url)"

definition fetch_all_indexes ::
  "('e, 'j) net \<Rightarrow> server_entry list \<Rightarrow> ad_hoc_index_ref list \<Rightarrow> string option \<Rightarrow> nat \<Rightarrow>
     (string list \<times> ('e fetch_error + 'j fetched_index list)) option" where
  "fetch_all_indexes net servers ad_hoc firmware cap =
     (let enabled = sort_by (\<lambda>a b. se_priority a \<le> se_priority b) (filter se_enabled servers) in
      if cap < length enabled + length ad_hoc then Some ([], Inl (TooManyIndexes cap))
      else case fetch_primary_indexes net enabled ad_hoc firmware of
        None \<Rightarrow> None
      | Some (Inl e) \<Rightarrow> Some ([], Inl e)
      | Some (Inr primaries) \<Rightarrow>
          Some (walk net cap
            (concat (map (\<lambda>f. children_of (fi_server_id f) (fi_server_priority f) (fi_index f)) primaries))
            (canonical_base_url ` (set (map source_url enabled) \<union> set (map ah_reference ad_hoc)))
            (length enabled + length ad_hoc) primaries))"

definition fetch_and_merge_indexes ::
  "('v, 'r) semver \<Rightarrow> ('e, 'j) net \<Rightarrow> server_entry list \<Rightarrow> ad_hoc_index_ref list \<Rightarrow> string option \<Rightarrow>
     ('e fetch_error + ('v, 'j) merged_index) option" where
  "fetch_and_merge_indexes sv net servers ad_hoc firmware =
     map_option (\<lambda>(requests, r). map_sum id (merge_indexes sv) r)
       (fetch_all_indexes net servers ad_hoc firmware max_total_indexes)"

end
