(* ===== verification/Pkg_Fetch_Props.thy ===== *)
theory Pkg_Fetch_Props
  imports Pkg_Fetch
begin

text \<open>
  Properties of fetching: a document stays within its cap, the walk over federated indexes requests
  a bounded number of addresses, each once, and leaves out nothing silently.
\<close>

section \<open>Documents\<close>

lemma read_chunks_cap:
  "read_chunks url cap b cs = Inr bytes \<Longrightarrow> length b \<le> cap \<Longrightarrow> length bytes \<le> cap"
  by (induction url cap b cs rule: read_chunks.induct)
    (auto simp: check_index_size_def split: if_splits)

lemma fetch_http_bytes_cap: "fetch_http_bytes net url cap = Inr (u, bytes) \<Longrightarrow> length bytes \<le> cap"
  by (auto simp: fetch_http_bytes_def split: sum.splits option.splits dest!: read_chunks_cap)
    (auto simp: map_sum_def dest!: read_chunks_cap split: sum.splits)

section \<open>The walk\<close>

text \<open>One reference of the queue is dropped, ends the walk, is rejected or is requested.\<close>

lemma walk_cases:
  assumes "walk net cap ((sid, prio, url) # queue) visited attempted fetched = (reqs, r)"
  obtains (seen) "canonical_base_url url \<in> visited" "walk net cap queue visited attempted fetched = (reqs, r)"
  | (full) "canonical_base_url url \<notin> visited" "reqs = []" "r = Inl (TooManyIndexes cap)"
  | (rejected) "canonical_base_url url \<notin> visited" "attempted < cap" "\<not> is_http url"
      "walk net cap queue (insert (canonical_base_url url) visited) (attempted + 1) fetched = (reqs, r)"
  | (failed) e rs where "canonical_base_url url \<notin> visited" "attempted < cap" "is_http url" "fetch_index net url = Inl e"
      "reqs = url # rs"
      "walk net cap queue (insert (canonical_base_url url) visited) (attempted + 1) fetched = (rs, r)"
  | (child) c rs where "canonical_base_url url \<notin> visited" "attempted < cap" "is_http url" "fetch_index net url = Inr c"
      "reqs = url # rs"
      "walk net cap (queue @ children_of sid prio c) (insert (canonical_base_url url) visited) (attempted + 1)
         (fetched @ [\<lparr>fi_server_id = sid, fi_server_priority = prio, fi_index = c\<rparr>]) = (rs, r)"
  using assms
  by (cases "canonical_base_url url \<in> visited"; cases "cap < attempted + 1"; cases "is_http url"; cases "fetch_index net url")
    (auto simp: Let_def map_prod_def split: prod.splits)

lemma walk_requests:
  "walk net cap queue visited attempted fetched = (reqs, r) \<Longrightarrow>
     distinct (map canonical_base_url reqs) \<and> canonical_base_url ` set reqs \<inter> visited = {} \<and>
     (\<forall>u \<in> set reqs. is_http u) \<and> (reqs = [] \<or> attempted + length reqs \<le> cap)"
proof (induction net cap queue visited attempted fetched arbitrary: reqs r rule: walk.induct)
  case (2 net cap sid prio url queue visited attempted fetched)
  from "2.prems" show ?case
  proof (cases rule: walk_cases)
    case seen
    with "2.IH"(1) show ?thesis by simp
  next
    case rejected
    with "2.IH"(2) [OF _ _ refl] show ?thesis by fastforce
  next
    case (failed e rs)
    with "2.IH"(3) [OF _ _ refl] show ?thesis by fastforce
  next
    case (child c rs)
    with "2.IH"(4) [OF _ _ refl] show ?thesis by fastforce
  qed simp
qed simp














section \<open>Fetching\<close>

lemma reduce_primaries_first:
  "reduce_primaries rs oks first = Inr (out, None) \<Longrightarrow> first = None \<and> out = oks @ map (projr \<circ> snd) rs \<and> length out = length oks + length rs"
  by (induction rs oks first arbitrary: out rule: reduce_primaries.induct) (auto split: if_splits option.splits)

lemma select_primary_total: "select_primary_indexes results b \<noteq> None"
proof (cases "reduce_primaries results [] None")
  case (Inr x)
  with reduce_primaries_first [of results "[]" None "fst x"] show ?thesis
    by (cases x; cases "snd x") (auto simp: select_primary_indexes_def)
qed (simp add: select_primary_indexes_def)

lemma fetch_primary_total: "fetch_primary_indexes net es ad_hoc firmware = None \<Longrightarrow> False"
  by (auto simp: fetch_primary_indexes_def select_primary_total split: option.splits sum.splits)

definition sources :: "server_entry list \<Rightarrow> ad_hoc_index_ref list \<Rightarrow> string set" where
  "sources servers ad_hoc =
     canonical_base_url ` (source_url ` set (filter se_enabled servers) \<union> ah_reference ` set ad_hoc)"

abbreviation by_priority :: "server_entry list \<Rightarrow> server_entry list" where
  "by_priority servers \<equiv> sort_by (\<lambda>a b. se_priority a \<le> se_priority b) (filter se_enabled servers)"

lemma length_insert_by [simp]: "length (insert_by le x xs) = Suc (length xs)"
  by (induction xs) auto

lemma length_sort_by [simp]: "length (sort_by le xs) = length xs"
  by (induction xs) (simp_all add: sort_by_def)








lemma make_index_url_inj: "make_index_url a = make_index_url b \<longleftrightarrow> canonical_base_url a = canonical_base_url b"
  by (simp add: make_index_url_def canonical_base_url_def)

text \<open>C17. Fetching indexes is bounded whatever the servers answer: it never panics, and the indexes it
  requests for references, together with the configured sources, are at most 256. References are
  followed only over HTTP; no index document is requested twice for a reference, nor is one that an
  ad-hoc source was fetched from, and a reference that spells the address configured for a server is
  not followed, differing trailing slashes aside. (A server is configured by the address of a
  document and a reference is a base address, so this does not cover a reference to the base
  address a server's document lies under: that document is fetched once more, see the findings.)\<close>

theorem federation_bounded:
  "fetch_all_indexes net servers ad_hoc firmware max_total_indexes \<noteq> None \<and>
   (\<forall>reqs r. fetch_all_indexes net servers ad_hoc firmware max_total_indexes = Some (reqs, r) \<longrightarrow>
      (reqs = [] \<or> length (filter se_enabled servers) + length ad_hoc + length reqs \<le> 256) \<and>
      distinct (map make_index_url reqs) \<and>
      make_index_url ` set reqs \<inter> make_index_url ` ah_reference ` set ad_hoc = {} \<and>
      canonical_base_url ` set reqs \<inter> sources servers ad_hoc = {} \<and>
      (\<forall>url \<in> set reqs. is_http url))"
proof -
  have "fetch_all_indexes net servers ad_hoc firmware max_total_indexes \<noteq> None"
    by (auto simp: fetch_all_indexes_def Let_def dest: fetch_primary_total split: option.splits sum.splits)
  moreover have "(reqs = [] \<or> length (filter se_enabled servers) + length ad_hoc + length reqs \<le> 256) \<and>
      distinct (map make_index_url reqs) \<and>
      make_index_url ` set reqs \<inter> make_index_url ` ah_reference ` set ad_hoc = {} \<and>
      canonical_base_url ` set reqs \<inter> sources servers ad_hoc = {} \<and> (\<forall>url \<in> set reqs. is_http url)"
    if "fetch_all_indexes net servers ad_hoc firmware max_total_indexes = Some (reqs, r)" for reqs r
  proof -
    from that have b: "(reqs = [] \<or> length (filter se_enabled servers) + length ad_hoc + length reqs \<le> 256) \<and>
        distinct (map canonical_base_url reqs) \<and>
        canonical_base_url ` set reqs \<inter> sources servers ad_hoc = {} \<and> (\<forall>url \<in> set reqs. is_http url)"
      by (auto simp: fetch_all_indexes_def Let_def sources_def max_total_indexes_def split: if_splits option.splits sum.splits
        dest!: walk_requests)
    then have "distinct (map make_index_url reqs)" by (simp add: distinct_map inj_on_def make_index_url_inj)
    moreover have "make_index_url ` set reqs \<inter> make_index_url ` ah_reference ` set ad_hoc = {}"
      using b by (auto simp: make_index_url_inj sources_def)
    ultimately show ?thesis using b by blast
  qed
  ultimately show ?thesis by blast
qed


text \<open>A source whose index refers to another, to itself and to a file, and the other back to it.\<close>

definition leaf :: "string list \<Rightarrow> unit package_index" where
  "leaf urls = \<lparr>pi_version = 1, pi_provenance = None, pi_indexes = urls, pi_caches = [], pi_packages = []\<rparr>"

definition net1 :: "(unit, unit) net" where
  "net1 = \<lparr>http_get = (\<lambda>url. if url = ''http://a/i'' then Inr (Some 1, [Inr [1]])
       else if url = ''http://b/nix-package-index.v1.json'' then Inr (None, [Inr [2]]) else Inl ()),
     file_metadata = (\<lambda>_. NotFound), file_read = (\<lambda>_. Inl NotFound),
     json_index = (\<lambda>b. if b = [1] then Some (leaf [''http://b/'', ''http://a/i'', ''file:///c''])
       else if b = [2] then Some (leaf [''http://b'', ''http://d'']) else None),
     json_feed = (\<lambda>_. None)\<rparr>"

definition server1 :: server_entry where
  "server1 = \<lparr>se_id = ''a'', se_source = Index ''http://a/i'', se_known_public_key = [], se_priority = 5,
     se_enabled = True, se_required = True\<rparr>"

definition out1 :: "unit fetched_index list" where
  "out1 = [\<lparr>fi_server_id = ''a'', fi_server_priority = 5, fi_index = leaf [''http://b/'', ''http://a/i'', ''file:///c'']\<rparr>,
     \<lparr>fi_server_id = ''a'', fi_server_priority = 5, fi_index = leaf [''http://b'', ''http://d'']\<rparr>]"

lemmas fetch_defs = fetch_index_document_def fetch_index_def fetch_index_bytes_def fetch_document_bytes_def
  fetch_http_bytes_def check_index_size_def max_index_bytes_def parse_and_validate_index_def
  package_index_version_def make_index_url_def trim_slashes_def starts_with_def

lemma requests1:
  "fetch_index_document net1 ''http://a/i'' = Inr (leaf [''http://b/'', ''http://a/i'', ''file:///c''])"
  "fetch_index net1 ''http://b/'' = Inr (leaf [''http://b'', ''http://d''])"
  "fetch_index net1 ''http://d'' = Inl (Fetch ''http://d/nix-package-index.v1.json'' ())"
  by (simp_all add: fetch_defs net1_def leaf_def)

lemma server1_simps: "se_source server1 = Index ''http://a/i''" "se_enabled server1"
  by (simp_all add: server1_def)

lemma primaries1: "fetch_primary_indexes net1 [server1] [] None = Some (Inr [hd out1])"
  by (simp add: fetch_primary_indexes_def select_primary_indexes_def fetch_server_index_def server1_def
    requests1 out1_def)

lemma fetch1: "fetch_all_indexes net1 [server1] [] None max_total_indexes = Some ([''http://b/'', ''http://d''], Inr out1)"
proof -
  have "by_priority [server1] = [server1]" by (simp add: sort_by_def server1_def)
  then show ?thesis
    by (simp add: fetch_all_indexes_def primaries1 out1_def children_of_def leaf_def max_total_indexes_def
      Let_def canonical_base_url_def trim_slashes_def source_url_def server1_simps is_http_def starts_with_def
      requests1 [unfolded leaf_def])
qed

text \<open>A server whose index refers back to the base address of that index: it is fetched and kept twice.\<close>

definition net2 :: "(unit, unit) net" where
  "net2 = net1\<lparr>http_get := (\<lambda>url. if url = ''http://a/nix-package-index.v1.json'' then Inr (Some 1, [Inr [1]]) else Inl ()),
     json_index := (\<lambda>b. Some (leaf [''http://a'']))\<rparr>"

lemma source_fetched_twice:
  "map_option (map_prod id (map_sum id (map fi_index)))
     (fetch_all_indexes net2 [server1\<lparr>se_source := Index ''http://a/nix-package-index.v1.json''\<rparr>] [] None 256) =
   Some ([''http://a''], Inr [leaf [''http://a''], leaf [''http://a'']])"
proof -
  have "fetch_index_document net2 ''http://a/nix-package-index.v1.json'' = Inr (leaf [''http://a''])"
    "fetch_index net2 ''http://a'' = Inr (leaf [''http://a''])"
    by (simp_all add: fetch_defs net2_def leaf_def)
  then show ?thesis
    by (simp add: fetch_all_indexes_def fetch_primary_indexes_def select_primary_indexes_def fetch_server_index_def
      server1_def sort_by_def children_of_def leaf_def Let_def canonical_base_url_def trim_slashes_def source_url_def
      is_http_def starts_with_def)
qed

theorem federation_bounded_witness:
  "distinct (map make_index_url [''http://b/'', ''http://d'']) \<and>
   canonical_base_url ` set [''http://b/'', ''http://d''] \<inter> sources [server1] [] = {}"
  using federation_bounded [of net1 "[server1]" "[]" None] fetch1 by simp


end
