(* ===== verification/Timer_Table.thy ===== *)
theory Timer_Table
  imports Machines
begin

text \<open>
  The periodic timers of a widget (\<^verbatim>\<open>bmc-wasm-runtime/src/runtime/timers.rs\<close>). Times and periods are
  64-bit milliseconds and the arithmetic on them is that of the code, saturating or checked; a
  failed check or a division by zero, which panics, is \<open>None\<close>.
\<close>

section \<open>Identifiers\<close>

type_synonym timer_id = u32

definition timer_id_from_wire :: "u32 \<Rightarrow> timer_id option" where
  "timer_id_from_wire raw = (if raw = 0 then None else Some raw)"

definition timer_id_alloc :: "u32 \<Rightarrow> (timer_id \<times> u32) option" where
  "timer_id_alloc counter =
     (if counter = 0 then None
      else if counter = - 1 then None
      else Some (counter, counter + 1))"

section \<open>The table\<close>

datatype timer_refusal = TimerPeriodTooShort | AtCap | NoOnTimerExport | IdsExhausted
datatype period_change_refusal = PeriodTooShort | NotRunning

record timer =
  t_id :: timer_id
  t_period :: u64
  t_due :: u64
  t_gen :: u32

record due_tick =
  dt_id :: timer_id
  dt_elapsed :: u32
  dt_gen :: u32

record timer_table =
  tt_timers :: "timer list"
  tt_max :: nat
  tt_min_period :: u32
  tt_next_id :: u32
  tt_exports :: bool
  tt_clock_started :: bool

definition due_at :: "u64 \<Rightarrow> timer \<Rightarrow> u64" where
  "due_at now t = min (t_due t) (saturating_add now (t_period t))"

definition timer_table_new :: "nat \<Rightarrow> u32 \<Rightarrow> timer_table" where
  "timer_table_new max_timers min_period =
     \<lparr>tt_timers = [], tt_max = max_timers, tt_min_period = min_period, tt_next_id = 1,
      tt_exports = False, tt_clock_started = False\<rparr>"

definition set_exports_on_timer :: "bool \<Rightarrow> timer_table \<Rightarrow> timer_table" where
  "set_exports_on_timer present tbl = tbl\<lparr>tt_exports := present\<rparr>"

definition observe_clock :: "u64 \<Rightarrow> timer_table \<Rightarrow> timer_table" where
  "observe_clock now tbl =
     (if tt_clock_started tbl then tbl
      else tbl\<lparr>tt_clock_started := True,
        tt_timers := map (\<lambda>t. t\<lparr>t_due := saturating_add now (t_period t)\<rparr>) (tt_timers tbl)\<rparr>)"

definition timer_start ::
  "u32 \<Rightarrow> u64 \<Rightarrow> timer_table \<Rightarrow> ((timer_refusal + timer_id) \<times> timer_table) option" where
  "timer_start period now tbl =
     (if \<not> tt_exports tbl then Some (Inl NoOnTimerExport, tbl)
      else if period < tt_min_period tbl then Some (Inl TimerPeriodTooShort, tbl)
      else if tt_max tbl \<le> length (tt_timers tbl) then Some (Inl AtCap, tbl)
      else if tt_next_id tbl = - 1 then Some (Inl IdsExhausted, tbl)
      else case timer_id_alloc (tt_next_id tbl) of
        None \<Rightarrow> None
      | Some (tid, next) \<Rightarrow>
          Some (Inr tid, tbl\<lparr>tt_next_id := next, tt_timers := tt_timers tbl @
            [\<lparr>t_id = tid, t_period = ucast period,
              t_due = saturating_add now (ucast period), t_gen = 0\<rparr>]\<rparr>))"

fun update_first :: "('a \<Rightarrow> bool) \<Rightarrow> ('a \<Rightarrow> 'a) \<Rightarrow> 'a list \<Rightarrow> 'a list option" where
  "update_first P f [] = None"
| "update_first P f (x # xs) = (if P x then Some (f x # xs) else map_option (Cons x) (update_first P f xs))"

definition change_period :: "u32 \<Rightarrow> u64 \<Rightarrow> timer \<Rightarrow> timer" where
  "change_period period now t =
     t\<lparr>t_period := ucast period, t_due := saturating_add now (ucast period), t_gen := t_gen t + 1\<rparr>"

definition timer_set_period ::
  "timer_id \<Rightarrow> u32 \<Rightarrow> u64 \<Rightarrow> timer_table \<Rightarrow> (period_change_refusal + unit) \<times> timer_table" where
  "timer_set_period tid period now tbl =
     (if period < tt_min_period tbl then (Inl PeriodTooShort, tbl)
      else case update_first (\<lambda>t. t_id t = tid) (change_period period now) (tt_timers tbl) of
        None \<Rightarrow> (Inl NotRunning, tbl)
      | Some ts \<Rightarrow> (Inr (), tbl\<lparr>tt_timers := ts\<rparr>))"

definition timer_stop :: "timer_id \<Rightarrow> timer_table \<Rightarrow> timer_table" where
  "timer_stop tid tbl = tbl\<lparr>tt_timers := filter (\<lambda>t. t_id t \<noteq> tid) (tt_timers tbl)\<rparr>"

definition is_current :: "due_tick \<Rightarrow> timer_table \<Rightarrow> bool" where
  "is_current tick tbl \<longleftrightarrow> (\<exists>t \<in> set (tt_timers tbl). t_id t = dt_id tick \<and> t_gen t = dt_gen tick)"

text \<open>The body of the loop of \<open>take_due\<close>. Its quotient and the addition of one are checked.\<close>

definition take_timer :: "u64 \<Rightarrow> timer \<Rightarrow> (timer \<times> due_tick option) option" where
  "take_timer now t =
     (let due = due_at now t in
      if now < due then Some (t\<lparr>t_due := due\<rparr>, None)
      else if t_period t = 0 then None
      else let q = (now - due) div t_period t in
        if q = - 1 then None
        else let elapsed = q + 1 in
          Some (t\<lparr>t_due := saturating_add due (saturating_mul elapsed (t_period t))\<rparr>,
            Some \<lparr>dt_id = t_id t,
              dt_elapsed = (if unat elapsed < 2 ^ 32 then ucast elapsed else - 1),
              dt_gen = t_gen t\<rparr>))"

fun take_timers :: "u64 \<Rightarrow> timer list \<Rightarrow> (timer list \<times> due_tick list) option" where
  "take_timers now [] = Some ([], [])"
| "take_timers now (t # ts) =
     (case take_timer now t of
        None \<Rightarrow> None
      | Some (t', tick) \<Rightarrow>
          map_option (\<lambda>(ts', ticks). (t' # ts', (case tick of None \<Rightarrow> ticks | Some x \<Rightarrow> x # ticks)))
            (take_timers now ts))"

definition take_due :: "u64 \<Rightarrow> timer_table \<Rightarrow> (due_tick list \<times> timer_table) option" where
  "take_due now tbl =
     map_option (\<lambda>(ts, ticks). (ticks, tbl\<lparr>tt_timers := ts\<rparr>)) (take_timers now (tt_timers tbl))"

definition next_due_in_ms :: "u64 \<Rightarrow> timer_table \<Rightarrow> u64 option" where
  "next_due_in_ms now tbl =
     (case map (\<lambda>t. saturating_sub (due_at now t) now) (tt_timers tbl) of
        [] \<Rightarrow> None
      | x # xs \<Rightarrow> Some (fold min xs x))"

section \<open>The invariant\<close>

definition timer_ok :: "u32 \<Rightarrow> timer \<Rightarrow> bool" where
  "timer_ok min_period t \<longleftrightarrow> ucast min_period \<le> t_period t \<and> t_period t \<le> t_due t"

definition table_inv :: "timer_table \<Rightarrow> bool" where
  "table_inv tbl \<longleftrightarrow> tt_min_period tbl \<noteq> 0 \<and> tt_next_id tbl \<noteq> 0 \<and>
     length (tt_timers tbl) \<le> tt_max tbl \<and>
     (tt_timers tbl \<noteq> [] \<longrightarrow> tt_exports tbl) \<and>
     distinct (map t_id (tt_timers tbl)) \<and>
     (\<forall>t \<in> set (tt_timers tbl). timer_ok (tt_min_period tbl) t \<and> t_id t \<noteq> 0 \<and> t_id t < tt_next_id tbl)"

end
