(* ===== verification/Timer_Props.thy ===== *)
theory Timer_Props
  imports Timer_Table
begin

text \<open>
  Properties of the timer table: no operation panics, a timer counts exactly the periods that have
  passed since it started, however late and however often the table is asked, and the wake-up time
  it announces is neither early nor late.
\<close>

section \<open>One timer\<close>

lemma unat_bound: "unat w < 2 ^ LENGTH('a)" for w :: "'a::len word"
  by (rule unsigned_less)

lemma unat_inc: "w \<noteq> - 1 \<Longrightarrow> unat (w + 1) = unat w + 1" for w :: "'a::len word"
proof -
  assume "w \<noteq> - 1"
  then have "unat w \<noteq> 2 ^ LENGTH('a) - 1" by (metis unat_minus_one_word_eq word_unat_eq_iff)
  with unat_bound [of w] have "unat w + 1 < 2 ^ LENGTH('a)" by linarith
  then show ?thesis by (simp add: unat_word_ariths(1))
qed

lemma unat_due_at:
  "unat (due_at now t) = min (unat (t_due t)) (min (unat now + unat (t_period t)) (2 ^ 64 - 1))"
  by (simp add: due_at_def min_def word_le_nat_alt unat_saturating_add)

lemma due_at_ge_period: "t_period t \<le> t_due t \<Longrightarrow> t_period t \<le> due_at now t"
  using unat_bound [of "t_period t"] by (simp add: word_le_nat_alt unat_due_at)

lemma unat_ucast_u64: "unat (ucast w :: u64) = unat w" for w :: u32
proof -
  have "unat w < 2 ^ 32" using unat_bound [of w] by simp
  then have "unat w < 2 ^ 64" by (rule order_less_trans) simp
  then show ?thesis by (simp add: unsigned_ucast_eq take_bit_nat_eq_self)
qed

lemma timer_okD:
  assumes "timer_ok m t" "m \<noteq> 0"
  shows "0 < unat (t_period t)" "unat (t_period t) \<le> unat (t_due t)"
proof -
  have "0 < unat m" using assms(2) by (simp add: unat_gt_0)
  with assms(1) show "0 < unat (t_period t)" by (simp add: timer_ok_def word_le_nat_alt unat_ucast_u64)
  show "unat (t_period t) \<le> unat (t_due t)" using assms(1) by (simp add: timer_ok_def word_le_nat_alt)
qed

text \<open>What one pass makes of a timer, in natural numbers: the pass never panics, and a tick covers
  every period whose end has been reached.\<close>

lemma take_timer_late:
  assumes ok: "timer_ok m t" "m \<noteq> 0" and late: "due_at now t \<le> now"
  defines "d \<equiv> unat (due_at now t)" and "p \<equiv> unat (t_period t)"
  defines "e \<equiv> (unat now - d) div p + 1"
  shows "\<exists>t' tick. take_timer now t = Some (t', Some tick) \<and>
    t_id t' = t_id t \<and> t_period t' = t_period t \<and> t_gen t' = t_gen t \<and>
    unat (t_due t') = min (d + e * p) (2 ^ 64 - 1) \<and>
    dt_id tick = t_id t \<and> dt_gen tick = t_gen t \<and> unat (dt_elapsed tick) = min e (2 ^ 32 - 1)"
proof -
  note p = timer_okD [OF ok, folded p_def]
  have d: "d \<le> unat now" "p \<le> d"
    using late due_at_ge_period [of t now] ok(1) by (simp_all add: d_def p_def word_le_nat_alt timer_ok_def)
  have q: "unat ((now - due_at now t) div t_period t) = (unat now - d) div p"
    by (simp add: unat_div d_def p_def unat_sub late)
  have "(unat now - d) div p \<le> unat now - d" by simp
  also have "\<dots> < 2 ^ 64 - 1" using unat_bound [of now] d p by simp
  finally have lt: "(unat now - d) div p < 2 ^ 64 - 1" .
  then have nmax: "(now - due_at now t) div t_period t \<noteq> - 1"
    using q unat_minus_one_word_eq [where 'a = 64] by auto
  have e: "unat ((now - due_at now t) div t_period t + 1) = e"
    using nmax by (simp add: e_def q unat_inc)
  have "t_period t \<noteq> 0" using p(1) by (auto simp: p_def)
  moreover have "\<not> now < due_at now t" using late by simp
  moreover have "unat (ucast ((now - due_at now t) div t_period t + 1) :: u32) = e" if "e < 2 ^ 32"
    using that e by (simp add: unsigned_ucast_eq take_bit_nat_eq_self)
  ultimately show ?thesis
    using nmax e by (auto simp: take_timer_def Let_def unat_saturating d_def p_def unat_minus_one_word_eq)
qed

lemma take_timer_early:
  "now < due_at now t \<Longrightarrow> take_timer now t = Some (t\<lparr>t_due := due_at now t\<rparr>, None)"
  by (simp add: take_timer_def)

lemma take_timer_ok:
  assumes ok: "timer_ok m t" "m \<noteq> 0"
  shows "\<exists>t' tick. take_timer now t = Some (t', tick) \<and> timer_ok m t' \<and> t_id t' = t_id t \<and>
    t_period t' = t_period t \<and> t_gen t' = t_gen t \<and> t_due t' \<le> saturating_add now (t_period t) \<and>
    (tick = None \<longleftrightarrow> now < due_at now t) \<and>
    (\<forall>x. tick = Some x \<longrightarrow> dt_id x = t_id t \<and> dt_gen x = t_gen t)"
proof (cases "now < due_at now t")
  case True
  then show ?thesis
    using due_at_ge_period [of t now] ok by (simp add: take_timer_early timer_ok_def due_at_def)
next
  case False
  then have late: "due_at now t \<le> now" by simp
  define d where "d = unat (due_at now t)"
  define p where "p = unat (t_period t)"
  obtain t' tick where t: "take_timer now t = Some (t', Some tick)" "t_id t' = t_id t"
      "t_period t' = t_period t" "t_gen t' = t_gen t" "dt_id tick = t_id t" "dt_gen tick = t_gen t"
      "unat (t_due t') = min (d + ((unat now - d) div p + 1) * p) (2 ^ 64 - 1)"
    using take_timer_late [OF ok late] unfolding d_def p_def by blast
  have "p < 2 ^ 64" using unat_bound [of "t_period t"] by (simp add: p_def)
  then have "timer_ok m t'" using t(3,7) ok(1) by (simp add: timer_ok_def word_le_nat_alt p_def)
  moreover have "d \<le> unat now" using False by (simp add: d_def word_less_nat_alt)
  then have "d + ((unat now - d) div p + 1) * p \<le> unat now + p"
    using div_times_less_eq_dividend [of "unat now - d" p] by (simp only: distrib_right)
  then have "t_due t' \<le> saturating_add now (t_period t)"
    using t(7) by (simp add: word_le_nat_alt unat_saturating_add p_def)
  ultimately show ?thesis using t False by simp
qed

section \<open>All timers\<close>

definition pass :: "u64 \<Rightarrow> timer \<Rightarrow> timer \<times> due_tick option" where
  "pass now t = the (take_timer now t)"

lemma take_timers_eq:
  "\<forall>t \<in> set ts. timer_ok m t \<Longrightarrow> m \<noteq> 0 \<Longrightarrow>
   take_timers now ts = Some (map (fst \<circ> pass now) ts, List.map_filter (snd \<circ> pass now) ts)"
proof (induction ts)
  case (Cons t ts)
  from take_timer_ok [of m t now] Cons.prems obtain t' tick where "take_timer now t = Some (t', tick)" by auto
  with Cons show ?case by (simp add: pass_def List.map_filter_simps split: option.splits)
qed (simp add: List.map_filter_simps)

lemma pass_ok:
  assumes "timer_ok m t" "m \<noteq> 0"
  shows "timer_ok m (fst (pass now t))" "t_id (fst (pass now t)) = t_id t"
    "t_gen (fst (pass now t)) = t_gen t" "t_period (fst (pass now t)) = t_period t"
    "t_due (fst (pass now t)) \<le> saturating_add now (t_period t)"
    "snd (pass now t) = None \<longleftrightarrow> now < due_at now t"
    "snd (pass now t) = Some x \<Longrightarrow> dt_id x = t_id t \<and> dt_gen x = t_gen t"
  using take_timer_ok [OF assms, of now] by (auto simp: pass_def)

lemma take_due_eq:
  assumes "table_inv tbl"
  shows "take_due now tbl = Some (List.map_filter (snd \<circ> pass now) (tt_timers tbl),
    tbl\<lparr>tt_timers := map (fst \<circ> pass now) (tt_timers tbl)\<rparr>)"
  using assms take_timers_eq [of "tt_timers tbl" "tt_min_period tbl" now] by (simp add: take_due_def table_inv_def)

section \<open>The invariant\<close>

lemma table_inv_new: "min_period \<noteq> 0 \<Longrightarrow> table_inv (set_exports_on_timer b (timer_table_new max_timers min_period))"
  by (simp add: table_inv_def set_exports_on_timer_def timer_table_new_def)

lemma period_le_saturating: "p \<le> saturating_add now p" for p :: u64
  using unat_bound [of p] by (simp add: word_le_nat_alt unat_saturating_add)

lemma timer_ok_fresh: "m \<le> period \<Longrightarrow>
    timer_ok m \<lparr>t_id = i, t_period = ucast period, t_due = saturating_add now (ucast period), t_gen = g\<rparr>"
  using unat_bound [of period] by (simp add: timer_ok_def word_le_nat_alt unat_saturating_add unat_ucast_u64)

lemma observe_clock_inv: "table_inv tbl \<Longrightarrow> table_inv (observe_clock now tbl)"
  using period_le_saturating
  by (auto simp: table_inv_def observe_clock_def timer_ok_def comp_def)

lemma start_inv:
  assumes "table_inv tbl"
  shows "\<exists>r tbl'. timer_start period now tbl = Some (r, tbl') \<and> table_inv tbl'"
proof (cases "tt_exports tbl \<and> tt_min_period tbl \<le> period \<and> length (tt_timers tbl) < tt_max tbl \<and> tt_next_id tbl \<noteq> - 1")
  case True
  have n: "unat (tt_next_id tbl + 1) = unat (tt_next_id tbl) + 1" using True by (simp add: unat_inc)
  then have "tt_next_id tbl < tt_next_id tbl + 1" by (simp add: word_less_nat_alt)
  moreover have "tt_next_id tbl + 1 \<noteq> 0" using n by (metis add_is_0 one_neq_zero unsigned_0)
  ultimately show ?thesis
    using True assms timer_ok_fresh [of "tt_min_period tbl" period]
    by (auto simp: timer_start_def table_inv_def timer_id_alloc_def intro: less_trans)
next
  case False
  then show ?thesis using assms by (auto simp: timer_start_def not_le)
qed

lemma update_first_map:
  "distinct (map f xs) \<Longrightarrow> update_first (\<lambda>x. f x = k) g xs =
     (if k \<in> f ` set xs then Some (map (\<lambda>x. if f x = k then g x else x) xs) else None)"
proof (induction xs)
  case (Cons x xs)
  have "map (\<lambda>y. if f y = f x then g y else y) xs = xs" by (rule map_idI) (use Cons.prems in \<open>fastforce simp: image_iff\<close>)
  with Cons show ?case by auto
qed simp

lemma set_period_eq:
  assumes "table_inv tbl"
  shows "timer_set_period tid period now tbl =
    (if period < tt_min_period tbl then (Inl PeriodTooShort, tbl)
     else if tid \<notin> t_id ` set (tt_timers tbl) then (Inl NotRunning, tbl)
     else (Inr (), tbl\<lparr>tt_timers := map (\<lambda>t. if t_id t = tid then change_period period now t else t) (tt_timers tbl)\<rparr>))"
  using assms by (simp add: timer_set_period_def table_inv_def update_first_map)

lemma change_period_simps [simp]: "t_id (change_period period now t) = t_id t"
    "t_gen (change_period period now t) = t_gen t + 1"
  by (simp_all add: change_period_def)

lemma change_period_ok: "m \<le> period \<Longrightarrow> timer_ok m (change_period period now t)"
  using timer_ok_fresh [of m period] by (simp add: change_period_def timer_ok_def)

lemma set_period_inv: "table_inv tbl \<Longrightarrow> table_inv (snd (timer_set_period tid period now tbl))"
  unfolding set_period_eq
  by (auto simp: table_inv_def comp_def change_period_ok if_distrib [of t_id] cong: if_cong)

lemma stop_inv: "table_inv tbl \<Longrightarrow> table_inv (timer_stop tid tbl)"
  using length_filter_le [of "\<lambda>t. t_id t \<noteq> tid" "tt_timers tbl"]
  by (auto simp: table_inv_def timer_stop_def distinct_map_filter simp del: length_filter_le)

lemma take_due_inv:
  assumes "table_inv tbl" shows "\<exists>ticks tbl'. take_due now tbl = Some (ticks, tbl') \<and> table_inv tbl'"
proof -
  have "map (\<lambda>t. t_id (fst (pass now t))) (tt_timers tbl) = map t_id (tt_timers tbl)"
    by (rule map_cong) (use assms in \<open>auto simp: table_inv_def pass_ok\<close>)
  then have "distinct (map (\<lambda>t. t_id (fst (pass now t))) (tt_timers tbl))"
    using assms unfolding table_inv_def by presburger
  then show ?thesis
    using assms by (auto simp: take_due_eq table_inv_def pass_ok comp_def)
qed

section \<open>Counting periods\<close>

text \<open>The operations of a table, and the ticks they have given so far.\<close>

datatype table_op =
    OpStart u32 u64
  | OpSetPeriod timer_id u32 u64
  | OpStop timer_id
  | OpObserve u64
  | OpTake u64

fun table_exec :: "table_op \<Rightarrow> timer_table \<times> due_tick list \<Rightarrow> (timer_table \<times> due_tick list) option" where
  "table_exec (OpStart period now) (tbl, out) = map_option (\<lambda>(_, tbl'). (tbl', out)) (timer_start period now tbl)"
| "table_exec (OpSetPeriod tid period now) (tbl, out) = Some (snd (timer_set_period tid period now tbl), out)"
| "table_exec (OpStop tid) (tbl, out) = Some (timer_stop tid tbl, out)"
| "table_exec (OpObserve now) (tbl, out) = Some (observe_clock now tbl, out)"
| "table_exec (OpTake now) (tbl, out) = map_option (\<lambda>(ticks, tbl'). (tbl', out @ ticks)) (take_due now tbl)"

interpretation timers: total_machine "table_inv \<circ> fst" table_exec
proof
  fix op and s :: "timer_table \<times> due_tick list"
  obtain tbl out where s: "s = (tbl, out)" by (cases s)
  assume "(table_inv \<circ> fst) s"
  then show "\<exists>s'. table_exec op s = Some s' \<and> (table_inv \<circ> fst) s'"
    using start_inv set_period_inv stop_inv observe_clock_inv take_due_inv unfolding s by (cases op) fastforce+
qed

definition periods :: "timer_id \<Rightarrow> due_tick list \<Rightarrow> nat" where
  "periods tid out = sum_list (map (unat \<circ> dt_elapsed) (filter (\<lambda>x. dt_id x = tid) out))"

fun take_time :: "table_op \<Rightarrow> nat option" where
  "take_time (OpTake now) = Some (unat now)"
| "take_time _ = None"

fun leaves :: "timer_id \<Rightarrow> table_op \<Rightarrow> bool" where
  "leaves tid (OpStop i) \<longleftrightarrow> i \<noteq> tid"
| "leaves tid (OpSetPeriod i _ _) \<longleftrightarrow> i \<noteq> tid"
| "leaves tid _ \<longleftrightarrow> True"

text \<open>A timer that started at \<open>t0\<close> and was last asked at \<open>u\<close>.\<close>

definition counting :: "timer_id \<Rightarrow> nat \<Rightarrow> nat \<Rightarrow> nat \<Rightarrow> timer_table \<times> due_tick list \<Rightarrow> bool" where
  "counting tid p t0 u s \<longleftrightarrow> table_inv (fst s) \<and> tt_clock_started (fst s) \<and>
     periods tid (snd s) = (u - t0) div p \<and>
     (\<exists>t \<in> set (tt_timers (fst s)). t_id t = tid \<and> unat (t_period t) = p \<and>
        unat (t_due t) = t0 + ((u - t0) div p + 1) * p)"

lemma filter_ticks:
  assumes "table_inv tbl" "t \<in> set (tt_timers tbl)"
  shows "filter (\<lambda>x. dt_id x = t_id t) (List.map_filter (snd \<circ> pass now) (tt_timers tbl)) =
    (case snd (pass now t) of None \<Rightarrow> [] | Some x \<Rightarrow> [x])"
proof -
  have *: "filter (\<lambda>x. dt_id x = t_id t) (List.map_filter (snd \<circ> pass now) ts) =
      (if t \<in> set ts then (case snd (pass now t) of None \<Rightarrow> [] | Some x \<Rightarrow> [x]) else [])"
    if "distinct (map t_id ts)" "\<forall>t' \<in> set ts. timer_ok m t'" "m \<noteq> 0"
      "\<forall>t' \<in> set ts. t_id t' = t_id t \<longrightarrow> t' = t" for ts m
    using that
  proof (induction ts)
    case (Cons u ts)
    then have ok: "timer_ok m u" "m \<noteq> 0" by simp_all
    show ?case
    proof (cases "u = t")
      case True
      then have "t \<notin> set ts" using Cons.prems(1) by auto
      with Cons True pass_ok(7) [OF ok, of now] show ?thesis
        by (simp add: List.map_filter_simps split: option.splits)
    next
      case False
      then have "t_id u \<noteq> t_id t" using Cons.prems(4) by auto
      with Cons False pass_ok(7) [OF ok, of now] show ?thesis
        by (auto simp: List.map_filter_simps split: option.splits)
    qed
  qed (simp add: List.map_filter_simps)
  have "t' = t" if "t' \<in> set (tt_timers tbl)" "t_id t' = t_id t" for t'
    using assms that unfolding table_inv_def by (metis distinct_map inj_onD)
  with * [of "tt_timers tbl" "tt_min_period tbl"] assms show ?thesis by (auto simp: table_inv_def)
qed

lemma periods_append: "periods tid (xs @ ys) = periods tid xs + periods tid ys"
  by (simp add: periods_def)

lemma div_between: "k * p \<le> x \<Longrightarrow> x < (k + 1) * p \<Longrightarrow> x div p = (k :: nat)"
  by (metis Suc_eq_plus1 div_nat_eqI mult.commute)

lemma counting_take:
  assumes c: "counting tid p t0 u (tbl, out)" and p: "0 < p"
    and u: "t0 \<le> u" "u \<le> unat now" and fits: "unat now + p < 2 ^ 64" "(unat now - t0) div p < 2 ^ 32"
  shows "\<exists>s'. table_exec (OpTake now) (tbl, out) = Some s' \<and> counting tid p t0 (unat now) s'"
proof -
  define k where "k = (u - t0) div p"
  define n where "n = (unat now - t0) div p"
  from c obtain t where inv: "table_inv tbl" and t: "t \<in> set (tt_timers tbl)" "t_id t = tid" "unat (t_period t) = p"
      "unat (t_due t) = t0 + (k + 1) * p" and per: "periods tid out = k" and clk: "tt_clock_started tbl"
    by (auto simp: counting_def k_def)
  have ok: "timer_ok (tt_min_period tbl) t" "tt_min_period tbl \<noteq> 0" using inv t(1) by (simp_all add: table_inv_def)
  have kp: "k * p \<le> u - t0" by (simp add: k_def)
  then have D: "unat (due_at now t) = t0 + (k + 1) * p"
    using u fits by (simp add: unat_due_at t(3,4))
  have n: "n * p \<le> unat now - t0" by (simp add: n_def)
  have ticks: "periods tid (List.map_filter (snd \<circ> pass now) (tt_timers tbl)) =
      sum_list (map (unat \<circ> dt_elapsed) (case snd (pass now t) of None \<Rightarrow> [] | Some x \<Rightarrow> [x]))"
    using filter_ticks [OF inv t(1), of now] t(2) by (simp add: periods_def)
  have "periods tid (List.map_filter (snd \<circ> pass now) (tt_timers tbl)) = n - k \<and> k \<le> n \<and>
      unat (t_due (fst (pass now t))) = t0 + (n + 1) * p"
  proof (cases "now < due_at now t")
    case True
    then have "unat now < t0 + (k + 1) * p" using D by (simp add: word_less_nat_alt)
    then have "n = k" unfolding n_def using kp u by (intro div_between) (simp_all add: less_diff_conv2)
    with True D show ?thesis by (simp add: ticks pass_def take_timer_early)
  next
    case False
    then have late: "due_at now t \<le> now" by simp
    define e where "e = (unat now - (t0 + (k + 1) * p)) div p + 1"
    have "t0 + (k + 1) * p \<le> unat now" using late D by (simp add: word_le_nat_alt)
    then have "unat now - t0 = (unat now - (t0 + (k + 1) * p)) + (k + 1) * p" by simp
    then have "n = (unat now - (t0 + (k + 1) * p)) div p + (k + 1)"
      unfolding n_def using p by (simp only: div_mult_self1)
    then have e: "n = k + e" by (simp add: e_def)
    obtain t' x where x: "take_timer now t = Some (t', Some x)" "dt_id x = t_id t"
        "unat (t_due t') = min (t0 + (k + 1) * p + e * p) (2 ^ 64 - 1)" "unat (dt_elapsed x) = min e (2 ^ 32 - 1)"
      using take_timer_late [OF ok late] unfolding D t(3) e_def by blast
    have "e < 2 ^ 32" using fits(2) e by (simp add: n_def)
    moreover have "t0 + (k + 1) * p + e * p = t0 + (n + 1) * p" by (simp add: e algebra_simps)
    moreover have "t0 + (n + 1) * p \<le> unat now + p" using n u by simp
    ultimately show ?thesis
      using x t(2) fits(1) e by (simp add: ticks pass_def)
  qed
  then show ?thesis
    using inv t per clk take_due_inv [OF inv, of now] pass_ok(2,4) [OF ok, of now]
    by (auto simp: take_due_eq counting_def periods_append n_def [symmetric] intro!: bexI [of _ t])
qed

lemma counting_other:
  assumes c: "counting tid p t0 u (tbl, out)" and l: "leaves tid op" "take_time op = None"
  shows "\<exists>s'. table_exec op (tbl, out) = Some s' \<and> counting tid p t0 u s'"
proof -
  have inv: "table_inv tbl" using c by (simp add: counting_def)
  from timers.exec_total [of "(tbl, out)" op] inv obtain s' where s': "table_exec op (tbl, out) = Some s'" "table_inv (fst s')"
    by auto
  show ?thesis
  proof (cases op)
    case (OpStart period now)
    with s' c show ?thesis
      by (auto simp: counting_def timer_start_def timer_id_alloc_def split: if_splits)
  next
    case (OpSetPeriod i period now)
    with s' c l show ?thesis by (auto simp: counting_def set_period_eq [OF inv])
  next
    case (OpStop i)
    with s' c l show ?thesis by (auto simp: counting_def timer_stop_def)
  next
    case (OpObserve now)
    with s' c show ?thesis by (auto simp: counting_def observe_clock_def)
  next
    case (OpTake now)
    with l show ?thesis by simp
  qed
qed

lemma counting_run:
  assumes "counting tid p t0 u s" "0 < p" "t0 \<le> u" "\<forall>op \<in> set ops. leaves tid op"
    "sorted (u # List.map_filter take_time ops)"
    "last (u # List.map_filter take_time ops) + p < 2 ^ 64"
    "(last (u # List.map_filter take_time ops) - t0) div p < 2 ^ 32"
  shows "\<exists>s'. machine_run table_exec ops s = Some s' \<and>
    counting tid p t0 (last (u # List.map_filter take_time ops)) s'"
  using assms
proof (induction ops arbitrary: s u)
  case Nil
  then show ?case by (simp add: List.map_filter_simps)
next
  case (Cons op ops)
  obtain tbl out where s: "s = (tbl, out)" by (cases s)
  show ?case
  proof (cases "take_time op")
    case None
    from counting_other [OF Cons.prems(1) [unfolded s] _ None] Cons.prems(4) obtain s1
      where s1: "table_exec op s = Some s1" "counting tid p t0 u s1" unfolding s by auto
    from Cons.IH [OF s1(2)] Cons.prems None s1(1) show ?thesis by (simp add: List.map_filter_simps)
  next
    case (Some v)
    then obtain now where op: "op = OpTake now" "v = unat now" by (cases op) auto
    let ?l = "last (v # List.map_filter take_time ops)"
    have eq: "List.map_filter take_time (op # ops) = v # List.map_filter take_time ops"
      using Some by (simp add: List.map_filter_simps)
    note prems = Cons.prems(5,6,7) [unfolded eq]
    have "v \<le> ?l" using prems(1) by (cases "List.map_filter take_time ops = []") (auto simp: last_in_set)
    then have "(v - t0) div p \<le> (?l - t0) div p" by (intro div_le_mono diff_le_mono)
    then have "(v - t0) div p < 2 ^ 32" using prems(3) by simp
    moreover have "v + p < 2 ^ 64" using prems(2) \<open>v \<le> ?l\<close> by simp
    moreover have "u \<le> v" using prems(1) by simp
    ultimately obtain s1 where s1: "table_exec op s = Some s1" "counting tid p t0 v s1"
      using counting_take [OF Cons.prems(1) [unfolded s] Cons.prems(2,3), of now] unfolding s op by auto
    from Cons.IH [OF s1(2)] Cons.prems(2,3,4) prems s1(1) \<open>u \<le> v\<close> Some show ?thesis by simp
  qed
qed

text \<open>Before the first reading of the clock, which reads 0 until then, nothing can fall due.\<close>

fun unread :: "table_op \<Rightarrow> bool" where
  "unread (OpObserve _) \<longleftrightarrow> False"
| "unread (OpTake now) \<longleftrightarrow> now = 0"
| "unread _ \<longleftrightarrow> True"

definition waiting :: "timer_id \<Rightarrow> nat \<Rightarrow> timer_table \<times> due_tick list \<Rightarrow> bool" where
  "waiting tid p s \<longleftrightarrow> table_inv (fst s) \<and> \<not> tt_clock_started (fst s) \<and> periods tid (snd s) = 0 \<and>
     (\<exists>t \<in> set (tt_timers (fst s)). t_id t = tid \<and> unat (t_period t) = p)"

lemma waiting_take:
  assumes "waiting tid p (tbl, out)"
  shows "\<exists>s'. table_exec (OpTake 0) (tbl, out) = Some s' \<and> waiting tid p s'"
proof -
  from assms obtain t where inv: "table_inv tbl" and t: "t \<in> set (tt_timers tbl)" "t_id t = tid"
      "unat (t_period t) = p" by (auto simp: waiting_def)
  have ok: "timer_ok (tt_min_period tbl) t" "tt_min_period tbl \<noteq> 0" using inv t(1) by (simp_all add: table_inv_def)
  then have "0 < due_at 0 t"
    using due_at_ge_period [of t 0] timer_okD [OF ok] by (auto simp: timer_ok_def word_less_nat_alt word_le_nat_alt)
  then have "snd (pass 0 t) = None" using pass_ok(6) [OF ok, of 0] by simp
  then have "periods tid (List.map_filter (snd \<circ> pass 0) (tt_timers tbl)) = 0"
    using filter_ticks [OF inv t(1), of 0] t(2) by (simp add: periods_def)
  then show ?thesis
    using assms t take_due_inv [OF inv, of 0] pass_ok(2,4) [OF ok, of 0]
    by (auto simp: take_due_eq [OF inv] waiting_def periods_append intro!: bexI [of _ t])
qed

lemma waiting_step:
  assumes w: "waiting tid p (tbl, out)" and l: "leaves tid op" "unread op"
  shows "\<exists>s'. table_exec op (tbl, out) = Some s' \<and> waiting tid p s'"
proof -
  have inv: "table_inv tbl" using w by (simp add: waiting_def)
  from timers.exec_total [of "(tbl, out)" op] inv obtain s' where s': "table_exec op (tbl, out) = Some s'" "table_inv (fst s')"
    by auto
  show ?thesis
  proof (cases op)
    case (OpStart period now)
    with s' w show ?thesis
      by (auto simp: waiting_def timer_start_def timer_id_alloc_def split: if_splits)
  next
    case (OpSetPeriod i period now)
    with s' w l show ?thesis by (auto simp: waiting_def set_period_eq [OF inv] split: if_splits)
  next
    case (OpStop i)
    with s' w l show ?thesis by (auto simp: waiting_def timer_stop_def)
  next
    case (OpTake now)
    with waiting_take [OF w] l show ?thesis by simp
  qed (use l in simp)
qed

lemma waiting_run:
  "waiting tid p s \<Longrightarrow> \<forall>op \<in> set ops. leaves tid op \<and> unread op \<Longrightarrow>
   \<exists>s'. machine_run table_exec ops s = Some s' \<and> waiting tid p s'"
proof (induction ops arbitrary: s)
  case (Cons op ops)
  obtain tbl out where s: "s = (tbl, out)" by (cases s)
  from waiting_step [of tid p tbl out op] Cons.prems obtain s1 where
    "table_exec op s = Some s1" "waiting tid p s1" unfolding s by auto
  with Cons show ?case by simp
qed simp

lemma waiting_observe:
  assumes "waiting tid p s" "unat base + p < 2 ^ 64" "0 < p"
  shows "\<exists>s'. table_exec (OpObserve base) s = Some s' \<and> counting tid p (unat base) (unat base) s'"
  using assms observe_clock_inv [of "fst s" base]
  by (cases s) (auto simp: waiting_def counting_def observe_clock_def unat_saturating_add)

text \<open>A timer that is started when the clock has been read counts from its start; one that was started
  before, when the widget initialised, counts from the first reading, the last of the \<open>early\<close> operations.\<close>

definition counts_from :: "bool \<Rightarrow> u64 \<Rightarrow> table_op list \<Rightarrow> u64 \<Rightarrow> bool" where
  "counts_from started t0 early base \<longleftrightarrow>
     (if started then early = [] \<and> base = t0
      else early \<noteq> [] \<and> last early = OpObserve base \<and> list_all unread (butlast early))"

lemma counting_starts:
  assumes "table_inv tbl" "timer_start period t0 tbl = Some (Inr tid, tbl1)"
    and "counts_from (tt_clock_started tbl) t0 early base" "\<forall>op \<in> set early. leaves tid op"
    and "unat base + unat period < 2 ^ 64" "0 < unat period"
  shows "\<exists>s. machine_run table_exec early (tbl1, []) = Some s \<and> counting tid (unat period) (unat base) (unat base) s"
proof (cases "tt_clock_started tbl")
  case True
  then have "counting tid (unat period) (unat base) (unat base) (tbl1, [])"
    using assms start_inv [OF assms(1), of period t0]
    by (auto simp: counting_def counts_from_def periods_def timer_start_def timer_id_alloc_def unat_saturating_add
        unat_ucast_u64 split: if_splits)
  with True assms(3) show ?thesis by (simp add: counts_from_def)
next
  case False
  with assms(3) have early: "early = butlast early @ [OpObserve base]" "list_all unread (butlast early)"
    by (simp_all add: counts_from_def) (metis append_butlast_last_id)
  have "waiting tid (unat period) (tbl1, [])"
    using False assms(2) start_inv [OF assms(1), of period t0]
    by (auto simp: waiting_def periods_def timer_start_def timer_id_alloc_def unat_ucast_u64 split: if_splits)
  moreover have "\<forall>op \<in> set (butlast early). leaves tid op \<and> unread op"
    using early(2) assms(4) by (auto simp: list_all_iff dest: in_set_butlastD)
  ultimately obtain s where "machine_run table_exec (butlast early) (tbl1, []) = Some s" "waiting tid (unat period) s"
    using waiting_run by blast
  with waiting_observe [OF this(2) assms(5,6)] show ?thesis
    by (subst early(1)) (auto simp: machine_run_append)
qed

text \<open>C7. A timer counts time exactly. Start one with some period, then let the clock be read at any
  later times, in any order with starting, stopping and changing other timers. However the readings
  fall, the periods its ticks cover add up to the number of whole periods between its start and the
  last reading: none is lost or counted twice, missed ones are made up for, and nothing drifts. A
  timer started before the clock was first read, as when the widget initialises, counts from that
  first reading instead of its start, whatever else happened before it. The table never panics. The
  last reading leaves room for one more period in 64 bits, and no more than 32 bits of periods have
  passed.\<close>

theorem timer_counts_periods:
  assumes "table_inv tbl" "timer_start period t0 tbl = Some (Inr tid, tbl1)"
    and "counts_from (tt_clock_started tbl) t0 early base"
    and "\<forall>op \<in> set (early @ ops). leaves tid op"
    and "sorted (unat base # List.map_filter take_time ops)"
    and "now = last (unat base # List.map_filter take_time ops)"
    and "now + unat period < 2 ^ 64" "(now - unat base) div unat period < 2 ^ 32"
  shows "\<exists>tbl2 out. machine_run table_exec (early @ ops) (tbl1, []) = Some (tbl2, out) \<and>
    periods tid out = (now - unat base) div unat period"
proof -
  have pos: "0 < unat period" using assms(1,2)
    by (auto simp: timer_start_def table_inv_def word_less_nat_alt unat_gt_0 split: if_splits)
  have "now \<ge> unat base" using assms(5,6) by (cases "List.map_filter take_time ops = []") (auto simp: last_in_set)
  then have "unat base + unat period < 2 ^ 64" using assms(7) by simp
  with counting_starts [OF assms(1-3) _ _ pos] assms(4) obtain s where
    s: "machine_run table_exec early (tbl1, []) = Some s" "counting tid (unat period) (unat base) (unat base) s" by auto
  from counting_run [OF s(2) pos order_refl _ assms(5)] assms(4,6-8) obtain s' where
    "machine_run table_exec ops s = Some s'" "counting tid (unat period) (unat base) now s'" by auto
  with s(1) show ?thesis by (cases s') (auto simp: counting_def machine_run_append)
qed

text \<open>A widget that starts a timer when it initialises: the clock is first read at 600000, then late,
  with a second timer started in between.\<close>

definition table1 :: timer_table where
  "table1 = set_exports_on_timer True (timer_table_new 4 1000)"

theorem timer_counts_periods_witness:
  "\<exists>tbl2 out. machine_run table_exec [OpTake 0, OpObserve 600000, OpTake 603500, OpStart 2000 603600, OpTake 610000]
     (snd (the (timer_start 1000 0 table1)), []) = Some (tbl2, out) \<and> periods 1 out = 10"
proof -
  have inv: "table_inv table1" "\<not> tt_clock_started table1"
    by (simp_all add: table1_def table_inv_new) (simp add: set_exports_on_timer_def timer_table_new_def)
  have start: "timer_start 1000 0 table1 = Some (Inr 1, snd (the (timer_start 1000 0 table1)))"
    by (simp add: timer_start_def table1_def set_exports_on_timer_def timer_table_new_def timer_id_alloc_def)
  have from_first: "counts_from (tt_clock_started table1) 0 [OpTake 0, OpObserve 600000] 600000"
    by (simp add: counts_from_def inv)
  have eq: "(610000 - unat (600000 :: u64)) div unat (1000 :: u32) = 10" by simp
  have "machine_run table_exec ([OpTake 0, OpObserve 600000] @ [OpTake 603500, OpStart 2000 603600, OpTake 610000])
      (snd (the (timer_start 1000 0 table1)), []) =
    machine_run table_exec [OpTake 0, OpObserve 600000, OpTake 603500, OpStart 2000 603600, OpTake 610000]
      (snd (the (timer_start 1000 0 table1)), [])" by (simp only: append.simps)
  then show ?thesis
    by (rule subst) (rule timer_counts_periods [OF inv(1) start from_first, where now = 610000, unfolded eq],
      simp_all add: List.map_filter_simps)
qed

section \<open>Waking up\<close>

lemma next_due_Some:
  "next_due_in_ms now tbl = Some d \<longleftrightarrow>
     d \<in> (\<lambda>t. saturating_sub (due_at now t) now) ` set (tt_timers tbl) \<and>
     (\<forall>t \<in> set (tt_timers tbl). d \<le> saturating_sub (due_at now t) now)"
proof (cases "tt_timers tbl")
  case (Cons t ts)
  let ?f = "\<lambda>t. saturating_sub (due_at now t) now"
  have "next_due_in_ms now tbl = Some (Min (?f ` set (tt_timers tbl)))"
    using Cons Min.set_eq_fold [of "?f t" "map ?f ts"] by (simp add: next_due_in_ms_def del: Min_insert)
  then show ?thesis using Cons by (auto simp: Min_eq_iff)
qed (simp add: next_due_in_ms_def)

lemma take_due_quiet:
  assumes "table_inv tbl" "\<And>t. t \<in> set (tt_timers tbl) \<Longrightarrow> u < due_at u t"
  shows "\<exists>tbl'. take_due u tbl = Some ([], tbl')"
proof -
  have "snd (pass u t) = None" if "t \<in> set (tt_timers tbl)" for t
    using assms that pass_ok(6) [of "tt_min_period tbl" t u] by (simp add: table_inv_def)
  then have "List.map_filter (snd \<circ> pass u) (tt_timers tbl) = []"
    by (auto simp: List.map_filter_def filter_empty_conv)
  then show ?thesis using take_due_eq [OF assms(1), of u] by simp
qed

lemma take_due_ticks:
  assumes "table_inv tbl" "t \<in> set (tt_timers tbl)" "due_at u t \<le> u"
  shows "\<exists>tick more tbl'. take_due u tbl = Some (tick # more, tbl')"
proof -
  have "snd (pass u t) \<noteq> None"
    using assms pass_ok(6) [of "tt_min_period tbl" t u] by (simp add: table_inv_def)
  then have "List.map_filter (snd \<circ> pass u) (tt_timers tbl) \<noteq> []"
    using assms(2) by (auto simp: List.map_filter_def filter_empty_conv)
  then show ?thesis using take_due_eq [OF assms(1), of u] by (auto simp: neq_Nil_conv)
qed

text \<open>Once a pass has run, a timer that is due within the reading is due exactly then.\<close>

lemma due_at_later:
  assumes "t_due t \<le> saturating_add now (t_period t)" "now \<le> u"
  shows "due_at u t = t_due t"
proof -
  have "unat (t_due t) \<le> unat u + unat (t_period t)"
    using assms by (simp add: word_le_nat_alt unat_saturating_add)
  then have "t_due t \<le> saturating_add u (t_period t)"
    using unat_bound [of "t_due t"] by (simp add: word_le_nat_alt unat_saturating_add)
  then show ?thesis by (simp add: due_at_def min_def)
qed

text \<open>The wake-up time a table announces at the time of a pass or later is exact: if no operation
  comes in between, no reading of the clock before that time gives a tick, and the reading at that time does. The
  time is at most one period away for some running timer, also after the clock was set back, and
  adding it to the clock does not overflow. No time is announced only when no timer runs.\<close>

lemma next_due_exact:
  assumes "table_inv tbl" "take_due before tbl = Some (ticks, tbl1)" "before \<le> now"
  shows "case next_due_in_ms now tbl1 of
      None \<Rightarrow> tt_timers tbl1 = []
    | Some d \<Rightarrow> unat now + unat d < 2 ^ 64 \<and>
        (\<forall>u. now \<le> u \<and> u < now + d \<longrightarrow> (\<exists>tbl2. take_due u tbl1 = Some ([], tbl2))) \<and>
        (\<exists>tick more tbl2. take_due (now + d) tbl1 = Some (tick # more, tbl2)) \<and>
        (\<exists>t \<in> set (tt_timers tbl1). d \<le> t_period t)"
proof (cases "next_due_in_ms now tbl1")
  case None
  then show ?thesis by (auto simp: next_due_in_ms_def split: list.splits)
next
  case (Some d)
  have inv: "table_inv tbl1" using take_due_inv [OF assms(1), of before] assms(2) by auto
  have tt: "tt_timers tbl1 = map (fst \<circ> pass before) (tt_timers tbl)"
    using assms(1,2) by (simp add: take_due_eq) auto
  have near: "t_due t \<le> saturating_add before (t_period t)" if "t \<in> set (tt_timers tbl1)" for t
    using that assms(1) by (auto simp: tt table_inv_def pass_ok)
  have due: "due_at u t = t_due t" if "t \<in> set (tt_timers tbl1)" "now \<le> u" for t u
    using due_at_later [OF near [OF that(1)] order_trans [OF assms(3) that(2)]] .
  from Some obtain t where t: "t \<in> set (tt_timers tbl1)" "d = saturating_sub (t_due t) now"
    and le: "\<forall>t \<in> set (tt_timers tbl1). d \<le> saturating_sub (t_due t) now"
    by (auto simp: next_due_Some due)
  have d: "unat d = unat (t_due t) - unat now" by (simp add: t(2) unat_saturating_sub)
  have fits: "unat now + unat d < 2 ^ 64" using d unat_bound [of "t_due t"] unat_bound [of now] by simp
  then have nd: "unat (now + d) = unat now + unat d" by (simp add: unat_word_ariths)
  have "\<exists>tbl2. take_due u tbl1 = Some ([], tbl2)" if u: "now \<le> u" "u < now + d" for u
  proof (rule take_due_quiet [OF inv])
    fix x assume x: "x \<in> set (tt_timers tbl1)"
    have "unat d \<le> unat (t_due x) - unat now" using le x by (simp add: word_le_nat_alt unat_saturating_sub)
    then show "u < due_at u x" using u nd due [OF x u(1)] by (simp add: word_less_nat_alt word_le_nat_alt)
  qed
  moreover have "now \<le> now + d" "t_due t \<le> now + d" using nd d by (simp_all add: word_le_nat_alt)
  then have "\<exists>tick more tbl2. take_due (now + d) tbl1 = Some (tick # more, tbl2)"
    using take_due_ticks [OF inv t(1)] due [OF t(1)] by simp
  moreover have "d \<le> t_period t"
    using near [OF t(1)] d assms(3) by (simp add: word_le_nat_alt unat_saturating_add le_diff_conv)
  ultimately show ?thesis using Some fits t(1) by auto
qed

end
