(* ===== verification/Timer_Delivery.thy ===== *)
theory Timer_Delivery
  imports Timer_Props "HOL-Library.Sublist"
begin

text \<open>
  Ticks on their way to a widget: the host's staging and delivery
  (\<^verbatim>\<open>bmc-wasm-runtime/src/runtime/delivery.rs\<close>), the functions it offers the guest
  (\<^verbatim>\<open>runtime/imports/timer.rs\<close>) and the guest's own timer library (\<^verbatim>\<open>sdk/src/timer.rs\<close>), composed into
  one machine with the table. What a callback does is up to the widget: a guest is any function
  from what has happened so far to the timer calls its callback makes and whether it traps. The
  history of these calls is kept beside the state, for the properties only.
\<close>

section \<open>The machine\<close>

datatype 'c timer_event =
    Started timer_id 'c
  | Changed timer_id
  | Stopped timer_id
  | Staged due_tick
  | Called timer_id u32 'c

datatype 'c guest_act =
    StartTimer u32 'c
  | SetPeriod timer_id u32
  | DropTimer timer_id

type_synonym 'c guest = "'c timer_event list \<Rightarrow> 'c guest_act list \<times> bool"

record 'c timer_world =
  tw_table :: timer_table
  tw_now :: u64
  tw_on_timer :: bool
  tw_staged :: "due_tick list"
  tw_callbacks :: "timer_id \<rightharpoonup> 'c"
  tw_history :: "'c timer_event list"

definition record_events :: "'c timer_event list \<Rightarrow> 'c timer_world \<Rightarrow> 'c timer_world" where
  "record_events es w = w\<lparr>tw_history := tw_history w @ es\<rparr>"

definition timer_world_new :: "nat \<Rightarrow> u32 \<Rightarrow> bool \<Rightarrow> 'c timer_world" where
  "timer_world_new max_timers min_period on_timer =
     \<lparr>tw_table = set_exports_on_timer on_timer (timer_table_new max_timers min_period), tw_now = 0,
      tw_on_timer = on_timer, tw_staged = [], tw_callbacks = (\<lambda>_. None), tw_history = []\<rparr>"

section \<open>Functions of the host\<close>

definition host_timer_start :: "u32 \<Rightarrow> 'c timer_world \<Rightarrow> (u32 \<times> 'c timer_world) option" where
  "host_timer_start period w =
     (case timer_start period (tw_now w) (tw_table w) of
        None \<Rightarrow> None
      | Some (Inr tid, tbl) \<Rightarrow> Some (tid, w\<lparr>tw_table := tbl\<rparr>)
      | Some (Inl _, tbl) \<Rightarrow> Some (0, w\<lparr>tw_table := tbl\<rparr>))"

definition host_timer_set_period :: "u32 \<Rightarrow> u32 \<Rightarrow> 'c timer_world \<Rightarrow> u32 \<times> 'c timer_world" where
  "host_timer_set_period raw period w =
     (case timer_id_from_wire raw of
        None \<Rightarrow> (0, w)
      | Some tid \<Rightarrow>
          (case timer_set_period tid period (tw_now w) (tw_table w) of
             (Inr _, tbl) \<Rightarrow> (1, w\<lparr>tw_table := tbl\<rparr>)
           | (Inl _, tbl) \<Rightarrow> (0, w\<lparr>tw_table := tbl\<rparr>)))"

definition host_timer_stop :: "u32 \<Rightarrow> 'c timer_world \<Rightarrow> 'c timer_world" where
  "host_timer_stop raw w =
     (case timer_id_from_wire raw of
        None \<Rightarrow> w
      | Some tid \<Rightarrow> w\<lparr>tw_table := timer_stop tid (tw_table w)\<rparr>)"

section \<open>The library of the guest\<close>

definition sdk_start :: "u32 \<Rightarrow> 'c \<Rightarrow> 'c timer_world \<Rightarrow> (timer_id option \<times> 'c timer_world) option" where
  "sdk_start period callback w =
     map_option (\<lambda>(raw, w').
       case timer_id_from_wire raw of
         None \<Rightarrow> (None, w')
       | Some tid \<Rightarrow> (Some tid, record_events [Started tid callback]
           (w'\<lparr>tw_callbacks := (tw_callbacks w')(tid \<mapsto> callback)\<rparr>)))
     (host_timer_start period w)"

definition sdk_set_period :: "timer_id \<Rightarrow> u32 \<Rightarrow> 'c timer_world \<Rightarrow> bool \<times> 'c timer_world" where
  "sdk_set_period tid period w =
     (let (raw, w') = host_timer_set_period tid period w
      in (raw \<noteq> 0, if raw \<noteq> 0 then record_events [Changed tid] w' else w'))"

definition sdk_drop :: "timer_id \<Rightarrow> 'c timer_world \<Rightarrow> 'c timer_world" where
  "sdk_drop tid w =
     record_events (if tw_callbacks w tid = None then [] else [Stopped tid])
       (host_timer_stop tid (w\<lparr>tw_callbacks := (tw_callbacks w)(tid := None)\<rparr>))"

fun run_act :: "'c guest_act \<Rightarrow> 'c timer_world \<Rightarrow> 'c timer_world option" where
  "run_act (StartTimer period callback) w = map_option snd (sdk_start period callback w)"
| "run_act (SetPeriod tid period) w = Some (snd (sdk_set_period tid period w))"
| "run_act (DropTimer tid) w = Some (sdk_drop tid w)"

text \<open>Running a callback gives whether it trapped.\<close>

definition dispatch :: "'c guest \<Rightarrow> timer_id \<Rightarrow> u32 \<Rightarrow> 'c timer_world \<Rightarrow> (bool \<times> 'c timer_world) option" where
  "dispatch guest tid elapsed w =
     (case tw_callbacks w tid of
        None \<Rightarrow> Some (False, w)
      | Some callback \<Rightarrow>
          let w' = record_events [Called tid elapsed callback] w;
              (acts, trap) = guest (tw_history w')
          in map_option (Pair trap) (machine_run run_act acts w'))"

definition widget_on_timer :: "'c guest \<Rightarrow> u32 \<Rightarrow> u32 \<Rightarrow> 'c timer_world \<Rightarrow> (bool \<times> 'c timer_world) option" where
  "widget_on_timer guest raw elapsed w =
     (case timer_id_from_wire raw of
        None \<Rightarrow> Some (False, w)
      | Some tid \<Rightarrow> dispatch guest tid elapsed w)"

section \<open>Staging and delivery\<close>

definition set_time :: "u64 \<Rightarrow> 'c timer_world \<Rightarrow> 'c timer_world" where
  "set_time now w = w\<lparr>tw_now := now, tw_table := observe_clock now (tw_table w)\<rparr>"

definition stage_timer_ticks :: "'c timer_world \<Rightarrow> 'c timer_world option" where
  "stage_timer_ticks w =
     map_option (\<lambda>(ticks, tbl). record_events (map Staged ticks)
         (w\<lparr>tw_table := tbl, tw_staged := tw_staged w @ ticks\<rparr>))
       (take_due (tw_now w) (tw_table w))"

fun deliver_ticks :: "bool \<Rightarrow> 'c guest \<Rightarrow> due_tick list \<Rightarrow> 'c timer_world \<Rightarrow> (bool \<times> 'c timer_world) option" where
  "deliver_ticks fuel guest [] w = Some (False, w)"
| "deliver_ticks fuel guest (tick # ticks) w =
     (if \<not> is_current tick (tw_table w) then deliver_ticks fuel guest ticks w
      else if \<not> fuel then deliver_ticks fuel guest ticks w
      else case widget_on_timer guest (dt_id tick) (dt_elapsed tick) w of
        None \<Rightarrow> None
      | Some (trap, w') \<Rightarrow> if trap then Some (True, w') else deliver_ticks fuel guest ticks w')"

text \<open>The assertion that the widget exports its handler is the outer option.\<close>

definition deliver_staged_timer_ticks ::
  "bool \<Rightarrow> 'c guest \<Rightarrow> 'c timer_world \<Rightarrow> (bool \<times> 'c timer_world) option" where
  "deliver_staged_timer_ticks fuel guest w =
     (let ticks = tw_staged w; w' = w\<lparr>tw_staged := []\<rparr> in
      if ticks = [] then Some (False, w')
      else if \<not> tw_on_timer w' then None
      else deliver_ticks fuel guest ticks w')"

datatype 'c world_op = SetTime u64 | Stage | Deliver "'c guest" | Guest "'c guest_act"

fun world_exec :: "bool \<Rightarrow> 'c world_op \<Rightarrow> 'c timer_world \<Rightarrow> 'c timer_world option" where
  "world_exec fuel (SetTime now) w = Some (set_time now w)"
| "world_exec fuel Stage w = stage_timer_ticks w"
| "world_exec fuel (Deliver guest) w = map_option snd (deliver_staged_timer_ticks fuel guest w)"
| "world_exec fuel (Guest act) w = run_act act w"

section \<open>The invariant\<close>

text \<open>What justifies a call after the history \<open>h\<close>: a tick staged while its timer ran with that
  callback, and the timer was not stopped since and its period not changed, short of wrapping around
  the counter of changes.\<close>

definition justified :: "'c timer_event list \<Rightarrow> timer_id \<Rightarrow> u32 \<Rightarrow> 'c \<Rightarrow> bool" where
  "justified h tid elapsed callback \<longleftrightarrow>
     (\<exists>h0 tick h1. h = h0 @ Staged tick # h1 \<and> dt_id tick = tid \<and> dt_elapsed tick = elapsed \<and>
        Started tid callback \<in> set h0 \<and> Stopped tid \<notin> set h \<and> 2 ^ 32 dvd count_list h1 (Changed tid))"

definition calls_justified :: "'c timer_event list \<Rightarrow> bool" where
  "calls_justified h \<longleftrightarrow>
     (\<forall>h0 tid elapsed callback h1. h = h0 @ Called tid elapsed callback # h1 \<longrightarrow> justified h0 tid elapsed callback)"

definition calls_of :: "'c timer_event list \<Rightarrow> (timer_id \<times> u32) list" where
  "calls_of h = List.map_filter (\<lambda>e. case e of Called tid n _ \<Rightarrow> Some (tid, n) | _ \<Rightarrow> None) h"

definition staged_of :: "'c timer_event list \<Rightarrow> (timer_id \<times> u32) list" where
  "staged_of h = List.map_filter (\<lambda>e. case e of Staged x \<Rightarrow> Some (dt_id x, dt_elapsed x) | _ \<Rightarrow> None) h"

text \<open>A tick that has been staged and not been dealt with yet.\<close>

definition pending_ok :: "'c timer_event list \<Rightarrow> due_tick \<Rightarrow> bool" where
  "pending_ok h tick \<longleftrightarrow>
     (\<exists>h0 h1 callback. h = h0 @ Staged tick # h1 \<and> Started (dt_id tick) callback \<in> set h0 \<and>
        Stopped (dt_id tick) \<notin> set h0 \<and> dt_gen tick = of_nat (count_list h0 (Changed (dt_id tick))))"

definition timer_history :: "'c timer_world \<Rightarrow> timer \<Rightarrow> bool" where
  "timer_history w t \<longleftrightarrow>
     (\<exists>callback. tw_callbacks w (t_id t) = Some callback \<and> Started (t_id t) callback \<in> set (tw_history w)) \<and>
     Stopped (t_id t) \<notin> set (tw_history w) \<and>
     t_gen t = of_nat (count_list (tw_history w) (Changed (t_id t)))"

definition used_ids :: "'c timer_event list \<Rightarrow> timer_id set" where
  "used_ids h = {tid. Changed tid \<in> set h \<or> Stopped tid \<in> set h \<or> (\<exists>c. Started tid c \<in> set h)}"

definition world_inv :: "due_tick list \<Rightarrow> 'c timer_world \<Rightarrow> bool" where
  "world_inv pending w \<longleftrightarrow>
     table_inv (tw_table w) \<and> tw_on_timer w = tt_exports (tw_table w) \<and>
     (pending \<noteq> [] \<longrightarrow> tt_exports (tw_table w)) \<and>
     (\<forall>t \<in> set (tt_timers (tw_table w)). timer_history w t) \<and>
     dom (tw_callbacks w) = t_id ` set (tt_timers (tw_table w)) \<and>
     (\<forall>tid \<in> used_ids (tw_history w). tid < tt_next_id (tw_table w)) \<and>
     (\<forall>tid c c'. Started tid c \<in> set (tw_history w) \<longrightarrow> Started tid c' \<in> set (tw_history w) \<longrightarrow> c = c') \<and>
     (\<forall>tid c. Started tid c \<in> set (tw_history w) \<longrightarrow> Stopped tid \<in> set (tw_history w) \<or> tid \<in> t_id ` set (tt_timers (tw_table w))) \<and>
     (\<forall>tick \<in> set pending. pending_ok (tw_history w) tick) \<and>
     calls_justified (tw_history w) \<and>
     subseq (calls_of (tw_history w) @ map (\<lambda>x. (dt_id x, dt_elapsed x)) pending) (staged_of (tw_history w))"

lemmas history_defs = calls_of_def staged_of_def used_ids_def

lemma calls_justified_snoc:
  "calls_justified (h @ [e]) \<longleftrightarrow>
     calls_justified h \<and> (\<forall>tid n c. e = Called tid n c \<longrightarrow> justified h tid n c)"
proof -
  have eq: "h @ [e] = h0 @ x # h1 \<longleftrightarrow> (h1 = [] \<and> h = h0 \<and> e = x) \<or> (\<exists>h2. h1 = h2 @ [e] \<and> h = h0 @ x # h2)" for h0 x h1
    by (cases h1 rule: rev_cases) auto
  show ?thesis unfolding calls_justified_def eq by blast
qed

lemma calls_justified_quiet:
  "calls_justified h \<Longrightarrow> \<forall>e \<in> set es. \<forall>tid n c. e \<noteq> Called tid n c \<Longrightarrow> calls_justified (h @ es)"
proof (induction es rule: rev_induct)
  case (snoc e es)
  then show ?case using calls_justified_snoc [of "h @ es" e] by auto
qed simp

lemma pending_ok_append: "pending_ok h tick \<Longrightarrow> pending_ok (h @ es) tick"
  unfolding pending_ok_def by fastforce

lemma history_append [simp]:
  "calls_of (h @ es) = calls_of h @ calls_of es" "staged_of (h @ es) = staged_of h @ staged_of es"
  "used_ids (h @ es) = used_ids h \<union> used_ids es"
  by (auto simp: history_defs List.map_filter_def)

lemma history_events [simp]:
  "calls_of [] = []" "staged_of [] = []" "used_ids [] = {}"
  "calls_of [Started i c] = []" "staged_of [Started i c] = []" "used_ids [Started i c] = {i}"
  "calls_of [Changed i] = []" "staged_of [Changed i] = []" "used_ids [Changed i] = {i}"
  "calls_of [Stopped i] = []" "staged_of [Stopped i] = []" "used_ids [Stopped i] = {i}"
  "calls_of [Called i n c] = [(i, n)]" "staged_of [Called i n c] = []" "used_ids [Called i n c] = {}"
  by (auto simp: history_defs List.map_filter_simps)

lemma history_staged [simp]:
  "calls_of (map Staged xs) = []" "staged_of (map Staged xs) = map (\<lambda>x. (dt_id x, dt_elapsed x)) xs"
  "used_ids (map Staged xs) = {}"
  by (induction xs) (auto simp: history_defs List.map_filter_simps)

lemma count_staged [simp]: "count_list (map Staged xs) (Changed tid) = 0"
  by (induction xs) auto

lemma unused_id: "tid \<notin> used_ids h \<Longrightarrow> count_list h (Changed tid) = 0 \<and> Stopped tid \<notin> set h \<and> Started tid c \<notin> set h"
  by (auto simp: used_ids_def)

lemma table_idsD:
  assumes "table_inv tbl" "t \<in> set (tt_timers tbl)"
  shows "t_id t \<noteq> 0" "t_id t < tt_next_id tbl"
  using assms by (auto simp: table_inv_def)

lemma sdk_start_inv:
  assumes inv: "world_inv pending w"
  shows "\<exists>r w'. sdk_start period callback w = Some (r, w') \<and> world_inv pending w' \<and> tw_staged w' = tw_staged w"
proof -
  let ?tbl = "tw_table w"
  have tinv: "table_inv ?tbl" using inv by (simp add: world_inv_def)
  from start_inv [OF tinv, of period "tw_now w"] obtain r tbl where
    s: "timer_start period (tw_now w) ?tbl = Some (r, tbl)" and tinv': "table_inv tbl" by blast
  show ?thesis
  proof (cases r)
    case (Inl e)
    then have "tbl = ?tbl" using s by (auto simp: timer_start_def split: if_splits option.splits)
    with Inl s inv show ?thesis by (simp add: sdk_start_def host_timer_start_def timer_id_from_wire_def)
  next
    case (Inr tid)
    define t where "t = last (tt_timers tbl)"
    from Inr have t: "tid = tt_next_id ?tbl" "tid \<noteq> 0" "t_id t = tid" "t_gen t = 0" "tt_timers tbl = tt_timers ?tbl @ [t]"
      "tt_exports tbl = tt_exports ?tbl" "tt_next_id tbl = tid + 1"
      using s by (auto simp: t_def timer_start_def timer_id_alloc_def split: if_splits)
    have fresh: "tid \<notin> used_ids (tw_history w)" using inv t(1) by (auto simp: world_inv_def)
    have neq: "t_id x \<noteq> tid" if "x \<in> set (tt_timers ?tbl)" for x
      using table_idsD [OF tinv that] t(1) by auto
    have lt: "i < tt_next_id tbl" if "i \<in> used_ids (tw_history w) \<union> {tid}" for i
      using that inv table_idsD [OF tinv', of t] t by (auto simp: world_inv_def)
    note unused_id [OF fresh]
    then have "\<forall>x \<in> set (tt_timers tbl). timer_history (record_events [Started tid callback]
        (w\<lparr>tw_table := tbl, tw_callbacks := (tw_callbacks w)(tid \<mapsto> callback)\<rparr>)) x"
      using inv neq t(3,4,5) by (auto simp: timer_history_def record_events_def world_inv_def)
    then have "world_inv pending (record_events [Started tid callback]
        (w\<lparr>tw_table := tbl, tw_callbacks := (tw_callbacks w)(tid \<mapsto> callback)\<rparr>))"
      using inv tinv' t lt fresh unused_id [OF fresh]
      by (auto simp: world_inv_def record_events_def pending_ok_append calls_justified_quiet)
    with s Inr t show ?thesis
      by (simp add: sdk_start_def host_timer_start_def timer_id_from_wire_def record_events_def)
  qed
qed

lemma sdk_set_period_inv:
  assumes inv: "world_inv pending w"
  shows "world_inv pending (snd (sdk_set_period tid period w))" "tw_staged (snd (sdk_set_period tid period w)) = tw_staged w"
proof -
  let ?r = "timer_set_period tid period (tw_now w) (tw_table w)"
  let ?ok = "tid \<in> t_id ` set (tt_timers (tw_table w)) \<and> tt_min_period (tw_table w) \<le> period"
  have tinv: "table_inv (tw_table w)" using inv by (simp add: world_inv_def)
  have th: "\<forall>t \<in> set (tt_timers (tw_table w)). timer_history w t" using inv by (simp add: world_inv_def)
  have nz: "tid \<noteq> 0" if ?ok using that table_idsD [OF tinv] by auto
  have eq: "snd (sdk_set_period tid period w) =
      (if ?ok then record_events [Changed tid] (w\<lparr>tw_table := snd ?r\<rparr>) else w)"
    using nz by (auto simp: sdk_set_period_def host_timer_set_period_def timer_id_from_wire_def set_period_eq [OF tinv])
  have "world_inv pending (record_events [Changed tid] (w\<lparr>tw_table := snd ?r\<rparr>))" if ok: ?ok
  proof -
    have *: "snd ?r = tw_table w\<lparr>tt_timers := map (\<lambda>t. if t_id t = tid then change_period period (tw_now w) t else t)
        (tt_timers (tw_table w))\<rparr>"
      using ok by (auto simp: set_period_eq [OF tinv])
    have "tid < tt_next_id (tw_table w)" using ok table_idsD [OF tinv] by auto
    moreover have "t_id ` (\<lambda>t. if t_id t = tid then change_period period (tw_now w) t else t) ` A = t_id ` A" for A
      unfolding image_image by (rule image_cong) auto
    moreover have "timer_history (record_events [Changed tid] (w\<lparr>tw_table := snd ?r\<rparr>)) x"
      if x: "x \<in> set (tt_timers (snd ?r))" for x
    proof -
      from x obtain t where t: "t \<in> set (tt_timers (tw_table w))"
          "x = (if t_id t = tid then change_period period (tw_now w) t else t)" unfolding * by auto
      show ?thesis
        using bspec [OF th t(1)] unfolding t(2)
        by (cases "t_id t = tid") (simp_all add: timer_history_def record_events_def)
    qed
    moreover have "tt_exports (snd ?r) = tt_exports (tw_table w)" "tt_next_id (snd ?r) = tt_next_id (tw_table w)"
        "t_id ` set (tt_timers (snd ?r)) = t_id ` set (tt_timers (tw_table w))"
      using calculation(2) by (simp_all add: *)
    ultimately show ?thesis
      using inv set_period_inv [OF tinv, of tid period "tw_now w"]
      by (simp add: world_inv_def record_events_def pending_ok_append calls_justified_quiet)
  qed
  then show "world_inv pending (snd (sdk_set_period tid period w))" using eq inv by simp
  show "tw_staged (snd (sdk_set_period tid period w)) = tw_staged w" unfolding eq by (simp add: record_events_def)
qed

lemma sdk_drop_inv:
  assumes inv: "world_inv pending w"
  shows "world_inv pending (sdk_drop tid w)" "tw_staged (sdk_drop tid w) = tw_staged w"
proof -
  have tinv: "table_inv (tw_table w)" and dom: "dom (tw_callbacks w) = t_id ` set (tt_timers (tw_table w))"
    using inv by (simp_all add: world_inv_def)
  show "world_inv pending (sdk_drop tid w)"
  proof (cases "tw_callbacks w tid")
    case None
    then have "tid \<notin> t_id ` set (tt_timers (tw_table w))" using dom by auto
    then have "filter (\<lambda>t. t_id t \<noteq> tid) (tt_timers (tw_table w)) = tt_timers (tw_table w)" by (auto simp: filter_id_conv)
    then have "sdk_drop tid w = w"
      using None by (simp add: sdk_drop_def record_events_def host_timer_stop_def timer_id_from_wire_def timer_stop_def
        fun_upd_idem)
    with inv show ?thesis by simp
  next
    case (Some c)
    then have "tid \<in> t_id ` set (tt_timers (tw_table w))" using dom by blast
    then have "tid \<noteq> 0" "tid < tt_next_id (tw_table w)" using table_idsD [OF tinv] by auto
    moreover have "dom ((tw_callbacks w)(tid := None)) = t_id ` set (filter (\<lambda>t. t_id t \<noteq> tid) (tt_timers (tw_table w)))"
      using dom by auto
    ultimately show ?thesis
      using inv Some stop_inv [OF tinv, of tid]
      by (auto simp: world_inv_def sdk_drop_def record_events_def host_timer_stop_def timer_id_from_wire_def timer_stop_def
        timer_history_def pending_ok_append calls_justified_quiet)
  qed
  show "tw_staged (sdk_drop tid w) = tw_staged w"
    by (simp add: sdk_drop_def record_events_def host_timer_stop_def split: option.splits)
qed

lemma run_act_inv:
  assumes "world_inv pending w"
  shows "\<exists>w'. run_act act w = Some w' \<and> world_inv pending w' \<and> tw_staged w' = tw_staged w"
  using sdk_start_inv [OF assms] sdk_set_period_inv [OF assms] sdk_drop_inv [OF assms]
  by (cases act) (fastforce simp del: world_inv_def)+

interpretation guest: total_machine "\<lambda>w. world_inv pending w \<and> tw_staged w = staged" run_act for pending staged
  by unfold_locales (use run_act_inv in blast)

lemma call_justified:
  assumes inv: "world_inv (tick # pending) w" and cur: "is_current tick (tw_table w)"
    and c: "tw_callbacks w (dt_id tick) = Some c"
  shows "justified (tw_history w) (dt_id tick) (dt_elapsed tick) c"
proof -
  let ?tid = "dt_id tick"
  obtain t where t: "t \<in> set (tt_timers (tw_table w))" "t_id t = ?tid" "t_gen t = dt_gen tick"
    using cur by (auto simp: is_current_def)
  with inv c have h: "Started ?tid c \<in> set (tw_history w)" "Stopped ?tid \<notin> set (tw_history w)"
      "dt_gen tick = of_nat (count_list (tw_history w) (Changed ?tid))"
    by (auto simp: world_inv_def timer_history_def)
  from inv obtain h0 h1 c' where s: "tw_history w = h0 @ Staged tick # h1" "Started ?tid c' \<in> set h0"
      "dt_gen tick = of_nat (count_list h0 (Changed ?tid))"
    by (auto simp: world_inv_def pending_ok_def)
  have "c' = c" using inv h(1) s(1,2) unfolding world_inv_def by (metis Un_iff set_append)
  moreover have "(of_nat (count_list h1 (Changed ?tid)) :: u32) = 0" using h(3) s(1,3) by simp
  then have "2 ^ 32 dvd count_list h1 (Changed ?tid)" by (simp add: word_of_nat_eq_0_iff)
  ultimately show ?thesis using h(2) s unfolding justified_def by blast
qed

lemma dispatch_inv:
  assumes inv: "world_inv (tick # pending) w" and cur: "is_current tick (tw_table w)"
  shows "\<exists>trap w'. widget_on_timer guest (dt_id tick) (dt_elapsed tick) w = Some (trap, w') \<and> world_inv pending w' \<and>
    tw_staged w' = tw_staged w"
proof -
  let ?tid = "dt_id tick"
  have tinv: "table_inv (tw_table w)" using inv by (simp add: world_inv_def)
  have id: "?tid \<in> t_id ` set (tt_timers (tw_table w))" using cur unfolding is_current_def by (metis imageI)
  then obtain c where c: "tw_callbacks w ?tid = Some c" using inv unfolding world_inv_def by blast
  define w1 where "w1 = record_events [Called ?tid (dt_elapsed tick) c] w"
  have "world_inv pending w1 \<and> tw_staged w1 = tw_staged w"
    using inv call_justified [OF inv cur c]
    by (auto simp: world_inv_def w1_def record_events_def timer_history_def pending_ok_append calls_justified_snoc)
  from guest.run_total [OF this] obtain w2 where
    "machine_run run_act (fst (guest (tw_history w1))) w1 = Some w2" "world_inv pending w2 \<and> tw_staged w2 = tw_staged w"
    by blast
  moreover have "?tid \<noteq> 0" using id table_idsD [OF tinv] by auto
  ultimately show ?thesis
    using c by (auto simp: widget_on_timer_def timer_id_from_wire_def dispatch_def Let_def w1_def [symmetric] split: prod.splits)
qed

lemma subseq_skip: "subseq (xs @ ys) (xs @ y # ys)"
  by (induction xs) auto

lemma world_inv_drop: "world_inv (tick # pending) w \<Longrightarrow> world_inv pending w"
  unfolding world_inv_def by (auto intro: subseq_order.trans [OF subseq_skip])

lemma world_inv_nil: "world_inv pending w \<Longrightarrow> world_inv [] w"
  by (induction pending) (auto dest: world_inv_drop)

lemma deliver_ticks_inv:
  "world_inv ticks w \<Longrightarrow> \<exists>trap w' rest. deliver_ticks fuel guest ticks w = Some (trap, w') \<and> world_inv rest w' \<and>
     tw_staged w' = tw_staged w"
proof (induction ticks arbitrary: w)
  case (Cons tick ticks)
  show ?case
  proof (cases "is_current tick (tw_table w) \<and> fuel")
    case True
    from dispatch_inv [OF Cons.prems] True obtain trap w1 where
      "widget_on_timer guest (dt_id tick) (dt_elapsed tick) w = Some (trap, w1)" "world_inv ticks w1" "tw_staged w1 = tw_staged w"
      by blast
    with True Cons.IH [of w1] show ?thesis by (cases trap) auto
  next
    case False
    with Cons.IH [OF world_inv_drop [OF Cons.prems]] show ?thesis by auto
  qed
qed auto

lemma stage_inv:
  assumes inv: "world_inv (tw_staged w) w"
  shows "\<exists>w'. stage_timer_ticks w = Some w' \<and> world_inv (tw_staged w') w'"
proof -
  let ?ts = "tt_timers (tw_table w)" and ?h = "tw_history w"
  let ?ticks = "List.map_filter (snd \<circ> pass (tw_now w)) ?ts"
  have tinv: "table_inv (tw_table w)" and th: "\<forall>t \<in> set ?ts. timer_history w t" using inv by (simp_all add: world_inv_def)
  have ok: "timer_ok (tt_min_period (tw_table w)) t" "tt_min_period (tw_table w) \<noteq> 0" if "t \<in> set ?ts" for t
    using tinv that by (simp_all add: table_inv_def)
  define tbl where "tbl = tw_table w\<lparr>tt_timers := map (fst \<circ> pass (tw_now w)) ?ts\<rparr>"
  define w' where "w' = record_events (map Staged ?ticks) (w\<lparr>tw_table := tbl, tw_staged := tw_staged w @ ?ticks\<rparr>)"
  have eq: "take_due (tw_now w) (tw_table w) = Some (?ticks, tbl)" using take_due_eq [OF tinv] by (simp add: tbl_def)
  have "pending_ok (tw_history w') x" if x: "x \<in> set ?ticks" for x
  proof -
    obtain t where t: "t \<in> set ?ts" "snd (pass (tw_now w) t) = Some x" using x by (auto simp: List.map_filter_def)
    obtain xs ys where s: "?ticks = xs @ x # ys" using x by (auto simp: in_set_conv_decomp)
    have "timer_history w t" "dt_id x = t_id t" "dt_gen x = t_gen t"
      using th t pass_ok(7) [OF ok [OF t(1)] t(2)] by auto
    then obtain callback where "Started (dt_id x) callback \<in> set (?h @ map Staged xs)"
        "Stopped (dt_id x) \<notin> set (?h @ map Staged xs)"
        "dt_gen x = of_nat (count_list (?h @ map Staged xs) (Changed (dt_id x)))"
      by (auto simp: timer_history_def)
    moreover have "tw_history w' = (?h @ map Staged xs) @ Staged x # map Staged ys"
      by (simp add: w'_def record_events_def s)
    ultimately show ?thesis unfolding pending_ok_def by blast
  qed
  moreover have "timer_history w' (fst (pass (tw_now w) t))" if "t \<in> set ?ts" for t
    using bspec [OF th that] pass_ok(2,3) [OF ok [OF that], of "tw_now w"]
    by (auto simp: timer_history_def w'_def record_events_def)
  moreover have "t_id ` (fst \<circ> pass (tw_now w)) ` set ?ts = t_id ` set ?ts"
    unfolding image_image by (rule image_cong) (simp_all add: pass_ok(2) [OF ok])
  moreover have "?ticks \<noteq> [] \<Longrightarrow> tt_exports (tw_table w)"
    using tinv by (cases "?ts = []") (auto simp: table_inv_def List.map_filter_simps)
  moreover have "table_inv tbl" using take_due_inv [OF tinv, of "tw_now w"] eq by auto
  moreover have "calls_justified (tw_history w')"
    using inv by (auto simp: w'_def record_events_def world_inv_def intro: calls_justified_quiet)
  moreover have "Started tid c \<in> set (tw_history w') \<longleftrightarrow> Started tid c \<in> set ?h"
      "Stopped tid \<in> set (tw_history w') \<longleftrightarrow> Stopped tid \<in> set ?h" for tid c
    by (auto simp: w'_def record_events_def)
  moreover have "tw_staged w' = tw_staged w @ ?ticks" "tw_on_timer w' = tw_on_timer w" "tw_callbacks w' = tw_callbacks w"
      "tt_timers (tw_table w') = map (fst \<circ> pass (tw_now w)) ?ts" "tt_exports (tw_table w') = tt_exports (tw_table w)"
      "tt_next_id (tw_table w') = tt_next_id (tw_table w)" "tw_table w' = tbl"
      "used_ids (tw_history w') = used_ids ?h" "calls_of (tw_history w') = calls_of ?h"
      "staged_of (tw_history w') = staged_of ?h @ map (\<lambda>x. (dt_id x, dt_elapsed x)) ?ticks"
      "pending_ok ?h x \<Longrightarrow> pending_ok (tw_history w') x" for x
    by (simp_all add: w'_def record_events_def tbl_def pending_ok_append)
  ultimately have "world_inv (tw_staged w') w'"
    using inv unfolding world_inv_def by (auto simp: list_emb_append_mono simp flip: append_assoc)
  then show ?thesis using eq by (simp add: stage_timer_ticks_def w'_def)
qed

lemma deliver_staged_inv:
  assumes inv: "world_inv (tw_staged w) w"
  shows "\<exists>trap w'. deliver_staged_timer_ticks fuel guest w = Some (trap, w') \<and> world_inv (tw_staged w') w'"
proof -
  have "world_inv (tw_staged w) (w\<lparr>tw_staged := []\<rparr>)" using inv by (auto simp: world_inv_def timer_history_def)
  from deliver_ticks_inv [OF this] obtain trap w' rest where
    d: "deliver_ticks fuel guest (tw_staged w) (w\<lparr>tw_staged := []\<rparr>) = Some (trap, w')" "world_inv rest w'" "tw_staged w' = []"
    by fastforce
  then have "world_inv [] w'" using world_inv_nil by blast
  with d inv show ?thesis
    by (cases "tw_staged w = []") (auto simp: deliver_staged_timer_ticks_def Let_def world_inv_def timer_history_def)
qed

lemma world_exec_inv:
  assumes inv: "world_inv (tw_staged w) w"
  shows "\<exists>w'. world_exec fuel op w = Some w' \<and> world_inv (tw_staged w') w'"
proof (cases op)
  case (SetTime now)
  have "table_inv (tw_table w)" using inv by (simp add: world_inv_def)
  from observe_clock_inv [OF this] have "world_inv (tw_staged w) (set_time now w)"
    using inv by (auto simp: world_inv_def set_time_def observe_clock_def timer_history_def image_image)
  with SetTime show ?thesis by (simp add: set_time_def)
next
  case Stage
  then show ?thesis using stage_inv [OF inv] by simp
next
  case (Deliver guest)
  then show ?thesis using deliver_staged_inv [OF inv, of fuel guest] by auto
next
  case (Guest act)
  then show ?thesis using run_act_inv [OF inv] by (metis world_exec.simps(4))
qed

interpretation world: total_machine "\<lambda>w. world_inv (tw_staged w) w" "world_exec fuel" for fuel
  by unfold_locales (rule world_exec_inv)

lemma world_inv_new: "min_period \<noteq> 0 \<Longrightarrow> world_inv [] (timer_world_new max_timers min_period exports)"
  using table_inv_new [of min_period exports max_timers]
  by (simp add: world_inv_def timer_world_new_def set_exports_on_timer_def timer_table_new_def calls_justified_def)

lemma world_run_inv:
  assumes "min_period \<noteq> 0"
  shows "\<exists>w. machine_run (world_exec fuel) ops (timer_world_new max_timers min_period exports) = Some w \<and>
    world_inv (tw_staged w) w"
proof -
  have "world_inv (tw_staged (timer_world_new max_timers min_period exports))
      (timer_world_new max_timers min_period exports)"
    using world_inv_new [OF assms] by (simp add: timer_world_new_def)
  from world.run_total [OF this] show ?thesis .
qed

text \<open>C18. Whatever a widget does with its timers, in whatever order clock readings, staging, delivery and
  its own calls come, the runtime does not panic, and every call of a callback answers a tick that
  fell due, in the order they fell due, and no tick is answered twice. The callback is the
  one that timer was started with, and between the tick falling due and the call the timer was
  neither stopped nor given another period, unless the period was changed a multiple of
  4294967296 times. Exactly the running timers have a callback registered.\<close>

theorem timer_delivery_sound:
  assumes "min_period \<noteq> 0"
  shows "\<exists>w. machine_run (world_exec fuel) ops (timer_world_new max_timers min_period exports) = Some w \<and>
    (\<forall>h0 tid elapsed callback h1. tw_history w = h0 @ Called tid elapsed callback # h1 \<longrightarrow>
       justified h0 tid elapsed callback) \<and>
    subseq (calls_of (tw_history w)) (staged_of (tw_history w)) \<and>
    dom (tw_callbacks w) = t_id ` set (tt_timers (tw_table w))"
proof -
  from world_run_inv [OF assms] obtain w where w:
    "machine_run (world_exec fuel) ops (timer_world_new max_timers min_period exports) = Some w"
    "world_inv (tw_staged w) w" by blast
  have "subseq (calls_of (tw_history w)) (calls_of (tw_history w) @ map (\<lambda>x. (dt_id x, dt_elapsed x)) (tw_staged w))"
    by (simp add: prefix_imp_subseq)
  with w show ?thesis unfolding world_inv_def calls_justified_def by (meson subseq_order.trans)
qed

section \<open>Every tick is answered\<close>

definition answered :: "'c timer_event list \<Rightarrow> due_tick \<Rightarrow> bool" where
  "answered h tick \<longleftrightarrow>
     (\<exists>h0 h1. h = h0 @ Staged tick # h1 \<and>
        ((\<exists>c. Called (dt_id tick) (dt_elapsed tick) c \<in> set h1) \<or>
         Stopped (dt_id tick) \<in> set h1 \<or> Changed (dt_id tick) \<in> set h1))"

lemma answered_append: "answered h tick \<Longrightarrow> answered (h @ es) tick"
  unfolding answered_def by fastforce

lemma run_act_history: "run_act act w = Some w' \<Longrightarrow> \<exists>es. tw_history w' = tw_history w @ es"
proof (cases act)
  case (SetPeriod tid period)
  moreover assume "run_act act w = Some w'"
  ultimately show ?thesis
    by (auto simp: sdk_set_period_def host_timer_set_period_def record_events_def split: option.splits prod.splits sum.splits if_splits)
qed (auto simp: sdk_start_def host_timer_start_def sdk_drop_def host_timer_stop_def record_events_def
    split: option.splits sum.splits)

lemma acts_history: "machine_run run_act acts w = Some w' \<Longrightarrow> \<exists>es. tw_history w' = tw_history w @ es"
proof (induction acts arbitrary: w)
  case (Cons act acts)
  then obtain w1 where "run_act act w = Some w1" "machine_run run_act acts w1 = Some w'"
    by (cases "run_act act w") auto
  with Cons.IH run_act_history show ?case by fastforce
qed simp

text \<open>A tick that is not current belongs to a timer that was stopped or changed since.\<close>

lemma not_current_answered:
  assumes inv: "world_inv (tick # pending) w" and n: "\<not> is_current tick (tw_table w)"
  shows "answered (tw_history w) tick"
proof (rule ccontr)
  let ?tid = "dt_id tick"
  assume a: "\<not> answered (tw_history w) tick"
  from inv obtain h0 h1 c where h: "tw_history w = h0 @ Staged tick # h1" "Started ?tid c \<in> set h0"
      "Stopped ?tid \<notin> set h0" "dt_gen tick = of_nat (count_list h0 (Changed ?tid))"
    by (auto simp: world_inv_def pending_ok_def)
  with a have "Stopped ?tid \<notin> set h1" "Changed ?tid \<notin> set h1" unfolding answered_def by blast+
  with h have "Started ?tid c \<in> set (tw_history w)" "Stopped ?tid \<notin> set (tw_history w)"
      and g: "count_list (tw_history w) (Changed ?tid) = count_list h0 (Changed ?tid)"
    by (auto simp: count_list_0_iff)
  then have "?tid \<in> t_id ` set (tt_timers (tw_table w))" using inv unfolding world_inv_def by blast
  then obtain t where t: "t \<in> set (tt_timers (tw_table w))" "t_id t = ?tid" by auto
  moreover have "t_gen t = dt_gen tick" using inv t g h(4) by (auto simp: world_inv_def timer_history_def)
  ultimately show False using n unfolding is_current_def by blast
qed

lemma call_answered:
  assumes inv: "world_inv (tick # pending) w" and cur: "is_current tick (tw_table w)"
    and o: "widget_on_timer guest (dt_id tick) (dt_elapsed tick) w = Some (trap, w')"
  shows "answered (tw_history w') tick \<and> (\<exists>es. tw_history w' = tw_history w @ es) \<and> (\<exists>h. trap = snd (guest h))"
proof -
  let ?tid = "dt_id tick"
  have tinv: "table_inv (tw_table w)" using inv by (simp add: world_inv_def)
  have id: "?tid \<in> t_id ` set (tt_timers (tw_table w))" using cur unfolding is_current_def by (metis imageI)
  then obtain c where c: "tw_callbacks w ?tid = Some c" using inv unfolding world_inv_def by blast
  define w1 where "w1 = record_events [Called ?tid (dt_elapsed tick) c] w"
  have "?tid \<noteq> 0" using id table_idsD [OF tinv] by auto
  with o c have m: "machine_run run_act (fst (guest (tw_history w1))) w1 = Some w'" "trap = snd (guest (tw_history w1))"
    by (auto simp: widget_on_timer_def timer_id_from_wire_def dispatch_def Let_def w1_def [symmetric] split: prod.splits)
  from acts_history [OF m(1)] obtain es where es: "tw_history w' = tw_history w @ [Called ?tid (dt_elapsed tick) c] @ es"
    by (auto simp: w1_def record_events_def)
  from inv obtain h0 h1 where "tw_history w = h0 @ Staged tick # h1" by (auto simp: world_inv_def pending_ok_def)
  with es have "answered (tw_history w') tick" unfolding answered_def by fastforce
  with es m(2) show ?thesis by auto
qed

lemma deliver_answers:
  assumes "\<And>h. \<not> snd (guest h)"
  shows "world_inv ticks w \<Longrightarrow> deliver_ticks True guest ticks w = Some (trap, w') \<Longrightarrow>
    \<not> trap \<and> (\<exists>es. tw_history w' = tw_history w @ es) \<and> (\<forall>tick \<in> set ticks. answered (tw_history w') tick)"
proof (induction ticks arbitrary: w)
  case (Cons tick ticks)
  show ?case
  proof (cases "is_current tick (tw_table w)")
    case True
    from dispatch_inv [OF Cons.prems(1) True] obtain t w1 where
      o: "widget_on_timer guest (dt_id tick) (dt_elapsed tick) w = Some (t, w1)" "world_inv ticks w1" by blast
    note a = call_answered [OF Cons.prems(1) True o(1)]
    with assms have "\<not> t" by auto
    then have "deliver_ticks True guest ticks w1 = Some (trap, w')" using Cons.prems(2) True o(1) by simp
    from Cons.IH [OF o(2) this] a answered_append show ?thesis by fastforce
  next
    case False
    then have "deliver_ticks True guest ticks w = Some (trap, w')" using Cons.prems(2) by simp
    from Cons.IH [OF world_inv_drop [OF Cons.prems(1)] this] not_current_answered [OF Cons.prems(1) False] answered_append
    show ?thesis by fastforce
  qed
qed simp

text \<open>C19. No tick gets lost: a delivery in which the widget does not trap deals with every tick that is
  staged. After it, each of them was answered by a call with the number of periods it covers, or its
  timer was stopped or given another period since the tick fell due.\<close>

theorem timer_ticks_delivered:
  assumes "min_period \<noteq> 0"
    and "machine_run (world_exec fuel) ops (timer_world_new max_timers min_period exports) = Some w"
    and "\<And>h. \<not> snd (guest h)"
    and "tick \<in> set (tw_staged w)"
  shows "\<exists>w'. deliver_staged_timer_ticks True guest w = Some (False, w') \<and> answered (tw_history w') tick"
proof -
  from world_run_inv [OF assms(1), of fuel ops max_timers exports] assms(2) have inv: "world_inv (tw_staged w) w" by auto
  then have inv': "world_inv (tw_staged w) (w\<lparr>tw_staged := []\<rparr>)" by (auto simp: world_inv_def timer_history_def)
  from deliver_ticks_inv [OF this, of True guest] obtain trap w' where
    d: "deliver_ticks True guest (tw_staged w) (w\<lparr>tw_staged := []\<rparr>) = Some (trap, w')" by blast
  with deliver_answers [OF assms(3) inv' d] assms(4) inv show ?thesis
    by (auto simp: deliver_staged_timer_ticks_def Let_def world_inv_def)
qed

section \<open>A widget with a timer\<close>

definition polite :: "nat guest" where
  "polite h = ([], False)"

abbreviation widget_run :: "nat world_op list" where
  "widget_run \<equiv> [SetTime 5, Guest (StartTimer 1000 7), SetTime 2500, Stage]"

lemma widget_staged:
  "\<exists>w tick. machine_run (world_exec True) widget_run (timer_world_new 4 1000 True) = Some w \<and>
     tick \<in> set (tw_staged w) \<and> dt_id tick = 1 \<and> dt_elapsed tick = 2"
  by (simp add: timer_world_new_def set_exports_on_timer_def timer_table_new_def set_time_def observe_clock_def
    sdk_start_def host_timer_start_def timer_start_def timer_id_alloc_def timer_id_from_wire_def record_events_def
    stage_timer_ticks_def take_due_def take_timer_def due_at_def saturating_add_def Let_def)

theorem timer_delivery_sound_witness:
  "\<exists>w. machine_run (world_exec True) (widget_run @ [Deliver polite]) (timer_world_new 4 1000 True) = Some w \<and>
     subseq (calls_of (tw_history w)) (staged_of (tw_history w))"
  using timer_delivery_sound [of 1000 True "widget_run @ [Deliver polite]" 4 True] by auto

theorem timer_ticks_delivered_witness:
  "\<exists>w w' tick. machine_run (world_exec True) widget_run (timer_world_new 4 1000 True) = Some w \<and>
     dt_id tick = 1 \<and> dt_elapsed tick = 2 \<and>
     deliver_staged_timer_ticks True polite w = Some (False, w') \<and> answered (tw_history w') tick"
proof -
  from widget_staged obtain w tick where
    w: "machine_run (world_exec True) widget_run (timer_world_new 4 1000 True) = Some w"
      "tick \<in> set (tw_staged w)" "dt_id tick = 1" "dt_elapsed tick = 2" by blast
  from timer_ticks_delivered [OF _ w(1) _ w(2), of polite] w show ?thesis by (auto simp: polite_def)
qed

end
