(* ===== verification/Supervisor.thy ===== *)
theory Supervisor
  imports Machines
begin

text \<open>
  The supervisor of the widget processes (\<^verbatim>\<open>bmc/src/widget/manager.rs\<close>) with its restart policy
  (\<^verbatim>\<open>bmc-shared/utils/src/process_supervisor.rs\<close>): an actor that owns the state of every widget, one
  task per child process that reports its end, and one sleeping task per crashed widget. The tasks,
  the queue of internal messages and the channels that report terminations are part of the state,
  and an inductive relation interleaves them. The registry, the outcome of starting a process and
  the order in which a hash map is iterated are parameters. A failed expectation is \<open>None\<close>.
\<close>

section \<open>Restart policy\<close>

record restart_policy =
  po_initial :: duration
  po_max :: duration
  po_healthy_uptime :: duration

definition next_backoff :: "restart_policy \<Rightarrow> duration \<Rightarrow> duration" where
  "next_backoff p delay = min (delay * 2) (po_max p)"

definition restart_delay :: "restart_policy \<Rightarrow> duration \<Rightarrow> duration \<Rightarrow> duration" where
  "restart_delay p uptime backoff = (if po_healthy_uptime p \<le> uptime then po_initial p else backoff)"

definition restart_policy_default :: restart_policy where
  "restart_policy_default =
     \<lparr>po_initial = from_secs 1, po_max = from_secs 300, po_healthy_uptime = from_secs 60\<rparr>"

section \<open>Data\<close>

datatype manager_mode = MRunning | MPaused | MShuttingDown

record widget_launch =
  la_scene :: string
  la_instance :: instance_id
  la_uid :: string
  la_display :: string

record 'i running_widget =
  rw_pid :: u32
  rw_identity :: 'i
  rw_chan :: nat
  rw_launch :: widget_launch
  rw_spawned_at :: instant
  rw_backoff :: duration

record 'i stopping_widget =
  sw_launch :: widget_launch
  sw_identity :: 'i
  sw_chan :: nat

record 'i pending_restart =
  pr_launch :: widget_launch
  pr_identity :: 'i
  pr_backoff :: duration
  pr_token :: nat

datatype 'i widget_state =
    Running "'i running_widget"
  | Stopping "'i stopping_widget"
  | PendingRestart "'i pending_restart"

datatype internal = Exit instance_id u32 | RestartDue instance_id nat

text \<open>The task that owns a child: whether its stop was requested, and the channel of its termination.\<close>

record child_task =
  ct_id :: instance_id
  ct_pid :: u32
  ct_stop :: bool
  ct_chan :: nat

text \<open>A task that sleeps out a respawn delay.\<close>

record restart_timer =
  rt_id :: instance_id
  rt_token :: nat
  rt_due :: instant

datatype 'e start_error =
    Occupied instance_id
  | Mode manager_mode
  | RegistryChanged
  | Superseded
  | SpawnPending 'e

datatype 'e spawn_outcome = Spawned u32 | SpawnFailed 'e

record 'i supervisor =
  sv_children :: "instance_id \<rightharpoonup> 'i widget_state"
  sv_prepared :: "instance_id \<rightharpoonup> nat"
  sv_mode :: manager_mode
  sv_next_start :: nat
  sv_next_restart :: nat
  sv_policy :: restart_policy
  sv_now :: instant
  sv_tasks :: "child_task list"
  sv_timers :: "restart_timer list"
  sv_queue :: "internal list"
  sv_next_chan :: nat
  sv_done :: "nat set"
  sv_closed :: "nat set"

definition supervisor_new :: "restart_policy \<Rightarrow> 'i supervisor" where
  "supervisor_new p =
     \<lparr>sv_children = (\<lambda>_. None), sv_prepared = (\<lambda>_. None), sv_mode = MRunning, sv_next_start = 0,
      sv_next_restart = 0, sv_policy = p, sv_now = 0, sv_tasks = [], sv_timers = [], sv_queue = [],
      sv_next_chan = 0, sv_done = {}, sv_closed = {}\<rparr>"

section \<open>Entries\<close>

text \<open>Dropping a state aborts a sleeping timer; it closes the channels to a child, whose task then
  kills it without a report.\<close>

fun drop_state :: "'i widget_state \<Rightarrow> 'i supervisor \<Rightarrow> 'i supervisor" where
  "drop_state (PendingRestart p) w = w\<lparr>sv_timers := filter (\<lambda>t. rt_token t \<noteq> pr_token p) (sv_timers w)\<rparr>"
| "drop_state (Running r) w = w\<lparr>sv_tasks := filter (\<lambda>t. ct_chan t \<noteq> rw_chan r) (sv_tasks w),
     sv_closed := insert (rw_chan r) (sv_closed w)\<rparr>"
| "drop_state (Stopping s) w = w\<lparr>sv_closed := insert (sw_chan s) (sv_closed w)\<rparr>"

definition take_child :: "instance_id \<Rightarrow> 'i supervisor \<Rightarrow> 'i supervisor" where
  "take_child i w = w\<lparr>sv_children := (sv_children w)(i := None)\<rparr>"

definition insert_child :: "instance_id \<Rightarrow> 'i widget_state \<Rightarrow> 'i supervisor \<Rightarrow> 'i supervisor" where
  "insert_child i st w =
     (let w' = (case sv_children w i of None \<Rightarrow> w | Some old \<Rightarrow> drop_state old w)
      in w'\<lparr>sv_children := (sv_children w')(i \<mapsto> st)\<rparr>)"

section \<open>Restarts\<close>

definition schedule_restart ::
  "widget_launch \<Rightarrow> 'i \<Rightarrow> duration \<Rightarrow> duration \<Rightarrow> 'i supervisor \<Rightarrow> 'i supervisor option" where
  "schedule_restart launch identity delay next_delay w =
     (if sv_mode w \<noteq> MRunning then Some w
      else if 2 ^ 64 \<le> sv_next_restart w + 1 then None
      else
        let i = la_instance launch; token = sv_next_restart w;
            w1 = w\<lparr>sv_next_restart := token + 1,
              sv_timers := sv_timers w @ [\<lparr>rt_id = i, rt_token = token, rt_due = sv_now w + delay\<rparr>]\<rparr>
        in Some (insert_child i (PendingRestart
             \<lparr>pr_launch = launch, pr_identity = identity, pr_backoff = next_delay, pr_token = token\<rparr>) w1))"

definition spawn_selected_process ::
  "'e spawn_outcome \<Rightarrow> widget_launch \<Rightarrow> duration \<Rightarrow> 'i \<Rightarrow> 'i supervisor \<Rightarrow> ('e + unit) \<times> 'i supervisor" where
  "spawn_selected_process outcome launch backoff identity w =
     (case outcome of
        SpawnFailed e \<Rightarrow> (Inl e, w)
      | Spawned pid \<Rightarrow>
          let i = la_instance launch; chan = sv_next_chan w;
              w1 = insert_child i (Running \<lparr>rw_pid = pid, rw_identity = identity, rw_chan = chan,
                 rw_launch = launch, rw_spawned_at = sv_now w, rw_backoff = backoff\<rparr>)
                 (w\<lparr>sv_next_chan := chan + 1\<rparr>)
          in (Inr (), w1\<lparr>sv_tasks := sv_tasks w1 @ [\<lparr>ct_id = i, ct_pid = pid, ct_stop = False, ct_chan = chan\<rparr>]\<rparr>))"

section \<open>Commands\<close>

definition prepare_start ::
  "instance_id \<Rightarrow> manager_mode \<Rightarrow> 'i supervisor \<Rightarrow> (('e start_error + nat) \<times> 'i supervisor) option" where
  "prepare_start i expected w =
     (if sv_mode w \<noteq> expected then Some (Inl (Mode (sv_mode w)), w)
      else let token = sv_next_start w in
        if 2 ^ 64 \<le> token + 1 then None
        else Some (Inr token, w\<lparr>sv_next_start := token + 1, sv_prepared := (sv_prepared w)(i \<mapsto> token)\<rparr>))"

definition start_expected ::
  "(string \<rightharpoonup> 'i) \<Rightarrow> 'e spawn_outcome \<Rightarrow> widget_launch \<Rightarrow> 'i \<Rightarrow> nat \<Rightarrow> 'i supervisor \<Rightarrow>
     (('e start_error + unit) \<times> 'i supervisor) option" where
  "start_expected registry outcome launch expected permit w =
     (let i = la_instance launch in
      if sv_prepared w i \<noteq> Some permit then Some (Inl Superseded, w)
      else
        let w1 = w\<lparr>sv_prepared := (sv_prepared w)(i := None)\<rparr> in
        if sv_mode w1 \<noteq> MRunning then Some (Inl (Mode (sv_mode w1)), w1)
        else case registry (la_uid launch) of
          None \<Rightarrow> Some (Inl RegistryChanged, w1)
        | Some identity \<Rightarrow>
            if identity \<noteq> expected then Some (Inl RegistryChanged, w1)
            else
              let start = (\<lambda>backoff w2.
                case spawn_selected_process outcome launch backoff identity w2 of
                  (Inr _, w3) \<Rightarrow> Some (Inr (), w3)
                | (Inl e, w3) \<Rightarrow>
                    map_option (\<lambda>w4. (Inl (SpawnPending e), w4))
                      (schedule_restart launch identity backoff (next_backoff (sv_policy w3) backoff) w3))
              in (case sv_children w1 i of
                  Some (Running _) \<Rightarrow> Some (Inl (Occupied i), w1)
                | Some (Stopping _) \<Rightarrow> Some (Inl (Occupied i), w1)
                | Some (PendingRestart p) \<Rightarrow>
                    map_option (\<lambda>(r, w2). (r, drop_state (PendingRestart p) w2)) (start (pr_backoff p) (take_child i w1))
                | None \<Rightarrow> start (po_initial (sv_policy w1)) w1))"

text \<open>A requested stop is sent to the task of the child, if it has not ended yet.\<close>

definition begin_stop :: "instance_id \<Rightarrow> 'i running_widget \<Rightarrow> 'i supervisor \<Rightarrow> nat \<times> 'i supervisor" where
  "begin_stop i r w =
     (let w1 = w\<lparr>sv_tasks := map (\<lambda>t. if ct_chan t = rw_chan r then t\<lparr>ct_stop := True\<rparr> else t) (sv_tasks w)\<rparr>
      in (rw_chan r, insert_child i (Stopping
           \<lparr>sw_launch = rw_launch r, sw_identity = rw_identity r, sw_chan = rw_chan r\<rparr>) w1))"

text \<open>The reply is the channel that reports the termination, or none when nothing is left to end.\<close>

definition stop_child :: "instance_id \<Rightarrow> 'i supervisor \<Rightarrow> nat option \<times> 'i supervisor" where
  "stop_child i w =
     (case sv_children w i of
        Some (Running r) \<Rightarrow> map_prod Some id (begin_stop i r (take_child i w))
      | Some (Stopping s) \<Rightarrow> (Some (sw_chan s), w)
      | Some (PendingRestart p) \<Rightarrow> (None, drop_state (PendingRestart p) (take_child i w))
      | None \<Rightarrow> (None, w))"

text \<open>The loop over the drained children.\<close>

fun stop_drained :: "(instance_id \<times> 'i widget_state) list \<Rightarrow> 'i supervisor \<Rightarrow> nat list \<times> 'i supervisor" where
  "stop_drained [] w = ([], w)"
| "stop_drained ((i, Running r) # cs) w =
     (let (chan, w1) = begin_stop i r w in map_prod (Cons chan) id (stop_drained cs w1))"
| "stop_drained ((i, Stopping s) # cs) w =
     map_prod (Cons (sw_chan s)) id (stop_drained cs (insert_child i (Stopping s) w))"
| "stop_drained ((i, PendingRestart p) # cs) w = stop_drained cs (drop_state (PendingRestart p) w)"

type_synonym 'i iteration = "(instance_id \<rightharpoonup> 'i widget_state) \<Rightarrow> instance_id list"

definition transition_and_stop ::
  "'i iteration \<Rightarrow> manager_mode \<Rightarrow> 'i supervisor \<Rightarrow> (instance_id list \<times> nat list) \<times> 'i supervisor" where
  "transition_and_stop iter requested w =
     (let mode = (if sv_mode w = MShuttingDown then MShuttingDown else requested);
          ids = iter (sv_children w);
          drained = map (\<lambda>i. (i, the (sv_children w i))) ids;
          (chans, w1) = stop_drained drained (w\<lparr>sv_mode := mode, sv_children := (\<lambda>_. None)\<rparr>)
      in ((ids, chans), w1))"

definition resume :: "'i supervisor \<Rightarrow> manager_mode \<times> 'i supervisor" where
  "resume w =
     (if sv_mode w = MShuttingDown then (MShuttingDown, w)
      else (MRunning, w\<lparr>sv_mode := MRunning\<rparr>))"

definition retry_pending :: "instance_id \<Rightarrow> 'i supervisor \<Rightarrow> (bool \<times> 'i supervisor) option" where
  "retry_pending i w =
     (case sv_children w i of
        Some (PendingRestart p) \<Rightarrow>
          map_option (Pair True)
            (schedule_restart (pr_launch p) (pr_identity p) (po_initial (sv_policy w)) (pr_backoff p) w)
      | _ \<Rightarrow> Some (False, w))"

fun retry_all :: "instance_id list \<Rightarrow> 'i supervisor \<Rightarrow> 'i supervisor option" where
  "retry_all [] w = Some w"
| "retry_all (i # is) w = (case retry_pending i w of None \<Rightarrow> None | Some (_, w1) \<Rightarrow> retry_all is w1)"

definition is_pending :: "'i widget_state option \<Rightarrow> bool" where
  "is_pending st = (case st of Some (PendingRestart _) \<Rightarrow> True | _ \<Rightarrow> False)"

definition reset_restart_backoff :: "'i iteration \<Rightarrow> 'i supervisor \<Rightarrow> 'i supervisor option" where
  "reset_restart_backoff iter w =
     (if sv_mode w \<noteq> MRunning then Some w
      else retry_all (filter (\<lambda>i. is_pending (sv_children w i)) (iter (sv_children w))) w)"

section \<open>Internal messages\<close>

definition take_pending_restart ::
  "instance_id \<Rightarrow> nat \<Rightarrow> 'i supervisor \<Rightarrow> ('i pending_restart \<times> 'i supervisor) option" where
  "take_pending_restart i token w =
     (case sv_children w i of
        Some (PendingRestart p) \<Rightarrow> if pr_token p = token then Some (p, take_child i w) else None
      | _ \<Rightarrow> None)"

definition handle_exit :: "instance_id \<Rightarrow> u32 \<Rightarrow> 'i supervisor \<Rightarrow> 'i supervisor option" where
  "handle_exit i pid w =
     (case sv_children w i of
        None \<Rightarrow> Some w
      | Some (PendingRestart _) \<Rightarrow> Some w
      | Some (Stopping s) \<Rightarrow> Some ((take_child i w)\<lparr>sv_done := insert (sw_chan s) (sv_done w)\<rparr>)
      | Some (Running r) \<Rightarrow>
          if rw_pid r \<noteq> pid then None
          else
            let w1 = drop_state (Running r) (take_child i w) in
            if sv_mode w \<noteq> MRunning then Some w1
            else
              let delay = restart_delay (sv_policy w) (sv_now w - rw_spawned_at r) (rw_backoff r)
              in schedule_restart (rw_launch r) (rw_identity r) delay (next_backoff (sv_policy w) delay) w1)"

definition handle_restart_due ::
  "(string \<rightharpoonup> 'i) \<Rightarrow> 'e spawn_outcome \<Rightarrow> instance_id \<Rightarrow> nat \<Rightarrow> 'i supervisor \<Rightarrow> 'i supervisor option" where
  "handle_restart_due registry outcome i token w =
     (case take_pending_restart i token w of
        None \<Rightarrow> Some w
      | Some (p, w1) \<Rightarrow>
          map_option (drop_state (PendingRestart p))
           (if sv_mode w \<noteq> MRunning then Some w1
            else case registry (la_uid (pr_launch p)) of
              None \<Rightarrow> Some w1
            | Some identity \<Rightarrow>
                if identity \<noteq> pr_identity p
                then schedule_restart (pr_launch p) (pr_identity p) (pr_backoff p) (pr_backoff p) w1
                else (case spawn_selected_process outcome (pr_launch p) (pr_backoff p) identity w1 of
                    (Inr _, w2) \<Rightarrow> Some w2
                  | (Inl e, w2) \<Rightarrow>
                      schedule_restart (pr_launch p) identity (pr_backoff p)
                        (next_backoff (sv_policy w2) (pr_backoff p)) w2)))"

section \<open>The whole system\<close>

text \<open>The steps carry the replies. A process that starts has an identifier that no live one has.\<close>

datatype ('i, 'e) label =
    Prepare instance_id manager_mode "'e start_error + nat"
  | Spawn widget_launch 'i nat "'e start_error + unit"
  | Stop instance_id "nat option"
  | Pause "instance_id list" "nat list"
  | Shutdown "instance_id list" "nat list"
  | Resume manager_mode
  | Retry instance_id bool
  | Refreshed
  | Receive internal
  | ChildEnds nat
  | TimerFires nat
  | Passes duration

definition fresh_pid :: "'i supervisor \<Rightarrow> 'e spawn_outcome \<Rightarrow> bool" where
  "fresh_pid w outcome \<longleftrightarrow> (case outcome of Spawned pid \<Rightarrow> pid \<notin> ct_pid ` set (sv_tasks w) | _ \<Rightarrow> True)"

definition forget_permit :: "instance_id \<Rightarrow> 'i supervisor \<Rightarrow> 'i supervisor" where
  "forget_permit i w = w\<lparr>sv_prepared := (sv_prepared w)(i := None)\<rparr>"

definition forget_permits :: "'i supervisor \<Rightarrow> 'i supervisor" where
  "forget_permits w = w\<lparr>sv_prepared := (\<lambda>_. None)\<rparr>"

inductive sup_step :: "'i iteration \<Rightarrow> 'i supervisor \<Rightarrow> ('i, 'e) label \<Rightarrow> 'i supervisor \<Rightarrow> bool"
  for iter where
  prepare: "prepare_start i m w = Some (r, w') \<Longrightarrow> sup_step iter w (Prepare i m r) w'"
| spawn: "start_expected registry outcome launch identity permit w = Some (r, w') \<Longrightarrow> fresh_pid w outcome \<Longrightarrow>
    sup_step iter w (Spawn launch identity permit r) w'"
| stop: "stop_child i (forget_permit i w) = (r, w') \<Longrightarrow> sup_step iter w (Stop i r) w'"
| pause: "transition_and_stop iter MPaused (forget_permits w) = ((ids, chans), w') \<Longrightarrow> sup_step iter w (Pause ids chans) w'"
| shutdown: "transition_and_stop iter MShuttingDown (forget_permits w) = ((ids, chans), w') \<Longrightarrow>
    sup_step iter w (Shutdown ids chans) w'"
| resume: "resume w = (m, w') \<Longrightarrow> sup_step iter w (Resume m) w'"
| retry: "retry_pending i w = Some (b, w') \<Longrightarrow> sup_step iter w (Retry i b) w'"
| refreshed: "reset_restart_backoff iter w = Some w' \<Longrightarrow> sup_step iter w Refreshed w'"
| exit: "sv_queue w = Exit i pid # q \<Longrightarrow> handle_exit i pid (w\<lparr>sv_queue := q\<rparr>) = Some w' \<Longrightarrow>
    sup_step iter w (Receive (Exit i pid)) w'"
| restart_due: "sv_queue w = RestartDue i token # q \<Longrightarrow> fresh_pid w (outcome :: 'e spawn_outcome) \<Longrightarrow>
    handle_restart_due registry outcome i token (w\<lparr>sv_queue := q\<rparr>) = Some w' \<Longrightarrow>
    sup_step iter w (Receive (RestartDue i token) :: ('i, 'e) label) w'"
| child_ends: "t \<in> set (sv_tasks w) \<Longrightarrow>
    sup_step iter w (ChildEnds (ct_chan t))
      (w\<lparr>sv_tasks := filter (\<lambda>u. ct_chan u \<noteq> ct_chan t) (sv_tasks w), sv_queue := sv_queue w @ [Exit (ct_id t) (ct_pid t)]\<rparr>)"
| timer_fires: "t \<in> set (sv_timers w) \<Longrightarrow> rt_due t \<le> sv_now w \<Longrightarrow>
    sup_step iter w (TimerFires (rt_token t))
      (w\<lparr>sv_timers := filter (\<lambda>u. rt_token u \<noteq> rt_token t) (sv_timers w), sv_queue := sv_queue w @ [RestartDue (rt_id t) (rt_token t)]\<rparr>)"
| passes: "sup_step iter w (Passes d) (w\<lparr>sv_now := sv_now w + d\<rparr>)"

end
