(* ===== verification/Supervisor_Inv.thy ===== *)
theory Supervisor_Inv
  imports Supervisor
begin

text \<open>
  The invariant of the supervisor and its tasks, and that every step keeps it: a widget has a child
  process exactly when its entry says so, a crashed widget always has a respawn under way, and
  nothing runs unstopped unless the manager is running.
\<close>

section \<open>The invariant\<close>

definition exits :: "instance_id \<Rightarrow> internal list \<Rightarrow> internal list" where
  "exits i q = filter (\<lambda>m. case m of Exit j _ \<Rightarrow> j = i | RestartDue _ _ \<Rightarrow> False) q"

definition tasks_of :: "instance_id \<Rightarrow> 'i supervisor \<Rightarrow> child_task list" where
  "tasks_of i w = filter (\<lambda>t. ct_id t = i) (sv_tasks w)"

text \<open>The child processes of a widget, the ended ones that are still to be handled included.\<close>

definition load :: "instance_id \<Rightarrow> 'i supervisor \<Rightarrow> nat" where
  "load i w = length (tasks_of i w) + length (exits i (sv_queue w))"

definition open_chan :: "'i supervisor \<Rightarrow> nat \<Rightarrow> bool" where
  "open_chan w c \<longleftrightarrow> c < sv_next_chan w \<and> c \<notin> sv_done w \<and> c \<notin> sv_closed w"

definition child_ok :: "'i supervisor \<Rightarrow> instance_id \<Rightarrow> bool" where
  "child_ok w i =
     (case sv_children w i of
        None \<Rightarrow> load i w = 0
      | Some (PendingRestart p) \<Rightarrow> load i w = 0 \<and> la_instance (pr_launch p) = i \<and> pr_token p < sv_next_restart w \<and>
          ((\<exists>t \<in> set (sv_timers w). rt_id t = i \<and> rt_token t = pr_token p) \<or> RestartDue i (pr_token p) \<in> set (sv_queue w))
      | Some (Running r) \<Rightarrow> load i w = 1 \<and> la_instance (rw_launch r) = i \<and> open_chan w (rw_chan r) \<and>
          (\<forall>t \<in> set (tasks_of i w). ct_pid t = rw_pid r \<and> ct_chan t = rw_chan r \<and> \<not> ct_stop t) \<and>
          (\<forall>m \<in> set (exits i (sv_queue w)). m = Exit i (rw_pid r))
      | Some (Stopping s) \<Rightarrow> load i w = 1 \<and> la_instance (sw_launch s) = i \<and> open_chan w (sw_chan s) \<and>
          (\<forall>t \<in> set (tasks_of i w). ct_chan t = sw_chan s \<and> ct_stop t))"

fun chan_of :: "'i widget_state \<Rightarrow> nat option" where
  "chan_of (Running r) = Some (rw_chan r)"
| "chan_of (Stopping s) = Some (sw_chan s)"
| "chan_of (PendingRestart p) = None"

fun token_of :: "'i widget_state \<Rightarrow> nat option" where
  "token_of (PendingRestart p) = Some (pr_token p)"
| "token_of _ = None"

definition idle :: "'i widget_state \<Rightarrow> bool" where
  "idle st = (case st of Stopping _ \<Rightarrow> True | _ \<Rightarrow> False)"

definition sup_inv :: "'i supervisor \<Rightarrow> bool" where
  "sup_inv w \<longleftrightarrow> (\<forall>i. child_ok w i) \<and> finite (dom (sv_children w)) \<and>
     (\<forall>t \<in> set (sv_timers w). Option.bind (sv_children w (rt_id t)) token_of = Some (rt_token t)) \<and>
     (\<forall>i j c. Option.bind (sv_children w i) chan_of = Some c \<longrightarrow> Option.bind (sv_children w j) chan_of = Some c \<longrightarrow> i = j) \<and>
     (\<forall>i j c. Option.bind (sv_children w i) token_of = Some c \<longrightarrow> Option.bind (sv_children w j) token_of = Some c \<longrightarrow> i = j) \<and>
     (\<forall>i k. RestartDue i k \<in> set (sv_queue w) \<longrightarrow> k < sv_next_restart w) \<and>
     (\<forall>c \<in> sv_done w \<union> sv_closed w. c < sv_next_chan w) \<and>
     (sv_mode w \<noteq> MRunning \<longrightarrow> (\<forall>st \<in> ran (sv_children w). idle st)) \<and>
     (\<forall>i k. sv_prepared w i = Some k \<longrightarrow> k < sv_next_start w)"

lemma sup_invI:
  assumes "\<And>i. child_ok w i" "finite (dom (sv_children w))"
    "\<And>t. t \<in> set (sv_timers w) \<Longrightarrow> Option.bind (sv_children w (rt_id t)) token_of = Some (rt_token t)"
    "\<And>i j c. Option.bind (sv_children w i) chan_of = Some c \<Longrightarrow> Option.bind (sv_children w j) chan_of = Some c \<Longrightarrow> i = j"
    "\<And>i j c. Option.bind (sv_children w i) token_of = Some c \<Longrightarrow> Option.bind (sv_children w j) token_of = Some c \<Longrightarrow> i = j"
    "\<And>i k. RestartDue i k \<in> set (sv_queue w) \<Longrightarrow> k < sv_next_restart w"
    "\<And>c. c \<in> sv_done w \<union> sv_closed w \<Longrightarrow> c < sv_next_chan w"
    "\<And>st i. sv_mode w \<noteq> MRunning \<Longrightarrow> sv_children w i = Some st \<Longrightarrow> idle st"
    "\<And>i k. sv_prepared w i = Some k \<Longrightarrow> k < sv_next_start w"
  shows "sup_inv w"
  using assms unfolding sup_inv_def ran_def by blast

lemma sup_invD:
  assumes "sup_inv w"
  shows "child_ok w i" "finite (dom (sv_children w))"
    "t \<in> set (sv_timers w) \<Longrightarrow> Option.bind (sv_children w (rt_id t)) token_of = Some (rt_token t)"
    "Option.bind (sv_children w i) chan_of = Some c \<Longrightarrow> Option.bind (sv_children w j) chan_of = Some c \<Longrightarrow> i = j"
    "Option.bind (sv_children w i) token_of = Some c \<Longrightarrow> Option.bind (sv_children w j) token_of = Some c \<Longrightarrow> i = j"
    "RestartDue i k \<in> set (sv_queue w) \<Longrightarrow> k < sv_next_restart w"
    "c \<in> sv_done w \<or> c \<in> sv_closed w \<Longrightarrow> c < sv_next_chan w"
    "sv_mode w \<noteq> MRunning \<Longrightarrow> sv_children w i = Some st \<Longrightarrow> idle st"
    "sv_prepared w i = Some k \<Longrightarrow> k < sv_next_start w"
  using assms unfolding sup_inv_def ran_def by blast+

lemma exits_simps [simp]:
  "exits i [] = []" "exits i (p @ q) = exits i p @ exits i q"
  "exits i (Exit j pid # q) = (if j = i then Exit j pid # exits i q else exits i q)"
  "exits i (RestartDue j k # q) = exits i q"
  by (simp_all add: exits_def)

lemma sup_inv_new: "sup_inv (supervisor_new p)"
  by (simp add: sup_inv_def supervisor_new_def child_ok_def load_def tasks_of_def)

text \<open>An entry that keeps its tasks, messages and timers stays in order.\<close>

lemma child_ok_frame:
  assumes "child_ok w i" "sv_children w' i = sv_children w i" "tasks_of i w' = tasks_of i w"
    "exits i (sv_queue w') = exits i (sv_queue w)" "sv_next_restart w \<le> sv_next_restart w'"
    "\<And>c. open_chan w c \<Longrightarrow> Option.bind (sv_children w i) chan_of = Some c \<Longrightarrow> open_chan w' c"
    "\<And>k. Option.bind (sv_children w i) token_of = Some k \<Longrightarrow>
       (\<exists>t \<in> set (sv_timers w). rt_id t = i \<and> rt_token t = k) \<or> RestartDue i k \<in> set (sv_queue w) \<Longrightarrow>
       (\<exists>t \<in> set (sv_timers w'). rt_id t = i \<and> rt_token t = k) \<or> RestartDue i k \<in> set (sv_queue w')"
  shows "child_ok w' i"
  using assms
  by (cases "sv_children w i"; cases "the (sv_children w i)") (auto simp: child_ok_def load_def)

section \<open>Taking and scheduling\<close>

lemma take_pending_inv:
  assumes inv: "sup_inv w" and p: "sv_children w i = Some (PendingRestart p)"
  shows "sup_inv (drop_state (PendingRestart p) (take_child i w))"
proof -
  let ?w = "drop_state (PendingRestart p) (take_child i w)"
  have "child_ok ?w j" for j
  proof (cases "j = i")
    case True
    then show ?thesis
      using sup_invD(1) [OF inv, of i] p by (simp add: child_ok_def take_child_def load_def tasks_of_def)
  next
    case False
    have "pr_token p \<noteq> k" if "Option.bind (sv_children w j) token_of = Some k" for k
      using inv p that False unfolding sup_inv_def by fastforce
    then show ?thesis
      by (intro child_ok_frame [OF sup_invD(1) [OF inv, of j]])
        (use False in \<open>auto simp: take_child_def tasks_of_def open_chan_def\<close>)
  qed
  then show ?thesis
  proof (rule sup_invI)
    fix t assume "t \<in> set (sv_timers ?w)"
    then show "Option.bind (sv_children ?w (rt_id t)) token_of = Some (rt_token t)"
      using sup_invD(3) [OF inv, of t] p by (auto simp: take_child_def)
  qed (use sup_invD(2,4-9) [OF inv] in \<open>auto simp: take_child_def bind_eq_Some_conv split: if_splits\<close>)
qed

definition scheduled :: "widget_launch \<Rightarrow> 'i \<Rightarrow> duration \<Rightarrow> duration \<Rightarrow> 'i supervisor \<Rightarrow> 'i supervisor" where
  "scheduled launch identity delay next_delay w =
     w\<lparr>sv_next_restart := sv_next_restart w + 1,
       sv_timers := sv_timers w @ [\<lparr>rt_id = la_instance launch, rt_token = sv_next_restart w, rt_due = sv_now w + delay\<rparr>],
       sv_children := (sv_children w)(la_instance launch \<mapsto> PendingRestart
         \<lparr>pr_launch = launch, pr_identity = identity, pr_backoff = next_delay, pr_token = sv_next_restart w\<rparr>)\<rparr>"

lemma schedule_restart_eq:
  "sv_children w (la_instance launch) = None \<Longrightarrow> schedule_restart launch identity delay next_delay w =
     (if sv_mode w \<noteq> MRunning then Some w
      else if 2 ^ 64 \<le> sv_next_restart w + 1 then None
      else Some (scheduled launch identity delay next_delay w))"
  by (simp add: schedule_restart_def scheduled_def insert_child_def Let_def)

lemma pending_tokens:
  assumes "sup_inv w" "Option.bind (sv_children w i) token_of = Some k" shows "k < sv_next_restart w"
proof -
  from assms(2) obtain p where "sv_children w i = Some (PendingRestart p)" "pr_token p = k"
    by (auto simp: bind_eq_Some_conv elim: token_of.elims)
  with sup_invD(1) [OF assms(1), of i] show ?thesis by (auto simp: child_ok_def)
qed

lemma timer_tokens:
  assumes "sup_inv w" "t \<in> set (sv_timers w)" shows "rt_token t < sv_next_restart w"
proof -
  have "Option.bind (sv_children w (rt_id t)) token_of = Some (rt_token t)" using assms unfolding sup_inv_def by blast
  with pending_tokens [OF assms(1)] show ?thesis by blast
qed

lemma child_chans:
  assumes "sup_inv w" "Option.bind (sv_children w i) chan_of = Some c" shows "open_chan w c"
proof -
  from assms(2) obtain st where st: "sv_children w i = Some st" "chan_of st = Some c" by (auto simp: bind_eq_Some_conv)
  with sup_invD(1) [OF assms(1), of i] show ?thesis by (cases st) (auto simp: child_ok_def)
qed

lemma scheduled_inv:
  assumes inv: "sup_inv w" and n: "sv_children w (la_instance launch) = None" and m: "sv_mode w = MRunning"
  shows "sup_inv (scheduled launch identity delay next_delay w)"
proof -
  let ?i = "la_instance launch" and ?w = "scheduled launch identity delay next_delay w"
  have "child_ok ?w j" for j
  proof (cases "j = ?i")
    case True
    then show ?thesis
      using sup_invD(1) [OF inv, of ?i] n by (simp add: child_ok_def scheduled_def load_def tasks_of_def)
  next
    case False
    then show ?thesis
      by (intro child_ok_frame [OF sup_invD(1) [OF inv, of j]])
        (auto simp: scheduled_def tasks_of_def open_chan_def)
  qed
  then show ?thesis
  proof (rule sup_invI)
    fix a b c
    show "Option.bind (sv_children ?w a) token_of = Some c \<Longrightarrow> Option.bind (sv_children ?w b) token_of = Some c \<Longrightarrow> a = b"
      using sup_invD(5) [OF inv, of a c b] pending_tokens [OF inv, of a c] pending_tokens [OF inv, of b c]
      by (auto simp: scheduled_def split: if_splits)
    show "Option.bind (sv_children ?w a) chan_of = Some c \<Longrightarrow> Option.bind (sv_children ?w b) chan_of = Some c \<Longrightarrow> a = b"
      using sup_invD(4) [OF inv, of a c b] by (auto simp: scheduled_def split: if_splits)
  next
    fix t assume "t \<in> set (sv_timers ?w)"
    then show "Option.bind (sv_children ?w (rt_id t)) token_of = Some (rt_token t)"
      using sup_invD(3) [OF inv, of t] n by (auto simp: scheduled_def)
  qed (use sup_invD(2,6-9) [OF inv] m in \<open>auto simp: scheduled_def less_SucI\<close>)
qed

lemma schedule_inv:
  assumes "sup_inv w" "sv_children w (la_instance launch) = None"
    "schedule_restart launch identity delay next_delay w = Some w'"
  shows "sup_inv w'"
  using assms scheduled_inv [OF assms(1,2)] by (auto simp: schedule_restart_eq split: if_splits)

text \<open>A pending entry may as well be dropped before its successor is put in place.\<close>

lemma drop_commutes:
  assumes "pr_token p < sv_next_restart w" "sv_children w (la_instance launch) = None"
  shows "map_option (drop_state (PendingRestart p)) (schedule_restart launch identity delay next_delay w) =
    schedule_restart launch identity delay next_delay (drop_state (PendingRestart p) w)"
  using assms by (simp add: schedule_restart_eq scheduled_def)

lemma insert_commutes:
  assumes "sv_children w (la_instance launch) = Some (PendingRestart p)" "pr_token p < sv_next_restart w" "sv_mode w = MRunning"
  shows "schedule_restart launch identity delay next_delay w =
    schedule_restart launch identity delay next_delay (drop_state (PendingRestart p) (take_child (la_instance launch) w))"
  using assms by (simp add: schedule_restart_def insert_child_def take_child_def Let_def)

section \<open>Starting and stopping processes\<close>

definition started :: "u32 \<Rightarrow> widget_launch \<Rightarrow> duration \<Rightarrow> 'i \<Rightarrow> 'i supervisor \<Rightarrow> 'i supervisor" where
  "started pid launch backoff identity w =
     w\<lparr>sv_next_chan := sv_next_chan w + 1,
       sv_tasks := sv_tasks w @ [\<lparr>ct_id = la_instance launch, ct_pid = pid, ct_stop = False, ct_chan = sv_next_chan w\<rparr>],
       sv_children := (sv_children w)(la_instance launch \<mapsto> Running \<lparr>rw_pid = pid, rw_identity = identity,
         rw_chan = sv_next_chan w, rw_launch = launch, rw_spawned_at = sv_now w, rw_backoff = backoff\<rparr>)\<rparr>"

lemma started_drop:
  "drop_state (PendingRestart p) (started pid launch backoff identity w) =
   started pid launch backoff identity (drop_state (PendingRestart p) w)"
  by (rule supervisor.equality) (simp_all add: started_def)

lemma spawn_selected_eq:
  "sv_children w (la_instance launch) = None \<Longrightarrow> spawn_selected_process outcome launch backoff identity w =
     (case outcome of SpawnFailed e \<Rightarrow> (Inl e, w) | Spawned pid \<Rightarrow> (Inr (), started pid launch backoff identity w))"
  by (cases outcome) (simp_all add: spawn_selected_process_def started_def insert_child_def Let_def)

lemma started_inv:
  assumes inv: "sup_inv w" and n: "sv_children w (la_instance launch) = None" and m: "sv_mode w = MRunning"
  shows "sup_inv (started pid launch backoff identity w)"
proof -
  let ?i = "la_instance launch" and ?w = "started pid launch backoff identity w"
  have "child_ok ?w j" for j
  proof (cases "j = ?i")
    case True
    have "load ?i w = 0" using sup_invD(1) [OF inv, of ?i] n by (simp add: child_ok_def)
    moreover have "sv_next_chan w \<notin> sv_done w \<union> sv_closed w" using inv unfolding sup_inv_def by blast
    ultimately show ?thesis
      using True by (simp add: child_ok_def started_def load_def tasks_of_def open_chan_def)
  next
    case False
    then show ?thesis
      by (intro child_ok_frame [OF sup_invD(1) [OF inv, of j]])
        (auto simp: started_def tasks_of_def open_chan_def)
  qed
  then show ?thesis
  proof (rule sup_invI)
    fix a b c
    show "Option.bind (sv_children ?w a) token_of = Some c \<Longrightarrow> Option.bind (sv_children ?w b) token_of = Some c \<Longrightarrow> a = b"
      using sup_invD(5) [OF inv, of a c b] by (auto simp: started_def split: if_splits)
    show "Option.bind (sv_children ?w a) chan_of = Some c \<Longrightarrow> Option.bind (sv_children ?w b) chan_of = Some c \<Longrightarrow> a = b"
      using sup_invD(4) [OF inv, of a c b] child_chans [OF inv, of a c] child_chans [OF inv, of b c]
      by (auto simp: started_def open_chan_def split: if_splits)
  next
    fix t assume "t \<in> set (sv_timers ?w)"
    then show "Option.bind (sv_children ?w (rt_id t)) token_of = Some (rt_token t)"
      using sup_invD(3) [OF inv, of t] n by (auto simp: started_def)
  qed (use sup_invD(2,6-9) [OF inv] m in \<open>auto simp: started_def less_SucI\<close>)
qed

lemma load_one_task:
  assumes "load i w = 1" "t \<in> set (tasks_of i w)"
  shows "tasks_of i w = [t] \<and> exits i (sv_queue w) = []"
proof -
  have "length (tasks_of i w) = 1 \<and> length (exits i (sv_queue w)) = 0"
    using assms by (cases "tasks_of i w") (auto simp: load_def)
  with assms(2) show ?thesis by (auto simp: length_Suc_conv)
qed

text \<open>Each task belongs to the entry of its widget, which holds its channel.\<close>

lemma task_entry:
  assumes "sup_inv w" "t \<in> set (sv_tasks w)"
  obtains (running) r where "sv_children w (ct_id t) = Some (Running r)" "ct_chan t = rw_chan r" "ct_pid t = rw_pid r" "\<not> ct_stop t"
  | (stopping) s where "sv_children w (ct_id t) = Some (Stopping s)" "ct_chan t = sw_chan s" "ct_stop t"
proof -
  have t: "t \<in> set (tasks_of (ct_id t) w)" using assms(2) by (simp add: tasks_of_def)
  then have "load (ct_id t) w \<noteq> 0" by (auto simp: load_def)
  with sup_invD(1) [OF assms(1), of "ct_id t"] t that show ?thesis
    by (auto simp: child_ok_def split: option.splits widget_state.splits)
qed

lemma task_chan:
  assumes "sup_inv w" "t \<in> set (sv_tasks w)"
  shows "Option.bind (sv_children w (ct_id t)) chan_of = Some (ct_chan t)"
  using task_entry [OF assms] by (metis bind.bind_lunit chan_of.simps(1,2))

definition stopped :: "'i running_widget \<Rightarrow> 'i stopping_widget" where
  "stopped r = \<lparr>sw_launch = rw_launch r, sw_identity = rw_identity r, sw_chan = rw_chan r\<rparr>"

definition stop_tasks :: "nat set \<Rightarrow> child_task list \<Rightarrow> child_task list" where
  "stop_tasks cs ts = map (\<lambda>t. if ct_chan t \<in> cs then t\<lparr>ct_stop := True\<rparr> else t) ts"

lemma tasks_of_stop: "filter (\<lambda>t. ct_id t = i) (stop_tasks cs ts) = stop_tasks cs (filter (\<lambda>t. ct_id t = i) ts)"
  by (induction ts) (auto simp: stop_tasks_def)

lemma stop_tasks_idle: "\<forall>t \<in> set ts. ct_chan t \<notin> cs \<Longrightarrow> stop_tasks cs ts = ts"
  by (auto simp: stop_tasks_def intro: map_idI)

text \<open>Any set of running entries may be moved to stopping and any set of pending ones dropped.\<close>

definition stopping_all :: "instance_id set \<Rightarrow> 'i supervisor \<Rightarrow> 'i supervisor" where
  "stopping_all A w =
     w\<lparr>sv_children := (\<lambda>i. if i \<in> A then (case sv_children w i of
          Some (Running r) \<Rightarrow> Some (Stopping (stopped r))
        | Some (Stopping s) \<Rightarrow> Some (Stopping s)
        | _ \<Rightarrow> None) else sv_children w i),
       sv_tasks := stop_tasks {rw_chan r |r i. i \<in> A \<and> sv_children w i = Some (Running r)} (sv_tasks w),
       sv_timers := filter (\<lambda>t. rt_id t \<notin> A) (sv_timers w)\<rparr>"

lemma stopping_all_tasks_of:
  assumes inv: "sup_inv w"
  shows "tasks_of i (stopping_all A w) = (case sv_children w i of
      Some (Running r) \<Rightarrow> if i \<in> A then map (\<lambda>t. t\<lparr>ct_stop := True\<rparr>) (tasks_of i w) else tasks_of i w
    | _ \<Rightarrow> tasks_of i w)"
proof -
  let ?cs = "{rw_chan r |r i. i \<in> A \<and> sv_children w i = Some (Running r)}"
  have in_cs: "ct_chan t \<in> ?cs \<longleftrightarrow> i \<in> A \<and> (\<exists>r. sv_children w i = Some (Running r))" if t: "t \<in> set (tasks_of i w)" for t
  proof -
    have ti: "t \<in> set (sv_tasks w)" "ct_id t = i" using t by (auto simp: tasks_of_def)
    have j: "j = i" if "sv_children w j = Some (Running r)" "ct_chan t = rw_chan r" for j r
      using sup_invD(4) [OF inv, of j "ct_chan t" i] task_chan [OF inv ti(1)] ti(2) that by simp
    from inv ti(1) show ?thesis
    proof (cases rule: task_entry)
      case (running r)
      with j ti(2) show ?thesis by blast
    next
      case (stopping s)
      with j ti(2) show ?thesis by auto
    qed
  qed
  have "tasks_of i (stopping_all A w) = stop_tasks ?cs (tasks_of i w)"
    by (simp add: stopping_all_def tasks_of_def tasks_of_stop)
  also have "\<dots> = map (\<lambda>t. if i \<in> A \<and> (\<exists>r. sv_children w i = Some (Running r)) then t\<lparr>ct_stop := True\<rparr> else t) (tasks_of i w)"
    unfolding stop_tasks_def by (rule map_cong [OF refl]) (simp only: in_cs)
  finally show ?thesis by (auto split: option.splits widget_state.splits)
qed

lemma stopping_all_inv:
  assumes inv: "sup_inv w" and m: "\<And>i st. m \<noteq> MRunning \<Longrightarrow> sv_children w i = Some st \<Longrightarrow> i \<notin> A \<Longrightarrow> idle st"
  shows "sup_inv ((stopping_all A w)\<lparr>sv_mode := m\<rparr>)"
proof -
  let ?w = "(stopping_all A w)\<lparr>sv_mode := m\<rparr>"
  have tasks: "tasks_of i ?w = tasks_of i (stopping_all A w)" for i by (simp add: tasks_of_def)
  have q: "sv_queue ?w = sv_queue w" "sv_next_restart ?w = sv_next_restart w" "open_chan ?w c = open_chan w c" for c
    by (simp_all add: stopping_all_def open_chan_def)
  have ok: "child_ok ?w j" for j
  proof (cases "j \<in> A")
    case True
    then have "sv_children ?w j = (case sv_children w j of Some (Running r) \<Rightarrow> Some (Stopping (stopped r))
        | Some (Stopping s) \<Rightarrow> Some (Stopping s) | _ \<Rightarrow> None)" by (simp add: stopping_all_def)
    then show ?thesis
      using sup_invD(1) [OF inv, of j] True
      by (cases "sv_children w j"; cases "the (sv_children w j)")
        (auto simp: child_ok_def load_def tasks q stopping_all_tasks_of [OF inv] stopped_def)
  next
    case False
    have "tasks_of j ?w = tasks_of j w"
      using False by (auto simp: tasks stopping_all_tasks_of [OF inv] split: option.splits widget_state.splits)
    moreover have "sv_children ?w j = sv_children w j" "\<And>t. rt_id t = j \<Longrightarrow> t \<in> set (sv_timers ?w) \<longleftrightarrow> t \<in> set (sv_timers w)"
      using False by (auto simp: stopping_all_def)
    ultimately show ?thesis
      by (intro child_ok_frame [OF sup_invD(1) [OF inv, of j]]) (auto simp: q)
  qed
  have chans: "Option.bind (sv_children ?w i) chan_of = Some c \<Longrightarrow> Option.bind (sv_children w i) chan_of = Some c" for i c
    by (auto simp: stopping_all_def stopped_def split: option.splits widget_state.splits if_splits)
  have tokens: "Option.bind (sv_children ?w i) token_of = Some c \<Longrightarrow> Option.bind (sv_children w i) token_of = Some c" for i c
    by (auto simp: stopping_all_def split: option.splits widget_state.splits if_splits)
  show ?thesis
  proof (rule sup_invI)
    fix i j c
    show "child_ok ?w i" by (rule ok)
    show "Option.bind (sv_children ?w i) chan_of = Some c \<Longrightarrow> Option.bind (sv_children ?w j) chan_of = Some c \<Longrightarrow> i = j"
      by (rule sup_invD(4) [OF inv chans chans])
    show "Option.bind (sv_children ?w i) token_of = Some c \<Longrightarrow> Option.bind (sv_children ?w j) token_of = Some c \<Longrightarrow> i = j"
      by (rule sup_invD(5) [OF inv tokens tokens])
    show "finite (dom (sv_children ?w))"
      by (rule finite_subset [OF _ sup_invD(2) [OF inv]])
        (auto simp: stopping_all_def split: option.splits widget_state.splits if_splits)
  next
    fix t assume "t \<in> set (sv_timers ?w)"
    then show "Option.bind (sv_children ?w (rt_id t)) token_of = Some (rt_token t)"
      using sup_invD(3) [OF inv, of t] by (auto simp: stopping_all_def)
  next
    fix st i assume "sv_mode ?w \<noteq> MRunning" "sv_children ?w i = Some st"
    then show "idle st"
      using m [of i] by (auto simp: stopping_all_def idle_def split: option.splits widget_state.splits if_splits)
  qed (use sup_invD(6,7,9) [OF inv] in \<open>auto simp: stopping_all_def\<close>)
qed

lemma begin_stop_eq:
  assumes inv: "sup_inv w" and r: "sv_children w i = Some (Running r)"
  shows "begin_stop i r (take_child i w) = (rw_chan r, stopping_all {i} w)"
proof -
  have "rt_id t \<noteq> i" if "t \<in> set (sv_timers w)" for t
    using sup_invD(3) [OF inv that] r by auto
  then have "filter (\<lambda>t. rt_id t \<notin> {i}) (sv_timers w) = sv_timers w" by (auto simp: filter_id_conv)
  moreover have "(\<lambda>j. if j \<in> {i} then (case sv_children w j of Some (Running r) \<Rightarrow> Some (Stopping (stopped r))
      | Some (Stopping s) \<Rightarrow> Some (Stopping s) | _ \<Rightarrow> None) else sv_children w j) = (sv_children w)(i \<mapsto> Stopping (stopped r))"
    using r by auto
  moreover have "{rw_chan r' |r' j. j \<in> {i} \<and> sv_children w j = Some (Running r')} = {rw_chan r}" using r by auto
  ultimately show ?thesis
    by (simp add: begin_stop_def insert_child_def take_child_def stopping_all_def stop_tasks_def stopped_def [symmetric])
qed

lemma stop_child_inv:
  assumes inv: "sup_inv w" shows "sup_inv (snd (stop_child i w))"
proof (cases "sv_children w i")
  case (Some st)
  show ?thesis
  proof (cases st)
    case (Running r)
    have "(stopping_all {i} w)\<lparr>sv_mode := sv_mode w\<rparr> = stopping_all {i} w" by (simp add: stopping_all_def)
    moreover have "sup_inv ((stopping_all {i} w)\<lparr>sv_mode := sv_mode w\<rparr>)"
      by (rule stopping_all_inv [OF inv]) (use sup_invD(8) [OF inv] in blast)
    ultimately show ?thesis
      using Some Running begin_stop_eq [OF inv] by (simp add: stop_child_def)
  next
    case (PendingRestart p)
    then show ?thesis using Some take_pending_inv [OF inv] by (simp add: stop_child_def del: drop_state.simps)
  qed (use Some inv in \<open>simp add: stop_child_def\<close>)
qed (use inv in \<open>simp add: stop_child_def\<close>)

section \<open>Stopping everything\<close>

text \<open>What the code relies on: iterating a map visits each key once.\<close>

definition visits_each_key :: "'i iteration \<Rightarrow> bool" where
  "visits_each_key iter \<longleftrightarrow> (\<forall>m. finite (dom m) \<longrightarrow> distinct (iter m) \<and> set (iter m) = dom m)"

fun stopping_form :: "'i widget_state \<Rightarrow> 'i widget_state option" where
  "stopping_form (Running r) = Some (Stopping (stopped r))"
| "stopping_form (Stopping s) = Some (Stopping s)"
| "stopping_form (PendingRestart p) = None"

definition running_chans :: "(instance_id \<times> 'i widget_state) list \<Rightarrow> nat set" where
  "running_chans cs = {rw_chan r |r i. (i, Running r) \<in> set cs}"

definition pending_toks :: "(instance_id \<times> 'i widget_state) list \<Rightarrow> nat set" where
  "pending_toks cs = {pr_token p |p i. (i, PendingRestart p) \<in> set cs}"

lemma stop_tasks_comp [simp]: "stop_tasks A (stop_tasks B ts) = stop_tasks (A \<union> B) ts"
  by (auto simp: stop_tasks_def)

lemma stop_tasks_empty [simp]: "stop_tasks {} ts = ts"
  by (simp add: stop_tasks_def)

lemma map_filter_map:
  "(\<And>x. x \<in> set xs \<Longrightarrow> f (g x) = h x) \<Longrightarrow> List.map_filter f (map g xs) = List.map_filter h xs"
  by (induction xs) (auto simp: List.map_filter_simps split: option.splits)

lemma stop_drained_eq:
  "distinct (map fst cs) \<Longrightarrow> \<forall>i \<in> fst ` set cs. sv_children v i = None \<Longrightarrow>
   stop_drained cs v = (List.map_filter (chan_of \<circ> snd) cs,
     v\<lparr>sv_children := (\<lambda>i. case map_of cs i of Some st \<Rightarrow> stopping_form st | None \<Rightarrow> sv_children v i),
       sv_tasks := stop_tasks (running_chans cs) (sv_tasks v),
       sv_timers := filter (\<lambda>t. rt_token t \<notin> pending_toks cs) (sv_timers v)\<rparr>)"
proof (induction cs arbitrary: v)
  case Nil
  then show ?case by (simp add: List.map_filter_simps running_chans_def pending_toks_def)
next
  case (Cons c cs)
  obtain i st where c: "c = (i, st)" by (cases c)
  have i: "i \<notin> fst ` set cs" "map_of cs i = None" and v: "sv_children v i = None"
    using Cons.prems by (auto simp: c map_of_eq_None_iff)
  show ?case
  proof (cases st)
    case (Running r)
    let ?v = "v\<lparr>sv_tasks := stop_tasks {rw_chan r} (sv_tasks v), sv_children := (sv_children v)(i \<mapsto> Stopping (stopped r))\<rparr>"
    have "begin_stop i r v = (rw_chan r, ?v)"
      using v by (simp add: begin_stop_def insert_child_def stop_tasks_def stopped_def)
    moreover have "running_chans (c # cs) = running_chans cs \<union> {rw_chan r}" "pending_toks (c # cs) = pending_toks cs"
      by (auto simp: running_chans_def pending_toks_def c Running)
    moreover have "(\<lambda>j. case map_of cs j of Some st \<Rightarrow> stopping_form st | None \<Rightarrow> sv_children ?v j) =
        (\<lambda>j. case map_of (c # cs) j of Some st \<Rightarrow> stopping_form st | None \<Rightarrow> sv_children v j)"
      using i(2) by (auto simp: c Running fun_eq_iff split: option.splits)
    moreover have "\<forall>j \<in> fst ` set cs. sv_children ?v j = None" using Cons.prems(2) i(1) by (auto simp: c)
    moreover note Cons.IH [OF _ this]
    ultimately show ?thesis using Cons.prems by (simp add: c Running List.map_filter_simps)
  next
    case (Stopping s)
    let ?v = "v\<lparr>sv_children := (sv_children v)(i \<mapsto> Stopping s)\<rparr>"
    have "insert_child i (Stopping s) v = ?v" using v by (simp add: insert_child_def)
    moreover have "running_chans (c # cs) = running_chans cs" "pending_toks (c # cs) = pending_toks cs"
      by (auto simp: running_chans_def pending_toks_def c Stopping)
    moreover have "(\<lambda>j. case map_of cs j of Some st \<Rightarrow> stopping_form st | None \<Rightarrow> sv_children ?v j) =
        (\<lambda>j. case map_of (c # cs) j of Some st \<Rightarrow> stopping_form st | None \<Rightarrow> sv_children v j)"
      using i(2) by (auto simp: c Stopping fun_eq_iff split: option.splits)
    moreover have "\<forall>j \<in> fst ` set cs. sv_children ?v j = None" using Cons.prems(2) i(1) by (auto simp: c)
    moreover note Cons.IH [OF _ this]
    ultimately show ?thesis using Cons.prems by (simp add: c Stopping List.map_filter_simps)
  next
    case (PendingRestart p)
    let ?v = "v\<lparr>sv_timers := filter (\<lambda>t. rt_token t \<noteq> pr_token p) (sv_timers v)\<rparr>"
    have "running_chans (c # cs) = running_chans cs" "pending_toks (c # cs) = insert (pr_token p) (pending_toks cs)"
      by (auto simp: running_chans_def pending_toks_def c PendingRestart)
    moreover have "(\<lambda>j. case map_of cs j of Some st \<Rightarrow> stopping_form st | None \<Rightarrow> sv_children ?v j) =
        (\<lambda>j. case map_of (c # cs) j of Some st \<Rightarrow> stopping_form st | None \<Rightarrow> sv_children v j)"
      using i(2) v by (auto simp: c PendingRestart fun_eq_iff split: option.splits)
    moreover have "filter (\<lambda>t. rt_token t \<notin> pending_toks cs) (sv_timers ?v) =
        filter (\<lambda>t. rt_token t \<notin> insert (pr_token p) (pending_toks cs)) (sv_timers v)"
      by (simp add: conj_commute)
    moreover have "\<forall>j \<in> fst ` set cs. sv_children ?v j = None" using Cons.prems(2) i(1) by (auto simp: c)
    moreover note Cons.IH [OF _ this]
    ultimately show ?thesis using Cons.prems by (simp add: c PendingRestart List.map_filter_simps)
  qed
qed

lemma transition_eq:
  assumes inv: "sup_inv w" and iter: "visits_each_key iter"
    and m_def: "m = (if sv_mode w = MShuttingDown then MShuttingDown else requested)"
  shows "transition_and_stop iter requested w =
    ((iter (sv_children w), List.map_filter (\<lambda>i. Option.bind (sv_children w i) chan_of) (iter (sv_children w))),
     (stopping_all (dom (sv_children w)) w)\<lparr>sv_mode := m\<rparr>)"
proof -
  let ?ids = "iter (sv_children w)"
  let ?cs = "map (\<lambda>i. (i, the (sv_children w i))) ?ids"
  have ids: "distinct ?ids" "set ?ids = dom (sv_children w)"
    using iter sup_invD(2) [OF inv] by (auto simp: visits_each_key_def)
  have in_cs: "(i, st) \<in> set ?cs \<longleftrightarrow> sv_children w i = Some st" for i st using ids(2) by (auto simp: dom_def)
  have mo: "map_of ?cs = sv_children w"
    by (auto simp: map_of_map_restrict restrict_map_def fun_eq_iff ids(2) dom_def)
  have "rt_token t \<in> pending_toks ?cs" "rt_id t \<in> dom (sv_children w)" if "t \<in> set (sv_timers w)" for t
    using sup_invD(3) [OF inv that] unfolding pending_toks_def in_cs
    by (auto simp: bind_eq_Some_conv elim!: token_of.elims)
  then have timers: "filter (\<lambda>t. rt_token t \<notin> pending_toks ?cs) (sv_timers w) = []"
    "filter (\<lambda>t. rt_id t \<notin> dom (sv_children w)) (sv_timers w) = []" by (auto simp: filter_empty_conv)
  have ch: "(\<lambda>i. case sv_children w i of Some st \<Rightarrow> stopping_form st | None \<Rightarrow> None) =
      (\<lambda>i. if i \<in> dom (sv_children w) then (case sv_children w i of Some (Running r) \<Rightarrow> Some (Stopping (stopped r))
        | Some (Stopping s) \<Rightarrow> Some (Stopping s) | _ \<Rightarrow> None) else sv_children w i)"
    by (auto simp: fun_eq_iff split: option.splits widget_state.splits)
  have "running_chans ?cs = {rw_chan r |r i. i \<in> dom (sv_children w) \<and> sv_children w i = Some (Running r)}"
    unfolding running_chans_def in_cs by (auto simp: dom_def)
  moreover note timers(1)
  moreover have "List.map_filter (chan_of \<circ> snd) ?cs = List.map_filter (\<lambda>i. Option.bind (sv_children w i) chan_of) ?ids"
    by (rule map_filter_map) (use ids(2) in auto)
  moreover have "distinct (map fst ?cs)" using ids(1) by (simp add: comp_def)
  ultimately have "stop_drained ?cs (w\<lparr>sv_mode := m, sv_children := (\<lambda>_. None)\<rparr>) =
      (List.map_filter (\<lambda>i. Option.bind (sv_children w i) chan_of) ?ids,
       w\<lparr>sv_mode := m, sv_children := (\<lambda>i. case sv_children w i of Some st \<Rightarrow> stopping_form st | None \<Rightarrow> None),
         sv_tasks := stop_tasks {rw_chan r |r i. i \<in> dom (sv_children w) \<and> sv_children w i = Some (Running r)} (sv_tasks w),
         sv_timers := []\<rparr>)"
    by (subst stop_drained_eq) (simp_all add: mo cong: option.case_cong)
  moreover have "w\<lparr>sv_mode := m, sv_children := (\<lambda>i. case sv_children w i of Some st \<Rightarrow> stopping_form st | None \<Rightarrow> None),
         sv_tasks := stop_tasks {rw_chan r |r i. i \<in> dom (sv_children w) \<and> sv_children w i = Some (Running r)} (sv_tasks w),
         sv_timers := []\<rparr> = (stopping_all (dom (sv_children w)) w)\<lparr>sv_mode := m\<rparr>"
    by (rule supervisor.equality) (simp_all add: stopping_all_def ch timers)
  ultimately show ?thesis by (simp add: transition_and_stop_def m_def Let_def)
qed

lemma transition_inv:
  assumes inv: "sup_inv w" and iter: "visits_each_key iter"
  shows "sup_inv (snd (transition_and_stop iter requested w))"
  unfolding transition_eq [OF inv iter refl] snd_conv
  by (rule stopping_all_inv [OF inv]) (auto simp: dom_def)

lemma forget_inv:
  assumes inv: "sup_inv w"
  shows "sup_inv (forget_permit i w)" "sup_inv (forget_permits w)"
proof -
  have "child_ok (w\<lparr>sv_prepared := f\<rparr>) j = child_ok w j" for f j
    by (simp add: child_ok_def load_def tasks_of_def open_chan_def cong: option.case_cong widget_state.case_cong)
  then show "sup_inv (forget_permit i w)" "sup_inv (forget_permits w)"
    using inv by (auto simp: sup_inv_def forget_permit_def forget_permits_def)
qed

section \<open>Every step\<close>

lemma retry_inv:
  assumes inv: "sup_inv w" and r: "retry_pending i w = Some (b, w')"
  shows "sup_inv w'"
proof (cases "\<exists>p. sv_children w i = Some (PendingRestart p)")
  case True
  then obtain p where p: "sv_children w i = Some (PendingRestart p)" by blast
  then have ok: "la_instance (pr_launch p) = i" "pr_token p < sv_next_restart w"
    using sup_invD(1) [OF inv, of i] by (simp_all add: child_ok_def)
  have "sv_mode w = MRunning" using sup_invD(8) [OF inv _ p] by (auto simp: idle_def)
  then have "schedule_restart (pr_launch p) (pr_identity p) (po_initial (sv_policy w)) (pr_backoff p)
      (drop_state (PendingRestart p) (take_child i w)) = Some w'"
    using r p ok insert_commutes [of w "pr_launch p" p] by (auto simp: retry_pending_def)
  from schedule_inv [OF take_pending_inv [OF inv p] _ this] show ?thesis by (simp add: take_child_def ok(1))
next
  case False
  then have "w' = w" using r by (auto simp: retry_pending_def split: option.splits widget_state.splits)
  then show ?thesis using inv by simp
qed

lemma retry_all_inv: "sup_inv w \<Longrightarrow> retry_all is w = Some w' \<Longrightarrow> sup_inv w'"
  by (induction "is" arbitrary: w) (auto split: option.splits dest: retry_inv)

lemma exit_entry:
  assumes inv: "sup_inv w" and q: "sv_queue w = Exit i pid # q"
  obtains (running) r where "sv_children w i = Some (Running r)" "rw_pid r = pid" "tasks_of i w = []" "exits i q = []"
  | (stopping) s where "sv_children w i = Some (Stopping s)" "tasks_of i w = []" "exits i q = []"
proof -
  have "load i w \<noteq> 0" by (simp add: load_def q)
  with sup_invD(1) [OF inv, of i] that show ?thesis
    by (auto simp: child_ok_def load_def q split: option.splits widget_state.splits)
qed

text \<open>The report of an ended process takes its entry and its channel out of use.\<close>

definition retired :: "instance_id \<Rightarrow> internal list \<Rightarrow> nat set \<Rightarrow> nat set \<Rightarrow> 'i supervisor \<Rightarrow> 'i supervisor" where
  "retired i q d c w = w\<lparr>sv_queue := q, sv_children := (sv_children w)(i := None), sv_done := d, sv_closed := c\<rparr>"

lemma retired_inv:
  assumes inv: "sup_inv w" and q: "sv_queue w = Exit i pid # q"
    and st: "Option.bind (sv_children w i) chan_of = Some k" and dc: "d \<union> c = insert k (sv_done w \<union> sv_closed w)"
  shows "sup_inv (retired i q d c w)"
proof -
  let ?w = "retired i q d c w"
  have "child_ok ?w j" for j
  proof (cases "j = i")
    case True
    from inv q have "tasks_of i w = [] \<and> exits i q = []" by (cases rule: exit_entry) auto
    with True show ?thesis by (simp add: child_ok_def retired_def load_def tasks_of_def)
  next
    case False
    have "open_chan ?w n" if "open_chan w n" "Option.bind (sv_children w j) chan_of = Some n" for n
    proof -
      have "n \<noteq> k" using sup_invD(4) [OF inv st, of j] that(2) False by auto
      with that(1) dc show ?thesis by (auto simp: open_chan_def retired_def)
    qed
    then show ?thesis
      using False q by (intro child_ok_frame [OF sup_invD(1) [OF inv, of j]]) (auto simp: retired_def tasks_of_def)
  qed
  then show ?thesis
  proof (rule sup_invI)
    fix a b n
    show "Option.bind (sv_children ?w a) chan_of = Some n \<Longrightarrow> Option.bind (sv_children ?w b) chan_of = Some n \<Longrightarrow> a = b"
      using sup_invD(4) [OF inv, of a n b] by (auto simp: retired_def split: if_splits)
    show "Option.bind (sv_children ?w a) token_of = Some n \<Longrightarrow> Option.bind (sv_children ?w b) token_of = Some n \<Longrightarrow> a = b"
      using sup_invD(5) [OF inv, of a n b] by (auto simp: retired_def split: if_splits)
  next
    fix t assume "t \<in> set (sv_timers ?w)"
    then have t: "Option.bind (sv_children w (rt_id t)) token_of = Some (rt_token t)"
      using sup_invD(3) [OF inv, of t] by (simp add: retired_def)
    have "rt_id t \<noteq> i" using t st by (cases "sv_children w i"; cases "the (sv_children w i)") auto
    then show "Option.bind (sv_children ?w (rt_id t)) token_of = Some (rt_token t)" using t by (simp add: retired_def)
  next
    fix n assume "n \<in> sv_done ?w \<union> sv_closed ?w"
    then show "n < sv_next_chan ?w"
      using sup_invD(7) [OF inv, of n] child_chans [OF inv st] dc by (auto simp: retired_def open_chan_def)
  qed (use sup_invD(2,6,8,9) [OF inv] q in \<open>auto simp: retired_def split: if_splits\<close>)
qed

definition crash_delay :: "'i supervisor \<Rightarrow> 'i running_widget \<Rightarrow> duration" where
  "crash_delay w r = restart_delay (sv_policy w) (sv_now w - rw_spawned_at r) (rw_backoff r)"

lemma handle_exit_running:
  assumes inv: "sup_inv w" and q: "sv_queue w = Exit i pid # q" and st: "sv_children w i = Some (Running r)"
  shows "handle_exit i pid (w\<lparr>sv_queue := q\<rparr>) =
    schedule_restart (rw_launch r) (rw_identity r) (crash_delay w r) (next_backoff (sv_policy w) (crash_delay w r))
      (retired i q (sv_done w) (insert (rw_chan r) (sv_closed w)) w)"
proof -
  from inv q st have e: "rw_pid r = pid" "tasks_of i w = []" by (auto elim: exit_entry)
  have m: "sv_mode w = MRunning" using sup_invD(8) [OF inv _ st] by (auto simp: idle_def)
  have "ct_chan t \<noteq> rw_chan r" if t: "t \<in> set (sv_tasks w)" for t
  proof
    assume "ct_chan t = rw_chan r"
    then have "ct_id t = i" using sup_invD(4) [OF inv task_chan [OF inv t], of i] st by simp
    with t e(2) show False by (auto simp: tasks_of_def filter_empty_conv)
  qed
  then have "filter (\<lambda>t. ct_chan t \<noteq> rw_chan r) (sv_tasks w) = sv_tasks w" by (auto simp: filter_id_conv)
  then have "drop_state (Running r) (take_child i (w\<lparr>sv_queue := q\<rparr>)) =
      retired i q (sv_done w) (insert (rw_chan r) (sv_closed w)) w"
    by (intro supervisor.equality) (simp_all add: take_child_def retired_def)
  with st e(1) m show ?thesis by (simp add: handle_exit_def crash_delay_def Let_def del: drop_state.simps)
qed

lemma handle_exit_stopping:
  assumes "sv_children w i = Some (Stopping s)"
  shows "handle_exit i pid (w\<lparr>sv_queue := q\<rparr>) = Some (retired i q (insert (sw_chan s) (sv_done w)) (sv_closed w) w)"
  using assms by (simp add: handle_exit_def take_child_def retired_def)

lemma handle_exit_inv:
  assumes inv: "sup_inv w" and q: "sv_queue w = Exit i pid # q"
    and h: "handle_exit i pid (w\<lparr>sv_queue := q\<rparr>) = Some w'"
  shows "sup_inv w'"
  using inv q
proof (cases rule: exit_entry)
  case (running r)
  let ?w = "retired i q (sv_done w) (insert (rw_chan r) (sv_closed w)) w"
  have i: "sup_inv ?w" by (rule retired_inv [OF inv q]) (use running in auto)
  have "la_instance (rw_launch r) = i" using sup_invD(1) [OF inv, of i] running by (simp add: child_ok_def)
  then have "sv_children ?w (la_instance (rw_launch r)) = None" by (simp add: retired_def)
  with i h show ?thesis unfolding handle_exit_running [OF inv q running(1)] by (blast intro: schedule_inv)
next
  case (stopping s)
  have "sup_inv (retired i q (insert (sw_chan s) (sv_done w)) (sv_closed w) w)"
    by (rule retired_inv [OF inv q]) (use stopping in auto)
  with h stopping show ?thesis by (simp add: handle_exit_stopping)
qed

text \<open>What a start does to the state: nothing, taking the permit, or from there, with a pending entry
  dropped, a process or another pending restart.\<close>

definition vacated :: "instance_id \<Rightarrow> 'i supervisor \<Rightarrow> 'i supervisor" where
  "vacated i w = (case sv_children w i of Some (PendingRestart p) \<Rightarrow> drop_state (PendingRestart p) (take_child i w) | _ \<Rightarrow> w)"

definition launched :: "widget_launch \<Rightarrow> 'i supervisor \<Rightarrow> 'i supervisor \<Rightarrow> bool" where
  "launched launch w w' \<longleftrightarrow> (\<exists>pid b identity. w' = started pid launch b identity w) \<or>
     (\<exists>identity d n. schedule_restart launch identity d n w = Some w')"

lemma launched_inv:
  assumes "sup_inv w" "sv_children w (la_instance launch) = None" "sv_mode w = MRunning" "launched launch w w'"
  shows "sup_inv w'"
  using assms(4) started_inv [OF assms(1-3)] schedule_inv [OF assms(1,2)] unfolding launched_def by blast

lemma vacated_inv: "sup_inv w \<Longrightarrow> sup_inv (vacated i w)"
  using take_pending_inv by (auto simp: vacated_def simp del: drop_state.simps split: option.splits widget_state.splits)

lemma vacated_simps [simp]:
  "sv_mode (vacated i w) = sv_mode w" "sv_next_restart (vacated i w) = sv_next_restart w"
  "sv_prepared (vacated i w) = sv_prepared w" "sv_next_start (vacated i w) = sv_next_start w"
  by (simp_all add: vacated_def take_child_def split: option.splits widget_state.splits)

lemma start_expected_forms:
  assumes inv: "sup_inv w" and r: "start_expected registry outcome launch expected permit w = Some (r, w')"
  defines "i \<equiv> la_instance launch"
  defines "v \<equiv> vacated i (forget_permit i w)"
  obtains (refused) "sv_prepared w i \<noteq> Some permit" "r = Inl Superseded" "w' = w"
  | (taken) "sv_prepared w i = Some permit" "w' = forget_permit i w"
  | (launched) "sv_prepared w i = Some permit" "sv_mode w = MRunning" "sv_children v i = None" "launched launch v w'"
proof -
  let ?w = "forget_permit i w"
  have iw: "sup_inv ?w" using forget_inv(1) [OF inv] .
  have c: "sv_children ?w = sv_children w" "sv_mode ?w = sv_mode w" "sv_policy ?w = sv_policy w"
    by (simp_all add: forget_permit_def)
  let ?start = "\<lambda>backoff identity v. case spawn_selected_process outcome launch backoff identity v of
        (Inr _, w2) \<Rightarrow> Some (Inr (), w2)
      | (Inl e, w2) \<Rightarrow> map_option (\<lambda>w4. (Inl (SpawnPending e), w4))
          (schedule_restart launch identity backoff (next_backoff (sv_policy w2) backoff) w2)"
  have start: "launched launch u u'" if "sv_children u i = None" "?start backoff identity u = Some (x, u')" for backoff identity u x u'
    using that by (cases outcome) (auto simp: launched_def spawn_selected_eq i_def)
  consider "sv_prepared w i \<noteq> Some permit" "r = Inl Superseded" "w' = w" | "sv_prepared w i = Some permit" "w' = ?w"
    | identity where "sv_prepared w i = Some permit" "sv_mode w = MRunning" "sv_children w i = None"
        "?start (po_initial (sv_policy w)) identity ?w = Some (r, w')"
    | identity p where "sv_prepared w i = Some permit" "sv_mode w = MRunning" "sv_children w i = Some (PendingRestart p)"
        "map_option (\<lambda>(r, w2). (r, drop_state (PendingRestart p) w2)) (?start (pr_backoff p) identity (take_child i ?w)) = Some (r, w')"
    using r unfolding start_expected_def Let_def forget_permit_def [symmetric] i_def [symmetric] c
    by (auto simp del: drop_state.simps split: if_splits option.splits widget_state.splits)
  then show thesis
  proof cases
    case (3 identity)
    then have "v = ?w" using c by (simp add: v_def vacated_def)
    with 3 start [of ?w] c launched show ?thesis by simp
  next
    case (4 identity p)
    have v: "v = drop_state (PendingRestart p) (take_child i ?w)" using 4 c by (simp add: v_def vacated_def)
    have tok: "pr_token p < sv_next_restart (take_child i ?w)"
      using pending_tokens [OF iw, of i] 4 c by (simp add: take_child_def)
    have n: "sv_children (take_child i ?w) (la_instance launch) = None" and nv: "sv_children v i = None"
      by (simp_all add: v take_child_def i_def)
    have "launched launch v w'"
    proof (cases outcome)
      case (Spawned pid)
      with 4(4) show ?thesis
        by (auto simp: spawn_selected_eq [OF n] started_drop launched_def v simp del: drop_state.simps)
    next
      case (SpawnFailed e)
      let ?b = "next_backoff (sv_policy (take_child i ?w)) (pr_backoff p)"
      from SpawnFailed 4(4) obtain z where "schedule_restart launch identity (pr_backoff p) ?b (take_child i ?w) = Some z"
          "w' = drop_state (PendingRestart p) z"
        by (auto simp: spawn_selected_eq [OF n] simp del: drop_state.simps)
      then have "schedule_restart launch identity (pr_backoff p) ?b v = Some w'"
        using drop_commutes [OF tok n, of identity "pr_backoff p" ?b] by (simp add: v del: drop_state.simps)
      then show ?thesis unfolding launched_def by blast
    qed
    with 4 nv launched show ?thesis by blast
  qed (use refused taken in blast)+
qed

lemma start_expected_inv:
  assumes inv: "sup_inv w" and r: "start_expected registry outcome launch expected permit w = Some (r, w')"
  shows "sup_inv w'"
  using inv r
proof (cases rule: start_expected_forms)
  case launched
  then show ?thesis
    using launched_inv [OF vacated_inv [OF forget_inv(1) [OF inv]]] by (simp add: forget_permit_def)
qed (use inv forget_inv in auto)

text \<open>A message about a timer may be taken from the queue unless an entry waits for it.\<close>

lemma pop_inv:
  assumes inv: "sup_inv w" and q: "sv_queue w = RestartDue i token # q"
    and n: "\<not> (\<exists>p. sv_children w i = Some (PendingRestart p) \<and> pr_token p = token)"
  shows "sup_inv (w\<lparr>sv_queue := q\<rparr>)"
proof -
  have "child_ok (w\<lparr>sv_queue := q\<rparr>) j" for j
    by (rule child_ok_frame [OF sup_invD(1) [OF inv, of j]])
      (use q n in \<open>auto simp: tasks_of_def open_chan_def bind_eq_Some_conv elim!: token_of.elims\<close>)
  then show ?thesis
  proof (rule sup_invI)
    show "RestartDue a k \<in> set (sv_queue (w\<lparr>sv_queue := q\<rparr>)) \<Longrightarrow> k < sv_next_restart (w\<lparr>sv_queue := q\<rparr>)" for a k
      using sup_invD(6) [OF inv, of a k] q by simp
  qed (use sup_invD(2-5,7-9) [OF inv] in simp_all)
qed

lemma handle_restart_due_forms:
  assumes inv: "sup_inv w" and q: "sv_queue w = RestartDue i token # q"
    and h: "handle_restart_due registry outcome i token (w\<lparr>sv_queue := q\<rparr>) = Some w'"
  obtains (stale) "sup_inv (w\<lparr>sv_queue := q\<rparr>)" "w' = w\<lparr>sv_queue := q\<rparr>"
  | (due) p v where "sv_children w i = Some (PendingRestart p)" "la_instance (pr_launch p) = i" "sv_mode w = MRunning"
      "v = drop_state (PendingRestart p) (take_child i (w\<lparr>sv_queue := q\<rparr>))" "sup_inv v" "sv_children v i = None"
      "w' = v \<or> launched (pr_launch p) v w'"
proof (cases "\<exists>p. sv_children w i = Some (PendingRestart p) \<and> pr_token p = token")
  case True
  then obtain p where p: "sv_children w i = Some (PendingRestart p)" "pr_token p = token" by blast
  let ?v = "drop_state (PendingRestart p) (take_child i (w\<lparr>sv_queue := q\<rparr>))"
  have ok: "la_instance (pr_launch p) = i" "pr_token p < sv_next_restart w"
    using sup_invD(1) [OF inv, of i] p by (simp_all add: child_ok_def)
  have m: "sv_mode w = MRunning" using sup_invD(8) [OF inv _ p(1)] by (auto simp: idle_def)
  have eq: "?v = (drop_state (PendingRestart p) (take_child i w))\<lparr>sv_queue := q\<rparr>"
    by (rule supervisor.equality) (simp_all add: take_child_def)
  have v: "sup_inv ?v"
    unfolding eq by (rule pop_inv [OF take_pending_inv [OF inv p(1)]]) (use q in \<open>auto simp: take_child_def\<close>)
  have n: "sv_children (take_child i (w\<lparr>sv_queue := q\<rparr>)) (la_instance (pr_launch p)) = None" "sv_children ?v i = None"
    by (simp_all add: take_child_def ok)
  have tok: "pr_token p < sv_next_restart (take_child i (w\<lparr>sv_queue := q\<rparr>))" using ok by (simp add: take_child_def)
  have drop: "schedule_restart (pr_launch p) a b c ?v = Some (drop_state (PendingRestart p) z)"
    if "schedule_restart (pr_launch p) a b c (take_child i (w\<lparr>sv_queue := q\<rparr>)) = Some z" for a b c z
    using drop_commutes [OF tok n(1), of a b c] that by (simp del: drop_state.simps)
  have "w' = ?v \<or> launched (pr_launch p) ?v w'"
    using h p m n(1) unfolding launched_def
    by (cases outcome)
      (auto simp: handle_restart_due_def take_pending_restart_def spawn_selected_eq started_drop
        simp del: drop_state.simps dest!: drop split: option.splits if_splits)
  with due [OF p(1) ok(1) m refl v n(2)] show thesis .
next
  case False
  then have "w' = w\<lparr>sv_queue := q\<rparr>"
    using h by (auto simp: handle_restart_due_def take_pending_restart_def split: option.splits widget_state.splits if_splits)
  then show ?thesis using stale pop_inv [OF inv q] False by blast
qed

lemma handle_restart_due_inv:
  assumes inv: "sup_inv w" and q: "sv_queue w = RestartDue i token # q"
    and h: "handle_restart_due registry outcome i token (w\<lparr>sv_queue := q\<rparr>) = Some w'"
  shows "sup_inv w'"
  using assms
proof (cases rule: handle_restart_due_forms)
  case (due p v)
  have "sv_mode v = MRunning" using due(3,4) by (simp add: take_child_def)
  with due launched_inv [OF due(5), of "pr_launch p" w'] show ?thesis by metis
qed simp

lemma child_ends_inv:
  assumes inv: "sup_inv w" and t: "t \<in> set (sv_tasks w)"
  shows "sup_inv (w\<lparr>sv_tasks := filter (\<lambda>u. ct_chan u \<noteq> ct_chan t) (sv_tasks w),
    sv_queue := sv_queue w @ [Exit (ct_id t) (ct_pid t)]\<rparr>)"
proof -
  let ?w = "w\<lparr>sv_tasks := filter (\<lambda>u. ct_chan u \<noteq> ct_chan t) (sv_tasks w), sv_queue := sv_queue w @ [Exit (ct_id t) (ct_pid t)]\<rparr>"
  have other: "ct_chan u = ct_chan t \<longleftrightarrow> ct_id u = ct_id t" if u: "u \<in> set (sv_tasks w)" for u
    using sup_invD(4) [OF inv task_chan [OF inv u], of "ct_id t"] task_chan [OF inv t] task_chan [OF inv u] by auto
  have "tasks_of j ?w = (if j = ct_id t then [] else tasks_of j w)" for j
    by (auto simp: tasks_of_def filter_empty_conv other conj_commute intro!: filter_cong)
  moreover have "tasks_of (ct_id t) w = [t] \<and> exits (ct_id t) (sv_queue w) = []"
  proof (rule load_one_task)
    show "load (ct_id t) w = 1" using inv t sup_invD(1) [OF inv, of "ct_id t"] by (cases rule: task_entry) (simp_all add: child_ok_def)
  qed (use t in \<open>simp add: tasks_of_def\<close>)
  ultimately have "child_ok ?w j" for j
    using sup_invD(1) [OF inv, of j]
    by (cases "j = ct_id t") (auto simp: child_ok_def load_def open_chan_def split: option.splits widget_state.splits)
  then show ?thesis by (rule sup_invI) (use sup_invD(2-9) [OF inv] in \<open>simp_all, blast?\<close>)
qed

lemma timer_fires_inv:
  assumes inv: "sup_inv w" and t: "t \<in> set (sv_timers w)"
  shows "sup_inv (w\<lparr>sv_timers := filter (\<lambda>u. rt_token u \<noteq> rt_token t) (sv_timers w),
    sv_queue := sv_queue w @ [RestartDue (rt_id t) (rt_token t)]\<rparr>)"
proof -
  let ?w = "w\<lparr>sv_timers := filter (\<lambda>u. rt_token u \<noteq> rt_token t) (sv_timers w), sv_queue := sv_queue w @ [RestartDue (rt_id t) (rt_token t)]\<rparr>"
  have own: "rt_id t = j" if "Option.bind (sv_children w j) token_of = Some (rt_token t)" for j
    using sup_invD(5) [OF inv sup_invD(3) [OF inv t] that] .
  have "child_ok ?w j" for j
    by (rule child_ok_frame [OF sup_invD(1) [OF inv, of j]]) (use own in \<open>auto simp: tasks_of_def open_chan_def\<close>)
  then show ?thesis
  proof (rule sup_invI)
    show "RestartDue a k \<in> set (sv_queue ?w) \<Longrightarrow> k < sv_next_restart ?w" for a k
      using sup_invD(6) [OF inv, of a k] timer_tokens [OF inv t] by auto
  qed (use sup_invD(2-5,7-9) [OF inv] in simp_all)
qed

lemma prepare_start_inv:
  assumes inv: "sup_inv w" and p: "prepare_start i m w = Some (r, w')"
  shows "sup_inv w'"
proof -
  have "child_ok (w\<lparr>sv_next_start := n, sv_prepared := f\<rparr>) j = child_ok w j" for f j n
    by (simp add: child_ok_def load_def tasks_of_def open_chan_def cong: option.case_cong widget_state.case_cong)
  then show ?thesis
    using inv p by (auto simp: sup_inv_def prepare_start_def Let_def less_SucI split: if_splits)
qed

lemma resume_inv:
  assumes inv: "sup_inv w" shows "sup_inv (snd (resume w))"
proof -
  have "child_ok (w\<lparr>sv_mode := m\<rparr>) j = child_ok w j" for m j
    by (simp add: child_ok_def load_def tasks_of_def open_chan_def cong: option.case_cong widget_state.case_cong)
  then show ?thesis using inv by (auto simp: sup_inv_def resume_def)
qed

lemma passes_inv:
  assumes inv: "sup_inv w" shows "sup_inv (w\<lparr>sv_now := t\<rparr>)"
proof -
  have "child_ok (w\<lparr>sv_now := t\<rparr>) j = child_ok w j" for j
    by (simp add: child_ok_def load_def tasks_of_def open_chan_def cong: option.case_cong widget_state.case_cong)
  then show ?thesis using inv by (auto simp: sup_inv_def)
qed

lemma sup_step_inv:
  assumes "visits_each_key iter" "sup_inv w" "sup_step iter w l w'" shows "sup_inv w'"
  using assms(3,2)
proof (cases rule: sup_step.cases)
  case (stop i r)
  with stop_child_inv [OF forget_inv(1) [OF assms(2)], of i i] show ?thesis by (metis snd_conv)
next
  case (pause ids chans)
  with transition_inv [OF forget_inv(2) [OF assms(2)] assms(1)] show ?thesis by (metis snd_conv)
next
  case (shutdown ids chans)
  with transition_inv [OF forget_inv(2) [OF assms(2)] assms(1)] show ?thesis by (metis snd_conv)
next
  case (resume m)
  with resume_inv [OF assms(2)] show ?thesis by (metis snd_conv)
next
  case refreshed
  then show ?thesis using retry_all_inv assms(2) by (auto simp: reset_restart_backoff_def split: if_splits)
next
  case (prepare i m r)
  then show ?thesis using prepare_start_inv [OF assms(2)] by blast
next
  case (spawn registry outcome launch identity permit r)
  then show ?thesis using start_expected_inv [OF assms(2)] by blast
next
  case (retry i b)
  then show ?thesis using retry_inv [OF assms(2)] by blast
next
  case (exit i pid q)
  then show ?thesis using handle_exit_inv [OF assms(2)] by blast
next
  case (restart_due i token q outcome registry)
  then show ?thesis using handle_restart_due_inv [OF assms(2)] by blast
next
  case (child_ends t)
  then show ?thesis using child_ends_inv [OF assms(2)] by blast
next
  case (timer_fires t)
  then show ?thesis using timer_fires_inv [OF assms(2)] by blast
next
  case (passes d)
  then show ?thesis using passes_inv [OF assms(2)] by blast
qed

end
