(* ===== verification/Supervisor_Props.thy ===== *)
theory Supervisor_Props
  imports Supervisor_Inv
begin

text \<open>
  Properties of the supervisor over all interleavings of commands, ending processes and timers: one
  process per widget, what is stopped stays stopped, terminations are reported when and only when
  the process has ended, permits lose their force, and restarts back off.
\<close>

interpretation sup: invariant_system "\<lambda>w. visits_each_key iter \<and> sup_inv w" "sup_step iter" for iter
  by unfold_locales (auto intro: sup_step_inv)

lemma reachable_inv:
  assumes "visits_each_key iter" "trace (sup_step iter) (supervisor_new p) ls w"
  shows "sup_inv w"
  using sup.trace_inv [OF assms(2)] assms(1) sup_inv_new by blast

section \<open>What a step leaves alone\<close>

text \<open>From \<open>w\<close> to \<open>w'\<close> no stopping widget changes and no absent one, other than those of \<open>A\<close>, appears;
  channels only ever get used up, and a new process has a new one.\<close>

definition calm :: "instance_id set \<Rightarrow> 'i supervisor \<Rightarrow> 'i supervisor \<Rightarrow> bool" where
  "calm A w w' \<longleftrightarrow>
     (\<forall>j s. sv_children w j = Some (Stopping s) \<longrightarrow> sv_children w' j = Some (Stopping s)) \<and>
     (\<forall>j. sv_children w j = None \<longrightarrow> j \<notin> A \<longrightarrow> sv_children w' j = None) \<and>
     sv_done w' = sv_done w \<and> sv_closed w' = sv_closed w \<and> sv_next_chan w \<le> sv_next_chan w' \<and>
     ct_chan ` set (sv_tasks w') \<subseteq> ct_chan ` set (sv_tasks w) \<union> {sv_next_chan w..}"

lemma calmD:
  assumes "calm A w w'"
  shows "sv_children w j = Some (Stopping s) \<Longrightarrow> sv_children w' j = Some (Stopping s)"
    "sv_children w j = None \<Longrightarrow> j \<notin> A \<Longrightarrow> sv_children w' j = None"
    "sv_done w' = sv_done w" "sv_closed w' = sv_closed w" "sv_next_chan w \<le> sv_next_chan w'"
    "ct_chan ` set (sv_tasks w') \<subseteq> ct_chan ` set (sv_tasks w) \<union> {sv_next_chan w..}"
  using assms by (simp_all add: calm_def)

lemma calm_refl [simp]: "calm A w w"
  by (simp add: calm_def)

lemma calm_trans:
  assumes "calm A w w1" "calm A w1 w2" shows "calm A w w2"
proof -
  note a = calmD [OF assms(1)] and b = calmD [OF assms(2)]
  have "ct_chan ` set (sv_tasks w1) \<union> {sv_next_chan w1..} \<subseteq> ct_chan ` set (sv_tasks w) \<union> {sv_next_chan w..}"
    using a(5,6) by (auto 0 3)
  from order_trans [OF b(6) this] order_trans [OF a(5) b(5)] a(1-4) b(1-4) show ?thesis
    unfolding calm_def by simp
qed

lemma calm_same:
  assumes "sv_children w' = sv_children w" "sv_done w' = sv_done w" "sv_closed w' = sv_closed w"
    "sv_next_chan w' = sv_next_chan w" "set (sv_tasks w') \<subseteq> set (sv_tasks w)"
  shows "calm A w w'"
  using assms by (auto simp: calm_def)

lemma calm_scheduled:
  "sv_children w (la_instance launch) = None \<Longrightarrow> la_instance launch \<in> A \<Longrightarrow> calm A w (scheduled launch identity d n w)"
  by (auto simp: calm_def scheduled_def)

lemma calm_started:
  "sv_children w (la_instance launch) = None \<Longrightarrow> la_instance launch \<in> A \<Longrightarrow> calm A w (started pid launch b identity w)"
  by (auto simp: calm_def started_def)

lemma calm_take_pending:
  "sv_children w i = Some (PendingRestart p) \<Longrightarrow> calm A w (drop_state (PendingRestart p) (take_child i w))"
  by (auto simp: calm_def take_child_def)

text \<open>A widget that waits for its restart is replaced in the absence of other changes.\<close>

lemma calm_replace:
  assumes "sv_children w i = Some (PendingRestart p)" "calm {i} (drop_state (PendingRestart p) (take_child i w)) w'"
  shows "calm A w w'"
proof -
  have c: "sv_children (drop_state (PendingRestart p) (take_child i w)) = (sv_children w)(i := None)"
    by (simp add: take_child_def)
  have "sv_children w' j = None" if "sv_children w j = None" for j
    using calmD(2) [OF assms(2), of j] c assms(1) that by (cases "j = i") auto
  moreover have "sv_children w' j = Some (Stopping s)" if "sv_children w j = Some (Stopping s)" for j s
    using calmD(1) [OF assms(2), of j s] c assms(1) that by (cases "j = i") auto
  ultimately show ?thesis using calmD(3-6) [OF assms(2)] by (simp add: calm_def take_child_def)
qed

lemma calm_schedule:
  assumes "schedule_restart launch identity d n w = Some w'" "sv_children w (la_instance launch) = None" "la_instance launch \<in> A"
  shows "calm A w w'"
  using assms calm_scheduled by (auto simp: schedule_restart_eq split: if_splits)

lemma calm_launched:
  assumes "launched launch w w'" "sv_children w (la_instance launch) = None" "la_instance launch \<in> A"
  shows "calm A w w'"
  using assms(1) calm_started [OF assms(2,3)] calm_schedule [OF _ assms(2,3)] unfolding launched_def by blast

lemma calm_retry:
  assumes inv: "sup_inv w" and r: "retry_pending i w = Some (b, w')" shows "calm A w w'"
proof (cases "\<exists>p. sv_children w i = Some (PendingRestart p)")
  case True
  then obtain p where p: "sv_children w i = Some (PendingRestart p)" by blast
  then have ok: "la_instance (pr_launch p) = i" "pr_token p < sv_next_restart w" "sv_mode w = MRunning"
    using sup_invD(1) [OF inv, of i] sup_invD(8) [OF inv _ p] by (auto simp: child_ok_def idle_def)
  have "schedule_restart (pr_launch p) (pr_identity p) (po_initial (sv_policy w)) (pr_backoff p)
      (drop_state (PendingRestart p) (take_child i w)) = Some w'"
    using r p ok insert_commutes [of w "pr_launch p" p] by (auto simp: retry_pending_def)
  moreover have "sv_children (drop_state (PendingRestart p) (take_child i w)) (la_instance (pr_launch p)) = None"
    by (simp add: take_child_def ok)
  ultimately have "calm {i} (drop_state (PendingRestart p) (take_child i w)) w'" using ok(1) by (intro calm_schedule) simp_all
  with p show ?thesis by (rule calm_replace)
next
  case False
  then have "w' = w" using r by (auto simp: retry_pending_def split: option.splits widget_state.splits)
  then show ?thesis by simp
qed

lemma calm_retry_all: "sup_inv w \<Longrightarrow> retry_all is w = Some w' \<Longrightarrow> calm A w w'"
proof (induction "is" arbitrary: w)
  case (Cons i "is")
  then obtain b w1 where "retry_pending i w = Some (b, w1)" "retry_all is w1 = Some w'" by (auto split: option.splits)
  with Cons calm_retry retry_inv calm_trans show ?case by blast
qed simp

lemma stop_tasks_chans: "ct_chan ` set (stop_tasks cs ts) = ct_chan ` set ts"
proof -
  have "map ct_chan (stop_tasks cs ts) = map ct_chan ts" by (simp add: stop_tasks_def)
  then show ?thesis by (metis list.set_map)
qed

lemma calm_stopping_all: "calm B w ((stopping_all A w)\<lparr>sv_mode := m\<rparr>)"
proof -
  have "ct_chan ` set (sv_tasks ((stopping_all A w)\<lparr>sv_mode := m\<rparr>)) = ct_chan ` set (sv_tasks w)"
    by (simp add: stopping_all_def stop_tasks_chans)
  then show ?thesis unfolding calm_def by (simp add: stopping_all_def)
qed

lemma stop_child_forms:
  assumes inv: "sup_inv w" and s: "stop_child i w = (r, w')"
  obtains (idle) "r = None" "sv_children w i = None" "w' = w"
  | (running) rw where "sv_children w i = Some (Running rw)" "r = Some (rw_chan rw)" "w' = stopping_all {i} w"
  | (stopping) sw where "sv_children w i = Some (Stopping sw)" "r = Some (sw_chan sw)" "w' = w"
  | (pending) p where "sv_children w i = Some (PendingRestart p)" "r = None" "w' = drop_state (PendingRestart p) (take_child i w)"
proof (cases "sv_children w i")
  case None
  show thesis by (rule idle) (use s None in \<open>simp_all add: stop_child_def\<close>)
next
  case (Some st)
  show thesis
  proof (cases st)
    case (Running rw)
    show thesis
      by (rule running [of rw]) (use s Some Running begin_stop_eq [OF inv, of i rw] in \<open>simp_all add: stop_child_def\<close>)
  next
    case (Stopping sw)
    show thesis by (rule stopping [of sw]) (use s Some Stopping in \<open>simp_all add: stop_child_def\<close>)
  next
    case (PendingRestart p)
    show thesis
      by (rule pending [of p]) (use s Some PendingRestart in \<open>simp_all add: stop_child_def del: drop_state.simps\<close>)
  qed
qed

definition spawned_ids :: "'i supervisor \<Rightarrow> ('i, 'e) label \<Rightarrow> instance_id set" where
  "spawned_ids w l = (case l of Spawn launch _ _ _ \<Rightarrow> if sv_mode w = MRunning then {la_instance launch} else {} | _ \<Rightarrow> {})"

lemma calm_forget [simp]: "calm A (forget_permit i w) w' = calm A w w'" "calm A (forget_permits w) w' = calm A w w'"
  by (simp_all add: calm_def forget_permit_def forget_permits_def)

lemma calm_vacated:
  assumes c: "calm {i} (vacated i w) w'" shows "calm {i} w w'"
proof (cases "\<exists>p. sv_children w i = Some (PendingRestart p)")
  case True
  then obtain p where p: "sv_children w i = Some (PendingRestart p)" by blast
  with c have "calm {i} (drop_state (PendingRestart p) (take_child i w)) w'" by (simp add: vacated_def del: drop_state.simps)
  with p show ?thesis by (rule calm_replace)
next
  case False
  then have "vacated i w = w" by (auto simp: vacated_def split: option.splits widget_state.splits)
  with c show ?thesis by simp
qed

lemma calm_start:
  assumes inv: "sup_inv w" and r: "start_expected registry outcome launch expected permit w = Some (r, w')"
  shows "calm (spawned_ids w (Spawn launch expected permit r)) w w'"
  using assms
proof (cases rule: start_expected_forms)
  case taken
  then show ?thesis by (auto simp: forget_permit_def intro: calm_same)
next
  case launched
  from launched(4,3) have "calm {la_instance launch} (vacated (la_instance launch) (forget_permit (la_instance launch) w)) w'"
    by (rule calm_launched) simp
  then have "calm {la_instance launch} (forget_permit (la_instance launch) w) w'" by (rule calm_vacated)
  then show ?thesis using launched(2) by (simp add: spawned_ids_def)
qed simp

lemma calm_due:
  assumes inv: "sup_inv w" and q: "sv_queue w = RestartDue i token # q"
    and h: "handle_restart_due registry outcome i token (w\<lparr>sv_queue := q\<rparr>) = Some w'"
  shows "calm A w w'"
proof -
  have pop: "calm A w (w\<lparr>sv_queue := q\<rparr>)" by (rule calm_same) simp_all
  from assms show ?thesis
  proof (cases rule: handle_restart_due_forms)
    case stale
    with pop show ?thesis by simp
  next
    case (due p v)
    have "calm {i} v w'" using due calm_launched [of "pr_launch p" v w' "{i}"] by auto
    then have "calm A (w\<lparr>sv_queue := q\<rparr>) w'"
      using due calm_replace [of "w\<lparr>sv_queue := q\<rparr>" i p w' A] by (simp del: drop_state.simps)
    with pop calm_trans show ?thesis by blast
  qed
qed

lemma step_calm:
  assumes iter: "visits_each_key iter" and inv: "sup_inv w" and step: "sup_step iter w l w'"
    and l: "\<And>i pid. l \<noteq> Receive (Exit i pid)"
  shows "calm (spawned_ids w l) w w'"
  using step
proof (cases rule: sup_step.cases)
  case (prepare i m r)
  then show ?thesis by (intro calm_same) (auto simp: prepare_start_def Let_def split: if_splits)
next
  case (spawn registry outcome launch identity permit r)
  with calm_start [OF inv] show ?thesis by blast
next
  case (stop i r)
  have "calm (spawned_ids w l) (forget_permit i w) w'"
    using forget_inv(1) [OF inv] stop(2)
  proof (cases rule: stop_child_forms)
    case (running rw)
    have "(stopping_all {i} (forget_permit i w))\<lparr>sv_mode := sv_mode w\<rparr> = stopping_all {i} (forget_permit i w)"
      by (simp add: stopping_all_def forget_permit_def)
    with running calm_stopping_all show ?thesis by metis
  next
    case (pending p)
    with calm_take_pending show ?thesis by blast
  qed simp_all
  then show ?thesis by simp
next
  case (pause ids chans)
  have "calm (spawned_ids w l) (forget_permits w) w'"
    using pause(2) calm_stopping_all [of _ "forget_permits w"] transition_eq [OF forget_inv(2) [OF inv] iter refl, of MPaused]
    by (simp only: prod.inject) metis
  then show ?thesis by simp
next
  case (shutdown ids chans)
  have "calm (spawned_ids w l) (forget_permits w) w'"
    using shutdown(2) calm_stopping_all [of _ "forget_permits w"] transition_eq [OF forget_inv(2) [OF inv] iter refl, of MShuttingDown]
    by (simp only: prod.inject) metis
  then show ?thesis by simp
next
  case (resume m)
  then show ?thesis by (intro calm_same) (auto simp: resume_def split: if_splits)
next
  case (retry i b)
  with calm_retry [OF inv] show ?thesis by blast
next
  case refreshed
  then show ?thesis using calm_retry_all [OF inv] by (auto simp: reset_restart_backoff_def split: if_splits)
next
  case (restart_due i token q outcome registry)
  with calm_due [OF inv] show ?thesis by blast
qed (use l in \<open>auto intro!: calm_same\<close>)

text \<open>The report of an ended process, the only step that changes a stopping entry.\<close>

lemma exit_step:
  assumes inv: "sup_inv w" and step: "sup_step iter w (Receive (Exit i pid)) w'"
  obtains (crashed) r q where "sv_queue w = Exit i pid # q" "sv_children w i = Some (Running r)"
      "schedule_restart (rw_launch r) (rw_identity r) (crash_delay w r) (next_backoff (sv_policy w) (crash_delay w r))
        (retired i q (sv_done w) (insert (rw_chan r) (sv_closed w)) w) = Some w'"
      "la_instance (rw_launch r) = i" "sv_mode w = MRunning"
  | (ended) s q where "sv_queue w = Exit i pid # q" "sv_children w i = Some (Stopping s)" "tasks_of i w = []"
      "w' = retired i q (insert (sw_chan s) (sv_done w)) (sv_closed w) w"
proof -
  from step obtain q where q: "sv_queue w = Exit i pid # q" and h: "handle_exit i pid (w\<lparr>sv_queue := q\<rparr>) = Some w'"
    by (auto elim: sup_step.cases)
  from inv q show thesis
  proof (cases rule: exit_entry)
    case (running r)
    have "sv_mode w = MRunning" using sup_invD(8) [OF inv _ running(1)] by (auto simp: idle_def)
    moreover have "la_instance (rw_launch r) = i" using sup_invD(1) [OF inv, of i] running by (simp add: child_ok_def)
    ultimately show thesis using crashed [OF q running(1)] h handle_exit_running [OF inv q running(1)] by simp
  next
    case (stopping s)
    show thesis by (rule ended [OF q stopping(1,2)]) (use h stopping in \<open>simp add: handle_exit_stopping\<close>)
  qed
qed

lemma retired_simps [simp]:
  "sv_children (retired i q d c w) = (sv_children w)(i := None)" "sv_done (retired i q d c w) = d"
  "sv_closed (retired i q d c w) = c" "sv_tasks (retired i q d c w) = sv_tasks w" "sv_mode (retired i q d c w) = sv_mode w"
  "sv_next_chan (retired i q d c w) = sv_next_chan w" "sv_next_restart (retired i q d c w) = sv_next_restart w"
  "sv_now (retired i q d c w) = sv_now w" "sv_policy (retired i q d c w) = sv_policy w"
  "sv_prepared (retired i q d c w) = sv_prepared w" "sv_next_start (retired i q d c w) = sv_next_start w"
  by (simp_all add: retired_def)

lemma scheduled_simps [simp]:
  "sv_done (scheduled l x d n w) = sv_done w" "sv_closed (scheduled l x d n w) = sv_closed w"
  "sv_tasks (scheduled l x d n w) = sv_tasks w" "sv_mode (scheduled l x d n w) = sv_mode w"
  "sv_next_chan (scheduled l x d n w) = sv_next_chan w" "sv_now (scheduled l x d n w) = sv_now w"
  "sv_policy (scheduled l x d n w) = sv_policy w" "sv_queue (scheduled l x d n w) = sv_queue w"
  "sv_prepared (scheduled l x d n w) = sv_prepared w" "sv_next_start (scheduled l x d n w) = sv_next_start w"
  by (simp_all add: scheduled_def)

section \<open>What is stopped\<close>

text \<open>The life of a termination channel once a stop was requested: its widget is stopping and the task
  asked to stop, until the end of the process is handled and reported.\<close>

definition terminating :: "instance_id \<Rightarrow> nat \<Rightarrow> 'i supervisor \<Rightarrow> bool" where
  "terminating i c w \<longleftrightarrow> (\<exists>s. sv_children w i = Some (Stopping s) \<and> sw_chan s = c)"

definition reported :: "nat \<Rightarrow> 'i supervisor \<Rightarrow> bool" where
  "reported c w \<longleftrightarrow> c \<in> sv_done w \<and> c \<notin> sv_closed w \<and> c < sv_next_chan w \<and> c \<notin> ct_chan ` set (sv_tasks w)"

lemma crash_step:
  assumes "schedule_restart (rw_launch r) x d n (retired i q (sv_done w) (insert (rw_chan r) (sv_closed w)) w) = Some w'"
    "la_instance (rw_launch r) = i" "sv_mode w = MRunning"
  shows "w' = scheduled (rw_launch r) x d n (retired i q (sv_done w) (insert (rw_chan r) (sv_closed w)) w)"
  using assms by (auto simp: schedule_restart_eq split: if_splits)

lemma reported_step:
  assumes iter: "visits_each_key iter" and inv: "sup_inv w" and step: "sup_step iter w l w'" and c: "reported c w"
  shows "reported c w'"
proof (cases "\<exists>i pid. l = Receive (Exit i pid)")
  case True
  then obtain i pid where l: "l = Receive (Exit i pid)" by blast
  from inv step [unfolded l] show ?thesis
  proof (cases rule: exit_step)
    case (crashed r q)
    have "rw_chan r \<noteq> c" using child_chans [OF inv, of i "rw_chan r"] crashed(2) c by (auto simp: reported_def open_chan_def)
    with c crash_step [OF crashed(3-5)] show ?thesis by (simp add: reported_def)
  next
    case (ended s q)
    with c show ?thesis by (simp add: reported_def)
  qed
next
  case False
  then have "calm (spawned_ids w l) w w'" using step_calm [OF iter inv step] by blast
  from calmD(3-6) [OF this] c show ?thesis by (auto simp: reported_def)
qed

lemma terminating_step:
  assumes iter: "visits_each_key iter" and inv: "sup_inv w" and step: "sup_step iter w l w'" and c: "terminating i c w"
  shows "terminating i c w' \<or> reported c w' \<and> sv_children w' i = None"
proof (cases "\<exists>i pid. l = Receive (Exit i pid)")
  case True
  then obtain j pid where l: "l = Receive (Exit j pid)" by blast
  from c obtain s where s: "sv_children w i = Some (Stopping s)" "sw_chan s = c" by (auto simp: terminating_def)
  from inv step [unfolded l] show ?thesis
  proof (cases rule: exit_step)
    case (crashed r q)
    with s have "j \<noteq> i" by auto
    with s crashed(4) crash_step [OF crashed(3-5)] show ?thesis by (simp add: terminating_def scheduled_def)
  next
    case (ended sw q)
    have open_c: "open_chan w c" using child_chans [OF inv, of i c] s by simp
    have "c \<notin> ct_chan ` set (sv_tasks w)" if "j = i"
    proof
      assume "c \<in> ct_chan ` set (sv_tasks w)"
      then obtain t where t: "t \<in> set (sv_tasks w)" "ct_chan t = c" by blast
      then have "ct_id t = i" using sup_invD(4) [OF inv task_chan [OF inv t(1)], of i] s by simp
      with t(1) ended(3) that show False by (auto simp: tasks_of_def filter_empty_conv)
    qed
    with s ended open_c show ?thesis by (cases "j = i") (auto simp: terminating_def reported_def open_chan_def)
  qed
next
  case False
  then have "calm (spawned_ids w l) w w'" using step_calm [OF iter inv step] by blast
  from calmD(1) [OF this] c show ?thesis by (auto simp: terminating_def)
qed

lemma absent_step:
  assumes iter: "visits_each_key iter" and inv: "sup_inv w" and step: "sup_step iter w l w'"
    and c: "sv_children w i = None" "i \<notin> spawned_ids w l"
  shows "sv_children w' i = None"
proof (cases "\<exists>i pid. l = Receive (Exit i pid)")
  case True
  then obtain j pid where l: "l = Receive (Exit j pid)" by blast
  from inv step [unfolded l] show ?thesis
  proof (cases rule: exit_step)
    case (crashed r q)
    then show ?thesis using c(1) crash_step [OF crashed(3-5)] by (auto simp: scheduled_def)
  qed (use c(1) in simp)
next
  case False
  then have "calm (spawned_ids w l) w w'" using step_calm [OF iter inv step] by blast
  from calmD(2) [OF this c] show ?thesis .
qed

lemma stop_step:
  assumes inv: "sup_inv w" and step: "sup_step iter w (Stop i r) w'"
  shows "(r = None \<and> sv_children w' i = None) \<or> (\<exists>c. r = Some c \<and> terminating i c w')"
proof -
  from step have "stop_child i (forget_permit i w) = (r, w')" by (auto elim: sup_step.cases)
  with forget_inv(1) [OF inv] show ?thesis
    by (cases rule: stop_child_forms) (auto simp: terminating_def stopping_all_def stopped_def take_child_def)
qed

text \<open>A widget that holds no process, or a stopping one with channel \<open>c\<close>, has no other task.\<close>

lemma down_tasks:
  assumes inv: "sup_inv w" and d: "sv_children w i = None \<or> (\<exists>c. r = Some c \<and> terminating i c w)"
  shows "\<forall>t \<in> set (sv_tasks w). ct_id t = i \<longrightarrow> ct_stop t \<and> r = Some (ct_chan t)"
    and "\<forall>t \<in> set (sv_timers w). rt_id t \<noteq> i"
proof -
  show "\<forall>t \<in> set (sv_tasks w). ct_id t = i \<longrightarrow> ct_stop t \<and> r = Some (ct_chan t)"
  proof (intro ballI impI)
    fix t assume t: "t \<in> set (sv_tasks w)" and i: "ct_id t = i"
    from inv t show "ct_stop t \<and> r = Some (ct_chan t)" by (cases rule: task_entry) (use d i in \<open>auto simp: terminating_def\<close>)
  qed
  show "\<forall>t \<in> set (sv_timers w). rt_id t \<noteq> i"
    using sup_invD(3) [OF inv] d by (fastforce simp: terminating_def)
qed

lemma down_keeps:
  assumes iter: "visits_each_key iter" and inv: "sup_inv w0" and run: "trace (sup_step iter) w0 ls w"
    and d: "sv_children w0 i = None \<or> (\<exists>c. r = Some c \<and> terminating i c w0)"
    and ls: "\<forall>launch identity permit reply. Spawn launch identity permit reply \<in> set ls \<longrightarrow> la_instance launch \<noteq> i"
  shows "sv_children w i = None \<or> (\<exists>c. r = Some c \<and> terminating i c w)"
proof (rule sup.trace_keeps [where P = "\<lambda>w. sv_children w i = None \<or> (\<exists>c. r = Some c \<and> terminating i c w)", OF run _ d])
  show "visits_each_key iter \<and> sup_inv w0" using iter inv ..
  show "set ls \<subseteq> {l. \<forall>w. i \<notin> spawned_ids w l}" using ls by (auto simp: spawned_ids_def split: label.splits if_splits)
  show "sv_children u' i = None \<or> (\<exists>c. r = Some c \<and> terminating i c u')"
    if "visits_each_key iter \<and> sup_inv u" "sv_children u i = None \<or> (\<exists>c. r = Some c \<and> terminating i c u)"
      "l \<in> {l. \<forall>w. i \<notin> spawned_ids w l}" "sup_step iter u l u'" for u l u'
    using that absent_step [of iter u l u' i] terminating_step [of iter u l u' i] by blast
qed

lemma termination_keeps:
  assumes iter: "visits_each_key iter" and inv: "sup_inv w0" and run: "trace (sup_step iter) w0 ls w"
    and d: "terminating i c w0 \<or> reported c w0"
  shows "terminating i c w \<or> reported c w"
proof (rule sup.trace_keeps [where P = "\<lambda>w. terminating i c w \<or> reported c w", OF run _ d subset_UNIV])
  show "visits_each_key iter \<and> sup_inv w0" using iter inv ..
qed (use reported_step terminating_step in blast)

section \<open>Modes\<close>

lemma launched_same:
  assumes "launched launch w w'" "sv_children w (la_instance launch) = None"
  shows "sv_mode w' = sv_mode w" "sv_prepared w' = sv_prepared w" "sv_next_start w' = sv_next_start w"
  using assms by (auto simp: launched_def started_def schedule_restart_eq split: if_splits)

lemma drop_same [simp]:
  "sv_mode (drop_state st w) = sv_mode w" "sv_prepared (drop_state st w) = sv_prepared w"
  "sv_next_start (drop_state st w) = sv_next_start w"
  by (cases st; simp)+

lemma retry_same:
  assumes "retry_pending i w = Some (b, w')"
  shows "sv_mode w' = sv_mode w \<and> sv_prepared w' = sv_prepared w \<and> sv_next_start w' = sv_next_start w"
  using assms
  by (auto simp: retry_pending_def schedule_restart_def insert_child_def Let_def
      split: option.splits widget_state.splits if_splits)

lemma retry_all_same:
  "retry_all is w = Some w' \<Longrightarrow> sv_mode w' = sv_mode w \<and> sv_prepared w' = sv_prepared w \<and> sv_next_start w' = sv_next_start w"
  by (induction "is" arbitrary: w) (auto split: option.splits dest!: retry_same)

lemma due_same:
  assumes "sup_inv w" "sv_queue w = RestartDue i token # q"
    "handle_restart_due registry outcome i token (w\<lparr>sv_queue := q\<rparr>) = Some w'"
  shows "sv_mode w' = sv_mode w \<and> sv_prepared w' = sv_prepared w \<and> sv_next_start w' = sv_next_start w"
  using assms
proof (cases rule: handle_restart_due_forms)
  case (due p v)
  have v: "sv_mode v = sv_mode w" "sv_prepared v = sv_prepared w" "sv_next_start v = sv_next_start w"
    using due(4) by (simp_all add: take_child_def)
  from due(7) show ?thesis
  proof
    assume l: "launched (pr_launch p) v w'"
    have "sv_children v (la_instance (pr_launch p)) = None" using due by simp
    from launched_same [OF l this] v show ?thesis by simp
  qed (use v in simp)
qed simp

text \<open>Only three commands change the mode; each other step leaves the permits alone, drops one or issues a new one.\<close>

definition mode_change :: "('i, 'e) label \<Rightarrow> bool" where
  "mode_change l = (case l of Pause _ _ \<Rightarrow> True | Shutdown _ _ \<Rightarrow> True | Resume _ \<Rightarrow> True | _ \<Rightarrow> False)"

lemma start_same:
  assumes "sup_inv w" "start_expected registry outcome launch expected permit w = Some (r, w')"
  shows "sv_mode w' = sv_mode w \<and> sv_next_start w' = sv_next_start w \<and>
    (sv_prepared w (la_instance launch) \<noteq> Some permit \<longrightarrow> r = Inl Superseded \<and> w' = w) \<and>
    (sv_prepared w (la_instance launch) = Some permit \<longrightarrow> sv_prepared w' = (sv_prepared w)(la_instance launch := None))"
  using assms
proof (cases rule: start_expected_forms)
  case launched
  from launched_same [OF launched(4,3)] launched(1) show ?thesis by (simp add: forget_permit_def)
qed (auto simp: forget_permit_def)

lemma stop_same:
  assumes "sup_inv w" "stop_child i w = (r, w')"
  shows "sv_mode w' = sv_mode w \<and> sv_prepared w' = sv_prepared w \<and> sv_next_start w' = sv_next_start w"
  using assms by (cases rule: stop_child_forms) (auto simp: stopping_all_def take_child_def)

lemma transition_same:
  assumes "visits_each_key iter" "sup_inv w" "transition_and_stop iter m w = (x, w')"
  shows "sv_mode w' = (if sv_mode w = MShuttingDown then MShuttingDown else m)"
    "sv_prepared w' = sv_prepared w" "sv_next_start w' = sv_next_start w"
  using assms(3) unfolding transition_eq [OF assms(2,1) refl] by (auto simp: stopping_all_def)

lemma step_mode:
  assumes iter: "visits_each_key iter" and inv: "sup_inv w" and step: "sup_step iter w l w'"
  shows "\<not> mode_change l \<Longrightarrow> sv_mode w' = sv_mode w"
    "sv_mode w = MShuttingDown \<Longrightarrow> sv_mode w' = MShuttingDown"
    "sv_mode w \<noteq> MRunning \<Longrightarrow> l \<noteq> Resume MRunning \<Longrightarrow> sv_mode w' \<noteq> MRunning"
proof -
  note t = transition_same(1) [OF iter forget_inv(2) [OF inv]]
  have "(\<not> mode_change l \<longrightarrow> sv_mode w' = sv_mode w) \<and> (sv_mode w = MShuttingDown \<longrightarrow> sv_mode w' = MShuttingDown) \<and>
      (sv_mode w \<noteq> MRunning \<longrightarrow> l \<noteq> Resume MRunning \<longrightarrow> sv_mode w' \<noteq> MRunning)"
    using step
  proof (cases rule: sup_step.cases)
    case (prepare i m r)
    then show ?thesis by (auto simp: prepare_start_def Let_def split: if_splits)
  next
    case (spawn registry outcome launch identity permit r)
    from conjunct1 [OF start_same [OF inv spawn(2)]] show ?thesis by simp
  next
    case (stop i r)
    from conjunct1 [OF stop_same [OF forget_inv(1) [OF inv] stop(2)]] show ?thesis by (simp add: forget_permit_def)
  next
    case (pause ids chans)
    with t [of MPaused] show ?thesis by (auto simp: mode_change_def forget_permits_def)
  next
    case (shutdown ids chans)
    with t [of MShuttingDown] show ?thesis by (auto simp: mode_change_def forget_permits_def)
  next
    case (resume m)
    then show ?thesis by (auto simp: mode_change_def resume_def split: if_splits)
  next
    case (retry i b)
    with retry_same have "sv_mode w' = sv_mode w" by blast
    then show ?thesis by simp
  next
    case refreshed
    then have "sv_mode w' = sv_mode w" by (auto simp: reset_restart_backoff_def dest: retry_all_same split: if_splits)
    then show ?thesis by simp
  next
    case (exit i pid q)
    from inv step [unfolded exit(1)] have "sv_mode w' = sv_mode w"
    proof (cases rule: exit_step)
      case (crashed r q)
      then show ?thesis using crash_step [OF crashed(3-5)] by simp
    qed simp
    then show ?thesis by simp
  next
    case (restart_due i token q outcome registry)
    with due_same [OF inv] have "sv_mode w' = sv_mode w" by blast
    then show ?thesis by simp
  qed simp_all
  then show "\<not> mode_change l \<Longrightarrow> sv_mode w' = sv_mode w" "sv_mode w = MShuttingDown \<Longrightarrow> sv_mode w' = MShuttingDown"
    "sv_mode w \<noteq> MRunning \<Longrightarrow> l \<noteq> Resume MRunning \<Longrightarrow> sv_mode w' \<noteq> MRunning" by blast+
qed

section \<open>Permits\<close>

text \<open>A permit that was issued and is no longer the one on record.\<close>

definition void_permit :: "instance_id \<Rightarrow> nat \<Rightarrow> 'i supervisor \<Rightarrow> bool" where
  "void_permit i k w \<longleftrightarrow> k < sv_next_start w \<and> sv_prepared w i \<noteq> Some k"

lemma step_permits:
  assumes iter: "visits_each_key iter" and inv: "sup_inv w" and step: "sup_step iter w l w'"
  shows "sv_next_start w \<le> sv_next_start w' \<and>
    (sv_prepared w' j = None \<or> sv_prepared w' j = sv_prepared w j \<or> sv_prepared w' j = Some (sv_next_start w))"
  using step
proof (cases rule: sup_step.cases)
  case (prepare i m r)
  then show ?thesis by (auto simp: prepare_start_def Let_def split: if_splits)
next
  case (spawn registry outcome launch identity permit r)
  from start_same [OF inv spawn(2)] show ?thesis by (cases "sv_prepared w (la_instance launch) = Some permit") auto
next
  case (stop i r)
  with stop_same [OF forget_inv(1) [OF inv] stop(2)] show ?thesis by (simp add: forget_permit_def)
next
  case (pause ids chans)
  with transition_same(2,3) [OF iter forget_inv(2) [OF inv] pause(2)] show ?thesis by (simp add: forget_permits_def)
next
  case (shutdown ids chans)
  with transition_same(2,3) [OF iter forget_inv(2) [OF inv] shutdown(2)] show ?thesis by (simp add: forget_permits_def)
next
  case (resume m)
  then show ?thesis by (auto simp: resume_def split: if_splits)
next
  case (retry i b)
  from retry_same [OF retry(2)] show ?thesis by simp
next
  case refreshed
  then have "sv_prepared w' = sv_prepared w \<and> sv_next_start w' = sv_next_start w"
    by (auto simp: reset_restart_backoff_def dest: retry_all_same split: if_splits)
  then show ?thesis by simp
next
  case (exit i pid q)
  from inv step [unfolded exit(1)] have "sv_prepared w' = sv_prepared w \<and> sv_next_start w' = sv_next_start w"
  proof (cases rule: exit_step)
    case (crashed r q)
    then show ?thesis using crash_step [OF crashed(3-5)] by simp
  qed simp
  then show ?thesis by simp
next
  case (restart_due i token q outcome registry)
  with due_same [OF inv] have "sv_prepared w' = sv_prepared w \<and> sv_next_start w' = sv_next_start w" by blast
  then show ?thesis by simp
qed simp_all

lemma void_keeps:
  assumes iter: "visits_each_key iter" and inv: "sup_inv w0" and run: "trace (sup_step iter) w0 ls w"
    and d: "void_permit i k w0"
  shows "void_permit i k w"
proof (rule sup.trace_keeps [where P = "void_permit i k", OF run _ d subset_UNIV])
  show "visits_each_key iter \<and> sup_inv w0" using iter inv ..
  show "void_permit i k u'" if "visits_each_key iter \<and> sup_inv u" "void_permit i k u" "l \<in> UNIV" "sup_step iter u l u'" for u l u'
    using step_permits [of iter u l u' i] that by (auto simp: void_permit_def)
qed

text \<open>What takes a permit away.\<close>

definition revokes :: "instance_id \<Rightarrow> nat \<Rightarrow> ('i, 'e) label \<Rightarrow> bool" where
  "revokes i k l \<longleftrightarrow> (case l of
       Stop j _ \<Rightarrow> j = i
     | Pause _ _ \<Rightarrow> True
     | Shutdown _ _ \<Rightarrow> True
     | Prepare j _ (Inr k') \<Rightarrow> j = i
     | Spawn launch _ k' _ \<Rightarrow> la_instance launch = i \<and> k' = k
     | _ \<Rightarrow> False)"

lemma revoked_void:
  assumes iter: "visits_each_key iter" and inv: "sup_inv w" and step: "sup_step iter w l w'"
    and l: "revokes i k l" and k: "k < sv_next_start w"
  shows "void_permit i k w'"
  using step
proof (cases rule: sup_step.cases)
  case (prepare j m r)
  with l k show ?thesis by (auto simp: prepare_start_def revokes_def void_permit_def Let_def split: if_splits)
next
  case (spawn registry outcome launch identity permit r)
  with l have "la_instance launch = i" "permit = k" by (auto simp: revokes_def)
  with start_same [OF inv spawn(2)] k show ?thesis
    by (cases "sv_prepared w i = Some k") (auto simp: void_permit_def)
next
  case (stop j r)
  with l stop_same [OF forget_inv(1) [OF inv] stop(2)] k show ?thesis
    by (auto simp: forget_permit_def void_permit_def revokes_def)
next
  case (pause ids chans)
  with k transition_same(2,3) [OF iter forget_inv(2) [OF inv] pause(2)] show ?thesis
    by (simp add: forget_permits_def void_permit_def)
next
  case (shutdown ids chans)
  with k transition_same(2,3) [OF iter forget_inv(2) [OF inv] shutdown(2)] show ?thesis
    by (simp add: forget_permits_def void_permit_def)
qed (use l in \<open>auto simp: revokes_def\<close>)

end
