(* ===== verification/Supervisor_Thms.thy ===== *)
theory Supervisor_Thms
  imports Supervisor_Props "HOL-Library.Char_ord" "HOL-Library.List_Lexorder"
begin

text \<open>
  The theorems about the supervisor of the widget processes, each over every interleaving of its
  commands, of ending processes and of timers from the initial state, with a concrete run as witness.
\<close>

section \<open>A concrete run\<close>

definition key_order :: "(instance_id \<rightharpoonup> nat widget_state) \<Rightarrow> instance_id list" where
  "key_order m = sorted_list_of_set (dom m)"

lemma key_order_visits: "visits_each_key key_order"
  by (simp add: visits_each_key_def key_order_def)

definition clock_launch :: widget_launch where
  "clock_launch = \<lparr>la_scene = ''home'', la_instance = ''clock'', la_uid = ''org.clock'', la_display = ''wl-0''\<rparr>"

text \<open>A widget is prepared and started.\<close>

definition clock_running :: "nat supervisor" where
  "clock_running = \<lparr>sv_children = [''clock'' \<mapsto> Running \<lparr>rw_pid = 41, rw_identity = 7, rw_chan = 0, rw_launch = clock_launch,
       rw_spawned_at = 0, rw_backoff = from_secs 1\<rparr>],
     sv_prepared = (\<lambda>_. None), sv_mode = MRunning, sv_next_start = 1, sv_next_restart = 0,
     sv_policy = restart_policy_default, sv_now = 0,
     sv_tasks = [\<lparr>ct_id = ''clock'', ct_pid = 41, ct_stop = False, ct_chan = 0\<rparr>], sv_timers = [], sv_queue = [],
     sv_next_chan = 1, sv_done = {}, sv_closed = {}\<rparr>"

definition clock_prelude :: "(nat, unit) label list" where
  "clock_prelude = [Prepare ''clock'' MRunning (Inr 0), Spawn clock_launch 7 0 (Inr ())]"

lemma clock_start: "trace (sup_step key_order) (supervisor_new restart_policy_default) clock_prelude clock_running"
proof -
  let ?w = "(supervisor_new restart_policy_default :: nat supervisor)\<lparr>sv_next_start := 1, sv_prepared := [''clock'' \<mapsto> 0]\<rparr>"
  have prepared: "sup_step key_order (supervisor_new restart_policy_default) (Prepare ''clock'' MRunning (Inr 0) :: (nat, unit) label) ?w"
    by (rule sup_step.prepare) (simp add: prepare_start_def supervisor_new_def)
  have "start_expected (\<lambda>_. Some 7) (Spawned 41 :: unit spawn_outcome) clock_launch 7 0 ?w = Some (Inr (), clock_running)"
    by (simp add: start_expected_def supervisor_new_def clock_launch_def clock_running_def spawn_selected_process_def
        insert_child_def restart_policy_default_def Let_def fun_eq_iff)
  then have spawned: "sup_step key_order ?w (Spawn clock_launch 7 0 (Inr ()) :: (nat, unit) label) clock_running"
    by (rule sup_step.spawn) (simp add: fresh_pid_def supervisor_new_def)
  have "trace (sup_step key_order) (supervisor_new restart_policy_default)
      ([] @ [Prepare ''clock'' MRunning (Inr 0) :: (nat, unit) label]) ?w"
    by (rule trace_more [where step = "sup_step key_order", OF trace_start prepared])
  from trace_more [where step = "sup_step key_order", OF this spawned] show ?thesis by (simp add: clock_prelude_def)
qed

definition clock_stopping :: "nat supervisor" where
  "clock_stopping = clock_running\<lparr>sv_children := [''clock'' \<mapsto> Stopping \<lparr>sw_launch = clock_launch, sw_identity = 7, sw_chan = 0\<rparr>],
     sv_tasks := [\<lparr>ct_id = ''clock'', ct_pid = 41, ct_stop = True, ct_chan = 0\<rparr>]\<rparr>"

lemma clock_stop: "sup_step key_order clock_running (Stop ''clock'' (Some 0)) clock_stopping"
  by (rule sup_step.stop)
    (simp add: stop_child_def forget_permit_def begin_stop_def take_child_def insert_child_def clock_running_def
      clock_stopping_def fun_eq_iff)

lemma clock_pause: "sup_step key_order clock_running (Pause [''clock''] [0]) (clock_stopping\<lparr>sv_mode := MPaused\<rparr>)"
  by (rule sup_step.pause)
    (simp add: transition_and_stop_def forget_permits_def key_order_def begin_stop_def insert_child_def clock_running_def
      clock_stopping_def fun_eq_iff)

section \<open>One process per widget\<close>

lemma distinct_mapI: "(\<And>i. length (filter (\<lambda>x. f x = i) xs) \<le> 1) \<Longrightarrow> distinct (map f xs)"
proof (induction xs)
  case (Cons x xs)
  have "length (filter (\<lambda>y. f y = i) xs) \<le> 1" for i using Cons.prems [of i] by (simp split: if_splits)
  moreover have "filter (\<lambda>y. f y = f x) xs = []" using Cons.prems [of "f x"] by simp
  ultimately show ?case using Cons.IH by (auto simp: filter_empty_conv)
qed simp

text \<open>C9. One process per widget. In every reachable state of the supervisor no two tasks own a process
  of the same widget, and a process that was not asked to stop is the one its running entry names,
  which only exists while the manager is running: neither a restart that races with a new start, nor
  a pause that races with a crash, leaves a second or an unowned process.\<close>

theorem one_process_per_widget:
  assumes "visits_each_key iter" "trace (sup_step iter) (supervisor_new p) ls w"
  shows "distinct (map ct_id (sv_tasks w)) \<and>
    (\<forall>t \<in> set (sv_tasks w). \<not> ct_stop t \<longrightarrow> sv_mode w = MRunning \<and>
       (\<exists>r. sv_children w (ct_id t) = Some (Running r) \<and> rw_pid r = ct_pid t \<and> rw_chan r = ct_chan t))"
proof (intro conjI ballI impI)
  note inv = reachable_inv [OF assms]
  show "distinct (map ct_id (sv_tasks w))"
  proof (rule distinct_mapI)
    show "length (filter (\<lambda>t. ct_id t = i) (sv_tasks w)) \<le> 1" for i
      using sup_invD(1) [OF inv, of i]
      by (auto simp: child_ok_def load_def tasks_of_def split: option.splits widget_state.splits)
  qed
  fix t assume t: "t \<in> set (sv_tasks w)" and s: "\<not> ct_stop t"
  from inv t show "\<exists>r. sv_children w (ct_id t) = Some (Running r) \<and> rw_pid r = ct_pid t \<and> rw_chan r = ct_chan t"
    by (cases rule: task_entry) (use s in auto)
  then obtain r where "sv_children w (ct_id t) = Some (Running r)" by blast
  then show "sv_mode w = MRunning" using sup_invD(8) [OF inv, of "ct_id t" "Running r"] by (auto simp: idle_def)
qed

theorem one_process_per_widget_witness:
  "sv_mode clock_running = MRunning \<and> (\<exists>r. sv_children clock_running ''clock'' = Some (Running r) \<and> rw_pid r = 41)"
  using one_process_per_widget [OF key_order_visits clock_start] by (simp add: clock_running_def)

text \<open>C22. No widget is lost. In every reachable state a running entry has its live process or the report
  of its end is queued, a stopping entry has a process that was asked to stop or the report of its
  end is queued, and a crashed widget has no process but a timer for its restart, or the message of
  that timer is queued. Stale messages never take the place of the one that is needed.\<close>

theorem no_widget_is_lost:
  assumes "visits_each_key iter" "trace (sup_step iter) (supervisor_new p) ls w" "sv_children w i = Some st"
  shows "case st of
      Running r \<Rightarrow> (\<exists>t \<in> set (sv_tasks w). ct_id t = i \<and> ct_pid t = rw_pid r \<and> \<not> ct_stop t) \<or> Exit i (rw_pid r) \<in> set (sv_queue w)
    | Stopping s \<Rightarrow> (\<exists>t \<in> set (sv_tasks w). ct_id t = i \<and> ct_stop t) \<or> (\<exists>pid. Exit i pid \<in> set (sv_queue w))
    | PendingRestart q \<Rightarrow> (\<forall>t \<in> set (sv_tasks w). ct_id t \<noteq> i) \<and>
        ((\<exists>t \<in> set (sv_timers w). rt_id t = i \<and> rt_token t = pr_token q) \<or> RestartDue i (pr_token q) \<in> set (sv_queue w))"
proof -
  note ok = sup_invD(1) [OF reachable_inv [OF assms(1,2)], of i]
  have e: "\<exists>pid. m = Exit i pid \<and> m \<in> set (sv_queue w)" if "m \<in> set (exits i (sv_queue w))" for m
    using that by (auto simp: exits_def split: internal.splits)
  have one: "(\<exists>t. t \<in> set (tasks_of i w)) \<or> (\<exists>m. m \<in> set (exits i (sv_queue w)))" if "load i w = 1"
    using that by (cases "tasks_of i w"; cases "exits i (sv_queue w)") (auto simp: load_def)
  show ?thesis
  proof (cases st)
    case (Running r)
    with ok assms(3) one e show ?thesis by (fastforce simp: child_ok_def tasks_of_def)
  next
    case (Stopping s)
    with ok assms(3) one e show ?thesis by (fastforce simp: child_ok_def tasks_of_def)
  next
    case (PendingRestart q)
    with ok assms(3) show ?thesis by (auto simp: child_ok_def load_def tasks_of_def filter_empty_conv)
  qed
qed

theorem no_widget_is_lost_witness:
  "ct_id (hd (sv_tasks clock_running)) = ''clock'' \<and> \<not> ct_stop (hd (sv_tasks clock_running))"
  using no_widget_is_lost [OF key_order_visits clock_start, of "''clock''" "the (sv_children clock_running ''clock'')"]
  by (auto simp: clock_running_def)

section \<open>Stops\<close>

text \<open>C10. What is stopped stays stopped. After the stop of a widget, whatever else happens, unless it is
  started again: it has no pending restart and no timer for one, and the only process it may still
  have is the one that was asked to stop and whose termination channel the caller holds.\<close>

theorem stopped_stays_stopped:
  assumes "visits_each_key iter" "trace (sup_step iter) (supervisor_new p) before w0"
    and "sup_step iter w0 (Stop i r) w1" "trace (sup_step iter) w1 ls w"
    and "\<forall>launch identity permit reply. Spawn launch identity permit reply \<in> set ls \<longrightarrow> la_instance launch \<noteq> i"
  shows "(\<forall>t \<in> set (sv_tasks w). ct_id t = i \<longrightarrow> ct_stop t \<and> r = Some (ct_chan t)) \<and> (\<forall>t \<in> set (sv_timers w). rt_id t \<noteq> i) \<and>
    (\<forall>q. sv_children w i \<noteq> Some (PendingRestart q))"
proof -
  have inv0: "sup_inv w0" using reachable_inv [OF assms(1,2)] .
  have inv1: "sup_inv w1" using sup_step_inv [OF assms(1) inv0 assms(3)] .
  have inv: "sup_inv w" using sup.trace_inv [OF assms(4)] assms(1) inv1 by blast
  have "sv_children w1 i = None \<or> (\<exists>c. r = Some c \<and> terminating i c w1)" using stop_step [OF inv0 assms(3)] by blast
  from down_keeps [OF assms(1) inv1 assms(4) this assms(5)]
  have d: "sv_children w i = None \<or> (\<exists>c. r = Some c \<and> terminating i c w)" .
  then have "\<forall>q. sv_children w i \<noteq> Some (PendingRestart q)" by (auto simp: terminating_def)
  with down_tasks [OF inv d] show ?thesis by blast
qed

theorem stopped_stays_stopped_witness:
  "\<not> (\<exists>t. t \<in> set (sv_timers clock_stopping) \<and> rt_id t = ''clock'') \<and> ct_stop (hd (sv_tasks clock_stopping))"
  using stopped_stays_stopped [OF key_order_visits clock_start clock_stop trace_start]
  by (simp add: clock_stopping_def)

text \<open>C11. Terminations are reported exactly. The channel a stop replies with is never closed without a
  report, whatever happens afterwards; once it reports, no process holds it; and until then either a
  process that was asked to stop holds it, or the message that its process has ended is queued.\<close>

theorem termination_reported:
  assumes "visits_each_key iter" "trace (sup_step iter) (supervisor_new p) before w0"
    and "sup_step iter w0 (Stop i (Some c)) w1" "trace (sup_step iter) w1 ls w"
  shows "c \<notin> sv_closed w \<and>
    (if c \<in> sv_done w then \<forall>t \<in> set (sv_tasks w). ct_chan t \<noteq> c
     else (\<exists>t \<in> set (sv_tasks w). ct_id t = i \<and> ct_chan t = c \<and> ct_stop t) \<or> (\<exists>pid. Exit i pid \<in> set (sv_queue w)))"
proof -
  have inv0: "sup_inv w0" using reachable_inv [OF assms(1,2)] .
  have inv1: "sup_inv w1" using sup_step_inv [OF assms(1) inv0 assms(3)] .
  have inv: "sup_inv w" using sup.trace_inv [OF assms(4)] assms(1) inv1 by blast
  have "terminating i c w1 \<or> reported c w1" using stop_step [OF inv0 assms(3)] by blast
  from termination_keeps [OF assms(1) inv1 assms(4) this] show ?thesis
  proof
    assume "terminating i c w"
    then obtain s where s: "sv_children w i = Some (Stopping s)" "sw_chan s = c" by (auto simp: terminating_def)
    have "open_chan w c" using child_chans [OF inv, of i c] s by simp
    moreover have "(\<exists>t \<in> set (sv_tasks w). ct_id t = i \<and> ct_chan t = c \<and> ct_stop t) \<or> (\<exists>pid. Exit i pid \<in> set (sv_queue w))"
    proof (cases "tasks_of i w")
      case (Cons t ts)
      with sup_invD(1) [OF inv, of i] s show ?thesis by (auto simp: child_ok_def tasks_of_def filter_eq_Cons_iff)
    next
      case Nil
      with sup_invD(1) [OF inv, of i] s obtain m where "m \<in> set (exits i (sv_queue w))"
        by (cases "exits i (sv_queue w)") (auto simp: child_ok_def load_def)
      then show ?thesis by (auto simp: exits_def split: internal.splits)
    qed
    ultimately show ?thesis by (simp add: open_chan_def)
  qed (auto simp: reported_def)
qed

theorem termination_reported_witness:
  "0 \<notin> sv_closed clock_stopping \<and> 0 \<notin> sv_done clock_stopping \<and> ct_chan (hd (sv_tasks clock_stopping)) = 0 \<and>
   ct_stop (hd (sv_tasks clock_stopping))"
  using termination_reported [OF key_order_visits clock_start clock_stop trace_start]
  by (auto simp: clock_stopping_def clock_running_def)

lemma transition_step:
  assumes iter: "visits_each_key iter" and inv: "sup_inv w" and step: "sup_step iter w l w'"
    and l: "l = Pause ids chans \<or> l = Shutdown ids chans"
  shows "sv_mode w' \<noteq> MRunning" "l = Shutdown ids chans \<Longrightarrow> sv_mode w' = MShuttingDown"
    "\<forall>i s. sv_children w' i = Some (Stopping s) \<longrightarrow> sw_chan s \<in> set chans"
proof -
  obtain m where m: "m = (if l = Pause ids chans then MPaused else MShuttingDown)"
    and t: "transition_and_stop iter m (forget_permits w) = ((ids, chans), w')"
    using step l by (auto elim: sup_step.cases)
  note eq = t [unfolded transition_eq [OF forget_inv(2) [OF inv] iter refl]]
  have mode: "sv_mode w' = (if sv_mode w = MShuttingDown then MShuttingDown else m)"
    using transition_same(1) [OF iter forget_inv(2) [OF inv] t] by (simp add: forget_permits_def)
  show "sv_mode w' \<noteq> MRunning" "l = Shutdown ids chans \<Longrightarrow> sv_mode w' = MShuttingDown" using mode m l by auto
  have keys: "set (iter (sv_children w)) = dom (sv_children w)"
    using iter sup_invD(2) [OF inv] by (simp add: visits_each_key_def)
  have chans: "c \<in> set chans" if "Option.bind (sv_children w i) chan_of = Some c" for i c
  proof -
    have "i \<in> set (iter (sv_children w))" using that keys by (auto simp: bind_eq_Some_conv)
    moreover have "chans = List.map_filter (\<lambda>i. Option.bind (sv_children w i) chan_of) (iter (sv_children w))"
      using eq by (auto simp: forget_permits_def)
    ultimately show ?thesis using that by (force simp: List.map_filter_def)
  qed
  show "\<forall>i s. sv_children w' i = Some (Stopping s) \<longrightarrow> sw_chan s \<in> set chans"
  proof (intro allI impI)
    fix i s assume "sv_children w' i = Some (Stopping s)"
    then have "Option.bind (sv_children w i) chan_of = Some (sw_chan s)"
      using eq by (auto simp: stopping_all_def forget_permits_def stopped_def split: option.splits widget_state.splits if_splits)
    then show "sw_chan s \<in> set chans" by (rule chans)
  qed
qed

lemma quiesced_step:
  assumes iter: "visits_each_key iter" and inv: "sup_inv w" and step: "sup_step iter w l w'"
    and q: "sv_mode w \<noteq> MRunning" "\<forall>i s. sv_children w i = Some (Stopping s) \<longrightarrow> sw_chan s \<in> C"
  shows "\<forall>i s. sv_children w' i = Some (Stopping s) \<longrightarrow> sw_chan s \<in> C"
proof (intro allI impI)
  fix i s assume s: "sv_children w' i = Some (Stopping s)"
  have none: "spawned_ids w l = {}" using q(1) by (simp add: spawned_ids_def split: label.splits)
  show "sw_chan s \<in> C"
  proof (cases "sv_children w i")
    case None
    with absent_step [OF iter inv step, of i] none s show ?thesis by simp
  next
    case (Some st)
    then have "idle st" using sup_invD(8) [OF inv q(1)] by blast
    then obtain s' where s': "st = Stopping s'" by (cases st) (auto simp: idle_def)
    then have "terminating i (sw_chan s') w" using Some by (simp add: terminating_def)
    from terminating_step [OF iter inv step this] s have "sw_chan s' = sw_chan s" by (auto simp: terminating_def)
    with q(2) Some s' show ?thesis by metis
  qed
qed

text \<open>C20. Pausing and shutting down quiesce. After a pause, until the manager is told to run again, and
  after a shutdown whatever happens: no restart is scheduled and every process still alive was asked
  to stop and its termination channel is among those the caller holds. No command leaves the
  shutdown.\<close>

theorem pause_quiesces:
  assumes "visits_each_key iter" "trace (sup_step iter) (supervisor_new p) before w0"
    and "sup_step iter w0 l w1" "l = Pause ids chans \<or> l = Shutdown ids chans"
    and "trace (sup_step iter) w1 ls w" "l = Pause ids chans \<longrightarrow> Resume MRunning \<notin> set ls"
  shows "(\<forall>t \<in> set (sv_tasks w). ct_stop t \<and> ct_chan t \<in> set chans) \<and> sv_timers w = [] \<and> sv_mode w \<noteq> MRunning"
proof -
  have inv0: "sup_inv w0" using reachable_inv [OF assms(1,2)] .
  have inv1: "sup_inv w1" using sup_step_inv [OF assms(1) inv0 assms(3)] .
  have inv: "sup_inv w" using sup.trace_inv [OF assms(5)] assms(1) inv1 by blast
  note start = transition_step [OF assms(1) inv0 assms(3,4)]
  let ?L = "{k. l = Pause ids chans \<longrightarrow> k \<noteq> Resume MRunning}"
  let ?P = "\<lambda>u. sv_mode u \<noteq> MRunning \<and> (l \<noteq> Pause ids chans \<longrightarrow> sv_mode u = MShuttingDown) \<and>
      (\<forall>i s. sv_children u i = Some (Stopping s) \<longrightarrow> sw_chan s \<in> set chans)"
  have "?P w"
  proof (rule sup.trace_keeps [where P = ?P and L = ?L, OF assms(5)])
    show "visits_each_key iter \<and> sup_inv w1" using assms(1) inv1 ..
    show "?P w1" using start assms(4) by blast
    show "set ls \<subseteq> ?L" using assms(6) by auto
    show "?P u'" if u: "visits_each_key iter \<and> sup_inv u" and pu: "?P u" and k: "k \<in> ?L" and step: "sup_step iter u k u'" for u k u'
    proof -
      have v: "visits_each_key iter" and iu: "sup_inv u" using u by blast+
      note m = step_mode(2,3) [OF v iu step]
      have "\<forall>i s. sv_children u' i = Some (Stopping s) \<longrightarrow> sw_chan s \<in> set chans"
        by (rule quiesced_step [OF v iu step]) (use pu in blast)+
      moreover have "sv_mode u' \<noteq> MRunning \<and> (l \<noteq> Pause ids chans \<longrightarrow> sv_mode u' = MShuttingDown)"
        using m pu k by (cases "l = Pause ids chans") simp_all
      ultimately show ?thesis by simp
    qed
  qed
  then have mode: "sv_mode w \<noteq> MRunning" and C: "\<forall>i s. sv_children w i = Some (Stopping s) \<longrightarrow> sw_chan s \<in> set chans" by blast+
  have "ct_stop t \<and> ct_chan t \<in> set chans" if t: "t \<in> set (sv_tasks w)" for t
    using inv t
  proof (cases rule: task_entry)
    case (running r)
    with sup_invD(8) [OF inv mode running(1)] show ?thesis by (simp add: idle_def)
  next
    case (stopping s)
    with C show ?thesis by simp
  qed
  moreover have "t \<notin> set (sv_timers w)" for t
    using sup_invD(3) [OF inv, of t] sup_invD(8) [OF inv mode] by (fastforce simp: bind_eq_Some_conv idle_def elim!: token_of.elims)
  then have "sv_timers w = []" by (metis list.set_intros(1) neq_Nil_conv)
  ultimately show ?thesis using mode by blast
qed

theorem pause_quiesces_witness:
  "ct_stop (hd (sv_tasks clock_stopping)) \<and> ct_chan (hd (sv_tasks clock_stopping)) = 0 \<and> sv_timers clock_stopping = []"
  using pause_quiesces [OF key_order_visits clock_start clock_pause _ trace_start, of "[''clock'']" "[0]"]
  by (simp add: clock_stopping_def clock_running_def)

section \<open>Permits\<close>

text \<open>C21. A superseded start is refused. Once a permit to start a widget was used, or after the permit was
  issued the widget was stopped or prepared again or the manager paused or shut down, a start that
  arrives with it at any later time is refused and changes nothing: a slow caller cannot bring back a
  widget that was stopped in the meantime.\<close>

theorem superseded_start_refused:
  assumes "visits_each_key iter" "trace (sup_step iter) (supervisor_new p) before w0"
    and "k < sv_next_start w0" "sup_step iter w0 l w1" "revokes i k l" "trace (sup_step iter) w1 ls w"
    and "la_instance launch = i" "sup_step iter w (Spawn launch identity k r) w'"
  shows "r = Inl Superseded \<and> w' = w"
proof -
  have inv0: "sup_inv w0" using reachable_inv [OF assms(1,2)] .
  have inv1: "sup_inv w1" using sup_step_inv [OF assms(1) inv0 assms(4)] .
  have inv: "sup_inv w" using sup.trace_inv [OF assms(6)] assms(1) inv1 by blast
  have "void_permit i k w"
    using void_keeps [OF assms(1) inv1 assms(6) revoked_void [OF assms(1) inv0 assms(4,5,3)]] .
  then have v: "sv_prepared w (la_instance launch) \<noteq> Some k" by (simp add: void_permit_def assms(7))
  from assms(8) show ?thesis
  proof (cases rule: sup_step.cases)
    case (spawn registry outcome)
    from start_same [OF inv spawn(1)] v show ?thesis by simp
  qed
qed

lemma clock_late:
  "sup_step key_order clock_stopping (Spawn clock_launch 7 0 (Inl Superseded) :: (nat, unit) label) clock_stopping"
  by (rule sup_step.spawn [where registry = "\<lambda>_. None" and outcome = "SpawnFailed ()"])
    (simp_all add: start_expected_def clock_stopping_def clock_running_def clock_launch_def fresh_pid_def)

text \<open>The clock was started with permit 0 and then stopped: a late start with that permit has one
  outcome, whatever process the spawn would have given.\<close>

theorem superseded_start_refused_witness:
  "{(r, w'). sup_step key_order clock_stopping (Spawn clock_launch 7 0 r :: (nat, unit) label) w'} =
     {(Inl Superseded, clock_stopping)}"
proof -
  have "r = Inl Superseded \<and> w' = clock_stopping"
    if "sup_step key_order clock_stopping (Spawn clock_launch 7 0 r :: (nat, unit) label) w'" for r w'
    using superseded_start_refused [OF key_order_visits clock_start _ clock_stop _ trace_start _ that, of "''clock''"]
    by (simp add: clock_running_def revokes_def clock_launch_def)
  with clock_late show ?thesis by blast
qed

section \<open>No panics\<close>

lemma schedule_restart_total: "sv_next_restart w + 1 < 2 ^ 64 \<Longrightarrow> schedule_restart launch x d n w \<noteq> None"
  by (simp add: schedule_restart_def Let_def)

lemma retry_total:
  assumes "sv_next_restart w + 1 < 2 ^ 64"
  shows "\<exists>b w'. retry_pending i w = Some (b, w') \<and> sv_next_restart w' \<le> sv_next_restart w + 1"
proof -
  have "sv_next_restart (drop_state st u) = sv_next_restart u" for st and u :: "'a supervisor" by (cases st) simp_all
  then show ?thesis using assms
    by (auto simp: retry_pending_def schedule_restart_def insert_child_def Let_def split: option.splits widget_state.splits)
qed

lemma retry_all_total: "sv_next_restart w + length is < 2 ^ 64 \<Longrightarrow> retry_all is w \<noteq> None"
proof (induction "is" arbitrary: w)
  case (Cons i "is")
  from retry_total [of w i] Cons.prems obtain b w' where "retry_pending i w = Some (b, w')" "sv_next_restart w' \<le> sv_next_restart w + 1"
    by auto
  with Cons.prems Cons.IH [of w'] show ?case by simp
qed simp

lemma start_total:
  assumes "sv_next_restart w + 1 < 2 ^ 64"
  shows "start_expected registry outcome launch identity k w \<noteq> None"
proof -
  have s: "\<exists>u'. schedule_restart launch x d n u = Some u'" if "sv_next_restart u = sv_next_restart w" for x d n u
    using schedule_restart_total [of u launch x d n] assms that by auto
  show ?thesis
    by (cases outcome)
      (auto simp: start_expected_def spawn_selected_process_def Let_def take_child_def intro!: s
        split: option.splits widget_state.splits if_splits)
qed

lemma due_total:
  assumes "sv_next_restart w + 1 < 2 ^ 64"
  shows "handle_restart_due registry outcome i k w \<noteq> None"
proof -
  have s: "\<exists>u'. schedule_restart launch x d n (take_child i w) = Some u'" for launch x d n
    using schedule_restart_total [of "take_child i w" launch x d n] assms by (auto simp: take_child_def)
  show ?thesis
    using s by (cases outcome)
      (auto simp: handle_restart_due_def take_pending_restart_def spawn_selected_process_def Let_def
        split: option.splits widget_state.splits)
qed

text \<open>The supervisor never panics. In every reachable state, while its two 64-bit counters are not
  within one round of overflowing, every command, and the handler of whatever internal message is
  first in the queue, runs to its end: in particular the report of an exit always carries the process
  id that the running entry has.\<close>

lemma supervisor_never_panics:
  assumes "visits_each_key iter" "trace (sup_step iter) (supervisor_new p) ls w"
    and "sv_next_start w + 1 < 2 ^ 64" "sv_next_restart w + card (dom (sv_children w)) + 1 < 2 ^ 64"
  shows "prepare_start i m w \<noteq> None \<and> start_expected registry outcome launch identity k w \<noteq> None \<and>
    retry_pending i w \<noteq> None \<and> reset_restart_backoff iter w \<noteq> None \<and>
    (case sv_queue w of
       [] \<Rightarrow> True
     | Exit j pid # q \<Rightarrow> handle_exit j pid (w\<lparr>sv_queue := q\<rparr>) \<noteq> None
     | RestartDue j token # q \<Rightarrow> handle_restart_due registry outcome j token (w\<lparr>sv_queue := q\<rparr>) \<noteq> None)"
proof -
  note inv = reachable_inv [OF assms(1,2)]
  have n: "sv_next_restart w + 1 < 2 ^ 64" using assms(4) by linarith
  have p: "prepare_start i m w \<noteq> None" using assms(3) by (simp add: prepare_start_def Let_def)
  have "distinct (iter (sv_children w))" "set (iter (sv_children w)) = dom (sv_children w)"
    using assms(1) sup_invD(2) [OF inv] by (simp_all add: visits_each_key_def)
  then have "length (filter P (iter (sv_children w))) \<le> card (dom (sv_children w))" for P
    using distinct_card [of "iter (sv_children w)"] length_filter_le [of P "iter (sv_children w)"] by simp
  then have "retry_all (filter P (iter (sv_children w))) w \<noteq> None" for P
    by (intro retry_all_total le_less_trans [OF _ assms(4)]) (simp add: le_SucI)
  then have reset: "reset_restart_backoff iter w \<noteq> None" by (simp add: reset_restart_backoff_def)
  have exit: "handle_exit j pid (w\<lparr>sv_queue := q\<rparr>) \<noteq> None" if q: "sv_queue w = Exit j pid # q" for j pid q
    using inv q
  proof (cases rule: exit_entry)
    case (running r)
    have "schedule_restart (rw_launch r) x d b (retired j q e c w) \<noteq> None" for x d b e c
      by (rule schedule_restart_total) (use n in simp)
    then show ?thesis using handle_exit_running [OF inv q running(1)] by simp
  qed (simp add: handle_exit_stopping)
  have due: "handle_restart_due registry outcome j token (w\<lparr>sv_queue := q\<rparr>) \<noteq> None" for j token q
    by (rule due_total) (use n in simp)
  show ?thesis
    using p start_total [OF n] retry_total [OF n, of i] reset exit due
    by (intro conjI) (auto split: list.splits internal.splits)
qed

lemma clock_ends:
  "sup_step key_order clock_running (ChildEnds 0 :: (nat, unit) label) (clock_running\<lparr>sv_tasks := [], sv_queue := [Exit ''clock'' 41]\<rparr>)"
  using sup_step.child_ends [of "\<lparr>ct_id = ''clock'', ct_pid = 41, ct_stop = False, ct_chan = 0\<rparr>" clock_running key_order]
  by (simp add: clock_running_def)

lemma clock_ended:
  "trace (sup_step key_order) (supervisor_new restart_policy_default) (clock_prelude @ [ChildEnds 0])
     (clock_running\<lparr>sv_tasks := [], sv_queue := [Exit ''clock'' 41]\<rparr>)"
  by (rule trace_more [where step = "sup_step key_order", OF clock_start clock_ends])

section \<open>Backing off\<close>

lemma respawn_keeps_backoff:
  assumes "sv_children w i = Some (PendingRestart p)" "la_instance (pr_launch p) = i" "sv_mode w = MRunning"
    and "registry (la_uid (pr_launch p)) = Some (pr_identity p)"
    and "handle_restart_due registry (Spawned pid) i (pr_token p) w = Some w'"
  shows "\<exists>r. sv_children w' i = Some (Running r) \<and> rw_backoff r = pr_backoff p \<and> rw_spawned_at r = sv_now w \<and> rw_pid r = pid"
  using assms
  by (auto simp: handle_restart_due_def take_pending_restart_def take_child_def spawn_selected_process_def insert_child_def Let_def)

text \<open>C33. Crashing widgets back off. When the end of a process that nobody asked to stop is handled, its
  widget is scheduled for a restart after a delay: the initial one if the process was up for the
  healthy time, else the delay the process was started with. The process this restart brings up is
  started with twice that delay, at most the maximum: a widget that keeps crashing is restarted ever
  more rarely, and one that ran well starts over.\<close>

theorem crash_backs_off:
  assumes "visits_each_key iter" "trace (sup_step iter) (supervisor_new p) ls w"
    and "sv_children w i = Some (Running r)" "sup_step iter w (Receive (Exit i pid)) w1"
    and "delay = (if po_healthy_uptime (sv_policy w) \<le> sv_now w - rw_spawned_at r then po_initial (sv_policy w) else rw_backoff r)"
  shows "\<exists>q. sv_children w1 i = Some (PendingRestart q) \<and> pr_launch q = rw_launch r \<and> pr_identity q = rw_identity r \<and>
    (\<exists>t \<in> set (sv_timers w1). rt_id t = i \<and> rt_token t = pr_token q \<and> rt_due t = sv_now w + delay) \<and>
    (\<forall>w2 registry pid' w3. sv_children w2 i = Some (PendingRestart q) \<longrightarrow> sv_mode w2 = MRunning \<longrightarrow>
       registry (la_uid (rw_launch r)) = Some (rw_identity r) \<longrightarrow>
       handle_restart_due registry (Spawned pid') i (pr_token q) w2 = Some w3 \<longrightarrow>
       (\<exists>r'. sv_children w3 i = Some (Running r') \<and> rw_pid r' = pid' \<and> rw_spawned_at r' = sv_now w2 \<and>
          rw_backoff r' = min (delay * 2) (po_max (sv_policy w))))"
proof -
  note inv = reachable_inv [OF assms(1,2)]
  have d: "crash_delay w r = delay" by (simp add: crash_delay_def restart_delay_def assms(5))
  from inv assms(4) show ?thesis
  proof (cases rule: exit_step)
    case (crashed r' k)
    have r: "r' = r" using crashed(2) assms(3) by simp
    let ?q = "\<lparr>pr_launch = rw_launch r, pr_identity = rw_identity r, pr_backoff = min (delay * 2) (po_max (sv_policy w)),
      pr_token = sv_next_restart w\<rparr>"
    have w1: "w1 = scheduled (rw_launch r) (rw_identity r) delay (min (delay * 2) (po_max (sv_policy w)))
        (retired i k (sv_done w) (insert (rw_chan r) (sv_closed w)) w)"
      using crash_step [OF crashed(3-5)] by (simp add: r d next_backoff_def)
    have "sv_children w1 i = Some (PendingRestart ?q)" "\<exists>t \<in> set (sv_timers w1). rt_id t = i \<and> rt_token t = sv_next_restart w \<and> rt_due t = sv_now w + delay"
      using crashed(4) by (simp_all add: w1 scheduled_def r)
    with crashed(4) respawn_keeps_backoff [where p = ?q and i = i] show ?thesis
      by (intro exI [of _ ?q]) (fastforce simp: r)
  qed (use assms(3) in simp)
qed

definition clock_crashed :: "nat supervisor" where
  "clock_crashed = the (handle_exit ''clock'' 41 (clock_running\<lparr>sv_tasks := []\<rparr>))"

lemma clock_crash:
  "sup_step key_order (clock_running\<lparr>sv_tasks := [], sv_queue := [Exit ''clock'' 41]\<rparr>)
     (Receive (Exit ''clock'' 41) :: (nat, unit) label) clock_crashed"
  by (rule sup_step.exit [where q = "[]"])
    (simp_all add: clock_crashed_def clock_running_def handle_exit_def schedule_restart_def insert_child_def take_child_def
      clock_launch_def Let_def)

theorem crash_backs_off_witness:
  "(\<exists>q. sv_children clock_crashed ''clock'' = Some (PendingRestart q) \<and> pr_launch q = clock_launch) \<and>
   po_initial (sv_policy clock_running) = from_secs 1"
proof -
  let ?w = "clock_running\<lparr>sv_tasks := [], sv_queue := [Exit ''clock'' 41]\<rparr>"
  let ?r = "\<lparr>rw_pid = 41, rw_identity = 7, rw_chan = 0, rw_launch = clock_launch, rw_spawned_at = 0, rw_backoff = from_secs 1\<rparr>"
  have r: "sv_children ?w ''clock'' = Some (Running ?r)" by (simp add: clock_running_def)
  from crash_backs_off [OF key_order_visits clock_ended r clock_crash refl] show ?thesis
    by (auto simp: clock_running_def restart_policy_default_def)
qed

end
