(* ===== verification/Daily_Window.thy ===== *)
theory Daily_Window
  imports Machines "HOL-Library.Signed_Division"
begin

text \<open>
  Stretches of local time that repeat every day (\<^verbatim>\<open>bmc/src/daily_window.rs\<close>), through the changes of
  the offset between local time and UTC. Instants and local date-times are nanoseconds since the
  epoch as integers, a time of day nanoseconds since midnight. A time zone of \<open>chrono\<close> is a
  parameter: its offset in seconds at an instant, and the instants at which it shows a local time.
\<close>

section \<open>Time zones\<close>

abbreviation second :: int where "second \<equiv> 1000000000"
abbreviation day :: int where "day \<equiv> 86400000000000"

datatype local_result = LocalSingle int | LocalAmbiguous int int | LocalNone

record zone =
  zn_offset :: "int \<Rightarrow> int"
  zn_from_local :: "int \<Rightarrow> local_result"

definition to_local :: "zone \<Rightarrow> int \<Rightarrow> int" where
  "to_local z t = t + zn_offset z t * second"

definition time_at :: "zone \<Rightarrow> int \<Rightarrow> int" where
  "time_at z t = to_local z t mod day"

fun earliest :: "local_result \<Rightarrow> int option" where
  "earliest (LocalSingle t) = Some t"
| "earliest (LocalAmbiguous a _) = Some a"
| "earliest LocalNone = None"

text \<open>What the code relies on: offsets are less than a day and change at whole seconds, and the
  instants that show a local time are those and only those it is told.\<close>

definition shows_exactly :: "zone \<Rightarrow> int \<Rightarrow> local_result \<Rightarrow> bool" where
  "shows_exactly z l r = (case r of
       LocalSingle t \<Rightarrow> (\<forall>u. to_local z u = l \<longleftrightarrow> u = t)
     | LocalAmbiguous a b \<Rightarrow> a < b \<and> (\<forall>u. to_local z u = l \<longleftrightarrow> u = a \<or> u = b)
     | LocalNone \<Rightarrow> (\<forall>u. to_local z u \<noteq> l))"

definition zone_laws :: "zone \<Rightarrow> bool" where
  "zone_laws z \<longleftrightarrow> (\<forall>t. \<bar>zn_offset z t\<bar> < 86400) \<and> (\<forall>t. zn_offset z (t div second * second) = zn_offset z t) \<and>
     (\<forall>l. shows_exactly z l (zn_from_local z l))"

section \<open>Offset changes\<close>

text \<open>The loop of \<open>first_offset_change\<close>. The midpoint of two signed integers is rounded to zero.\<close>

lemma midpoint_between:
  fixes a b :: int
  assumes "a + 1 < b" shows "a < (a + b) sdiv 2" "(a + b) sdiv 2 < b"
  using assms by (auto simp: signed_divide_int_def sgn_if)

function offset_search :: "zone \<Rightarrow> int \<Rightarrow> int \<Rightarrow> int \<Rightarrow> int" where
  "offset_search z offset_before unchanged changed =
     (if changed - unchanged > 1 then
        let middle = (unchanged + changed) sdiv 2 in
        if zn_offset z (middle * second) = offset_before then offset_search z offset_before middle changed
        else offset_search z offset_before unchanged middle
      else changed)"
  by pat_completeness auto

termination
  by (relation "measure (\<lambda>(_, _, u, c). nat (c - u))") (use midpoint_between in \<open>auto simp: Let_def\<close>)

declare offset_search.simps [simp del]

definition first_offset_change :: "zone \<Rightarrow> int \<Rightarrow> int \<Rightarrow> int option" where
  "first_offset_change z after until =
     (let offset_before = zn_offset z after in
      if zn_offset z until = offset_before then None
      else Some (offset_search z offset_before (after div second) (until div second) * second))"

definition first_instant_of :: "zone \<Rightarrow> int \<Rightarrow> int option" where
  "first_instant_of z l = earliest (zn_from_local z l)"

section \<open>Windows\<close>

record daily_window =
  dw_from :: int
  dw_to :: int

definition contains :: "daily_window \<Rightarrow> int \<Rightarrow> bool" where
  "contains w time =
     (if dw_from w \<le> dw_to w then dw_from w \<le> time \<and> time < dw_to w
      else dw_from w \<le> time \<or> time < dw_to w)"

definition contains_at :: "zone \<Rightarrow> daily_window \<Rightarrow> int \<Rightarrow> bool" where
  "contains_at z w now =
     (let first_pass_end = (case zn_from_local z (to_local z now) of
            LocalAmbiguous first_pass _ \<Rightarrow> if first_pass < now then first_offset_change z first_pass now else None
          | _ \<Rightarrow> None);
          as_of = (case first_pass_end of None \<Rightarrow> now | Some fold_end \<Rightarrow> fold_end - 1)
      in contains w (time_at z as_of))"

definition edges :: "daily_window \<Rightarrow> int \<Rightarrow> int list" where
  "edges w date = [date * day + dw_from w, date * day + dw_to w]"

definition next_edge :: "zone \<Rightarrow> daily_window \<Rightarrow> int \<Rightarrow> int option" where
  "next_edge z w now =
     (let today = to_local z now div day;
          instants = filter (\<lambda>t. now < t) (List.map_filter (first_instant_of z)
            (concat (map (edges w) [today - 1, today, today + 1, today + 2])))
      in if instants = [] then None else Some (Min (set instants)))"

definition next_change :: "zone \<Rightarrow> daily_window \<Rightarrow> int \<Rightarrow> int" where
  "next_change z w now =
     (let next_edge = (case next_edge z w now of None \<Rightarrow> now + day | Some t \<Rightarrow> t)
      in case first_offset_change z now next_edge of None \<Rightarrow> next_edge | Some t \<Rightarrow> t)"

section \<open>The search for an offset change\<close>

lemma offset_search_exact:
  "unchanged < c \<Longrightarrow> c \<le> changed \<Longrightarrow>
   (\<And>k. unchanged < k \<Longrightarrow> k < changed \<Longrightarrow> zn_offset z (k * second) = b \<longleftrightarrow> k < c) \<Longrightarrow>
   offset_search z b unchanged changed = c"
proof (induction z b unchanged changed rule: offset_search.induct)
  case (1 z b u ch)
  show ?case
  proof (cases "ch - u > 1")
    case True
    let ?m = "(u + ch) sdiv 2"
    have m: "u < ?m" "?m < ch" using midpoint_between [of u ch] True by auto
    show ?thesis
    proof (cases "zn_offset z (?m * second) = b")
      case eq: True
      then have "?m < c" using 1(5) [OF m] by blast
      with 1(1) [OF True refl eq] 1(4,5) m show ?thesis using True eq by (simp add: offset_search.simps [of z b u])
    next
      case neq: False
      then have "c \<le> ?m" using 1(5) [OF m] by auto
      with 1(2) [OF True refl neq] 1(3,5) m show ?thesis using True neq by (simp add: offset_search.simps [of z b u])
    qed
  next
    case False
    with 1(3,4) show ?thesis by (simp add: offset_search.simps [of z b u])
  qed
qed

text \<open>Between \<open>lo\<close> and \<open>hi\<close> the offset is \<open>o1\<close> before the instant \<open>c\<close> and \<open>o2\<close> from it on.\<close>

definition single_change :: "zone \<Rightarrow> int \<Rightarrow> int \<Rightarrow> int \<Rightarrow> int \<Rightarrow> int \<Rightarrow> bool" where
  "single_change z lo hi c o1 o2 \<longleftrightarrow> (\<forall>t. lo \<le> t \<and> t \<le> hi \<longrightarrow> zn_offset z t = (if t < c then o1 else o2))"

lemma change_at_second:
  assumes laws: "zone_laws z" and s: "single_change z lo hi c o1 o2" and c: "lo < c" "c \<le> hi" "o1 \<noteq> o2"
  shows "c div second * second = c"
proof (rule ccontr)
  assume "c div second * second \<noteq> c"
  then have "(c - 1) div second = c div second" by linarith
  moreover have "zn_offset z c = o2" "zn_offset z (c - 1) = o1" using s c by (auto simp: single_change_def)
  ultimately show False using laws c(3) unfolding zone_laws_def by metis
qed

lemma first_offset_change_exact:
  assumes laws: "zone_laws z" and s: "single_change z lo hi c o1 o2" and b: "lo \<le> t" "t \<le> u" "u \<le> hi"
  shows "first_offset_change z t u = (if o1 \<noteq> o2 \<and> t < c \<and> c \<le> u then Some c else None)"
proof (cases "o1 \<noteq> o2 \<and> t < c \<and> c \<le> u")
  case True
  have off: "zn_offset z t = o1" "zn_offset z u = o2" using s b True by (auto simp: single_change_def)
  have c: "c div second * second = c" by (rule change_at_second [OF laws s]) (use True b in auto)
  have "offset_search z o1 (t div second) (u div second) = c div second"
  proof (rule offset_search_exact)
    show "t div second < c div second" "c div second \<le> u div second" using True c by linarith+
    fix k assume k: "t div second < k" "k < u div second"
    then have "lo \<le> k * second" "k * second \<le> hi" using b by linarith+
    then have "zn_offset z (k * second) = (if k * second < c then o1 else o2)" using s by (auto simp: single_change_def)
    moreover have "k * second < c \<longleftrightarrow> k < c div second" using c by linarith
    ultimately show "zn_offset z (k * second) = o1 \<longleftrightarrow> k < c div second" using True by auto
  qed
  then show ?thesis using True off c by (simp add: first_offset_change_def)
next
  case False
  then have "zn_offset z t = zn_offset z u" using s b by (auto simp: single_change_def)
  then show ?thesis using False by (auto simp: first_offset_change_def)
qed

end
