(* ===== verification/Daily_Window_Props.thy ===== *)
theory Daily_Window_Props
  imports Daily_Window
begin

text \<open>
  A daily window between two re-checks: the instant the code announces is the first at which the
  answer may differ, through gaps and folds of local time. The zone is described around an instant
  by the one offset change it may have there.
\<close>

section \<open>Times of day\<close>

definition window_ok :: "daily_window \<Rightarrow> bool" where
  "window_ok w \<longleftrightarrow> 0 \<le> dw_from w \<and> dw_from w < day \<and> 0 \<le> dw_to w \<and> dw_to w < day"

definition is_edge :: "daily_window \<Rightarrow> int \<Rightarrow> bool" where
  "is_edge w time \<longleftrightarrow> time = dw_from w \<or> time = dw_to w"

lemma contains_step:
  assumes w: "window_ok w" and e: "\<not> is_edge w ((l + 1) mod day)"
  shows "contains w ((l + 1) mod day) = contains w (l mod day)"
proof (cases "l mod day = day - 1")
  case True
  then have "(l + 1) mod day = 0" using mod_add_left_eq [of l day 1] by simp
  with True w e show ?thesis by (auto simp: contains_def is_edge_def window_ok_def)
next
  case False
  then have "l mod day + 1 < day" "0 \<le> l mod day + 1" using pos_mod_bound [of day l] pos_mod_sign [of day l] by linarith+
  then have "(l + 1) mod day = l mod day + 1" using mod_add_left_eq [of l day 1] by (simp add: mod_pos_pos_trivial)
  with e show ?thesis by (auto simp: contains_def is_edge_def)
qed

lemma contains_steady:
  assumes w: "window_ok w" and "a \<le> b" and "\<And>l. a < l \<Longrightarrow> l \<le> b \<Longrightarrow> \<not> is_edge w (l mod day)"
  shows "contains w (b mod day) = contains w (a mod day)"
  using assms(2,3)
proof (induction b rule: int_ge_induct)
  case (step b)
  from step.prems [of "b + 1"] step.hyps have "\<not> is_edge w ((b + 1) mod day)" by simp
  from contains_step [OF w this] step.IH step.prems show ?case by simp
qed simp

section \<open>Around one offset change\<close>

text \<open>At most one change from three days before \<open>now\<close> to a week after it, which turns the clock back
  by no more than a day.\<close>

definition calm_zone :: "zone \<Rightarrow> int \<Rightarrow> bool" where
  "calm_zone z now \<longleftrightarrow> (\<exists>c o1 o2. single_change z (now - 3 * day) (now + 7 * day) c o1 o2 \<and> o1 - o2 \<le> 86400)"

text \<open>The second pass of a fold.\<close>

definition second_pass :: "int \<Rightarrow> int \<Rightarrow> int \<Rightarrow> int \<Rightarrow> bool" where
  "second_pass c o1 o2 s \<longleftrightarrow> c \<le> s \<and> s + o2 * second < c + o1 * second"

lemma offset_bound: "zone_laws z \<Longrightarrow> \<bar>to_local z t - t\<bar> < day"
proof -
  assume "zone_laws z"
  then have "\<bar>zn_offset z t\<bar> < 86400" by (simp add: zone_laws_def)
  then show ?thesis unfolding to_local_def by linarith
qed

lemma same_local_near: "zone_laws z \<Longrightarrow> to_local z a = to_local z b \<Longrightarrow> \<bar>a - b\<bar> < 2 * day"
  using offset_bound [of z a] offset_bound [of z b] by linarith

lemma from_local_cases:
  assumes "zone_laws z"
  obtains (single) "zn_from_local z (to_local z s) = LocalSingle s" "\<And>u. to_local z u = to_local z s \<Longrightarrow> u = s"
  | (first) b where "zn_from_local z (to_local z s) = LocalAmbiguous s b" "s < b"
      "\<And>u. to_local z u = to_local z s \<Longrightarrow> u = s \<or> u = b"
  | (again) a where "zn_from_local z (to_local z s) = LocalAmbiguous a s" "a < s" "to_local z a = to_local z s"
proof -
  have e: "shows_exactly z (to_local z s) (zn_from_local z (to_local z s))" using assms by (simp add: zone_laws_def)
  show thesis
  proof (cases "zn_from_local z (to_local z s)")
    case (LocalSingle t)
    with e have "\<forall>u. to_local z u = to_local z s \<longleftrightarrow> u = t" by (simp add: shows_exactly_def)
    with LocalSingle single show thesis by metis
  next
    case (LocalAmbiguous a b)
    with e have ab: "a < b" "\<forall>u. to_local z u = to_local z s \<longleftrightarrow> u = a \<or> u = b" by (simp_all add: shows_exactly_def)
    then have "s = a \<or> s = b" by blast
    then show thesis
    proof
      assume "s = a"
      with LocalAmbiguous ab first [of b] show thesis by blast
    next
      assume "s = b"
      with LocalAmbiguous ab again [of a] show thesis by blast
    qed
  next
    case LocalNone
    with e have "\<forall>u. to_local z u \<noteq> to_local z s" unfolding shows_exactly_def by simp
    then show thesis by blast
  qed
qed

lemma earlier_pass:
  assumes s: "single_change z lo hi c o1 o2" and j: "o1 - o2 \<le> 86400" and b: "lo + 2 * day \<le> t" "t \<le> hi"
    and p: "second_pass c o1 o2 t"
  shows "\<exists>a. a < t \<and> to_local z a = to_local z t"
proof -
  let ?a = "t + o2 * second - o1 * second"
  have a: "?a < t" "?a < c" "lo \<le> ?a" "?a \<le> hi" "c \<le> t" using p j b unfolding second_pass_def by linarith+
  then have "zn_offset z ?a = o1" "zn_offset z t = o2" using s b by (auto simp: single_change_def)
  with a(1) show ?thesis by (intro exI [of _ ?a]) (simp add: to_local_def)
qed

lemma contains_at_eq:
  assumes laws: "zone_laws z" and s: "single_change z lo hi c o1 o2" and j: "o1 - o2 \<le> 86400"
    and b: "lo + 2 * day \<le> t" "t \<le> hi"
  shows "contains_at z w t = contains w (time_at z (if second_pass c o1 o2 t then c - 1 else t))"
proof -
  have t: "zn_offset z t = (if t < c then o1 else o2)" using s b by (simp add: single_change_def)
  have a: "a < c \<and> c \<le> t \<and> o1 \<noteq> o2 \<and> second_pass c o1 o2 t" if a: "a < t" "to_local z a = to_local z t" for a
  proof -
    have "lo \<le> a" using same_local_near [OF laws a(2)] b by linarith
    then have oa: "zn_offset z a = (if a < c then o1 else o2)" using s a(1) b by (simp add: single_change_def)
    with a t show ?thesis by (auto simp: to_local_def second_pass_def split: if_splits)
  qed
  note e = earlier_pass [OF s j b]
  from laws show ?thesis
  proof (cases rule: from_local_cases [of z t])
    case (again a)
    have "lo \<le> a" using same_local_near [OF laws again(3)] b by linarith
    then have "first_offset_change z a t = Some c"
      using first_offset_change_exact [OF laws s, of a t] again a [OF again(2,3)] b by simp
    with again a [OF again(2,3)] show ?thesis by (simp add: contains_at_def)
  next
    case single
    with e have "\<not> second_pass c o1 o2 t" by fastforce
    with single show ?thesis by (simp add: contains_at_def)
  next
    case (first b')
    with e have "\<not> second_pass c o1 o2 t" by fastforce
    with first show ?thesis by (simp add: contains_at_def)
  qed
qed

section \<open>The next edge\<close>

lemma set_map_filter_eq: "set (List.map_filter f xs) = {y. \<exists>x \<in> set xs. f x = Some y}"
  by (induction xs) (auto simp: List.map_filter_simps split: option.splits)

definition near_edges :: "zone \<Rightarrow> daily_window \<Rightarrow> int \<Rightarrow> int set" where
  "near_edges z w now = {t. now < t \<and> (\<exists>l. is_edge w (l mod day) \<and> first_instant_of z l = Some t \<and>
     to_local z now div day - 1 \<le> l div day \<and> l div day \<le> to_local z now div day + 2)}"

lemma edge_iff:
  assumes "window_ok w"
  shows "l \<in> set (edges w d) \<longleftrightarrow> is_edge w (l mod day) \<and> l div day = d"
proof
  assume "l \<in> set (edges w d)"
  then have "l = d * day + dw_from w \<or> l = d * day + dw_to w" by (simp add: edges_def)
  then have "l mod day = dw_from w \<and> l div day = d \<or> l mod day = dw_to w \<and> l div day = d"
    using assms unfolding window_ok_def by (elim disjE) simp_all
  then show "is_edge w (l mod day) \<and> l div day = d" by (auto simp: is_edge_def)
next
  assume "is_edge w (l mod day) \<and> l div day = d"
  moreover have "l = l div day * day + l mod day" by simp
  ultimately show "l \<in> set (edges w d)" unfolding is_edge_def edges_def by (metis list.set_intros(1,2))
qed

lemma next_edge_eq:
  assumes "window_ok w"
  shows "next_edge z w now = (if near_edges z w now = {} then None else Some (Min (near_edges z w now)))"
    and "finite (near_edges z w now)"
proof -
  let ?T = "to_local z now div day"
  let ?xs = "filter (\<lambda>t. now < t) (List.map_filter (first_instant_of z) (concat (map (edges w) [?T - 1, ?T, ?T + 1, ?T + 2])))"
  have d: "?T - 1 \<le> d \<and> d \<le> ?T + 2 \<longleftrightarrow> d \<in> {?T - 1, ?T, ?T + 1, ?T + 2}" for d by (simp, linarith)
  have l: "l \<in> set (concat (map (edges w) [?T - 1, ?T, ?T + 1, ?T + 2])) \<longleftrightarrow>
      is_edge w (l mod day) \<and> ?T - 1 \<le> l div day \<and> l div day \<le> ?T + 2" for l
    unfolding d by (simp add: edge_iff [OF assms] del: edges_def) blast
  have eq: "set ?xs = near_edges z w now"
    unfolding near_edges_def set_filter set_map_filter_eq Bex_def l by blast
  show "finite (near_edges z w now)" unfolding eq [symmetric] by simp
  from eq have "?xs = [] \<longleftrightarrow> near_edges z w now = {}" by (metis set_empty)
  with eq show "next_edge z w now = (if near_edges z w now = {} then None else Some (Min (near_edges z w now)))"
    by (simp only: next_edge_def Let_def)
qed

lemma next_edge_Some:
  assumes w: "window_ok w" and "next_edge z w now = Some e"
  shows "e \<in> near_edges z w now" "\<And>t. t \<in> near_edges z w now \<Longrightarrow> e \<le> t"
  using assms(2) Min_in [OF next_edge_eq(2) [OF w], of z now] Min_le [OF next_edge_eq(2) [OF w], of _ z now]
  unfolding next_edge_eq(1) [OF w] by (auto split: if_splits)

lemma next_edge_None: "window_ok w \<Longrightarrow> next_edge z w now = None \<Longrightarrow> near_edges z w now = {}"
  by (auto simp: next_edge_eq split: if_splits)

lemma first_instant:
  assumes "zone_laws z" "first_instant_of z l = Some t"
  shows "to_local z t = l" "\<And>u. to_local z u = l \<Longrightarrow> t \<le> u"
proof -
  have e: "shows_exactly z l (zn_from_local z l)" using assms(1) by (simp add: zone_laws_def)
  show "to_local z t = l" "\<And>u. to_local z u = l \<Longrightarrow> t \<le> u"
    using e assms(2) by (cases "zn_from_local z l"; force simp: shows_exactly_def first_instant_of_def)+
qed

lemma first_instant_exists:
  assumes "zone_laws z" "to_local z u = l" shows "\<exists>t. first_instant_of z l = Some t"
proof -
  have e: "shows_exactly z l (zn_from_local z l)" using assms(1) by (simp add: zone_laws_def)
  then show ?thesis using assms(2) by (cases "zn_from_local z l") (auto simp: shows_exactly_def first_instant_of_def)
qed

section \<open>Between two re-checks\<close>

definition edge_or_day :: "zone \<Rightarrow> daily_window \<Rightarrow> int \<Rightarrow> int" where
  "edge_or_day z w now = (case next_edge z w now of None \<Rightarrow> now + day | Some t \<Rightarrow> t)"

lemma edge_or_day_bounds:
  assumes laws: "zone_laws z" and w: "window_ok w"
  shows "now < edge_or_day z w now" "edge_or_day z w now < now + 5 * day"
proof -
  have "now < e \<and> e < now + 5 * day" if n: "next_edge z w now = Some e" for e
  proof -
    from next_edge_Some(1) [OF w n] obtain l where l: "now < e" "first_instant_of z l = Some e"
        "l div day \<le> to_local z now div day + 2"
      by (auto simp: near_edges_def)
    have "to_local z e = l" using first_instant(1) [OF laws l(2)] .
    moreover have "l < to_local z now + 3 * day" using l(3) by linarith
    ultimately show ?thesis using l(1) offset_bound [OF laws, of e] offset_bound [OF laws, of now] by linarith
  qed
  then show "now < edge_or_day z w now" "edge_or_day z w now < now + 5 * day"
    by (auto simp: edge_or_day_def split: option.splits)
qed

lemma next_change_eq:
  assumes laws: "zone_laws z" and w: "window_ok w" and s: "single_change z (now - 3 * day) (now + 7 * day) c o1 o2"
  shows "next_change z w now = (if o1 \<noteq> o2 \<and> now < c \<and> c \<le> edge_or_day z w now then c else edge_or_day z w now)"
proof -
  have "next_change z w now = (case first_offset_change z now (edge_or_day z w now) of None \<Rightarrow> edge_or_day z w now | Some t \<Rightarrow> t)"
    unfolding next_change_def edge_or_day_def Let_def by (rule refl)
  then show ?thesis
    using first_offset_change_exact [OF laws s, of now "edge_or_day z w now"] edge_or_day_bounds [OF laws w, of now] by simp
qed

lemma offset_steady:
  assumes laws: "zone_laws z" and w: "window_ok w" and s: "single_change z (now - 3 * day) (now + 7 * day) c o1 o2"
    and t: "now \<le> t" "t < next_change z w now"
  shows "zn_offset z t = zn_offset z now" "zn_offset z t = (if t < c then o1 else o2)" "o1 \<noteq> o2 \<Longrightarrow> c \<le> t \<Longrightarrow> c \<le> now"
    "t < now + 5 * day" "t < edge_or_day z w now"
proof -
  have n: "next_change z w now \<le> edge_or_day z w now" "now < c \<Longrightarrow> o1 \<noteq> o2 \<Longrightarrow> next_change z w now \<le> c"
    using next_change_eq [OF laws w s] by (auto split: if_splits)
  show b: "t < now + 5 * day" "t < edge_or_day z w now" using edge_or_day_bounds [OF laws w, of now] n(1) t by linarith+
  show o: "zn_offset z t = (if t < c then o1 else o2)" using s t b by (simp add: single_change_def)
  show c: "o1 \<noteq> o2 \<Longrightarrow> c \<le> t \<Longrightarrow> c \<le> now" using n(2) t by linarith
  have "zn_offset z now = (if now < c then o1 else o2)" using s by (simp add: single_change_def)
  with o c t(1) show "zn_offset z t = zn_offset z now" by (cases "o1 = o2"; cases "t < c") simp_all
qed

text \<open>An edge that is passed before the announced instant was shown before: it is met for the second time.\<close>

lemma passed_edge:
  assumes laws: "zone_laws z" and w: "window_ok w" and s: "single_change z (now - 3 * day) (now + 7 * day) c o1 o2"
    and j: "o1 - o2 \<le> 86400" and t: "now < t" "t < next_change z w now" and e: "is_edge w (time_at z t)"
  shows "\<exists>u. u \<le> now \<and> to_local z u = to_local z t"
proof -
  let ?L = "to_local z now" and ?d = "zn_offset z now * second"
  have local: "to_local z u = u + ?d" if "now \<le> u" "u \<le> t" for u
    using offset_steady(1) [OF laws w s, of u] that t by (simp add: to_local_def)
  have shown: "\<exists>u. u \<le> now \<and> to_local z u = l" if l: "is_edge w (l mod day)" "?L < l" "l \<le> to_local z t" "l div day \<le> ?L div day + 2" for l
  proof -
    let ?u = "l - ?d"
    have u: "now < ?u" "?u \<le> t" using l local [of t] local [of now] t by linarith+
    then have "to_local z ?u = l" using local [of ?u] by simp
    then obtain f where f: "first_instant_of z l = Some f" using first_instant_exists [OF laws] by blast
    note ff = first_instant [OF laws f]
    have "f \<le> now"
    proof (rule ccontr)
      assume "\<not> f \<le> now"
      then have "f \<in> near_edges z w now" using l f by (auto simp: near_edges_def intro!: exI [of _ l] div_le_mono zdiv_mono1)
      then have "edge_or_day z w now \<le> f"
        using next_edge_Some(2) [OF w] next_edge_None [OF w] by (auto simp: edge_or_day_def split: option.splits)
      moreover have "f \<le> ?u" using ff(2) \<open>to_local z ?u = l\<close> .
      ultimately show False using offset_steady(5) [OF laws w s, of t] t u by linarith
    qed
    with ff(1) show ?thesis by blast
  qed
  have tl: "?L < to_local z t" using local [of t] local [of now] t by linarith
  have "to_local z t div day \<le> ?L div day + 2"
  proof (rule ccontr)
    assume far: "\<not> to_local z t div day \<le> ?L div day + 2"
    let ?l = "(?L div day + 2) * day + dw_from w"
    have il: "is_edge w (?l mod day)" "?l div day = ?L div day + 2"
      using edge_iff [OF w, of ?l "?L div day + 2"] by (simp_all add: edges_def)
    have w0: "0 \<le> dw_from w" "dw_from w < day" using w by (simp_all add: window_ok_def)
    have "?L < (?L div day + 1) * day" "to_local z t div day * day \<le> to_local z t"
      "(?L div day + 3) * day \<le> to_local z t div day * day"
      using far by (simp_all add: mult_right_mono)
    with w0 have lt: "?L < ?l" "?l \<le> to_local z t" "?L + day < ?l" unfolding distrib_right by linarith+
    obtain u where u: "u \<le> now" "to_local z u = ?l" using shown [OF il(1) lt(1,2)] il(2) by auto
    have "now - 3 * day \<le> u" using offset_bound [OF laws, of u] offset_bound [OF laws, of now] u(2) lt(1) by linarith
    then have "zn_offset z u = (if u < c then o1 else o2)" "zn_offset z now = (if now < c then o1 else o2)"
      using s u by (simp_all add: single_change_def)
    with u j lt(3) show False unfolding to_local_def by (auto split: if_splits)
  qed
  with e tl show ?thesis using shown [of "to_local z t"] by (simp add: time_at_def)
qed

lemma window_steady:
  assumes laws: "zone_laws z" and w: "window_ok w" and s: "single_change z (now - 3 * day) (now + 7 * day) c o1 o2"
    and j: "o1 - o2 \<le> 86400" and t: "now < t" "t < next_change z w now"
  shows "contains_at z w t = contains_at z w now"
proof -
  note steady = offset_steady [OF laws w s]
  have eq: "contains_at z w u = contains w (time_at z (if second_pass c o1 o2 u then c - 1 else u))" if "now \<le> u" "u \<le> t" for u
    by (rule contains_at_eq [OF laws s j]) (use that steady(4) [of t] t in linarith)+
  have local: "to_local z u = u + zn_offset z now * second" if "now \<le> u" "u \<le> t" for u
    using steady(1) [of u] that t by (simp add: to_local_def)
  have past: "u < c \<and> c \<le> now \<and> second_pass c o1 o2 u'" if u: "u \<le> now" "to_local z u = to_local z u'" "now < u'" "u' \<le> t" for u u'
  proof -
    have "now - 3 * day \<le> u" using same_local_near [OF laws u(2)] u(3) by linarith
    then have "zn_offset z u = (if u < c then o1 else o2)" using s u(1) by (simp add: single_change_def)
    moreover have "zn_offset z u' = (if u' < c then o1 else o2)" "o1 \<noteq> o2 \<Longrightarrow> c \<le> u' \<Longrightarrow> c \<le> now"
      using steady(2,3) [of u'] u t by simp_all
    ultimately show ?thesis using u by (auto simp: to_local_def second_pass_def split: if_splits)
  qed
  have no_edge: "\<not> is_edge w (l mod day)"
    if l: "to_local z now < l" "l \<le> to_local z t" and p: "\<not> second_pass c o1 o2 (l - zn_offset z now * second)" for l
  proof
    let ?u = "l - zn_offset z now * second"
    assume e: "is_edge w (l mod day)"
    have u: "now < ?u" "?u \<le> t" using l local [of now] local [of t] t by linarith+
    then have "to_local z ?u = l" using local [of ?u] by simp
    with e passed_edge [OF laws w s j, of ?u] u t obtain v where "v \<le> now" "to_local z v = to_local z ?u" by (auto simp: time_at_def)
    with past [of v ?u] u p show False by blast
  qed
  have lt: "to_local z now < to_local z t" using local [of now] local [of t] t by simp
  show ?thesis
  proof (cases "second_pass c o1 o2 now")
    case True
    then have c: "c \<le> now" "o1 \<noteq> o2" by (auto simp: second_pass_def)
    have o: "zn_offset z now = o2" using steady(2) [of now] c t by simp
    have oc: "zn_offset z (c - 1) = o1" if "now - 3 * day \<le> c - 1" using s c that by (simp add: single_change_def)
    show ?thesis
    proof (cases "second_pass c o1 o2 t")
      case same: True
      with True eq [of now] eq [of t] t show ?thesis by simp
    next
      case False
      have "now - 3 * day \<le> c - 1" using True j unfolding second_pass_def by linarith
      then have before: "to_local z (c - 1) = c + o1 * second - 1" using oc by (simp add: to_local_def)
      have "contains w (to_local z t mod day) = contains w ((c + o1 * second - 1) mod day)"
      proof (rule contains_steady [OF w])
        show "c + o1 * second - 1 \<le> to_local z t"
          using False c t local [of t] o unfolding second_pass_def by linarith
        show "\<not> is_edge w (l mod day)" if "c + o1 * second - 1 < l" "l \<le> to_local z t" for l
          by (rule no_edge) (use that True local [of now] o t in \<open>auto simp: second_pass_def\<close>)
      qed
      with True False eq [of now] eq [of t] t before show ?thesis by (simp add: time_at_def)
    qed
  next
    case False
    have np: "\<not> second_pass c o1 o2 u" if u: "now \<le> u" "u \<le> t" for u
    proof
      assume p: "second_pass c o1 o2 u"
      then have "c \<le> now" using steady(3) [of u] u t by (auto simp: second_pass_def)
      with p False u show False by (simp add: second_pass_def)
    qed
    have "contains w (to_local z t mod day) = contains w (to_local z now mod day)"
    proof (rule contains_steady [OF w])
      show "\<not> is_edge w (l mod day)" if "to_local z now < l" "l \<le> to_local z t" for l
        by (rule no_edge [OF that np]) (use that local [of now] local [of t] t in linarith)+
    qed (use lt in simp)
    with np [of now] np [of t] eq [of now] eq [of t] t show ?thesis by (simp add: time_at_def)
  qed
qed

lemma recheck_holds:
  assumes "zone_laws z" "window_ok w" "calm_zone z now"
  shows "now < next_change z w now"
    and "now \<le> t \<Longrightarrow> t < next_change z w now \<Longrightarrow> contains_at z w t = contains_at z w now"
proof -
  from assms(3) obtain c o1 o2 where s: "single_change z (now - 3 * day) (now + 7 * day) c o1 o2" and j: "o1 - o2 \<le> 86400"
    by (auto simp: calm_zone_def)
  show "now < next_change z w now"
    using next_change_eq [OF assms(1,2) s] edge_or_day_bounds [OF assms(1,2), of now] by (simp split: if_splits)
  show "contains_at z w t = contains_at z w now" if "now \<le> t" "t < next_change z w now"
    using window_steady [OF assms(1,2) s j, of t] that by (cases "t = now") auto
qed

text \<open>C12. The announced re-check comes in time. Whatever the window and whatever the one offset change
  the zone may have nearby, a gap, a fold, or one that moves the clock forward past both edges: the
  instant the code announces lies ahead, and up to it the answer stays what it is now. So a watch
  that asks again at each announced instant never shows a wrong answer.\<close>

theorem window_recheck_in_time:
  assumes "zone_laws z" "window_ok w" "calm_zone z now"
  shows "now < next_change z w now \<and>
    (\<forall>t. now \<le> t \<and> t < next_change z w now \<longrightarrow> contains_at z w t = contains_at z w now)"
  using recheck_holds [OF assms] by blast

text \<open>Prague on 25 October 2026: at one o'clock UTC the clock goes back from three to two.\<close>

definition fold_instant :: int where
  "fold_instant = 1792890000 * second"

definition prague_autumn :: zone where
  "prague_autumn = \<lparr>zn_offset = (\<lambda>t. if t < fold_instant then 7200 else 3600),
     zn_from_local = (\<lambda>l. let first = l - 7200 * second; again = l - 3600 * second in
       if fold_instant \<le> first then LocalSingle again
       else if fold_instant \<le> again then LocalAmbiguous first again
       else LocalSingle first)\<rparr>"

lemma prague_autumn_laws: "zone_laws prague_autumn"
proof -
  have "t div second * second < fold_instant \<longleftrightarrow> t < fold_instant" for t
    unfolding fold_instant_def by (rule iffI; simp; linarith)
  moreover have "shows_exactly prague_autumn l (zn_from_local prague_autumn l)" for l
    by (auto simp: prague_autumn_def shows_exactly_def to_local_def fold_instant_def Let_def split: if_splits)
  ultimately show ?thesis by (simp add: zone_laws_def prague_autumn_def)
qed

lemma prague_autumn_single: "single_change prague_autumn lo hi fold_instant 7200 3600"
  by (simp add: single_change_def prague_autumn_def)

lemma prague_autumn_calm: "calm_zone prague_autumn t"
  unfolding calm_zone_def by (intro exI) (rule conjI, rule prague_autumn_single, simp)

definition early_window :: daily_window where
  "early_window = \<lparr>dw_from = 9000 * second, dw_to = 21600 * second\<rparr>"

theorem window_recheck_in_time_witness:
  "fold_instant < next_change prague_autumn early_window fold_instant \<and>
   contains_at prague_autumn early_window fold_instant"
proof -
  have w: "window_ok early_window" by (simp add: window_ok_def early_window_def)
  from window_recheck_in_time [OF prague_autumn_laws w prague_autumn_calm]
  have "fold_instant < next_change prague_autumn early_window fold_instant" ..
  moreover have "contains_at prague_autumn early_window fold_instant"
    by (subst contains_at_eq [OF prague_autumn_laws prague_autumn_single, where lo = "fold_instant - 2 * day" and hi = fold_instant])
      (simp_all add: second_pass_def contains_def early_window_def time_at_def to_local_def prague_autumn_def fold_instant_def)
  ultimately show ?thesis ..
qed

end
