(* ===== verification/Night_Mode.thy ===== *)
theory Night_Mode
  imports Daily_Window_Props
begin

text \<open>
  Night mode (\<^verbatim>\<open>bmc/src/night_mode.rs\<close>) on top of the watch over its daily window
  (\<open>DailyWindowWatch\<close> of \<^verbatim>\<open>bmc/src/daily_window.rs\<close>). The watch has a task that sleeps until the
  announced instant or a notification; the controller has a task that follows the watch, and calls
  of the web interface and the button, which release the configuration between its change and the
  publication. A step relation interleaves all of them; a call is the list of what it has still to do.
\<close>

section \<open>Overrides\<close>

datatype night_mode_override = NoOverride | ForceActive | ForceInactive

fun settle :: "night_mode_override \<Rightarrow> bool \<Rightarrow> bool \<Rightarrow> bool \<times> night_mode_override" where
  "settle ForceActive enabled scheduled = (if enabled \<and> \<not> scheduled then (True, ForceActive) else (scheduled, NoOverride))"
| "settle ForceInactive enabled scheduled = (if enabled \<and> scheduled then (False, ForceInactive) else (scheduled, NoOverride))"
| "settle NoOverride enabled scheduled = (scheduled, NoOverride)"

datatype reevaluation = KeepOverride | SetOverride night_mode_override | Toggle

section \<open>State\<close>

record night_mode_config =
  nc_enabled :: bool
  nc_from :: int
  nc_to :: int

definition window_of :: "night_mode_config \<Rightarrow> daily_window option" where
  "window_of c = (if nc_enabled c then Some \<lparr>dw_from = nc_from c, dw_to = nc_to c\<rparr> else None)"

text \<open>What a call does one step at a time; a change of the configuration carries whether it could be saved.\<close>

datatype call_step = ChangeEnabled bool bool | ChangeInterval int int bool | Publish reevaluation

record night_mode =
  nm_config :: night_mode_config
  nm_window :: "daily_window option"
  nm_zone :: zone
  nm_now :: int
  nm_inside :: bool
  nm_wake_at :: "int option"
  nm_notified :: bool
  nm_schedule_changed :: bool
  nm_active :: bool
  nm_override :: night_mode_override
  nm_calls :: "call_step list list"

section \<open>The watch over the window\<close>

definition watch_publish :: "daily_window option \<Rightarrow> night_mode \<Rightarrow> int option \<times> night_mode" where
  "watch_publish window s =
     (let inside = (case window of None \<Rightarrow> False | Some w \<Rightarrow> contains_at (nm_zone s) w (nm_now s));
          s1 = (if nm_inside s \<noteq> inside then s\<lparr>nm_inside := inside, nm_schedule_changed := True\<rparr> else s)
      in (map_option (\<lambda>w. next_change (nm_zone s) w (nm_now s)) window, s1))"

definition watch_set :: "daily_window option \<Rightarrow> night_mode \<Rightarrow> night_mode" where
  "watch_set window s = (snd (watch_publish window (s\<lparr>nm_window := window\<rparr>)))\<lparr>nm_notified := True\<rparr>"

definition recheck :: "night_mode \<Rightarrow> night_mode" where
  "recheck s = (let (next_change, s1) = watch_publish (nm_window s) s
     in s1\<lparr>nm_wake_at := next_change, nm_notified := False\<rparr>)"

section \<open>The controller\<close>

definition publish :: "reevaluation \<Rightarrow> night_mode \<Rightarrow> night_mode" where
  "publish r s =
     (let candidate = (case r of
            KeepOverride \<Rightarrow> nm_override s
          | SetOverride new_override \<Rightarrow> new_override
          | Toggle \<Rightarrow> if nm_active s then ForceInactive else ForceActive);
          (is_active, remaining) = settle candidate (nc_enabled (nm_config s)) (nm_inside s)
      in s\<lparr>nm_override := remaining, nm_active := is_active\<rparr>)"

definition change_config :: "(night_mode_config \<Rightarrow> night_mode_config) \<Rightarrow> night_mode \<Rightarrow> night_mode" where
  "change_config f s = (let c = f (nm_config s) in watch_set (window_of c) (s\<lparr>nm_config := c\<rparr>))"

definition set_enabled_steps :: "bool \<Rightarrow> bool \<Rightarrow> call_step list" where
  "set_enabled_steps enabled saved = [ChangeEnabled enabled saved, Publish (SetOverride NoOverride)]"

definition set_interval_steps :: "int \<Rightarrow> int \<Rightarrow> bool \<Rightarrow> call_step list" where
  "set_interval_steps from to saved = [ChangeInterval from to saved, Publish (SetOverride NoOverride)]"

definition toggle_steps :: "bool \<Rightarrow> night_mode \<Rightarrow> call_step list" where
  "toggle_steps saved s =
     (if nc_enabled (nm_config s) then [Publish Toggle]
      else set_enabled_steps True saved @ [Publish (SetOverride ForceActive)])"

text \<open>One step of a call, and whether the call goes on.\<close>

fun call_exec :: "call_step \<Rightarrow> night_mode \<Rightarrow> bool \<times> night_mode" where
  "call_exec (ChangeEnabled b saved) s = (saved, change_config (nc_enabled_update (\<lambda>_. b)) s)"
| "call_exec (ChangeInterval f t saved) s = (saved, change_config (\<lambda>c. c\<lparr>nc_from := f, nc_to := t\<rparr>) s)"
| "call_exec (Publish r) s = (True, publish r s)"

text \<open>At boot the controller subscribes to the watch after it has set the window.\<close>

definition night_mode_boot :: "night_mode_config \<Rightarrow> zone \<Rightarrow> int \<Rightarrow> night_mode" where
  "night_mode_boot c z now = publish KeepOverride ((watch_set (window_of c)
     \<lparr>nm_config = c, nm_window = None, nm_zone = z, nm_now = now, nm_inside = False, nm_wake_at = None,
      nm_notified = False, nm_schedule_changed = False, nm_active = False, nm_override = NoOverride, nm_calls = []\<rparr>)
     \<lparr>nm_schedule_changed := False\<rparr>)"

datatype night_event =
    SetEnabled bool bool
  | SetInterval int int bool
  | Pressed bool
  | CallStep nat
  | FollowSchedule
  | Recheck
  | TimeZone zone
  | ClockStep int
  | TimePasses nat

inductive night_step :: "night_mode \<Rightarrow> night_event \<Rightarrow> night_mode \<Rightarrow> bool" where
  set_enabled: "night_step s (SetEnabled b saved) (s\<lparr>nm_calls := nm_calls s @ [set_enabled_steps b saved]\<rparr>)"
| set_interval: "night_step s (SetInterval f t saved) (s\<lparr>nm_calls := nm_calls s @ [set_interval_steps f t saved]\<rparr>)"
| pressed: "night_step s (Pressed saved) (s\<lparr>nm_calls := nm_calls s @ [toggle_steps saved s]\<rparr>)"
| call_step: "k < length (nm_calls s) \<Longrightarrow> nm_calls s ! k = c # cs \<Longrightarrow> call_exec c s = (go_on, s') \<Longrightarrow>
    night_step s (CallStep k) (s'\<lparr>nm_calls := take k (nm_calls s) @ (if go_on \<and> cs \<noteq> [] then [cs] else []) @ drop (Suc k) (nm_calls s)\<rparr>)"
| follow_schedule: "nm_schedule_changed s \<Longrightarrow> night_step s FollowSchedule (publish KeepOverride (s\<lparr>nm_schedule_changed := False\<rparr>))"
| recheck: "nm_notified s \<or> (\<exists>t. nm_wake_at s = Some t \<and> t \<le> nm_now s) \<Longrightarrow> night_step s Recheck (recheck s)"
| time_zone: "night_step s (TimeZone z) (s\<lparr>nm_zone := z, nm_notified := True\<rparr>)"
| clock_step: "night_step s (ClockStep t) (s\<lparr>nm_now := t, nm_notified := True\<rparr>)"
| time_passes: "night_step s (TimePasses d) (s\<lparr>nm_now := nm_now s + int d\<rparr>)"

section \<open>The invariant\<close>

text \<open>Of the zones it is asked for the laws of a zone, and at most one change in any ten days.\<close>

definition steady_zone :: "zone \<Rightarrow> bool" where
  "steady_zone z \<longleftrightarrow> zone_laws z \<and> (\<forall>t. calm_zone z t)"

definition time_of_day :: "int \<Rightarrow> bool" where
  "time_of_day t \<longleftrightarrow> 0 \<le> t \<and> t < day"

definition inside_at :: "night_mode \<Rightarrow> int \<Rightarrow> bool" where
  "inside_at s t = (case nm_window s of None \<Rightarrow> False | Some w \<Rightarrow> contains_at (nm_zone s) w t)"

definition watching :: "night_mode \<Rightarrow> bool" where
  "watching s \<longleftrightarrow> nm_notified s \<or> (\<exists>r. r \<le> nm_now s \<and> nm_inside s = inside_at s r \<and>
     nm_wake_at s = map_option (\<lambda>w. next_change (nm_zone s) w r) (nm_window s))"

definition settled_mode :: "night_mode \<Rightarrow> bool" where
  "settled_mode s \<longleftrightarrow> settle (nm_override s) (nc_enabled (nm_config s)) (nm_inside s) = (nm_active s, nm_override s)"

text \<open>The times of day asked for are times of day and zones are steady; whether the changes could be
  saved is a question of its own.\<close>

fun step_valid :: "call_step \<Rightarrow> bool" where
  "step_valid (ChangeInterval f t _) = (time_of_day f \<and> time_of_day t)"
| "step_valid _ = True"

fun step_saved :: "call_step \<Rightarrow> bool" where
  "step_saved (ChangeEnabled _ saved) = saved"
| "step_saved (ChangeInterval _ _ saved) = saved"
| "step_saved (Publish _) = True"

fun event_valid :: "night_event \<Rightarrow> bool" where
  "event_valid (SetInterval f t _) = (time_of_day f \<and> time_of_day t)"
| "event_valid (TimeZone z) = steady_zone z"
| "event_valid _ = True"

fun event_saved :: "night_event \<Rightarrow> bool" where
  "event_saved (SetEnabled _ saved) = saved"
| "event_saved (SetInterval _ _ saved) = saved"
| "event_saved (Pressed saved) = saved"
| "event_saved _ = True"

definition event_ok :: "bool \<Rightarrow> night_event \<Rightarrow> bool" where
  "event_ok strict e \<longleftrightarrow> event_valid e \<and> (strict \<longrightarrow> event_saved e)"

definition call_ok :: "bool \<Rightarrow> call_step list \<Rightarrow> bool" where
  "call_ok strict cs \<longleftrightarrow> cs \<noteq> [] \<and> list_all step_valid cs \<and> (\<exists>r. last cs = Publish r) \<and>
     (strict \<longrightarrow> list_all step_saved cs)"

text \<open>When every change can be saved (\<open>strict\<close>), what is published fits the override, or a publication is
  under way. The rest holds in any case.\<close>

definition night_inv :: "bool \<Rightarrow> night_mode \<Rightarrow> bool" where
  "night_inv strict s \<longleftrightarrow> steady_zone (nm_zone s) \<and> time_of_day (nc_from (nm_config s)) \<and> time_of_day (nc_to (nm_config s)) \<and>
     nm_window s = window_of (nm_config s) \<and> (nm_inside s \<longrightarrow> nc_enabled (nm_config s)) \<and> watching s \<and>
     list_all (call_ok strict) (nm_calls s) \<and>
     (strict \<longrightarrow> settled_mode s \<or> nm_schedule_changed s \<or> nm_calls s \<noteq> [])"

lemma settle_idem: "settle o' e i = (a, r) \<Longrightarrow> settle r e i = (a, r)"
  by (cases o') (auto split: if_splits)

lemma publish_settles: "settled_mode (publish r s)"
proof -
  let ?c = "case r of KeepOverride \<Rightarrow> nm_override s | SetOverride x \<Rightarrow> x | Toggle \<Rightarrow> if nm_active s then ForceInactive else ForceActive"
  obtain a o' where "settle ?c (nc_enabled (nm_config s)) (nm_inside s) = (a, o')" by fastforce
  with settle_idem [OF this] show ?thesis by (simp add: settled_mode_def publish_def)
qed

lemma publish_same [simp]:
  "nm_config (publish r s) = nm_config s" "nm_window (publish r s) = nm_window s" "nm_zone (publish r s) = nm_zone s"
  "nm_now (publish r s) = nm_now s" "nm_inside (publish r s) = nm_inside s" "nm_wake_at (publish r s) = nm_wake_at s"
  "nm_notified (publish r s) = nm_notified s" "nm_schedule_changed (publish r s) = nm_schedule_changed s"
  "nm_calls (publish r s) = nm_calls s"
  by (simp_all add: publish_def split: prod.splits)

lemma watch_set_same [simp]:
  "nm_config (watch_set w s) = nm_config s" "nm_window (watch_set w s) = w" "nm_zone (watch_set w s) = nm_zone s"
  "nm_notified (watch_set w s) = True" "nm_calls (watch_set w s) = nm_calls s" "nm_now (watch_set w s) = nm_now s"
  "nm_override (watch_set w s) = nm_override s" "nm_active (watch_set w s) = nm_active s"
  "nm_inside (watch_set w s) = (case w of None \<Rightarrow> False | Some w \<Rightarrow> contains_at (nm_zone s) w (nm_now s))"
  by (cases w; simp add: watch_set_def watch_publish_def Let_def)+

lemma frame_same [simp]:
  "inside_at (s\<lparr>nm_calls := x\<rparr>) = inside_at s" "inside_at (s\<lparr>nm_schedule_changed := b\<rparr>) = inside_at s"
  "inside_at (publish r s) = inside_at s" "inside_at (s\<lparr>nm_now := t\<rparr>) = inside_at s"
  "watching (s\<lparr>nm_calls := x\<rparr>) = watching s" "watching (s\<lparr>nm_schedule_changed := b\<rparr>) = watching s"
  "watching (publish r s) = watching s"
  "settled_mode (s\<lparr>nm_calls := x\<rparr>) = settled_mode s"
  by (auto simp: fun_eq_iff inside_at_def watching_def settled_mode_def split: option.splits)

lemma recheck_same [simp]:
  "nm_config (recheck s) = nm_config s" "nm_window (recheck s) = nm_window s" "nm_zone (recheck s) = nm_zone s"
  "nm_now (recheck s) = nm_now s" "nm_notified (recheck s) = False" "nm_calls (recheck s) = nm_calls s"
  "nm_inside (recheck s) = inside_at s (nm_now s)" "nm_active (recheck s) = nm_active s" "nm_override (recheck s) = nm_override s"
  "nm_wake_at (recheck s) = map_option (\<lambda>w. next_change (nm_zone s) w (nm_now s)) (nm_window s)"
  "nm_schedule_changed (recheck s) = (nm_schedule_changed s \<or> nm_inside s \<noteq> inside_at s (nm_now s))"
  by (auto simp: recheck_def watch_publish_def inside_at_def Let_def)

lemma inside_enabled: "nm_window s = window_of c \<Longrightarrow> inside_at s t \<Longrightarrow> nc_enabled c"
  by (auto simp: inside_at_def window_of_def split: if_splits)

lemma change_config_keeps:
  assumes "night_inv strict s" "time_of_day (nc_from (f (nm_config s)))" "time_of_day (nc_to (f (nm_config s)))"
  shows "night_inv strict ((change_config f s)\<lparr>nm_calls := cs\<rparr>) \<longleftrightarrow> list_all (call_ok strict) cs \<and>
    (strict \<longrightarrow> settled_mode (change_config f s) \<or> nm_schedule_changed (change_config f s) \<or> cs \<noteq> [])"
  using assms
  by (auto simp: night_inv_def change_config_def watching_def settled_mode_def window_of_def Let_def)

lemma calls_ok:
  assumes "list_all (call_ok strict) cs" "k < length cs" "cs ! k = c # rest"
  shows "list_all (call_ok strict) (take k cs @ (if rest \<noteq> [] then [rest] else []) @ drop (Suc k) cs)" "step_valid c" "strict \<Longrightarrow> step_saved c"
    "rest = [] \<Longrightarrow> \<exists>r. c = Publish r"
proof -
  have c: "call_ok strict (c # rest)" using assms by (metis list_all_length)
  have "list_all (call_ok strict) (take k cs)" "list_all (call_ok strict) (drop (Suc k) cs)"
    using assms(1) by (auto simp: list_all_iff dest: in_set_takeD in_set_dropD)
  then show "list_all (call_ok strict) (take k cs @ (if rest \<noteq> [] then [rest] else []) @ drop (Suc k) cs)"
    using c by (auto simp: call_ok_def)
  show "step_valid c" "strict \<Longrightarrow> step_saved c" "rest = [] \<Longrightarrow> \<exists>r. c = Publish r" using c by (auto simp: call_ok_def)
qed

lemma night_step_inv:
  assumes inv: "night_inv strict s" and step: "night_step s e s'" and ok: "event_ok strict e"
  shows "night_inv strict s'"
  using step
proof (cases rule: night_step.cases)
  case (set_enabled b saved)
  then show ?thesis using inv ok
    by (auto simp: night_inv_def event_ok_def call_ok_def set_enabled_steps_def)
next
  case (set_interval f t saved)
  then show ?thesis using inv ok
    by (auto simp: night_inv_def event_ok_def call_ok_def set_interval_steps_def)
next
  case (pressed saved)
  have "call_ok strict (toggle_steps saved s)" using ok pressed(1) by (simp add: event_ok_def call_ok_def toggle_steps_def set_enabled_steps_def)
  then show ?thesis using inv pressed by (auto simp: night_inv_def)
next
  case (call_step k c cs go_on u)
  note calls = calls_ok [OF _ call_step(3,4)]
  have l: "list_all (call_ok strict) (nm_calls s)" using inv by (simp add: night_inv_def)
  then have rest: "list_all (call_ok strict) (take k (nm_calls s) @ drop (Suc k) (nm_calls s))"
    by (auto simp: list_all_iff dest: in_set_takeD in_set_dropD)
  show ?thesis
  proof (cases c)
    case (Publish r)
    then have "u = publish r s" "go_on" using call_step(5) by simp_all
    with inv call_step(2) calls(1) [OF l] publish_settles [of r s] show ?thesis
      by (simp add: night_inv_def)
  next
    case (ChangeEnabled b saved)
    then have "cs \<noteq> []" "strict \<Longrightarrow> saved" using calls(2-4) [OF l] by auto
    with ChangeEnabled call_step calls(1) [OF l] rest change_config_keeps [OF inv] inv show ?thesis
      by (auto simp: night_inv_def [of strict s])
  next
    case (ChangeInterval f t saved)
    then have "cs \<noteq> []" "strict \<Longrightarrow> saved" "time_of_day f" "time_of_day t" using calls(2-4) [OF l] by auto
    with ChangeInterval call_step calls(1) [OF l] rest change_config_keeps [OF inv, of "\<lambda>c. c\<lparr>nc_from := f, nc_to := t\<rparr>"]
    show ?thesis by auto
  qed
next
  case follow_schedule
  then show ?thesis using inv publish_settles by (auto simp: night_inv_def)
next
  case recheck
  have "watching (recheck s)" unfolding watching_def by (rule disjI2, rule exI [of _ "nm_now s"]) (simp add: inside_at_def split: option.splits)
  moreover have "strict \<longrightarrow> settled_mode (recheck s) \<or> nm_schedule_changed (recheck s) \<or> nm_calls (recheck s) \<noteq> []"
    using inv by (cases "nm_inside s = inside_at s (nm_now s)") (simp_all add: night_inv_def settled_mode_def)
  ultimately show ?thesis using inv recheck inside_enabled [of s "nm_config s"] by (auto simp: night_inv_def)
next
  case (time_zone z)
  then show ?thesis using inv ok by (auto simp: event_ok_def night_inv_def watching_def settled_mode_def)
next
  case (clock_step t)
  then show ?thesis using inv by (auto simp: night_inv_def watching_def settled_mode_def)
next
  case (time_passes d)
  have "watching s" using inv by (simp add: night_inv_def)
  then have "watching s'"
  proof (cases "nm_notified s")
    case False
    with \<open>watching s\<close> obtain r where r: "r \<le> nm_now s" "nm_inside s = inside_at s r"
        "nm_wake_at s = map_option (\<lambda>w. next_change (nm_zone s) w r) (nm_window s)" by (auto simp: watching_def)
    then show ?thesis unfolding watching_def time_passes(2) by (intro disjI2 exI [of _ r]) simp
  qed (simp add: watching_def time_passes(2))
  then show ?thesis using inv time_passes by (auto simp: night_inv_def settled_mode_def)
qed

section \<open>Properties\<close>

interpretation night: invariant_system "night_inv strict" "\<lambda>s e s'. event_ok strict e \<and> night_step s e s'" for strict
  by unfold_locales (auto intro: night_step_inv)

lemma night_boot_inv:
  assumes "steady_zone z" "time_of_day (nc_from c)" "time_of_day (nc_to c)"
  shows "night_inv strict (night_mode_boot c z now)"
  using assms publish_settles
  by (auto simp: night_inv_def night_mode_boot_def watching_def window_of_def)

lemma ok_trace:
  "trace night_step s es s' \<Longrightarrow> list_all (event_ok strict) es \<Longrightarrow>
   trace (\<lambda>s e s'. event_ok strict e \<and> night_step s e s') s es s'"
  by (induction rule: trace.induct) (auto intro: trace.intros)

lemma night_reachable:
  assumes "steady_zone z" "time_of_day (nc_from c)" "time_of_day (nc_to c)"
    "trace night_step (night_mode_boot c z now) es s" "list_all (event_ok strict) es"
  shows "night_inv strict s"
  using night.trace_inv [OF ok_trace [OF assms(4,5)] night_boot_inv [OF assms(1-3)]] .

text \<open>Nothing is under way: no call, no change of the schedule to follow, no notification to the watch,
  and its timer is not due.\<close>

definition at_rest :: "night_mode \<Rightarrow> bool" where
  "at_rest s \<longleftrightarrow> nm_calls s = [] \<and> \<not> nm_schedule_changed s \<and> \<not> nm_notified s \<and>
     (case nm_wake_at s of None \<Rightarrow> True | Some t \<Rightarrow> nm_now s < t)"

definition in_schedule :: "night_mode \<Rightarrow> bool" where
  "in_schedule s \<longleftrightarrow> nc_enabled (nm_config s) \<and>
     contains_at (nm_zone s) \<lparr>dw_from = nc_from (nm_config s), dw_to = nc_to (nm_config s)\<rparr> (nm_now s)"

lemma rest_inside:
  assumes inv: "night_inv strict s" and rest: "at_rest s" shows "nm_inside s = in_schedule s"
proof -
  from inv rest obtain r where r: "r \<le> nm_now s" "nm_inside s = inside_at s r"
      "nm_wake_at s = map_option (\<lambda>w. next_change (nm_zone s) w r) (nm_window s)"
    by (auto simp: night_inv_def watching_def at_rest_def)
  show ?thesis
  proof (cases "nc_enabled (nm_config s)")
    case True
    let ?w = "\<lparr>dw_from = nc_from (nm_config s), dw_to = nc_to (nm_config s)\<rparr>"
    have w: "nm_window s = Some ?w" using inv True by (simp add: night_inv_def window_of_def)
    have "window_ok ?w" using inv by (simp add: night_inv_def window_ok_def time_of_day_def)
    moreover have "zone_laws (nm_zone s)" "calm_zone (nm_zone s) r" using inv by (simp_all add: night_inv_def steady_zone_def)
    moreover have "nm_now s < next_change (nm_zone s) ?w r" using rest r(3) w by (simp add: at_rest_def)
    ultimately have "contains_at (nm_zone s) ?w (nm_now s) = contains_at (nm_zone s) ?w r"
      using recheck_holds r(1) by blast
    then show ?thesis using r(2) w True by (simp add: inside_at_def in_schedule_def)
  next
    case False
    then show ?thesis using inv by (auto simp: night_inv_def in_schedule_def)
  qed
qed

text \<open>Night mode as the schedule and the user say.\<close>

definition follows_schedule :: "night_mode \<Rightarrow> bool" where
  "follows_schedule s \<longleftrightarrow> (case nm_override s of
      NoOverride \<Rightarrow> nm_active s = in_schedule s
    | ForceActive \<Rightarrow> nm_active s \<and> nc_enabled (nm_config s) \<and> \<not> in_schedule s
    | ForceInactive \<Rightarrow> \<not> nm_active s \<and> nc_enabled (nm_config s) \<and> in_schedule s)"

lemma settled_follows:
  assumes "settled_mode s" "nm_inside s = in_schedule s"
  shows "follows_schedule s"
  using assms by (cases "nm_override s") (auto simp: follows_schedule_def settled_mode_def split: if_splits)

lemma publish_follows: "nm_inside s = in_schedule s \<Longrightarrow> follows_schedule (publish r s)"
  using settled_follows [OF publish_settles, of r s] by (simp add: in_schedule_def)

text \<open>C13. Night mode is what the schedule and the user say. After any interleaving of calls, presses of
  the button, re-checks, steps of the clock and changes to steady time zones, with changes of the
  configuration that may or may not be saved, once nothing is under way: if every change could be
  saved, night mode is on exactly when the configured window contains the present local time, unless
  the user forced it, and a forced state is only kept while night mode is enabled and the schedule
  says the opposite. A call whose change could not be saved ends before it publishes, so night mode
  may then differ from the configuration in use; in every case the next publication, whatever it is
  for, makes it what the schedule and the user say.\<close>

theorem night_mode_correct:
  assumes "steady_zone z" "time_of_day (nc_from c)" "time_of_day (nc_to c)"
    and "trace night_step (night_mode_boot c z now) es s" "list_all event_valid es" "at_rest s"
  shows "(list_all event_saved es \<longrightarrow> follows_schedule s) \<and> (\<forall>r. follows_schedule (publish r s))"
proof -
  have inv: "night_inv False s" using night_reachable [OF assms(1-4)] assms(5) by (simp add: event_ok_def list_all_iff)
  note inside = rest_inside [OF inv assms(6)]
  have "follows_schedule s" if "list_all event_saved es"
  proof -
    have "night_inv True s" using night_reachable [OF assms(1-4)] assms(5) that by (simp add: event_ok_def list_all_iff)
    then have "settled_mode s" using assms(6) by (auto simp: night_inv_def at_rest_def)
    with inside show ?thesis by (simp add: settled_follows)
  qed
  with publish_follows [OF inside] show ?thesis by blast
qed

text \<open>A press of the button that runs undisturbed flips what the user sees, also when night mode was disabled.\<close>

lemma press_flips:
  assumes inv: "night_inv True s" and rest: "at_rest s"
  shows "nm_active (fold (\<lambda>c u. snd (call_exec c u)) (toggle_steps True s) s) = (\<not> nm_active s)"
proof (cases "nc_enabled (nm_config s)")
  case True
  then show ?thesis by (auto simp: toggle_steps_def publish_def)
next
  case False
  have "settled_mode s" "\<not> nm_inside s" using inv rest False by (auto simp: night_inv_def at_rest_def)
  then have "\<not> nm_active s" using False by (cases "nm_override s") (auto simp: settled_mode_def)
  moreover have "nm_active (publish (SetOverride ForceActive) u)" if "nc_enabled (nm_config u)" for u
    using that by (simp add: publish_def)
  ultimately show ?thesis
    using False by (simp add: toggle_steps_def set_enabled_steps_def change_config_def Let_def)
qed

text \<open>When a change of the configuration cannot be saved, the call ends before it publishes: night mode
  that was forced on stays on although the configuration in use has it disabled.\<close>

definition noon :: int where
  "noon = fold_instant + 10 * 3600 * second"

definition evening :: night_mode_config where
  "evening = \<lparr>nc_enabled = True, nc_from = 81000 * second, nc_to = 23400 * second\<rparr>"

lemma noon_outside: "\<not> contains_at prague_autumn \<lparr>dw_from = nc_from evening, dw_to = nc_to evening\<rparr> noon"
  by (subst contains_at_eq [OF prague_autumn_laws prague_autumn_single, where lo = "noon - 2 * day" and hi = noon])
    (simp_all add: second_pass_def contains_def evening_def time_at_def to_local_def prague_autumn_def fold_instant_def noon_def)

definition forced_on :: night_mode where
  "forced_on = publish Toggle (recheck (night_mode_boot evening prague_autumn noon))"

lemma forced_on_value:
  "nm_active forced_on" "nm_override forced_on = ForceActive" "nm_calls forced_on = []" "\<not> nm_inside forced_on"
  "\<not> nm_schedule_changed forced_on" "nm_config forced_on = evening" "nm_window forced_on = window_of evening"
  using noon_outside
  by (simp_all add: forced_on_def publish_def recheck_def watch_publish_def night_mode_boot_def watch_set_def inside_at_def
      window_of_def evening_def Let_def)

lemma failed_save_keeps_night_mode:
  "let s = snd (call_exec (ChangeEnabled False False) forced_on) in
   fst (call_exec (ChangeEnabled False False) forced_on) = False \<and> \<not> nc_enabled (nm_config s) \<and> nm_active s \<and> \<not> nm_schedule_changed s"
  using forced_on_value
  by (simp add: change_config_def watch_set_def watch_publish_def window_of_def Let_def)

text \<open>A run: night mode is booted at noon, the watch re-checks, and nothing is under way.\<close>

lemma noon_run:
  "trace night_step (night_mode_boot evening prague_autumn noon) [Recheck] (recheck (night_mode_boot evening prague_autumn noon))"
  using trace_more [where step = night_step, OF trace_start night_step.recheck] by (simp add: night_mode_boot_def)

lemma evening_steady: "steady_zone prague_autumn" "time_of_day (nc_from evening)" "time_of_day (nc_to evening)"
  using prague_autumn_laws prague_autumn_calm by (simp_all add: steady_zone_def evening_def time_of_day_def)

lemma noon_rests: "at_rest (recheck (night_mode_boot evening prague_autumn noon))"
proof -
  let ?w = "\<lparr>dw_from = nc_from evening, dw_to = nc_to evening\<rparr>"
  have "window_ok ?w" by (simp add: window_ok_def evening_def)
  from recheck_holds(1) [OF prague_autumn_laws this prague_autumn_calm] have "noon < next_change prague_autumn ?w noon" .
  moreover have "window_of evening = Some ?w" by (simp add: window_of_def evening_def)
  ultimately show ?thesis
    using noon_outside
    by (simp add: at_rest_def inside_at_def night_mode_boot_def watch_set_def watch_publish_def Let_def)
qed

theorem night_mode_correct_witness:
  "nm_override (recheck (night_mode_boot evening prague_autumn noon)) = NoOverride \<and>
   \<not> nm_active (recheck (night_mode_boot evening prague_autumn noon)) \<and>
   follows_schedule (publish Toggle (recheck (night_mode_boot evening prague_autumn noon)))"
proof -
  let ?s = "recheck (night_mode_boot evening prague_autumn noon)"
  have o: "nm_override ?s = NoOverride" by (simp add: night_mode_boot_def publish_def)
  have "\<not> in_schedule ?s" using noon_outside by (simp add: in_schedule_def night_mode_boot_def watch_set_def watch_publish_def Let_def)
  with night_mode_correct [OF evening_steady noon_run _ noon_rests] o show ?thesis
    by (simp add: follows_schedule_def [of ?s])
qed

end
