(* ===== verification/Pkg_Gc.thy ===== *)
theory Pkg_Gc
  imports Pkg_Feed Machines
begin

text \<open>
  Garbage collection of the package profile (\<^verbatim>\<open>bmc-nix/src/gc.rs\<close>): which generations are kept, how
  the others are removed from the profile directory, when the store is swept, and the periodic job
  (\<^verbatim>\<open>bmc/src/system_upgrade/periodic_gc.rs\<close>) that has to remember a sweep it still owes. The directory
  is the list of its entries in the order they are read; which accesses to it fail, whether the lock is free and
  whether the sweep of the store succeeds are parameters.
\<close>

section \<open>Names\<close>

fun digits_value :: "nat \<Rightarrow> string \<Rightarrow> nat" where
  "digits_value acc [] = acc"
| "digits_value acc (c # cs) = digits_value (acc * 10 + (of_char c - 48)) cs"

text \<open>Rust's parser of unsigned integers takes a leading plus sign and any number of zeros.\<close>

definition parse_usize :: "string \<Rightarrow> nat option" where
  "parse_usize s =
     (let ds = (case s of c # r \<Rightarrow> if c = CHR ''+'' then r else s | [] \<Rightarrow> s) in
      if ds = [] \<or> \<not> list_all is_ascii_digit ds then None
      else if digits_value 0 ds < 2 ^ 64 then Some (digits_value 0 ds) else None)"

fun decimal :: "nat \<Rightarrow> string" where
  "decimal n = (if n < 10 then [char_of (48 + n)] else decimal (n div 10) @ [char_of (48 + n mod 10)])"

declare decimal.simps [simp del]

definition strip_suffix :: "string \<Rightarrow> string \<Rightarrow> string option" where
  "strip_suffix suf s =
     (let k = length s - length suf in
      if length suf \<le> length s \<and> drop k s = suf then Some (take k s) else None)"

definition generation_link_name :: "nat \<Rightarrow> string" where
  "generation_link_name n = decimal n @ ''-link''"

definition parse_generation_link_name :: "string \<Rightarrow> nat option" where
  "parse_generation_link_name name = Option.bind (strip_suffix ''-link'' name) parse_usize"

definition is_next_marker_name :: "string \<Rightarrow> bool" where
  "is_next_marker_name name \<longleftrightarrow> name = ''next'' \<or> take 5 name = ''next.''"

text \<open>The last component of a path.\<close>

fun components :: "string \<Rightarrow> string \<Rightarrow> string list" where
  "components acc [] = [rev acc]"
| "components acc (c # cs) = (if c = CHR ''/'' then rev acc # components [] cs else components (c # acc) cs)"

definition file_name :: "string \<Rightarrow> string option" where
  "file_name path =
     (case rev (filter (\<lambda>c. c \<noteq> '''' \<and> c \<noteq> ''.'') (components [] path)) of
        [] \<Rightarrow> None
      | c # _ \<Rightarrow> if c = ''..'' then None else Some c)"

definition extension :: "string \<Rightarrow> string option" where
  "extension name =
     (if name = ''..'' \<or> CHR ''.'' \<notin> set name then None
      else let ext = rev (takeWhile (\<lambda>c. c \<noteq> CHR ''.'') (rev name)) in
        if length name = length ext + 1 then None else Some ext)"

definition ascii_lower :: "char \<Rightarrow> char" where
  "ascii_lower c = (if CHR ''A'' \<le> c \<and> c \<le> CHR ''Z'' then char_of (of_char c + 32 :: nat) else c)"

definition is_leftover_tmp_name :: "string \<Rightarrow> bool" where
  "is_leftover_tmp_name name \<longleftrightarrow> (case extension name of None \<Rightarrow> False | Some ext \<Rightarrow> map ascii_lower ext = ''tmp'')"

section \<open>The profile directory\<close>

datatype gc_kind = GcDir | GcLink string | GcFile

text \<open>The time of modification is none when it cannot be read.\<close>

record gc_entry =
  ge_kind :: gc_kind
  ge_modified :: "int option"

type_synonym profile = "(string \<times> gc_entry) list"

record gc_io =
  gi_unlisted :: bool
  gi_unreadable :: "string \<Rightarrow> bool"
  gi_stuck :: "string \<Rightarrow> bool"
  gi_now :: int
  gi_path :: string

text \<open>A generation directory is one entry: a removal that fails leaves it, also when some of its
  contents were removed before the failure.\<close>

definition remove_profile_entry :: "gc_io \<Rightarrow> string \<Rightarrow> profile \<Rightarrow> profile option" where
  "remove_profile_entry io name d =
     (if map_of d name = None \<or> gi_stuck io name then None else Some (filter (\<lambda>e. fst e \<noteq> name) d))"

definition generation_number_of :: "string \<Rightarrow> nat option" where
  "generation_number_of target = Option.bind (file_name target) parse_generation_link_name"

definition current_generation_number :: "gc_io \<Rightarrow> profile \<Rightarrow> unit + nat option" where
  "current_generation_number io d =
     (case map_of d ''current'' of
        None \<Rightarrow> Inr None
      | Some e \<Rightarrow>
          if gi_unreadable io ''current'' then Inl ()
          else (case ge_kind e of
              GcLink target \<Rightarrow> Inr (generation_number_of (if take 1 target = ''/'' then target else gi_path io @ ''/'' @ target))
            | _ \<Rightarrow> Inl ()))"

fun next_generation_numbers :: "gc_io \<Rightarrow> profile \<Rightarrow> unit + nat list" where
  "next_generation_numbers io [] = Inr []"
| "next_generation_numbers io ((name, e) # d) =
     (if \<not> is_next_marker_name name then next_generation_numbers io d
      else if gi_unreadable io name then Inl ()
      else (case ge_kind e of
          GcLink target \<Rightarrow> map_sum id (\<lambda>ns. case generation_number_of target of Some n \<Rightarrow> n # ns | None \<Rightarrow> ns) (next_generation_numbers io d)
        | _ \<Rightarrow> next_generation_numbers io d))"

section \<open>What is kept\<close>

record gc_config =
  gc_keep_generations :: nat
  gc_keep_days :: "nat option"
  gc_protected_generations :: "nat list"
  gc_periodic :: bool

definition kept_by_age :: "gc_io \<Rightarrow> profile \<Rightarrow> nat \<Rightarrow> nat \<Rightarrow> bool" where
  "kept_by_age io d days g =
     (let cutoff = gi_now io - int days * 24 * 60 * 60 * 1000000000 in
      case map_of d (generation_link_name g) of
        None \<Rightarrow> True
      | Some e \<Rightarrow> (case ge_modified e of Some modified \<Rightarrow> cutoff < modified | None \<Rightarrow> ge_kind e = GcDir))"

definition generations_to_keep :: "gc_io \<Rightarrow> profile \<Rightarrow> gc_config \<Rightarrow> nat list \<Rightarrow> nat list \<Rightarrow> unit + nat set" where
  "generations_to_keep io d cfg keep_extra gens =
     (case current_generation_number io d of Inl e \<Rightarrow> Inl e | Inr current \<Rightarrow>
      case next_generation_numbers io d of Inl e \<Rightarrow> Inl e | Inr nexts \<Rightarrow>
        Inr (set_option current \<union> set nexts \<union> (if gens = [] then {} else {last gens}) \<union>
          set (gc_protected_generations cfg) \<union> set keep_extra \<union> set (take (gc_keep_generations cfg) (rev gens)) \<union>
          (case gc_keep_days cfg of None \<Rightarrow> {} | Some days \<Rightarrow> {g \<in> set gens. kept_by_age io d days g})))"

section \<open>Cleaning up\<close>

datatype cleanup_error = CleanupIo | RemovalFailures nat nat nat string

text \<open>The loops that remove entries and count.\<close>

record tally =
  ta_removed :: nat
  ta_attempted :: nat
  ta_failed :: nat
  ta_first :: "string option"

fun remove_entries :: "gc_io \<Rightarrow> string list \<Rightarrow> tally \<Rightarrow> profile \<Rightarrow> tally \<times> profile" where
  "remove_entries io [] t d = (t, d)"
| "remove_entries io (name # names) t d =
     (let t1 = t\<lparr>ta_attempted := ta_attempted t + 1\<rparr> in
      case remove_profile_entry io name d of
        Some d' \<Rightarrow> remove_entries io names (t1\<lparr>ta_removed := ta_removed t + 1\<rparr>) d'
      | None \<Rightarrow> remove_entries io names (t1\<lparr>ta_failed := ta_failed t + 1,
          ta_first := (case ta_first t of None \<Rightarrow> Some name | f \<Rightarrow> f)\<rparr>) d)"

definition last_gc_marker :: string where
  "last_gc_marker = ''.last-gc''"

definition generations_of :: "profile \<Rightarrow> nat list" where
  "generations_of d = sort (List.map_filter (parse_generation_link_name \<circ> fst) d)"

definition leftovers_of :: "profile \<Rightarrow> string list" where
  "leftovers_of d = filter (\<lambda>n. parse_generation_link_name n = None \<and> is_leftover_tmp_name n) (map fst d)"

definition cleanup_generations ::
  "gc_io \<Rightarrow> gc_config \<Rightarrow> nat list \<Rightarrow> profile option \<Rightarrow> (cleanup_error + nat) \<times> profile option" where
  "cleanup_generations io cfg keep_extra profile =
     (case profile of
        None \<Rightarrow> (Inr 0, None)
      | Some d0 \<Rightarrow>
          if gi_unlisted io then (Inl CleanupIo, Some d0)
          else
            let gens = generations_of d0; tmps = leftovers_of d0;
                d = (if last_gc_marker \<in> fst ` set d0
                     then (case remove_profile_entry io last_gc_marker d0 of Some d' \<Rightarrow> d' | None \<Rightarrow> d0) else d0)
            in if gens = [] \<and> tmps = [] then (Inr 0, Some d)
               else (case generations_to_keep io d cfg keep_extra gens of
                   Inl _ \<Rightarrow> (Inl CleanupIo, Some d)
                 | Inr keep \<Rightarrow>
                     let (t, d') = remove_entries io
                           (map generation_link_name (filter (\<lambda>g. g \<notin> keep) gens) @ tmps)
                           \<lparr>ta_removed = 0, ta_attempted = 0, ta_failed = 0, ta_first = None\<rparr> d
                     in ((case ta_first t of
                           Some first \<Rightarrow> Inl (RemovalFailures (ta_removed t) (ta_attempted t) (ta_failed t) first)
                         | None \<Rightarrow> Inr (ta_removed t)), Some d')))"

fun cleanup_removed :: "cleanup_error \<Rightarrow> nat" where
  "cleanup_removed CleanupIo = 0"
| "cleanup_removed (RemovalFailures removed _ _ _) = removed"

text \<open>Discarding the generations above a floor, built or half-built; the result lists the removed numbers.\<close>

fun discard_loop :: "gc_io \<Rightarrow> nat option \<Rightarrow> nat option \<Rightarrow> string list \<Rightarrow> nat list \<Rightarrow> profile \<Rightarrow> (string + nat list) \<times> profile" where
  "discard_loop io current limit [] removed d = (Inr (remdups (sort removed)), d)"
| "discard_loop io current limit (name # names) removed d =
     (case parse_generation_link_name (case strip_suffix ''.tmp'' name of Some n \<Rightarrow> n | None \<Rightarrow> name) of
        None \<Rightarrow> discard_loop io current limit names removed d
      | Some number \<Rightarrow>
          if (case limit of None \<Rightarrow> False | Some f \<Rightarrow> number \<le> f) \<or> current = Some number
          then discard_loop io current limit names removed d
          else (case remove_profile_entry io name d of
              None \<Rightarrow> (Inl name, d)
            | Some d' \<Rightarrow> discard_loop io current limit names (removed @ [number]) d'))"

definition discard_generations_above ::
  "gc_io \<Rightarrow> nat option \<Rightarrow> profile \<Rightarrow> (string option + nat list) \<times> profile" where
  "discard_generations_above io limit d =
     (case current_generation_number io d of
        Inl _ \<Rightarrow> (Inl None, d)
      | Inr current \<Rightarrow>
          if gi_unlisted io then (Inl None, d)
          else map_prod (map_sum Some id) id (discard_loop io current limit (map fst d) [] d))"

section \<open>Collecting\<close>

datatype on_busy = BusyWait | BusySkip
datatype sweep = SweepAlways | SweepWhenRemoved
datatype gc_outcome = Collected | SweptDespiteCleanupFailure | NothingToCollect | GcBusy
datatype profile_gc_error = GcLock | GcCleanup cleanup_error | GcSweep nat

fun unswept_removals :: "profile_gc_error \<Rightarrow> nat" where
  "unswept_removals GcLock = 0"
| "unswept_removals (GcCleanup err) = cleanup_removed err"
| "unswept_removals (GcSweep removed) = removed"

datatype lock_attempt = LockFailed | LockHeld | LockFree

text \<open>The result, whether the store was swept to the end, and the directory.\<close>

definition collect_profile_garbage ::
  "lock_attempt \<Rightarrow> gc_io \<Rightarrow> bool \<Rightarrow> gc_config \<Rightarrow> on_busy \<Rightarrow> sweep \<Rightarrow> profile option \<Rightarrow>
     (profile_gc_error + gc_outcome) \<times> bool \<times> profile option" where
  "collect_profile_garbage lock io sweep_ok cfg busy sweep profile =
     (if lock = LockFailed then (Inl GcLock, False, profile)
      else if busy = BusySkip \<and> lock = LockHeld then (Inr GcBusy, False, profile)
      else
        let (r, profile') = cleanup_generations io cfg [] profile;
            (removed, cleanup_failure) = (case r of Inr n \<Rightarrow> (n, None) | Inl err \<Rightarrow> (cleanup_removed err, Some err))
        in if sweep = SweepWhenRemoved \<and> removed = 0
           then ((case cleanup_failure of Some err \<Rightarrow> Inl (GcCleanup err) | None \<Rightarrow> Inr NothingToCollect), False, profile')
           else if \<not> sweep_ok then (Inl (GcSweep removed), False, profile')
           else (Inr (case cleanup_failure of Some _ \<Rightarrow> SweptDespiteCleanupFailure | None \<Rightarrow> Collected), True, profile'))"

datatype package_gc_error = GcConfigUnreadable | UnsweptRemovals nat | GcOperational

fun package_unswept :: "package_gc_error \<Rightarrow> nat" where
  "package_unswept (UnsweptRemovals removed) = removed"
| "package_unswept _ = 0"

text \<open>The package backend loads the configuration and translates the errors.\<close>

definition backend_gc ::
  "gc_config option \<Rightarrow> lock_attempt \<Rightarrow> gc_io \<Rightarrow> bool \<Rightarrow> on_busy \<Rightarrow> sweep \<Rightarrow> profile option \<Rightarrow>
     (package_gc_error + gc_outcome) \<times> bool \<times> profile option" where
  "backend_gc config lock io sweep_ok busy sweep profile =
     (case config of
        None \<Rightarrow> (Inl GcConfigUnreadable, False, profile)
      | Some cfg \<Rightarrow>
          map_prod (map_sum (\<lambda>err. if unswept_removals err > 0 then UnsweptRemovals (unswept_removals err) else GcOperational) id) id
            (collect_profile_garbage lock io sweep_ok cfg busy sweep profile))"

section \<open>The periodic job\<close>

record periodic_gc =
  pg_escalate_sweep :: bool

record gc_occasion =
  go_startup :: bool
  go_config :: "gc_config option"
  go_gate_free :: bool
  go_lock :: lock_attempt
  go_io :: gc_io
  go_sweep_ok :: bool
  go_profile :: "profile option"

definition periodic_gc_new :: periodic_gc where
  "periodic_gc_new = \<lparr>pg_escalate_sweep = False\<rparr>"

definition periodic_sweep :: "periodic_gc \<Rightarrow> sweep" where
  "periodic_sweep g = (if pg_escalate_sweep g then SweepAlways else SweepWhenRemoved)"

definition skips :: "gc_occasion \<Rightarrow> bool" where
  "skips oc = (go_startup oc \<or> (case go_config oc of Some cfg \<Rightarrow> \<not> gc_periodic cfg | None \<Rightarrow> False) \<or> \<not> go_gate_free oc)"

text \<open>A run gives the job's state, whether the store was swept to the end, and the directory.\<close>

definition periodic_gc_run :: "gc_occasion \<Rightarrow> periodic_gc \<Rightarrow> periodic_gc \<times> bool \<times> profile option" where
  "periodic_gc_run oc g =
     (if skips oc then (g, False, go_profile oc)
      else
        let (r, swept, profile') =
              backend_gc (go_config oc) (go_lock oc) (go_io oc) (go_sweep_ok oc) BusySkip (periodic_sweep g) (go_profile oc);
            escalate = (case r of
                Inr Collected \<Rightarrow> False
              | Inr SweptDespiteCleanupFailure \<Rightarrow> False
              | Inr _ \<Rightarrow> pg_escalate_sweep g
              | Inl err \<Rightarrow> package_unswept err > 0 \<or> pg_escalate_sweep g)
        in (\<lparr>pg_escalate_sweep = escalate\<rparr>, swept, profile'))"

section \<open>Names and numbers\<close>

lemma digits_value_snoc: "digits_value acc (s @ [c]) = digits_value acc s * 10 + (of_char c - 48)"
  by (induction s arbitrary: acc) simp_all

lemma digit_char: "n < 10 \<Longrightarrow> is_ascii_digit (char_of (48 + n :: nat)) \<and> of_char (char_of (48 + n) :: char) - 48 = n"
  by (simp add: is_ascii_digit_def less_eq_char_def)

lemma decimal_digits: "decimal n \<noteq> [] \<and> list_all is_ascii_digit (decimal n) \<and> digits_value 0 (decimal n) = n"
proof (induction n rule: decimal.induct)
  case (1 n)
  show ?case
  proof (cases "n < 10")
    case True
    then show ?thesis using digit_char [of n] by (simp add: decimal.simps [of n])
  next
    case False
    with 1 digit_char [of "n mod 10"] show ?thesis
      by (simp add: decimal.simps [of n] digits_value_snoc)
  qed
qed

lemma decimal_inj: "decimal m = decimal n \<Longrightarrow> m = n"
  by (metis decimal_digits)

lemma parse_decimal: "n < 2 ^ 64 \<Longrightarrow> parse_usize (decimal n) = Some n"
proof -
  assume n: "n < 2 ^ 64"
  have "hd (decimal n) \<noteq> CHR ''+''"
    using decimal_digits [of n] by (cases "decimal n") (auto simp: is_ascii_digit_def less_eq_char_def)
  then show ?thesis
    using decimal_digits [of n] n by (cases "decimal n") (auto simp: parse_usize_def)
qed

lemma parse_link_name: "n < 2 ^ 64 \<Longrightarrow> parse_generation_link_name (generation_link_name n) = Some n"
  by (simp add: parse_generation_link_name_def generation_link_name_def strip_suffix_def parse_decimal)

lemma link_name_inj: "generation_link_name m = generation_link_name n \<longleftrightarrow> m = n"
  using decimal_inj by (auto simp: generation_link_name_def)

end
