(* ===== verification/Pkg_Gc_Props.thy ===== *)
theory Pkg_Gc_Props
  imports Pkg_Gc
begin

text \<open>
  Properties of the garbage collection: nothing that is in use, waiting for a reboot, protected or
  recent is ever removed, whatever fails on the way; what was removed is counted exactly; and the
  periodic job does not forget a sweep it owes.
\<close>

section \<open>Removing entries\<close>

lemma remove_entries_spec:
  "remove_entries io names t d = (t', d') \<Longrightarrow> distinct (map fst d) \<Longrightarrow>
   distinct (map fst d') \<and> set d' \<subseteq> set d \<and> (\<forall>e \<in> set d. e \<in> set d' \<or> fst e \<in> set names) \<and>
   ta_removed t' + length d' = ta_removed t + length d \<and> ta_attempted t' = ta_attempted t + length names"
proof (induction io names t d arbitrary: t' d' rule: remove_entries.induct)
  case (2 io name names t d)
  show ?case
  proof (cases "remove_profile_entry io name d")
    case None
    from 2(1) [OF refl None, of t' d'] 2(3,4) None show ?thesis by (auto simp: Let_def)
  next
    case (Some d1)
    then have d1: "d1 = filter (\<lambda>e. fst e \<noteq> name) d" "map_of d name \<noteq> None"
      by (auto simp: remove_profile_entry_def split: if_splits)
    have "distinct (map fst d1)" unfolding d1(1) using 2(4) by (rule distinct_map_filter)
    moreover have "length d = length d1 + 1"
    proof -
      from d1(2) obtain e where e: "(name, e) \<in> set d" by (auto dest: map_of_SomeD)
      have "filter (\<lambda>x. fst x = name) d = [(name, e)]" using e 2(4)
      proof (induction d)
        case (Cons x d)
        have "filter (\<lambda>y. fst y = name) d = []" if "fst x = name" using Cons.prems(2) that by (auto simp: filter_empty_conv image_iff)
        with Cons show ?case by (cases "fst x = name") (auto simp: rev_image_eqI)
      qed simp
      then show ?thesis using sum_length_filter_compl [of "\<lambda>x. fst x = name" d] by (simp add: d1(1))
    qed
    ultimately show ?thesis using 2(2) [OF refl Some, of t' d'] 2(3) Some by (auto simp: Let_def d1(1)) blast
  qed
qed simp

section \<open>Links\<close>

lemma components_append: "components acc (p @ CHR ''/'' # t) = components acc p @ components [] t"
  by (induction p arbitrary: acc) auto

lemma file_name_rebased: "file_name t = Some n \<Longrightarrow> file_name (p @ ''/'' @ t) = Some n"
  by (auto simp: file_name_def components_append split: list.splits if_splits)

definition points_to :: "profile \<Rightarrow> nat \<Rightarrow> bool" where
  "points_to d g \<longleftrightarrow> (\<exists>name e target. (name, e) \<in> set d \<and> ge_kind e = GcLink target \<and>
     (name = ''current'' \<or> is_next_marker_name name) \<and> generation_number_of target = Some g)"

lemma current_number:
  assumes "current_generation_number io d = Inr c" "distinct (map fst d)"
    "(''current'', e) \<in> set d" "ge_kind e = GcLink target" "generation_number_of target = Some g"
  shows "c = Some g"
proof -
  have "map_of d ''current'' = Some e" using assms(2,3) by simp
  moreover from assms(5) obtain n where "file_name target = Some n" by (auto simp: generation_number_of_def bind_eq_Some_conv)
  with assms(5) have "generation_number_of (gi_path io @ ''/'' @ target) = Some g"
    using file_name_rebased by (simp add: generation_number_of_def)
  ultimately show ?thesis using assms(1,4,5) by (auto simp: current_generation_number_def split: if_splits)
qed

lemma next_numbers:
  "next_generation_numbers io d = Inr ns \<Longrightarrow> (name, e) \<in> set d \<Longrightarrow> ge_kind e = GcLink target \<Longrightarrow>
   is_next_marker_name name \<Longrightarrow> generation_number_of target = Some g \<Longrightarrow> g \<in> set ns"
proof (induction io d arbitrary: ns rule: next_generation_numbers.induct)
  case (2 io n x d)
  show ?case
  proof (cases "(name, e) = (n, x)")
    case True
    with 2(4-) show ?thesis by (cases "next_generation_numbers io d") (auto split: if_splits)
  next
    case False
    with 2 show ?thesis
      by (cases "next_generation_numbers io d") (auto split: if_splits gc_kind.splits option.splits)
  qed
qed simp

section \<open>What is removed\<close>

definition removable :: "gc_config \<Rightarrow> nat list \<Rightarrow> profile \<Rightarrow> nat \<Rightarrow> bool" where
  "removable cfg keep_extra d g \<longleftrightarrow> \<not> points_to d g \<and> g \<notin> set (gc_protected_generations cfg) \<and> g \<notin> set keep_extra \<and>
     gc_keep_generations cfg \<le> length (filter (\<lambda>h. g < h) (generations_of d)) \<and> (\<exists>h \<in> set (generations_of d). g < h)"

lemma newest_kept:
  assumes "sorted gens" "g \<in> set gens" "g \<notin> set (take k (rev gens))"
  shows "k \<le> length (filter (\<lambda>h. g < h) gens)"
proof -
  have "k \<le> length gens" using assms(2,3) by (metis nat_le_linear length_rev set_rev take_all)
  have "g < h" if "h \<in> set (take k (rev gens))" for h
  proof -
    from that obtain i where "i < length (take k (rev gens))" "take k (rev gens) ! i = h" by (auto simp only: in_set_conv_nth)
    then have i: "i < k" "i < length gens" "h = rev gens ! i" by auto
    obtain j where j: "j < length gens" "g = rev gens ! j" using assms(2) by (metis in_set_conv_nth length_rev set_rev)
    have "\<not> j < k" using assms(3) j by (metis in_set_conv_nth length_rev length_take min_less_iff_conj nth_take)
    then have "g \<le> h" using i j assms(1) by (simp add: rev_nth sorted_iff_nth_mono)
    moreover have "g \<noteq> h" using assms(3) that by blast
    ultimately show ?thesis by simp
  qed
  then have "filter (\<lambda>h. g < h) (take k (rev gens)) = take k (rev gens)" by (simp add: filter_id_conv)
  moreover have "length (filter (\<lambda>h. g < h) (take k (rev gens))) \<le> length (filter (\<lambda>h. g < h) (rev gens))"
    by (metis append_take_drop_id filter_append length_append le_add1)
  ultimately show ?thesis using \<open>k \<le> length gens\<close> by (simp add: rev_filter [symmetric])
qed

lemma marker_irrelevant:
  assumes "d = filter (\<lambda>e. fst e \<noteq> last_gc_marker) d0 \<or> d = d0"
  shows "current_generation_number io d = current_generation_number io d0"
    "next_generation_numbers io d = next_generation_numbers io d0"
proof -
  have n: "next_generation_numbers io (filter (\<lambda>e. fst e \<noteq> last_gc_marker) d0) = next_generation_numbers io d0"
  proof (induction d0)
    case (Cons x d0)
    have "\<not> is_next_marker_name last_gc_marker" by (simp add: is_next_marker_name_def last_gc_marker_def)
    with Cons show ?case by (cases x) (auto split: gc_kind.splits)
  qed simp
  have "map_of (filter (\<lambda>e. fst e \<noteq> last_gc_marker) d0) ''current'' = map_of d0 ''current''"
    by (induction d0) (auto simp: last_gc_marker_def)
  with assms show "current_generation_number io d = current_generation_number io d0"
    by (auto simp: current_generation_number_def)
  show "next_generation_numbers io d = next_generation_numbers io d0" using assms n by auto
qed

lemma not_kept_removable:
  assumes keep: "generations_to_keep io d cfg keep_extra (generations_of d0) = Inr keep"
    and d: "d = filter (\<lambda>e. fst e \<noteq> last_gc_marker) d0 \<or> d = d0" and dist: "distinct (map fst d0)"
    and g: "g \<in> set (generations_of d0)" "g \<notin> keep"
  shows "removable cfg keep_extra d0 g"
proof -
  let ?gens = "generations_of d0"
  from keep obtain c ns where c: "current_generation_number io d0 = Inr c" and ns: "next_generation_numbers io d0 = Inr ns"
    and k: "g \<notin> set_option c" "g \<notin> set ns" "g \<noteq> last ?gens" "g \<notin> set (gc_protected_generations cfg)" "g \<notin> set keep_extra"
      "g \<notin> set (take (gc_keep_generations cfg) (rev ?gens))"
    using g unfolding generations_to_keep_def marker_irrelevant [OF d]
    by (auto split: sum.splits option.splits if_splits)
  have "\<not> points_to d0 g"
    using current_number [OF c dist] next_numbers [OF ns] k(1,2) unfolding points_to_def by fastforce
  moreover have sorted: "sorted ?gens" by (simp add: generations_of_def)
  moreover have "\<exists>h \<in> set ?gens. g < h"
  proof -
    have "?gens \<noteq> []" using g(1) by auto
    then have "g \<le> last ?gens" using g(1) sorted by (metis in_set_conv_nth last_conv_nth sorted_iff_nth_mono diff_less length_greater_0_conv less_Suc_eq_le Suc_diff_1 zero_less_one)
    with k(3) \<open>?gens \<noteq> []\<close> show ?thesis by (intro bexI [of _ "last ?gens"]) auto
  qed
  ultimately show ?thesis using k newest_kept [OF sorted g(1) k(6)] by (simp add: removable_def)
qed

definition no_tally :: tally where
  "no_tally = \<lparr>ta_removed = 0, ta_attempted = 0, ta_failed = 0, ta_first = None\<rparr>"

definition without_marker :: "gc_io \<Rightarrow> profile \<Rightarrow> profile" where
  "without_marker io d = (if last_gc_marker \<in> fst ` set d
     then (case remove_profile_entry io last_gc_marker d of Some d' \<Rightarrow> d' | None \<Rightarrow> d) else d)"

lemma without_marker_cases: "without_marker io d = filter (\<lambda>e. fst e \<noteq> last_gc_marker) d \<or> without_marker io d = d"
  by (auto simp: without_marker_def remove_profile_entry_def)

text \<open>A cleanup either removes nothing but the stale marker, or the entries that are not kept.\<close>

lemma cleanup_cases:
  assumes "cleanup_generations io cfg keep_extra (Some d) = (r, Some d')"
  obtains (nothing) "d' = d \<or> d' = without_marker io d" "r = Inl CleanupIo \<or> r = Inr 0"
  | (removed) keep t where "generations_to_keep io (without_marker io d) cfg keep_extra (generations_of d) = Inr keep"
      "remove_entries io (map generation_link_name (filter (\<lambda>g. g \<notin> keep) (generations_of d)) @ leftovers_of d) no_tally
         (without_marker io d) = (t, d')"
      "r = (case ta_first t of Some first \<Rightarrow> Inl (RemovalFailures (ta_removed t) (ta_attempted t) (ta_failed t) first) | None \<Rightarrow> Inr (ta_removed t))"
  using assms unfolding cleanup_generations_def option.case Let_def without_marker_def [symmetric] no_tally_def [symmetric]
  by (auto split: if_splits sum.splits prod.splits)

lemma removed_entry:
  assumes "cleanup_generations io cfg keep_extra (Some d) = (r, Some d')" "distinct (map fst d)"
    and n: "(n, e) \<in> set d" "(n, e) \<notin> set d'"
  shows "n = last_gc_marker \<or> is_leftover_tmp_name n \<or> (\<exists>g. n = generation_link_name g \<and> removable cfg keep_extra d g)"
  using assms(1)
proof (cases rule: cleanup_cases)
  case nothing
  then show ?thesis using n without_marker_cases [of io d] by auto
next
  case (removed keep t)
  have dist: "distinct (map fst (without_marker io d))"
    using without_marker_cases [of io d] assms(2) by (auto intro: distinct_map_filter)
  show ?thesis
  proof (cases "(n, e) \<in> set (without_marker io d)")
    case True
    with remove_entries_spec [OF removed(2) dist] n(2)
    have "n \<in> set (map generation_link_name (filter (\<lambda>g. g \<notin> keep) (generations_of d)) @ leftovers_of d)" by fastforce
    then consider g where "n = generation_link_name g" "g \<in> set (generations_of d)" "g \<notin> keep" | "is_leftover_tmp_name n"
      by (auto simp: leftovers_of_def)
    then show ?thesis
      using not_kept_removable [OF removed(1) without_marker_cases assms(2)] by cases auto
  next
    case False
    then show ?thesis using n(1) without_marker_cases [of io d] by auto
  qed
qed

text \<open>C14. Garbage collection spares what is needed. Whatever the profile directory holds and whichever
  accesses to it fail: an entry that a cleanup removes is a leftover of an interrupted swap, the
  retired marker, or a generation that neither the current link nor any marker for the next boot
  points to, that is not protected by the configuration or the caller, and that is older than as
  many generations as the configuration wants kept, and never the latest.\<close>

theorem gc_spares_protected:
  assumes "cleanup_generations io cfg keep_extra (Some d) = (r, Some d')" "distinct (map fst d)"
    and "(n, e) \<in> set d" "(n, e) \<notin> set d'"
  shows "n = last_gc_marker \<or> is_leftover_tmp_name n \<or>
    (\<exists>g. n = generation_link_name g \<and> \<not> points_to d g \<and> g \<notin> set (gc_protected_generations cfg) \<and> g \<notin> set keep_extra \<and>
       gc_keep_generations cfg \<le> length (filter (\<lambda>h. g < h) (generations_of d)) \<and> (\<exists>h \<in> set (generations_of d). g < h))"
  using removed_entry [OF assms] by (auto simp: removable_def)

text \<open>The removals are counted exactly, also by a cleanup that fails.\<close>

definition cleanup_count :: "cleanup_error + nat \<Rightarrow> nat" where
  "cleanup_count r = (case r of Inr n \<Rightarrow> n | Inl err \<Rightarrow> cleanup_removed err)"

lemma cleanup_counts:
  assumes "cleanup_generations io cfg keep_extra (Some d) = (r, Some d')" "distinct (map fst d)" "last_gc_marker \<notin> fst ` set d"
  shows "cleanup_count r + length d' = length d"
  using assms(1)
proof (cases rule: cleanup_cases)
  case nothing
  then show ?thesis using assms(3) by (auto simp: cleanup_count_def without_marker_def)
next
  case (removed keep t)
  then have "without_marker io d = d" using assms(3) by (simp add: without_marker_def)
  with remove_entries_spec [OF removed(2)] removed(3) assms(2) show ?thesis
    by (auto simp: cleanup_count_def no_tally_def split: option.splits)
qed

text \<open>Discarding removes only generations above the floor, and never the current one.\<close>

lemma discard_loop_spares:
  "discard_loop io current limit names removed d = (r, d') \<Longrightarrow> (n, e) \<in> set d \<Longrightarrow> (n, e) \<notin> set d' \<Longrightarrow>
   \<exists>g. parse_generation_link_name (case strip_suffix ''.tmp'' n of Some m \<Rightarrow> m | None \<Rightarrow> n) = Some g \<and>
     current \<noteq> Some g \<and> (\<forall>f. limit = Some f \<longrightarrow> f < g)"
proof (induction io current limit names removed d arbitrary: r d' rule: discard_loop.induct)
  case (2 io current limit name names removed d)
  let ?p = "parse_generation_link_name (case strip_suffix ''.tmp'' name of Some m \<Rightarrow> m | None \<Rightarrow> name)"
  show ?case
  proof (cases ?p)
    case None
    with 2(1) 2(4-) show ?thesis by simp
  next
    case (Some g)
    show ?thesis
    proof (cases "(case limit of None \<Rightarrow> False | Some f \<Rightarrow> g \<le> f) \<or> current = Some g")
      case True
      with Some 2(2) 2(4-) show ?thesis by simp
    next
      case False
      show ?thesis
      proof (cases "remove_profile_entry io name d")
        case None
        with Some False 2(4-) show ?thesis by auto
      next
        case rem: (Some d1)
        then have d1: "d1 = filter (\<lambda>e. fst e \<noteq> name) d" by (auto simp: remove_profile_entry_def split: if_splits)
        show ?thesis
        proof (cases "n = name")
          case True
          with Some False show ?thesis by (auto split: option.splits)
        next
          case other: False
          then have "(n, e) \<in> set d1" using 2(5) by (simp add: d1)
          with 2(3) [OF Some False rem] 2(4,6) Some False rem show ?thesis by simp
        qed
      qed
    qed
  qed
qed simp

section \<open>Sweeps\<close>

text \<open>What a run took out of the directory, the retired marker aside: only the directory before and after
  it counts, not what the code tells of it.\<close>

definition gone :: "profile option \<Rightarrow> profile option \<Rightarrow> string set" where
  "gone before after = (case (before, after) of
      (Some d, Some d') \<Rightarrow> fst ` (set d - set d') - {last_gc_marker}
    | _ \<Rightarrow> {})"

lemma gone_same [simp]: "gone p p = {}"
  by (cases p) (simp_all add: gone_def)

lemma remove_entries_none:
  "remove_entries io names t d = (t', d') \<Longrightarrow> ta_removed t \<le> ta_removed t' \<and> (ta_removed t' = ta_removed t \<longrightarrow> d' = d)"
proof (induction io names t d arbitrary: t' d' rule: remove_entries.induct)
  case (2 io name names t d)
  show ?case
  proof (cases "remove_profile_entry io name d")
    case None
    from 2(1) [OF refl None, of t' d'] 2(3) None show ?thesis by (auto simp: Let_def)
  next
    case (Some d1)
    from 2(2) [OF refl Some, of t' d'] 2(3) Some show ?thesis by (auto simp: Let_def)
  qed
qed simp

lemma gone_counted:
  assumes "cleanup_generations io cfg keep_extra p = (r, p')" "gone p p' \<noteq> {}"
  shows "0 < cleanup_count r"
proof -
  from assms(1,2) obtain d d' where d: "p = Some d" "p' = Some d'"
    by (cases p; cases p') (auto simp: gone_def)
  have marker: "gone (Some d) (Some (without_marker io d)) = {}"
    using without_marker_cases [of io d] by (auto simp: gone_def)
  from assms(1) [unfolded d] show ?thesis
  proof (cases rule: cleanup_cases)
    case nothing
    with assms(2) marker show ?thesis by (auto simp: d)
  next
    case (removed keep t)
    from remove_entries_none [OF removed(2)] assms(2) marker have "0 < ta_removed t"
      by (cases "ta_removed t = 0") (auto simp: d no_tally_def)
    then show ?thesis by (auto simp: removed(3) cleanup_count_def split: option.splits)
  qed
qed

lemma collect_accounts:
  assumes "collect_profile_garbage lock io ok cfg busy sweep profile = (r, swept, profile')"
  shows "swept \<longleftrightarrow> r \<in> {Inr Collected, Inr SweptDespiteCleanupFailure}"
    and "\<not> swept \<Longrightarrow> gone profile profile' \<noteq> {} \<Longrightarrow> \<exists>err. r = Inl err \<and> 0 < unswept_removals err"
proof -
  show "swept \<longleftrightarrow> r \<in> {Inr Collected, Inr SweptDespiteCleanupFailure}"
    using assms
    by (auto simp: collect_profile_garbage_def Let_def split: if_splits prod.splits sum.splits option.splits)
  assume s: "\<not> swept" and g: "gone profile profile' \<noteq> {}"
  obtain c p' where c: "cleanup_generations io cfg [] profile = (c, p')" by fastforce
  have p': "p' = profile'" using assms c g
    by (auto simp: collect_profile_garbage_def split: if_splits sum.splits)
  with gone_counted [OF c] g have "0 < cleanup_count c" by simp
  then show "\<exists>err. r = Inl err \<and> 0 < unswept_removals err"
    using assms c g s
    by (auto simp: collect_profile_garbage_def cleanup_count_def split: if_splits sum.splits)
qed

text \<open>The job with what it owes: whether entries it took out of the directory were not followed by a
  completed sweep.\<close>

fun gc_turn :: "gc_occasion \<Rightarrow> periodic_gc \<times> bool \<Rightarrow> periodic_gc \<times> bool" where
  "gc_turn oc (g, owes) =
     (let (g', swept, profile') = periodic_gc_run oc g
      in (g', \<not> swept \<and> (owes \<or> gone (go_profile oc) profile' \<noteq> {})))"

lemma gc_turn_escalates:
  assumes "owes \<longrightarrow> pg_escalate_sweep g" "gc_turn oc (g, owes) = (g', owes')"
  shows "owes' \<longrightarrow> pg_escalate_sweep g'"
proof (cases "skips oc \<or> go_config oc = None")
  case True
  then show ?thesis using assms by (cases "skips oc") (auto simp: periodic_gc_run_def backend_gc_def)
next
  case False
  then obtain cfg where cfg: "go_config oc = Some cfg" by blast
  obtain r swept p' where c:
    "collect_profile_garbage (go_lock oc) (go_io oc) (go_sweep_ok oc) cfg BusySkip (periodic_sweep g) (go_profile oc) = (r, swept, p')"
    by (metis prod_cases3)
  note acc = collect_accounts [OF c]
  have g': "owes' \<longleftrightarrow> \<not> swept \<and> (owes \<or> gone (go_profile oc) p' \<noteq> {})" and
    e: "pg_escalate_sweep g' \<longleftrightarrow> (case r of Inr Collected \<Rightarrow> False | Inr SweptDespiteCleanupFailure \<Rightarrow> False
      | Inr _ \<Rightarrow> pg_escalate_sweep g | Inl err \<Rightarrow> unswept_removals err > 0 \<or> pg_escalate_sweep g)"
    using False cfg c assms(2)
    by (auto simp: periodic_gc_run_def backend_gc_def split: sum.splits gc_outcome.splits if_splits)
  show ?thesis
  proof
    assume "owes'"
    then have s: "\<not> swept" and o: "owes \<or> gone (go_profile oc) p' \<noteq> {}" using g' by blast+
    show "pg_escalate_sweep g'"
    proof (cases owes)
      case True
      then show ?thesis using assms(1) acc(1) s e by (auto split: sum.splits gc_outcome.splits)
    next
      case False
      with o acc(2) [OF s] e show ?thesis by auto
    qed
  qed
qed

text \<open>C23. The periodic job does not forget a sweep. After any sequence of occasions, with whatever
  directory, configuration, locks, failing removals and failing sweeps each of them meets: as long
  as entries it took out of the directory, the retired marker aside, were not followed by a sweep of
  the store that completed, its next run asks for a sweep unconditionally; and a run that gets to
  it, with the lock free and the sweep not failing, sweeps and owes nothing any more.\<close>

theorem gc_never_forgets:
  assumes "fold gc_turn ocs (periodic_gc_new, False) = (g, owes)"
  shows "(owes \<longrightarrow> periodic_sweep g = SweepAlways) \<and>
    (owes \<and> \<not> skips oc \<and> go_config oc \<noteq> None \<and> go_lock oc = LockFree \<and> go_sweep_ok oc \<longrightarrow>
       fst (snd (periodic_gc_run oc g)) \<and> snd (gc_turn oc (g, owes)) = False)"
proof -
  have inv: "owes \<longrightarrow> pg_escalate_sweep g"
    using assms
  proof (induction ocs arbitrary: g owes rule: rev_induct)
    case (snoc oc ocs)
    obtain g1 o1 where f: "fold gc_turn ocs (periodic_gc_new, False) = (g1, o1)" by fastforce
    with snoc.prems have "gc_turn oc (g1, o1) = (g, owes)" by simp
    from gc_turn_escalates [OF snoc.IH [OF f] this] show ?case .
  qed simp
  then have "owes \<longrightarrow> periodic_sweep g = SweepAlways" by (simp add: periodic_sweep_def)
  moreover have "fst (snd (periodic_gc_run oc g))"
    if "owes" "\<not> skips oc" "go_config oc = Some cfg" "go_lock oc = LockFree" "go_sweep_ok oc" for cfg
    using that inv
    by (auto simp: periodic_gc_run_def backend_gc_def collect_profile_garbage_def periodic_sweep_def Let_def
        split: prod.splits sum.splits)
  ultimately show ?thesis by (auto simp: case_prod_beta)
qed

section \<open>A concrete profile\<close>

definition sample_profile :: profile where
  "sample_profile =
     (let dir = \<lparr>ge_kind = GcDir, ge_modified = Some 0\<rparr> in
      [(''1-link'', dir), (''2-link'', dir), (''3-link'', dir), (''4-link'', dir),
       (''current'', \<lparr>ge_kind = GcLink ''2-link'', ge_modified = None\<rparr>)])"

definition sample_gc_io :: gc_io where
  "sample_gc_io = \<lparr>gi_unlisted = False, gi_unreadable = (\<lambda>_. False), gi_stuck = (\<lambda>_. False), gi_now = 0, gi_path = ''/profiles/bmc''\<rparr>"

definition sample_gc_config :: gc_config where
  "sample_gc_config = \<lparr>gc_keep_generations = 2, gc_keep_days = None, gc_protected_generations = [], gc_periodic = True\<rparr>"

lemma sample_names:
  "parse_generation_link_name ''1-link'' = Some 1" "parse_generation_link_name ''2-link'' = Some 2"
  "parse_generation_link_name ''3-link'' = Some 3" "parse_generation_link_name ''4-link'' = Some 4"
  "parse_generation_link_name ''current'' = None" "\<not> is_leftover_tmp_name ''current''" "\<not> is_leftover_tmp_name ''1-link''"
  by (simp_all add: parse_generation_link_name_def strip_suffix_def parse_usize_def is_ascii_digit_def less_eq_char_def
      is_leftover_tmp_name_def extension_def)

lemma sample_name: "generation_link_name (Suc 0) = ''1-link''"
proof -
  have "char_of (49 :: nat) = CHR ''1''" using char_of_char [of "CHR ''1''", where 'a = nat] by simp
  then show ?thesis by (simp add: generation_link_name_def decimal.simps)
qed

lemma sample_current: "generation_number_of ''/profiles/bmc/2-link'' = Some 2"
  by (simp add: generation_number_of_def file_name_def sample_names)

lemma sample_cleanup:
  "cleanup_generations sample_gc_io sample_gc_config [] (Some sample_profile) = (Inr 1, Some (tl sample_profile))"
proof -
  have g: "generations_of sample_profile = [1, 2, 3, 4]" "leftovers_of sample_profile = []"
    by (simp_all add: generations_of_def leftovers_of_def sample_profile_def List.map_filter_simps sample_names Let_def)
  have "generations_to_keep sample_gc_io sample_profile sample_gc_config [] [1, 2, 3, 4] = Inr {2, 3, 4}"
    by (auto simp: generations_to_keep_def current_generation_number_def sample_gc_io_def sample_gc_config_def
        sample_profile_def is_next_marker_name_def sample_current Let_def)
  then show ?thesis
    unfolding cleanup_generations_def option.case g
    by (simp add: sample_gc_io_def sample_profile_def last_gc_marker_def sample_name remove_profile_entry_def Let_def)
qed

theorem gc_spares_protected_witness:
  "hd sample_profile \<notin> set (tl sample_profile) \<and> \<not> points_to sample_profile 1"
proof -
  let ?e = "\<lparr>ge_kind = GcDir, ge_modified = Some 0\<rparr>"
  have d: "distinct (map fst sample_profile)" "(''1-link'', ?e) \<in> set sample_profile" "(''1-link'', ?e) \<notin> set (tl sample_profile)"
    "hd sample_profile = (''1-link'', ?e)"
    by (simp_all add: sample_profile_def Let_def)
  have n: "generation_link_name 1 = ''1-link''" "\<not> is_leftover_tmp_name ''1-link''" "''1-link'' \<noteq> last_gc_marker"
    using sample_name sample_names by (simp_all add: last_gc_marker_def)
  from gc_spares_protected [OF sample_cleanup d(1-3)] n(2,3) obtain g where "''1-link'' = generation_link_name g" "\<not> points_to sample_profile g" by blast
  moreover from this(1) have "g = 1" unfolding n(1) [symmetric] by (simp only: link_name_inj)
  ultimately show ?thesis using d(3,4) by simp
qed

text \<open>An occasion that removes a generation and whose sweep fails.\<close>

definition failed_sweep :: gc_occasion where
  "failed_sweep = \<lparr>go_startup = False, go_config = Some sample_gc_config, go_gate_free = True, go_lock = LockFree,
     go_io = sample_gc_io, go_sweep_ok = False, go_profile = Some sample_profile\<rparr>"

lemma failed_sweep_owes:
  "gc_turn failed_sweep (periodic_gc_new, False) = (\<lparr>pg_escalate_sweep = True\<rparr>, True)"
proof -
  have "gc_periodic sample_gc_config" by (simp add: sample_gc_config_def)
  moreover have "''1-link'' \<in> gone (Some sample_profile) (Some (tl sample_profile))"
    by (auto simp: gone_def sample_profile_def last_gc_marker_def Let_def
        intro!: image_eqI [of _ _ "(''1-link'', \<lparr>ge_kind = GcDir, ge_modified = Some 0\<rparr>)"])
  then have "gone (Some sample_profile) (Some (tl sample_profile)) \<noteq> {}" by blast
  ultimately show ?thesis
    by (simp add: periodic_gc_run_def failed_sweep_def skips_def backend_gc_def collect_profile_garbage_def sample_cleanup
        periodic_sweep_def periodic_gc_new_def Let_def)
qed

theorem gc_never_forgets_witness:
  "fold gc_turn [failed_sweep] (periodic_gc_new, False) = (\<lparr>pg_escalate_sweep = True\<rparr>, True) \<and>
   periodic_sweep \<lparr>pg_escalate_sweep = True\<rparr> = SweepAlways \<and>
   fst (snd (periodic_gc_run (failed_sweep\<lparr>go_sweep_ok := True\<rparr>) \<lparr>pg_escalate_sweep = True\<rparr>))"
proof -
  have f: "fold gc_turn [failed_sweep] (periodic_gc_new, False) = (\<lparr>pg_escalate_sweep = True\<rparr>, True)"
    using failed_sweep_owes by simp
  have "\<not> skips (failed_sweep\<lparr>go_sweep_ok := True\<rparr>)"
    by (simp add: skips_def failed_sweep_def sample_gc_config_def)
  with f gc_never_forgets [OF f, of "failed_sweep\<lparr>go_sweep_ok := True\<rparr>"] show ?thesis
    by (simp add: failed_sweep_def)
qed

end
