(* ===== verification/Spec2Isabelle.thy ===== *)
theory Spec2Isabelle
  imports Led_Properties Host_Lifecycle Scene_Loop_Thms Upgrade_Wire Widget_Pause Upgrade_Follow Tree_Partition Layout_Cache
    Pkg_Plan_Thms Pkg_Fetch_Props Timer_Delivery Supervisor_Thms Night_Mode Pkg_Gc_Props
begin

text \<open>
  A verification library of the Braiins Deck firmware. The program is a set of processes on one
  device: the main application (\<^verbatim>\<open>bmc\<close>), which owns the configuration, the LEDs, the upgrades and
  the widget processes; the compositor (\<^verbatim>\<open>bmc-openwrt\<close>), which shows scenes of widgets and cycles
  through them; the widget host (\<^verbatim>\<open>bmc-wasm-host\<close>, \<^verbatim>\<open>bmc-wasm-runtime\<close>), which runs one WebAssembly widget
  and draws the tree the widget sends it (\<^verbatim>\<open>bmc-render\<close>); and the package manager (\<^verbatim>\<open>bmc-nix\<close>). They
  talk over protocols that are part of the repository. The theories follow these parts. Paths below
  are relative to the source tree.

  \<^bold>\<open>Foundations.\<close> \<open>Prelude\<close> has the machine integers, the time types in nanoseconds, the saturating
  arithmetic of the Rust library and the list operations the sources use. \<open>Machines\<close> has the two shapes
  in which event-driven components appear: handlers that may panic, composed by \<open>machine_run\<close> (locale
  \<open>total_machine\<close>: an invariant under which none does), and labelled step relations with their
  \<open>trace\<close>s (locale \<open>invariant_system\<close>). A failed assertion, expectation or checked operation of the
  source is \<open>None\<close>; an error the code returns is a value of a sum type.

  \<^bold>\<open>LED pipeline.\<close> \<open>Led_Data\<close>, \<open>Led_Indicators\<close> (\<^verbatim>\<open>bmc-led/src/data.rs\<close>, \<^verbatim>\<open>led_driver.rs\<close>, \<^verbatim>\<open>bmc/src/led.rs\<close>),
  \<open>Led_Coordinator\<close> (\<^verbatim>\<open>bmc/src/led_coordinator.rs\<close>: four prioritised layers and the task that tells the
  strip), \<open>Led_Strip\<close> (\<^verbatim>\<open>bmc-led/src/apa102_spi/platform_led_driver.rs\<close>), \<open>Led_Scenes\<close>
  (\<^verbatim>\<open>bmc/src/widget/led_state.rs\<close>). \<open>Led_Task\<close>, \<open>Led_Scenes_Props\<close>, \<open>Led_Ledger\<close>, \<open>Led_Pipeline\<close> and
  \<open>Led_Properties\<close> show that the pipeline settles within eight steps of the task, that a settled one has
  told the strip the scene of the topmost layer that has one, in the order the code documents, that every request of a widget is held or reported
  exactly once, and one run in which the strip keeps showing a scene nobody asks for. Producers of
  scenes meet the coordinator through the locale \<open>visible_producer\<close>, the handlers of the widget LED
  manager the ledger through \<open>request_ledger\<close>.

  \<^bold>\<open>Scenes.\<close> \<open>Widget_Tracker\<close>, \<open>Scene_Cycling\<close>, \<open>Lifecycle_Emitter\<close> and \<open>Scene_Loop\<close>
  (\<^verbatim>\<open>bmc-openwrt/src/compositor/\<close>: \<^verbatim>\<open>widget_tracker.rs\<close>, \<^verbatim>\<open>scene_cycling.rs\<close>, \<^verbatim>\<open>lifecycle_emitter.rs\<close> and the
  scene handlers of \<^verbatim>\<open>egl_compositor.rs\<close>) and \<open>Host_Lifecycle\<close> (\<^verbatim>\<open>bmc-wasm-host/src/lifecycle.rs\<close>). The
  state of the loop says whether the build has debug assertions. \<open>Scene_Loop_Props\<close> and
  \<open>Scene_Loop_Thms\<close>: no handler of a release build panics, tracker and cycling machine agree at all
  times, and a debug build stops at no more than two of its assertions, on releases, and on the least 32-bit drag
  offset; two runs reach these assertions, a third starts cycling again that was switched off. Each
  widget has exactly the lifecycle state of its scene's position, and once it was sent a state it is
  sent only the transitions that \<^verbatim>\<open>deck-widget.xml\<close> permits.

  \<^bold>\<open>Upgrades.\<close> \<open>Upgrade_Data\<close>, \<open>Upgrade_Wire\<close> (\<^verbatim>\<open>bmc-openwrt/src/compositor/upgrade.rs\<close>, \<^verbatim>\<open>deck-upgrade-v1\<close>),
  \<open>Upgrade_Projection\<close> (\<^verbatim>\<open>bmc/src/system_upgrade/boser.rs\<close>), \<open>Upgrade_Follow\<close> (\<^verbatim>\<open>boser/progress.rs\<close>),
  \<open>Widget_Pause\<close> (\<^verbatim>\<open>widget_pause.rs\<close>). What the observer publishes agrees with what it has seen; a
  snapshot arrives at the overlay as it was cached, the reboot as a phase the client's version knows; a progress stream is well formed; the
  widgets are paused while firmware is written, and the listener that stops and restarts them
  converges.

  \<^bold>\<open>Widget processes.\<close> \<open>Supervisor\<close> is the actor of \<^verbatim>\<open>bmc/src/widget/manager.rs\<close> with the policy of
  \<^verbatim>\<open>bmc-shared/utils/src/process_supervisor.rs\<close>; its step relation interleaves commands, ending
  processes, timers and the handling of their messages in the order of the queue. \<open>Supervisor_Inv\<close> proves
  the invariant of all of them, \<open>Supervisor_Props\<close> what each step leaves alone, \<open>Supervisor_Thms\<close> the
  theorems over all runs: one process per widget and none lost, a stopped widget stays stopped, a
  pause or shutdown leaves nothing but processes that are ending, a termination is reported when and
  only when the process has ended, a superseded permit starts nothing, crashes back off.

  \<^bold>\<open>Widget trees.\<close> \<open>Wire_Bytes\<close>, \<open>Wire_Reader\<close>, \<open>Ui_Text\<close>, \<open>Ui_Tree\<close>, \<open>Tree_Codec\<close>, \<open>Tree_Decode\<close>
  (\<^verbatim>\<open>bmc-render/ui/src/\<close>: \<^verbatim>\<open>wire.rs\<close>, \<^verbatim>\<open>codec.rs\<close>, \<^verbatim>\<open>text.rs\<close>, \<^verbatim>\<open>tree.rs\<close> and the types they use) are the whole
  format, every node and draw of it, over bytes. \<open>Wire_Safety\<close>, \<open>Tree_Parts\<close>, \<open>Tree_Safety\<close>,
  \<open>Tree_Fuel\<close>, \<open>Tree_Roundtrip\<close> and \<open>Tree_Decode_Props\<close> show that a well-formed tree survives the wire up
  to the precision it has, that the decoder reads inside its data on arbitrary bytes and accepts
  only well-formed trees. \<open>Tree_Partition\<close>
  (\<^verbatim>\<open>ui/src/partition.rs\<close>, \<^verbatim>\<open>src/partition/mod.rs\<close>, \<^verbatim>\<open>src/tree/decode.rs\<close>): guest and host agree on the static
  half of a tree, and of each canvas the decoder leaves exactly the count of its draws and the
  draws outside the cached layer out of the hash. \<open>f32\<close> values are bit patterns; their arithmetic is
  modelled only where the format rounds them.

  \<^bold>\<open>Caches.\<close> \<open>Lru_Queue\<close> (\<^verbatim>\<open>bmc-render/src/gpu/lru.rs\<close>, a linked list in an array) and \<open>Layout_Cache\<close>
  (\<^verbatim>\<open>gpu/text/layout_cache.rs\<close>) refine a list in order of use, within the limits of the source: 448
  entries and 12288 glyphs. Shaping is a parameter.

  \<^bold>\<open>Packages.\<close> \<open>Pkg_Data\<close>, \<open>Pkg_Feed\<close>, \<open>Pkg_Fetch\<close>, \<open>Pkg_Index\<close>, \<open>Pkg_Plan\<close> (\<^verbatim>\<open>bmc-nix/src/\<close>: \<^verbatim>\<open>types.rs\<close>,
  \<^verbatim>\<open>feed.rs\<close>, \<^verbatim>\<open>index.rs\<close>, \<^verbatim>\<open>manifest.rs\<close>). \<open>Pkg_Fetch_Props\<close>: the walk over federated indexes ends within
  its cap of 256 addresses, no reference is followed twice, documents stay within 16 MiB, every
  required source is among the indexes or the fetch fails, and only optional servers may be missing. \<open>Pkg_Plan_Props\<close> and \<open>Pkg_Plan_Thms\<close>: a plan installs what the indexes and pins say,
  never downgrades, never moves a package to another server, fails exactly when it must, and after
  it was carried out the next plan changes nothing. Servers are parameters of the model. \<open>Pkg_Gc\<close>
  (\<^verbatim>\<open>gc.rs\<close>, \<^verbatim>\<open>bmc/src/system_upgrade/periodic_gc.rs\<close>) and \<open>Pkg_Gc_Props\<close>: the cleanup of old generations
  removes nothing that is current, staged for the next boot, protected or recent, whatever fails, and
  the periodic job never forgets a sweep it owes for a generation that is gone from the directory.

  \<^bold>\<open>Timers.\<close> \<open>Timer_Table\<close>, \<open>Timer_Delivery\<close> (\<^verbatim>\<open>bmc-wasm-runtime/src/runtime/timers.rs\<close>, \<^verbatim>\<open>delivery.rs\<close>,
  \<^verbatim>\<open>imports/timer.rs\<close> and the guest library \<^verbatim>\<open>sdk/src/timer.rs\<close>), with 64-bit milliseconds and 32-bit counts.
  \<open>Timer_Props\<close> and \<open>Timer_Delivery\<close>: a timer counts exactly the periods that have passed since it was
  started or, if no clock had been read by then, since the first reading, however late the table is asked, the announced wake-up is exact, and a tick reaches the callback of the live
  timer it was staged for, and no other.

  \<^bold>\<open>Night mode.\<close> \<open>Daily_Window\<close> (\<^verbatim>\<open>bmc/src/daily_window.rs\<close>) and \<open>Night_Mode\<close> (\<^verbatim>\<open>bmc/src/night_mode.rs\<close>). A
  window of local time is followed through the changes of the UTC offset; a time zone is a parameter,
  of which the code relies on \<open>zone_laws\<close> and on at most one offset change in ten days, one that turns
  the clock back by no more than a day. \<open>Daily_Window_Props\<close>: the instant announced for the next re-check
  comes before the answer changes. \<open>Night_Mode\<close>: over all interleavings of calls, re-checks and clock
  steps, night mode at rest is what the user said and, where no save failed, what the schedule says.

  \<^bold>\<open>Bounds and fuel.\<close> The decoder's readers of nodes and draws carry as fuel the number of bytes that
  are left; since each takes at least one byte, \<open>Tree_Fuel\<close> shows they satisfy the recursion equations of
  the source, so the fuel is never what stops them. Every other loop is structural or has a proved
  measure. Counters the code checks or asserts on (\<open>u64\<close> permits and restart tokens, \<open>u32\<close> timer
  ids) are kept with their limit.

  \<^bold>\<open>Not modelled.\<close> Layout, text shaping and drawing (floating point over taffy, femtovg and EGL); the
  Wayland bookkeeping of the compositor; HTTP and gRPC services and their generated bindings; the
  coordinator that reconciles the configuration with surfaces and processes (it drives the
  supervisor over tokio and the file system); the WebAssembly engine and the memory access of its host
  functions; the rest of the package store, activation, downloads and flashing (effects on the file system and
  the flash); the directory a partly failing removal leaves behind (the removal of a generation succeeds or
  leaves it as it was); the schemas and migrations of the configuration; calendar arithmetic of alarms and
  cron schedules over chrono; network and device drivers; localization; the overlays and the test tools.
  Logging, metrics and the capture of process output are left out of every component. Of the modelled
  components, the scene loop is without rendering and input gestures, the layout cache without the
  shaping it calls, the package data without its serialisation, the upgrade plan without its
  execution.
\<close>

end
